(* ===== verification/Prelude.thy ===== *)
theory Prelude
  imports Main "HOL-Library.Word" "HOL-Library.Multiset"
begin

text \<open>
  What every component of the kernel model shares: the machine integer types of
  \<^verbatim>\<open>include/base/types.h\<close>, the ways a kernel operation can fail to return a value, the
  sequencing of operations that can fail, and the small facts about words that the
  component proofs use again and again.
\<close>

section \<open>Machine integers\<close>

unbundle bit_operations_syntax

type_synonym u8 = "8 word"
type_synonym u16 = "16 word"
type_synonym u32 = "32 word"
type_synonym u64 = "64 word"

section \<open>Fact collections\<close>

named_theorems link_simps \<open>updates of the list-entry store read back\<close>
named_theorems page_simps \<open>updates of page descriptors read back\<close>
named_theorems mem_simps \<open>updates of byte memory read back\<close>
named_theorems addr_simps \<open>address arithmetic of the page tables\<close>

section \<open>Failure\<close>

text \<open>
  A C function of the kernel returns, or it does one of the following. The model keeps them
  apart: a null pointer is followed, an \<^verbatim>\<open>assert\<close> fails, \<^verbatim>\<open>panic\<close> is called, or
  a loop never reaches its exit condition.
\<close>

datatype kerr = Null_Deref | Assert_Failed | Panicked | Diverges

type_synonym 'a res = "kerr + 'a"

definition bindE :: "'a res \<Rightarrow> ('a \<Rightarrow> 'b res) \<Rightarrow> 'b res" where
  "bindE m f = (case m of Inl e \<Rightarrow> Inl e | Inr x \<Rightarrow> f x)"

lemma bindE_Inl [simp]: "bindE (Inl e) f = Inl e"
  by (simp add: bindE_def)

lemma bindE_Inr [simp]: "bindE (Inr x) f = f x"
  by (simp add: bindE_def)

lemma bindE_eq_Inr: "bindE m f = Inr y \<longleftrightarrow> (\<exists>x. m = Inr x \<and> f x = Inr y)"
  by (cases m) auto

lemma bindE_eq_Inl: "bindE m f = Inl e \<longleftrightarrow> m = Inl e \<or> (\<exists>x. m = Inr x \<and> f x = Inl e)"
  by (cases m) auto

lemma bindE_cong [fundef_cong]:
  "m = m' \<Longrightarrow> (\<And>x. m' = Inr x \<Longrightarrow> f x = f' x) \<Longrightarrow> bindE m f = bindE m' f'"
  by (cases m') auto

text \<open>The result of a loop: \<open>None\<close> when it does not return.\<close>

definition returns :: "'a option \<Rightarrow> 'a res" where
  "returns r = (case r of None \<Rightarrow> Inl Diverges | Some x \<Rightarrow> Inr x)"

lemma returns_simps [simp]:
  "returns None = Inl Diverges"
  "returns (Some x) = Inr x"
  by (simp_all add: returns_def)

section \<open>Words\<close>

lemma unat_diff_le: "b \<le> a \<Longrightarrow> unat (a - b) = unat a - unat (b :: 'a::len word)"
  by (rule unat_sub)

lemma unat_add_small:
  "unat (a :: 'a::len word) + unat b < 2 ^ LENGTH('a) \<Longrightarrow> unat (a + b) = unat a + unat b"
  by (rule unat_add_lem [THEN iffD1])

lemma word_of_unat: "unat (w :: 'a::len word) = n \<Longrightarrow> w = of_nat n"
  by auto

lemma unat_u32_less [simp]: "unat (x :: u32) < 4294967296"
  using unsigned_less [of x, where ?'a = nat] by simp

text \<open>A flag word with a bit set, cleared and tested.\<close>

lemma mask_and_or [simp]: "(x OR m) AND m = (m :: 'a::len word)"
  by (rule bit_word_eqI) (auto simp: bit_simps)

lemma mask_and_clear [simp]: "(x AND NOT m) AND m = (0 :: 'a::len word)"
  by (rule bit_word_eqI) (auto simp: bit_simps)

section \<open>Lists\<close>

lemma last_Cons_snoc [simp]: "last (a # xs @ [b]) = b"
  by simp

lemma find_append:
  "List.find P (xs @ ys) = (case List.find P xs of None \<Rightarrow> List.find P ys | Some x \<Rightarrow> Some x)"
  by (induction xs) auto

lemma sum_list_map_append_mid:
  "sum_list (map f (xs @ x # ys)) = sum_list (map f xs) + f x + sum_list (map f (ys :: 'a list) :: nat list)"
  by simp

end
