(* ===== verification/Links.thy ===== *)
theory Links
  imports Prelude
begin

text \<open>
  The intrusive circular doubly linked lists of \<^verbatim>\<open>kern/include/list.h\<close>. A
  \<^verbatim>\<open>list_entry_t\<close> lives inside another object, so the model keeps one store of list
  entries, indexed by the address of the entry: the record \<open>links\<close> has the \<^verbatim>\<open>next\<close>
  and the \<^verbatim>\<open>prev\<close> field of every entry. The operations write the fields in the order
  the C code does. The predicate \<open>clist\<close> says that an entry is the head of a well-formed
  circular list with given members, and the lemmas show that each operation of
  \<^verbatim>\<open>list.h\<close> is the corresponding operation on the list of members.
\<close>

section \<open>The entries and the operations\<close>

record 'a links =
  nxt :: "'a \<Rightarrow> 'a"
  prv :: "'a \<Rightarrow> 'a"

definition link_between :: "'a \<Rightarrow> 'a \<Rightarrow> 'a \<Rightarrow> 'a links \<Rightarrow> 'a links" where
  "link_between elm prev next h =
     (let h = h\<lparr>prv := (prv h)(next := elm)\<rparr>;
          h = h\<lparr>nxt := (nxt h)(prev := elm)\<rparr>;
          h = h\<lparr>nxt := (nxt h)(elm := next)\<rparr>
      in h\<lparr>prv := (prv h)(elm := prev)\<rparr>)"

definition unlink_between :: "'a \<Rightarrow> 'a \<Rightarrow> 'a links \<Rightarrow> 'a links" where
  "unlink_between prev next h =
     (let h = h\<lparr>nxt := (nxt h)(prev := next)\<rparr>
      in h\<lparr>prv := (prv h)(next := prev)\<rparr>)"

definition list_init :: "'a \<Rightarrow> 'a links \<Rightarrow> 'a links" where
  "list_init l h =
     (let h = h\<lparr>nxt := (nxt h)(l := l)\<rparr>
      in h\<lparr>prv := (prv h)(l := nxt h l)\<rparr>)"

definition list_next :: "'a links \<Rightarrow> 'a \<Rightarrow> 'a" where
  "list_next h l = nxt h l"

definition list_prev :: "'a links \<Rightarrow> 'a \<Rightarrow> 'a" where
  "list_prev h l = prv h l"

definition list_add_before :: "'a \<Rightarrow> 'a \<Rightarrow> 'a links \<Rightarrow> 'a links" where
  "list_add_before l elm h = link_between elm (prv h l) l h"

definition list_add_after :: "'a \<Rightarrow> 'a \<Rightarrow> 'a links \<Rightarrow> 'a links" where
  "list_add_after l elm h = link_between elm l (nxt h l) h"

definition list_del :: "'a \<Rightarrow> 'a links \<Rightarrow> 'a links" where
  "list_del l h = unlink_between (prv h l) (nxt h l) h"

definition list_add :: "'a \<Rightarrow> 'a \<Rightarrow> 'a links \<Rightarrow> 'a links" where
  "list_add l elm h = list_add_after l elm h"

text \<open>
  The loop \<^verbatim>\<open>while ((le = list_next(le)) != head) if (P(le)) break;\<close> that the
  allocator, the scheduler and the PID lookup run over their lists. It need not
  stop on a corrupt list: \<open>None\<close> is "does not return", \<open>Some None\<close> "not found".
\<close>

partial_function (option) list_scan ::
  "('a \<Rightarrow> bool) \<Rightarrow> 'a links \<Rightarrow> 'a \<Rightarrow> 'a \<Rightarrow> 'a option option" where
  "list_scan P h head le =
     (let le = list_next h le in
      if le = head then Some None
      else if P le then Some (Some le)
      else list_scan P h head le)"

section \<open>Well-formed lists\<close>

text \<open>\<open>seg h a xs b\<close>: from \<open>a\<close> through the entries \<open>xs\<close> to \<open>b\<close>, linked both ways.\<close>

fun seg :: "'a links \<Rightarrow> 'a \<Rightarrow> 'a list \<Rightarrow> 'a \<Rightarrow> bool" where
  "seg h a [] b = (nxt h a = b \<and> prv h b = a)"
| "seg h a (x # xs) b = (nxt h a = x \<and> prv h x = a \<and> seg h x xs b)"

definition clist :: "'a links \<Rightarrow> 'a \<Rightarrow> 'a list \<Rightarrow> bool" where
  "clist h l xs \<longleftrightarrow> distinct (l # xs) \<and> seg h l xs l"

lemma seg_append: "seg h a (xs @ y # ys) b \<longleftrightarrow> seg h a xs y \<and> seg h y ys b"
  by (induction xs arbitrary: a) auto

lemma seg_frame:
  assumes "\<And>x. x \<in> set (a # xs) \<Longrightarrow> nxt h' x = nxt h x"
    and "\<And>x. x \<in> set (xs @ [b]) \<Longrightarrow> prv h' x = prv h x"
  shows "seg h' a xs b = seg h a xs b"
  using assms by (induction xs arbitrary: a) auto

lemma clist_frame:
  assumes "\<And>x. x \<in> set (l # xs) \<Longrightarrow> nxt h' x = nxt h x"
    and "\<And>x. x \<in> set (l # xs) \<Longrightarrow> prv h' x = prv h x"
  shows "clist h' l xs = clist h l xs"
  unfolding clist_def using assms by (subst seg_frame [of l xs h' h l]) auto

lemma seg_nxt: "seg h a xs b \<Longrightarrow> nxt h a = hd (xs @ [b])"
  by (cases xs) auto

lemma seg_prv: "seg h a xs b \<Longrightarrow> prv h b = last (a # xs)"
  by (induction xs arbitrary: a) auto

lemma clist_nxt: "clist h l xs \<Longrightarrow> nxt h l = hd (xs @ [l])"
  by (simp add: clist_def seg_nxt)

lemma clist_prv: "clist h l xs \<Longrightarrow> prv h l = last (l # xs)"
  unfolding clist_def by (blast intro: seg_prv)

lemma clist_nxt_mid: "clist h l (xs @ x # ys) \<Longrightarrow> nxt h x = hd (ys @ [l])"
  by (auto simp: clist_def seg_append intro: seg_nxt)

lemma clist_prv_mid: "clist h l (xs @ x # ys) \<Longrightarrow> prv h x = last (l # xs)"
  unfolding clist_def seg_append by (blast intro: seg_prv)

lemma clist_distinct: "clist h l xs \<Longrightarrow> distinct xs \<and> l \<notin> set xs"
  by (auto simp: clist_def)

text \<open>The list a head carries is determined by the store.\<close>

lemma seg_unique:
  "seg h a xs b \<Longrightarrow> seg h a ys b \<Longrightarrow> b \<notin> set xs \<Longrightarrow> b \<notin> set ys \<Longrightarrow> xs = ys"
proof (induction xs arbitrary: a ys)
  case Nil
  then show ?case by (cases ys) auto
next
  case (Cons x xs)
  then show ?case by (cases ys) auto
qed

lemma clist_unique: "clist h l xs \<Longrightarrow> clist h l ys \<Longrightarrow> xs = ys"
  by (auto simp: clist_def intro: seg_unique)

section \<open>What each operation does to the list\<close>

lemma link_between_nxt [link_simps]:
  "nxt (link_between e p n h) = ((nxt h)(p := e))(e := n)"
  by (simp add: link_between_def Let_def)

lemma link_between_prv [link_simps]:
  "prv (link_between e p n h) = ((prv h)(n := e))(e := p)"
  by (simp add: link_between_def Let_def)

lemma unlink_between_nxt [link_simps]: "nxt (unlink_between p n h) = (nxt h)(p := n)"
  by (simp add: unlink_between_def Let_def)

lemma unlink_between_prv [link_simps]: "prv (unlink_between p n h) = (prv h)(n := p)"
  by (simp add: unlink_between_def Let_def)

lemma clist_init: "clist (list_init l h) l []"
  by (simp add: clist_def list_init_def Let_def)

lemma clist_init_other:
  "clist h k xs \<Longrightarrow> l \<notin> set (k # xs) \<Longrightarrow> clist (list_init l h) k xs"
  by (subst clist_frame [of k xs _ h]) (auto simp: list_init_def Let_def)

text \<open>Inserting between two neighbours, wherever they are in the circle.\<close>

lemma seg_snoc: "seg h a (xs @ [x]) b \<longleftrightarrow> seg h a xs x \<and> nxt h x = b \<and> prv h b = x"
  using seg_append [of h a xs x "[]" b] by auto

lemma seg_end_upd_nxt:
  assumes "distinct (a # xs)" and "seg h a xs b"
    and "\<And>x. x \<in> set (a # xs) \<Longrightarrow> x \<noteq> last (a # xs) \<Longrightarrow> nxt h' x = nxt h x"
    and "\<And>x. x \<in> set xs \<Longrightarrow> prv h' x = prv h x"
    and "nxt h' (last (a # xs)) = c" and "prv h' c = last (a # xs)"
  shows "seg h' a xs c"
  using assms
proof (induction xs arbitrary: a)
  case Nil
  then show ?case by simp
next
  case (Cons x xs)
  have "last (x # xs) \<in> set (x # xs)" by (rule last_in_set) simp
  then have "a \<noteq> last (a # x # xs)" using Cons.prems(1) by auto
  then show ?case using Cons by simp
qed

lemma clist_insert:
  assumes c: "clist h l (xs @ ys)" and e: "e \<notin> set (l # xs @ ys)"
  shows "clist (link_between e (last (l # xs)) (hd (ys @ [l])) h) l (xs @ e # ys)"
    (is "clist ?h' l _")
proof -
  have d: "distinct (l # xs @ ys)" and s: "seg h l (xs @ ys) l"
    using c by (auto simp: clist_def)
  have lastin: "last (l # xs) \<in> set (l # xs)"
    by (rule last_in_set) simp
  have hdin: "hd (ys @ [l]) \<in> set (l # ys)"
    by (cases ys) auto
  have sides: "last (l # xs) \<noteq> e" "hd (ys @ [l]) \<notin> set xs" "hd (ys @ [l]) \<noteq> e"
    using lastin hdin d e by auto
  have left: "seg ?h' l xs e" if "seg h l xs b" for b
    by (rule seg_end_upd_nxt [OF _ that])
      (use d e sides in \<open>auto simp: link_simps simp del: last.simps\<close>)
  show ?thesis
  proof (cases ys)
    case Nil
    then show ?thesis
      using left [of l] s d e by (auto simp: clist_def seg_append link_simps)
  next
    case (Cons z zs)
    have "seg ?h' z zs l = seg h z zs l"
      by (rule seg_frame) (use d e lastin Cons in \<open>auto simp: link_simps\<close>)
    then show ?thesis
      using left [of z] s d e Cons by (auto simp: clist_def seg_append link_simps)
  qed
qed

lemma clist_delete:
  assumes c: "clist h l (xs @ x # ys)"
  shows "clist (list_del x h) l (xs @ ys)" (is "clist ?h' l _")
proof -
  have d: "distinct (l # xs @ x # ys)" and s: "seg h l xs x" "seg h x ys l"
    using c by (auto simp: clist_def seg_append)
  have p: "prv h x = last (l # xs)" and n: "nxt h x = hd (ys @ [l])"
    using s by (blast intro: seg_prv seg_nxt)+
  have "hd (ys @ [l]) \<in> set (l # ys)"
    by (cases ys) auto
  then have hdn: "hd (ys @ [l]) \<notin> set xs" using d by auto
  have "last (l # xs) \<in> set (l # xs)"
    by (rule last_in_set) simp
  then have lastn: "last (l # xs) \<notin> set ys" using d by auto
  from hdn have left: "seg ?h' l xs (hd (ys @ [l]))"
    by (intro seg_end_upd_nxt [OF _ s(1)])
      (use d p n in \<open>auto simp: list_del_def link_simps simp del: last.simps\<close>)
  show ?thesis
  proof (cases ys)
    case Nil
    then show ?thesis using left d by (simp add: clist_def)
  next
    case (Cons z zs)
    have "seg ?h' z zs l = seg h z zs l"
      by (rule seg_frame) (use d p n lastn Cons in \<open>auto simp: list_del_def link_simps\<close>)
    then show ?thesis using left d s Cons by (auto simp: clist_def seg_append)
  qed
qed

lemma clist_add_before:
  "clist h l xs \<Longrightarrow> e \<notin> set (l # xs) \<Longrightarrow> clist (list_add_before l e h) l (xs @ [e])"
  using clist_insert [of h l xs "[]" e] clist_prv [of h l xs] by (simp add: list_add_before_def)

lemma clist_add_head:
  "clist h l xs \<Longrightarrow> e \<notin> set (l # xs) \<Longrightarrow> clist (list_add l e h) l (e # xs)"
  using clist_insert [of h l "[]" xs e] clist_nxt [of h l xs]
  by (simp add: list_add_def list_add_after_def)

lemma clist_add_mid:
  "clist h l (xs @ x # ys) \<Longrightarrow> e \<notin> set (l # xs @ x # ys) \<Longrightarrow>
    clist (list_add x e h) l (xs @ x # e # ys)"
  using clist_insert [of h l "xs @ [x]" ys e] clist_nxt_mid [of h l xs x ys]
  by (simp add: list_add_def list_add_after_def)

text \<open>\<open>list_add\<close> at the last entry of the circle, be it a member or the head itself.\<close>

lemma clist_add_last:
  assumes "clist h l xs" and "e \<notin> set (l # xs)"
  shows "clist (list_add (last (l # xs)) e h) l (xs @ [e])"
proof (cases xs rule: rev_cases)
  case Nil
  then show ?thesis using clist_add_head [of h l "[]" e] assms by simp
next
  case (snoc ys y)
  then show ?thesis using clist_add_mid [of h l ys y "[]" e] assms by simp
qed

lemma clist_del_head: "clist h l (x # xs) \<Longrightarrow> clist (list_del x h) l xs"
  using clist_delete [of h l "[]" x xs] by simp

text \<open>
  An operation on one list writes the fields of its entries only, so it leaves every list
  without common entries alone.
\<close>

lemma clist_member_nxt_prv:
  assumes "clist h l xs" and "x \<in> set (l # xs)"
  shows "nxt h x \<in> set (l # xs)" and "prv h x \<in> set (l # xs)"
proof -
  show "nxt h x \<in> set (l # xs)"
  proof (cases "x = l")
    case True
    then show ?thesis using assms(1) by (cases xs) (auto simp: clist_nxt)
  next
    case False
    then obtain as bs where "xs = as @ x # bs"
      using assms(2) by (auto dest: split_list)
    then show ?thesis using assms(1) by (cases bs) (auto simp: clist_nxt_mid)
  qed
  show "prv h x \<in> set (l # xs)"
  proof (cases "x = l")
    case True
    then show ?thesis using clist_prv [OF assms(1)] last_in_set [of "l # xs"] by simp
  next
    case False
    then obtain as bs where xs: "xs = as @ x # bs"
      using assms(2) by (auto dest: split_list)
    then show ?thesis
      using clist_prv_mid [of h l as x bs] assms(1) last_in_set [of "l # as"] by auto
  qed
qed

lemma list_add_unchanged:
  assumes "clist h l xs" and "p \<in> set (l # xs)" and "y \<notin> insert e (set (l # xs))"
  shows "nxt (list_add p e h) y = nxt h y" and "prv (list_add p e h) y = prv h y"
  using assms clist_member_nxt_prv(1) [OF assms(1,2)]
  by (auto simp: list_add_def list_add_after_def link_simps)

lemma list_add_before_unchanged:
  assumes "clist h l xs" and "y \<notin> insert e (set (l # xs))"
  shows "nxt (list_add_before l e h) y = nxt h y" and "prv (list_add_before l e h) y = prv h y"
  using assms clist_member_nxt_prv(2) [OF assms(1), of l]
  by (auto simp: list_add_before_def link_simps)

lemma list_del_unchanged:
  assumes "clist h l xs" and "x \<in> set (l # xs)" and "y \<notin> set (l # xs)"
  shows "nxt (list_del x h) y = nxt h y" and "prv (list_del x h) y = prv h y"
  using assms(3) clist_member_nxt_prv [OF assms(1,2)]
  by (auto simp: list_del_def link_simps)

text \<open>A deleted entry keeps its own fields: an iteration standing on it can go on.\<close>

lemma list_del_nxt_self:
  assumes "clist h l (as @ x # bs)"
  shows "nxt (list_del x h) x = nxt h x"
proof -
  have "last (l # as) \<in> set (l # as)" by (rule last_in_set) simp
  moreover have "x \<notin> set (l # as)" using assms by (auto simp: clist_def)
  ultimately have "last (l # as) \<noteq> x" by blast
  then show ?thesis
    using clist_prv_mid [OF assms] by (simp add: list_del_def link_simps del: last.simps)
qed

section \<open>Iterating over a list\<close>

text \<open>
  On a well-formed list the scanning loop stops, and finds the first member that
  satisfies the test, from any place in the circle.
\<close>

lemma list_scan_from:
  "clist h l (as @ bs) \<Longrightarrow> list_scan P h l (last (l # as)) = Some (List.find P bs)"
proof (induction bs arbitrary: as)
  case Nil
  then have "nxt h (last (l # as)) = l"
    by (cases as rule: rev_cases) (auto simp: clist_def seg_snoc)
  then show ?case
    by (simp add: list_scan.simps [of P h l "last (l # as)"] list_next_def Let_def del: last.simps)
next
  case (Cons b bs)
  have "nxt h (last (l # as)) = b"
    using Cons.prems by (cases as rule: rev_cases) (auto simp: clist_def seg_append)
  moreover have "b \<noteq> l" using Cons.prems by (auto simp: clist_def)
  moreover have "list_scan P h l b = Some (List.find P bs)"
    using Cons.IH [of "as @ [b]"] Cons.prems by simp
  ultimately show ?case
    by (simp add: list_scan.simps [of P h l "last (l # as)"] list_next_def Let_def del: last.simps)
qed

lemma list_scan_find: "clist h l xs \<Longrightarrow> list_scan P h l l = Some (List.find P xs)"
  using list_scan_from [of h l "[]" xs P] by simp

end
