(* ===== verification/Pages.thy ===== *)
theory Pages
  imports Links
begin

text \<open>
  The data of \<^verbatim>\<open>kern/mm/pmm.h\<close>: page descriptors, their flag bits, and the part of the
  kernel state the physical memory manager owns. A \<^verbatim>\<open>PageDesc*\<close> is modelled by the
  index of the descriptor in the array \<^verbatim>\<open>pages\<close> (\<^verbatim>\<open>page - pages\<close>), which is
  also its page frame number; \<^verbatim>\<open>NULL\<close> is \<open>None\<close> where a pointer can be null.
\<close>

section \<open>List entries of the kernel\<close>

text \<open>
  Every \<^verbatim>\<open>list_entry_t\<close> of the kernel by the object that holds it: the head of the free
  list (\<^verbatim>\<open>_free.free_list\<close>), of the page replacement queue (\<^verbatim>\<open>pra_list_head\<close>), of
  \<^verbatim>\<open>init_mm.mmap_list\<close>, of the process list and of each hash chain, the
  \<^verbatim>\<open>page_link\<close> of a page and the two links of a \<^verbatim>\<open>task_struct\<close> at an address.
  \<open>LNull\<close> is the null pointer.
\<close>

datatype lnode =
    LNull
  | FreeHead
  | PraHead
  | MmapHead
  | PageLink nat
  | ProcHead
  | ListLink u32
  | HashHead nat
  | HashLink u32

text \<open>\<^verbatim>\<open>le2page\<close>: the page whose \<^verbatim>\<open>page_link\<close> this is; unspecified for other entries.\<close>

fun le2page :: "lnode \<Rightarrow> nat" where
  "le2page (PageLink p) = p"

section \<open>Page descriptors\<close>

record page_desc =
  pd_ref :: u32
  pd_flags :: u32
  pd_property :: u32

definition PG_RESERVED :: nat where "PG_RESERVED = 0"

definition set_bit_flag :: "nat \<Rightarrow> page_desc \<Rightarrow> page_desc" where
  "set_bit_flag b p = p\<lparr>pd_flags := pd_flags p OR push_bit b 1\<rparr>"

definition clear_bit_flag :: "nat \<Rightarrow> page_desc \<Rightarrow> page_desc" where
  "clear_bit_flag b p = p\<lparr>pd_flags := pd_flags p AND NOT (push_bit b 1)\<rparr>"

definition test_bit_flag :: "nat \<Rightarrow> page_desc \<Rightarrow> bool" where
  "test_bit_flag b p \<longleftrightarrow> pd_flags p AND push_bit b 1 \<noteq> 0"

abbreviation page_reserved :: "page_desc \<Rightarrow> bool" where
  "page_reserved \<equiv> test_bit_flag PG_RESERVED"

section \<open>The state of the physical memory manager\<close>

text \<open>
  \<open>links\<close> holds the list entries of the whole kernel, \<open>pages\<close> the descriptor array,
  \<open>npage\<close> its length (both globals of \<^verbatim>\<open>kern/mm/pmm.c\<close>), \<open>nr_free\<close> the counter of
  \<^verbatim>\<open>free_area_t _free\<close>. The record is extensible: later components add their state to it,
  and the operations here work on every extension.
\<close>

record pmm =
  links :: "lnode links"
  pages :: "nat \<Rightarrow> page_desc"
  npage :: u32
  nr_free :: u32

definition upd_page :: "nat \<Rightarrow> (page_desc \<Rightarrow> page_desc) \<Rightarrow> 'a pmm_scheme \<Rightarrow> 'a pmm_scheme" where
  "upd_page p f s = s\<lparr>pages := (pages s)(p := f (pages s p))\<rparr>"

definition upd_links :: "(lnode links \<Rightarrow> lnode links) \<Rightarrow> 'a pmm_scheme \<Rightarrow> 'a pmm_scheme" where
  "upd_links f s = s\<lparr>links := f (links s)\<rparr>"

lemma upd_page_simps [page_simps]:
  "pages (upd_page p f s) = (pages s)(p := f (pages s p))"
  "links (upd_page p f s) = links s"
  "npage (upd_page p f s) = npage s"
  "nr_free (upd_page p f s) = nr_free s"
  "pmm.more (upd_page p f s) = pmm.more s"
  by (simp_all add: upd_page_def)

lemma upd_links_simps [page_simps]:
  "pages (upd_links g s) = pages s"
  "links (upd_links g s) = g (links s)"
  "npage (upd_links g s) = npage s"
  "nr_free (upd_links g s) = nr_free s"
  "pmm.more (upd_links g s) = pmm.more s"
  by (simp_all add: upd_links_def)

lemma flag_simps [page_simps]:
  "pd_property (set_bit_flag b p) = pd_property p"
  "pd_property (clear_bit_flag b p) = pd_property p"
  "pd_ref (set_bit_flag b p) = pd_ref p"
  "pd_ref (clear_bit_flag b p) = pd_ref p"
  by (simp_all add: set_bit_flag_def clear_bit_flag_def)

lemma reserved_set [page_simps]: "page_reserved (set_bit_flag PG_RESERVED p)"
  by (simp add: test_bit_flag_def set_bit_flag_def PG_RESERVED_def)

lemma reserved_clear [page_simps]: "\<not> page_reserved (clear_bit_flag PG_RESERVED p)"
  unfolding test_bit_flag_def clear_bit_flag_def page_desc.simps mask_and_clear by simp

lemma reserved_property_upd [page_simps]:
  "test_bit_flag b (p\<lparr>pd_property := v\<rparr>) = test_bit_flag b p"
  "test_bit_flag b (p\<lparr>pd_ref := r\<rparr>) = test_bit_flag b p"
  by (simp_all add: test_bit_flag_def)

end
