(* ===== verification/FirstFit.thy ===== *)
theory FirstFit
  imports Pages
begin

text \<open>
  The first-fit physical memory manager, \<^verbatim>\<open>kern/mm/pmm_firstfit.c\<close>. The free list
  links the first descriptor of every free block; the block's length is the
  \<^verbatim>\<open>property\<close> field of that descriptor. The operations are the C functions with the
  prefix \<open>ff_\<close>; lengths and counters are 32-bit words.
\<close>

section \<open>The operations\<close>

definition ff_init :: "'a pmm_scheme \<Rightarrow> 'a pmm_scheme" where
  "ff_init s =
     (let s = upd_links (list_init FreeHead) s
      in s\<lparr>nr_free := 0\<rparr>)"

text \<open>The loop of \<^verbatim>\<open>init_memmap\<close> that clears \<open>k\<close> descriptors from \<open>p\<close> on.\<close>

fun ff_clear_descs :: "nat \<Rightarrow> nat \<Rightarrow> 'a pmm_scheme \<Rightarrow> 'a pmm_scheme" where
  "ff_clear_descs p 0 s = s"
| "ff_clear_descs p (Suc k) s =
     (let s = upd_page p (\<lambda>d. d\<lparr>pd_ref := 0\<rparr>) s;
          s = upd_page p (\<lambda>d. d\<lparr>pd_flags := 0\<rparr>) s;
          s = upd_page p (\<lambda>d. d\<lparr>pd_property := 0\<rparr>) s
      in ff_clear_descs (Suc p) k s)"

definition ff_init_memmap :: "nat \<Rightarrow> u32 \<Rightarrow> 'a pmm_scheme \<Rightarrow> 'a pmm_scheme" where
  "ff_init_memmap base n s =
     (let s = ff_clear_descs base (unat n) s;
          s = upd_page base (\<lambda>d. d\<lparr>pd_property := n\<rparr>) s;
          s = upd_page base (set_bit_flag PG_RESERVED) s;
          s = s\<lparr>nr_free := nr_free s + n\<rparr>
      in upd_links (list_add_before FreeHead (PageLink base)) s)"

definition ff_alloc :: "u32 \<Rightarrow> 'a pmm_scheme \<Rightarrow> (nat option \<times> 'a pmm_scheme) res" where
  "ff_alloc n s =
     (if n > nr_free s then Inr (None, s)
      else bindE
        (returns (list_scan (\<lambda>le. pd_property (pages s (le2page le)) \<ge> n)
           (links s) FreeHead FreeHead))
        (\<lambda>found. case found of
            None \<Rightarrow> Inr (None, s)
          | Some le \<Rightarrow>
              let page = le2page le;
                  s = (if pd_property (pages s page) > n then
                         let remaining = page + unat n;
                             s = upd_page remaining
                                   (\<lambda>d. d\<lparr>pd_property := pd_property (pages s page) - n\<rparr>) s;
                             s = upd_page remaining (set_bit_flag PG_RESERVED) s
                         in upd_links (list_add le (PageLink remaining)) s
                       else s);
                  s = upd_links (list_del le) s;
                  s = s\<lparr>nr_free := nr_free s - n\<rparr>;
                  s = upd_page page (clear_bit_flag PG_RESERVED) s
              in Inr (Some page, s)))"

text \<open>The two loops of \<^verbatim>\<open>free\<close>: clearing the flags, and the merging pass over the list.\<close>

fun ff_clear_flags :: "nat \<Rightarrow> nat \<Rightarrow> 'a pmm_scheme \<Rightarrow> 'a pmm_scheme" where
  "ff_clear_flags p 0 s = s"
| "ff_clear_flags p (Suc k) s =
     ff_clear_flags (Suc p) k (upd_page p (\<lambda>d. d\<lparr>pd_flags := 0\<rparr>) s)"

partial_function (option) ff_merge_loop ::
  "nat \<Rightarrow> lnode \<Rightarrow> lnode \<Rightarrow> 'a pmm_scheme \<Rightarrow> (nat \<times> lnode \<times> 'a pmm_scheme) option" where
  "ff_merge_loop base prev le s =
     (let le = list_next (links s) le in
      if le = FreeHead then Some (base, prev, s)
      else
        let p = le2page le in
        if base + unat (pd_property (pages s base)) = p then
          let s = upd_page base
                    (\<lambda>d. d\<lparr>pd_property := pd_property d + pd_property (pages s p)\<rparr>) s;
              s = upd_page p (clear_bit_flag PG_RESERVED) s;
              s = upd_links (list_del le) s
          in ff_merge_loop base prev le s
        else if p + unat (pd_property (pages s p)) = base then
          let s = upd_page p
                    (\<lambda>d. d\<lparr>pd_property := pd_property d + pd_property (pages s base)\<rparr>) s;
              s = upd_page base (clear_bit_flag PG_RESERVED) s;
              s = upd_links (list_del le) s
          in ff_merge_loop p prev le s
        else ff_merge_loop base le le s)"

definition ff_free :: "nat \<Rightarrow> u32 \<Rightarrow> 'a pmm_scheme \<Rightarrow> (unit \<times> 'a pmm_scheme) res" where
  "ff_free base n s =
     (let s = ff_clear_flags base (unat n) s;
          s = upd_page base (\<lambda>d. d\<lparr>pd_property := n\<rparr>) s;
          s = upd_page base (set_bit_flag PG_RESERVED) s
      in bindE (returns (ff_merge_loop base FreeHead FreeHead s))
           (\<lambda>(base, prev, s).
              let s = s\<lparr>nr_free := nr_free s + n\<rparr>
              in Inr ((), upd_links (list_add prev (PageLink base)) s)))"

definition ff_nr_free_pages :: "'a pmm_scheme \<Rightarrow> u32" where
  "ff_nr_free_pages s = nr_free s"

text \<open>The self-check: the counting loop with its assertion, then the test allocation.\<close>

partial_function (option) ff_check_loop ::
  "lnode \<Rightarrow> u32 \<Rightarrow> 'a pmm_scheme \<Rightarrow> u32 res option" where
  "ff_check_loop le tot s =
     (let le = list_next (links s) le in
      if le = FreeHead then Some (Inr tot)
      else
        let p = le2page le in
        if \<not> page_reserved (pages s p) then Some (Inl Assert_Failed)
        else ff_check_loop le (tot + pd_property (pages s p)) s)"

definition ff_check :: "'a pmm_scheme \<Rightarrow> (unit \<times> 'a pmm_scheme) res" where
  "ff_check s =
     bindE (returns (ff_check_loop FreeHead 0 s)) (\<lambda>r.
     bindE r (\<lambda>total_free.
       if total_free \<noteq> nr_free s then Inl Assert_Failed
       else bindE (ff_alloc 5 s) (\<lambda>(p0, s).
         case p0 of
           None \<Rightarrow> Inl Assert_Failed
         | Some p \<Rightarrow>
             if page_reserved (pages s p) then Inl Assert_Failed else Inr ((), s))))"

end
