(* ===== verification/PmmInterface.thy ===== *)
theory PmmInterface
  imports Pages
begin

text \<open>
  The interface \<^verbatim>\<open>pmm_manager\<close> of \<^verbatim>\<open>kern/mm/pmm.h\<close>: the operations the rest of the
  kernel calls through the table of function pointers, and the laws it relies on. \<open>inv\<close> is
  the manager's invariant, \<open>avail\<close> the frames it can hand out, \<open>limit\<close> the number of
  frames of the machine. The lemmas are what every client may conclude, for any manager.
\<close>

locale pmm_manager =
  fixes alloc :: "u32 \<Rightarrow> 's \<Rightarrow> (nat option \<times> 's) res"
    and dealloc :: "nat \<Rightarrow> u32 \<Rightarrow> 's \<Rightarrow> (unit \<times> 's) res"
    and count :: "'s \<Rightarrow> u32"
    and inv :: "'s \<Rightarrow> bool"
    and avail :: "'s \<Rightarrow> nat set"
    and limit :: "'s \<Rightarrow> nat"
  assumes avail_limit: "inv s \<Longrightarrow> avail s \<subseteq> {..<limit s}"
    and count_avail: "inv s \<Longrightarrow> unat (count s) = card (avail s)"
    and alloc_returns: "inv s \<Longrightarrow> 0 < n \<Longrightarrow> \<exists>r s'. alloc n s = Inr (r, s')"
    and alloc_none: "inv s \<Longrightarrow> 0 < n \<Longrightarrow> alloc n s = Inr (None, s') \<Longrightarrow> s' = s"
    and alloc_one_none: "inv s \<Longrightarrow> alloc 1 s = Inr (None, s') \<Longrightarrow> avail s = {}"
    and alloc_some: "inv s \<Longrightarrow> 0 < n \<Longrightarrow> alloc n s = Inr (Some p, s') \<Longrightarrow>
      inv s' \<and> limit s' = limit s \<and> {p..<p + unat n} \<subseteq> avail s \<and>
      avail s' = avail s - {p..<p + unat n}"
    and dealloc_range: "inv s \<Longrightarrow> 0 < n \<Longrightarrow> {p..<p + unat n} \<subseteq> {..<limit s} - avail s \<Longrightarrow>
      \<exists>s'. dealloc p n s = Inr ((), s') \<and> inv s' \<and> limit s' = limit s \<and>
        avail s' = avail s \<union> {p..<p + unat n}"
begin

lemma avail_finite: "inv s \<Longrightarrow> finite (avail s)"
  using avail_limit finite_subset by blast

text \<open>Two allocations with no free in between never overlap.\<close>

lemma alloc_alloc_disjoint:
  assumes "inv s" "0 < m" "0 < n"
    and "alloc m s = Inr (Some p, s1)" and "alloc n s1 = Inr (Some q, s2)"
  shows "{p..<p + unat m} \<inter> {q..<q + unat n} = {}"
proof -
  have "inv s1" "avail s1 = avail s - {p..<p + unat m}"
    using alloc_some assms by blast+
  moreover have "{q..<q + unat n} \<subseteq> avail s1"
    using alloc_some assms(3,5) calculation(1) by blast
  ultimately show ?thesis by blast
qed

text \<open>Giving back what was just allocated restores the frames and the count.\<close>

lemma alloc_dealloc:
  assumes "inv s" "0 < n" "alloc n s = Inr (Some p, s1)"
  shows "\<exists>s2. dealloc p n s1 = Inr ((), s2) \<and> inv s2 \<and> avail s2 = avail s \<and> count s2 = count s"
proof -
  have 1: "inv s1" "limit s1 = limit s" "{p..<p + unat n} \<subseteq> avail s"
    "avail s1 = avail s - {p..<p + unat n}"
    using alloc_some [OF assms] by blast+
  then have "{p..<p + unat n} \<subseteq> {..<limit s1} - avail s1"
    using avail_limit [OF assms(1)] by auto
  from dealloc_range [OF 1(1) assms(2) this] obtain s2 where
    2: "dealloc p n s1 = Inr ((), s2)" "inv s2" "avail s2 = avail s1 \<union> {p..<p + unat n}"
    by blast
  then have "avail s2 = avail s" using 1 by auto
  then show ?thesis
    using 2 count_avail [OF assms(1)] count_avail [OF 2(2)] by (auto simp: word_unat_eq_iff)
qed

text \<open>The counter drops by what was allocated.\<close>

lemma alloc_count:
  assumes "inv s" "0 < n" "alloc n s = Inr (Some p, s1)"
  shows "unat (count s1) + unat n = unat (count s)"
proof -
  have 1: "inv s1" "{p..<p + unat n} \<subseteq> avail s" "avail s1 = avail s - {p..<p + unat n}"
    using alloc_some [OF assms] by blast+
  have "card {p..<p + unat n} \<le> card (avail s)"
    using 1(2) avail_finite [OF assms(1)] by (rule card_mono [rotated])
  then have "card (avail s1) + card {p..<p + unat n} = card (avail s)"
    using 1 by (simp add: card_Diff_subset)
  then show ?thesis using count_avail 1(1) assms(1) by simp
qed

text \<open>A single frame is refused only when none is left.\<close>

lemma alloc_one:
  assumes "inv s"
  shows "if avail s = {} then alloc 1 s = Inr (None, s)
    else \<exists>p s'. p \<in> avail s \<and> alloc 1 s = Inr (Some p, s') \<and> inv s' \<and> avail s' = avail s - {p}"
proof -
  obtain r s' where r: "alloc 1 s = Inr (r, s')"
    using alloc_returns [OF assms, of 1] by auto
  show ?thesis
  proof (cases r)
    case None
    then show ?thesis
      using r alloc_one_none [OF assms] alloc_none [OF assms, of 1] by simp
  next
    case (Some p)
    have "inv s'" "{p..<p + 1} \<subseteq> avail s" "avail s' = avail s - {p..<p + 1}"
      using alloc_some [OF assms _ r [unfolded Some]] by simp_all
    moreover have "{p..<p + 1} = {p}" by auto
    ultimately show ?thesis using r Some by auto
  qed
qed

end

end
