(* ===== verification/FreeList.thy ===== *)
theory FreeList
  imports FirstFit PmmInterface
begin

text \<open>
  The meaning of the free list of \<^verbatim>\<open>kern/mm/pmm_firstfit.c\<close>: the invariant that relates
  it to a list of blocks, the abstract first-fit allocator on such a list, and the
  refinement of the abstract allocator by \<open>ff_alloc\<close> and \<open>ff_free\<close>.
\<close>

section \<open>The free list as a list of blocks\<close>

text \<open>
  A block is a first frame and a length. \<open>frames bs\<close> lists the frames of the blocks;
  \<open>ff_inv s bs\<close> is the invariant of the manager: the free list of \<open>s\<close> links exactly
  the blocks \<open>bs\<close>, their lengths are in the descriptors, their heads carry the
  \<^verbatim>\<open>PG_RESERVED\<close> bit, no frame is in two blocks, every frame is in the descriptor
  array, and \<open>nr_free\<close> is their number.
\<close>

type_synonym block = "nat \<times> nat"

fun block_frames :: "block \<Rightarrow> nat list" where
  "block_frames (p, k) = [p..<p + k]"

definition frames :: "block list \<Rightarrow> nat list" where
  "frames bs = concat (map block_frames bs)"

definition block_ok :: "'a pmm_scheme \<Rightarrow> block \<Rightarrow> bool" where
  "block_ok s b \<longleftrightarrow>
     0 < snd b \<and> unat (pd_property (pages s (fst b))) = snd b \<and>
     page_reserved (pages s (fst b))"

abbreviation block_link :: "block \<Rightarrow> lnode" where
  "block_link b \<equiv> PageLink (fst b)"

definition ff_inv :: "'a pmm_scheme \<Rightarrow> block list \<Rightarrow> bool" where
  "ff_inv s bs \<longleftrightarrow>
     clist (links s) FreeHead (map block_link bs) \<and>
     (\<forall>b \<in> set bs. block_ok s b) \<and>
     distinct (frames bs) \<and>
     set (frames bs) \<subseteq> {..<unat (npage s)} \<and>
     length (frames bs) = unat (nr_free s)"

lemma frames_simps [simp]:
  "frames [] = []"
  "frames (b # bs) = block_frames b @ frames bs"
  "frames (xs @ ys) = frames xs @ frames ys"
  by (simp_all add: frames_def)

lemma block_ok_frame:
  "pages s' (fst b) = pages s (fst b) \<Longrightarrow> block_ok s' b = block_ok s b"
  by (simp add: block_ok_def)

lemma block_head_in: "block_ok s b \<Longrightarrow> fst b \<in> set (block_frames b)"
  by (cases b) (simp add: block_ok_def)

lemma set_frames: "set (frames bs) = (\<Union>b \<in> set bs. set (block_frames b))"
  by (simp add: frames_def)

lemma head_in_frames:
  "\<forall>b \<in> set bs. block_ok s b \<Longrightarrow> b \<in> set bs \<Longrightarrow> fst b \<in> set (frames bs)"
  unfolding set_frames by (blast intro: block_head_in)

lemma heads_sub:
  "\<forall>b \<in> set bs. block_ok s b \<Longrightarrow> block_link ` set bs \<subseteq> PageLink ` set (frames bs)"
  by (auto intro!: imageI dest: head_in_frames)

text \<open>A frame outside the free frames is not the head of a block.\<close>

lemma not_frame_not_head:
  "\<forall>b \<in> set bs. block_ok s b \<Longrightarrow> p \<notin> set (frames bs) \<Longrightarrow>
    b \<in> set bs \<Longrightarrow> fst b \<noteq> p"
  by (auto dest: head_in_frames)

section \<open>The abstract allocator\<close>

text \<open>
  First fit on the list of blocks: the first block that is long enough gives its first
  \<open>n\<close> frames, and keeps its place in the list with the rest.
\<close>

fun take_first_fit :: "nat \<Rightarrow> block list \<Rightarrow> (nat \<times> block list) option" where
  "take_first_fit n [] = None"
| "take_first_fit n ((p, k) # bs) =
     (if n \<le> k then Some (p, if n < k then (p + n, k - n) # bs else bs)
      else map_option (\<lambda>(q, cs). (q, (p, k) # cs)) (take_first_fit n bs))"

text \<open>
  Freeing absorbs, in one pass over the list, every block that touches the freed one;
  the merged block goes to the end of the list.
\<close>

fun absorb :: "block \<Rightarrow> block list \<Rightarrow> block \<times> block list" where
  "absorb b [] = (b, [])"
| "absorb (b, n) ((p, k) # bs) =
     (if b + n = p then absorb (b, n + k) bs
      else if p + k = b then absorb (p, k + n) bs
      else let (c, cs) = absorb (b, n) bs in (c, (p, k) # cs))"

definition put_back :: "block \<Rightarrow> block list \<Rightarrow> block list" where
  "put_back b bs = (let (c, cs) = absorb b bs in cs @ [c])"

lemma take_first_fit_None:
  "take_first_fit n bs = None \<longleftrightarrow> (\<forall>b \<in> set bs. snd b < n)"
  by (induction n bs rule: take_first_fit.induct) auto

lemma take_first_fit_Some:
  "take_first_fit n bs = Some (p, cs) \<Longrightarrow>
   \<exists>as k ds. bs = as @ (p, k) # ds \<and> (\<forall>b \<in> set as. snd b < n) \<and> n \<le> k \<and>
     cs = as @ (if n < k then (p + n, k - n) # ds else ds)"
proof (induction n bs arbitrary: p cs rule: take_first_fit.induct)
  case (1 n)
  then show ?case by simp
next
  case (2 n q j bs)
  show ?case
  proof (cases "n \<le> j")
    case True
    then show ?thesis using "2.prems" by (intro exI [of _ "[]"]) auto
  next
    case False
    then obtain es where "take_first_fit n bs = Some (p, es)" and cs: "cs = (q, j) # es"
      using "2.prems" by auto
    then obtain as k ds where "bs = as @ (p, k) # ds" "\<forall>b \<in> set as. snd b < n" "n \<le> k"
      "es = as @ (if n < k then (p + n, k - n) # ds else ds)"
      using "2.IH" False by blast
    then show ?thesis using False cs by (intro exI [of _ "(q, j) # as"]) auto
  qed
qed

lemma take_first_fit_frames:
  assumes "take_first_fit n bs = Some (p, cs)"
  shows "mset (frames bs) = mset ([p..<p + n] @ frames cs)"
proof -
  obtain as k ds where *: "bs = as @ (p, k) # ds" "n \<le> k"
    "cs = as @ (if n < k then (p + n, k - n) # ds else ds)"
    using take_first_fit_Some [OF assms] by blast
  have "[p..<p + k] = [p..<p + n] @ [p + n..<p + k]"
    using upt_add_eq_append [of p "p + n" "k - n"] \<open>n \<le> k\<close> by simp
  then show ?thesis using * by (cases "n < k") (auto simp: ac_simps)
qed

lemma ff_inv_head_notin:
  assumes "ff_inv s bs" and "p \<notin> set (frames bs)"
  shows "PageLink p \<notin> set (FreeHead # map block_link bs)"
  using assms not_frame_not_head [of bs s p] by (force simp: ff_inv_def)

lemma ff_inv_mid:
  assumes "ff_inv s (as @ (p, k) # ds)" and "q \<in> {p..<p + k}" and "b \<in> set as \<union> set ds"
  shows "fst b \<noteq> q"
proof -
  have ok: "\<forall>b \<in> set (as @ ds). block_ok s b"
    and dis: "distinct (frames (as @ (p, k) # ds))"
    using assms(1) by (auto simp: ff_inv_def)
  have "q \<notin> set (frames (as @ ds))"
    using dis assms(2) by (auto simp: disjoint_iff)
  then show ?thesis
    using not_frame_not_head [OF ok, of q b] assms(3) by simp
qed

section \<open>Allocation refines first fit\<close>

lemma ff_scan:
  assumes "ff_inv s bs"
  shows "list_scan (\<lambda>le. pd_property (pages s (le2page le)) \<ge> n) (links s) FreeHead FreeHead =
    Some (map_option (\<lambda>(p, cs). PageLink p) (take_first_fit (unat n) bs))"
proof -
  have c: "clist (links s) FreeHead (map block_link bs)" and ok: "\<forall>b \<in> set bs. block_ok s b"
    using assms by (auto simp: ff_inv_def)
  have "List.find (\<lambda>le. pd_property (pages s (le2page le)) \<ge> n) (map block_link bs) =
      map_option (\<lambda>(p, cs). PageLink p) (take_first_fit (unat n) bs)"
    using ok by (induction bs) (auto simp: block_ok_def word_le_nat_alt option.map_comp comp_def case_prod_unfold)
  then show ?thesis by (simp add: list_scan_find [OF c])
qed


text \<open>The block \<open>(p, k)\<close> loses its first \<open>n\<close> frames: the two branches of the split.\<close>

lemma ff_inv_take_all:
  assumes inv: "ff_inv s (as @ (p, unat n) # ds)"
    and s': "links s' = list_del (PageLink p) (links s)"
      "pages s' = (pages s)(p := clear_bit_flag PG_RESERVED (pages s p))"
      "npage s' = npage s" "nr_free s' = nr_free s - n"
  shows "ff_inv s' (as @ ds)"
proof -
  let ?bs = "as @ (p, unat n) # ds"
  have c: "clist (links s) FreeHead (map block_link as @ PageLink p # map block_link ds)"
    and ok: "\<forall>b \<in> set ?bs. block_ok s b" and d: "distinct (frames ?bs)"
    and len: "length (frames ?bs) = unat (nr_free s)"
    using inv by (auto simp: ff_inv_def)
  have "fst b \<noteq> p" if "b \<in> set as \<union> set ds" for b
    by (rule ff_inv_mid [OF inv _ that]) (use ok in \<open>simp add: block_ok_def\<close>)
  then have "\<forall>b \<in> set (as @ ds). block_ok s' b"
    using ok by (simp add: s' block_ok_def ball_Un)
  moreover have "n \<le> nr_free s" using len by (simp add: word_le_nat_alt)
  ultimately show ?thesis
    using inv clist_delete [OF c] len by (auto simp: ff_inv_def s' unat_diff_le)
qed

lemma ff_inv_take_front:
  assumes inv: "ff_inv s (as @ (p, k) # ds)" and n: "0 < n" "unat n < k"
    and s': "links s' = list_del (PageLink p)
        (list_add (PageLink p) (PageLink (p + unat n)) (links s))"
      "pages s' = (pages s)(p + unat n := d, p := clear_bit_flag PG_RESERVED (pages s p))"
      "npage s' = npage s" "nr_free s' = nr_free s - n"
    and d: "unat (pd_property d) = k - unat n" "page_reserved d"
  shows "ff_inv s' (as @ (p + unat n, k - unat n) # ds)"
proof -
  let ?bs = "as @ (p, k) # ds" and ?r = "p + unat n"
  have c: "clist (links s) FreeHead (map block_link as @ PageLink p # map block_link ds)"
    and ok: "\<forall>b \<in> set ?bs. block_ok s b" and dis: "distinct (frames ?bs)"
    and len: "length (frames ?bs) = unat (nr_free s)"
    using inv by (auto simp: ff_inv_def)
  have n0: "0 < unat n" using n by (simp add: word_greater_zero_iff unat_gt_0)
  have split: "[p..<p + k] = [p..<?r] @ [?r..<p + k]"
    using upt_add_eq_append [of p ?r "k - unat n"] n by simp
  have r: "?r \<in> {p..<p + k}" using n n0 by simp
  have nr: "fst b \<noteq> ?r" and "fst b \<noteq> p" if "b \<in> set as \<union> set ds" for b
    by (rule ff_inv_mid [OF inv _ that]; use n r in simp)+
  then have "\<forall>b \<in> set (as @ ds). block_ok s' b"
    using ok by (simp add: s' block_ok_def ball_Un)
  moreover have "block_ok s' (?r, k - unat n)"
    using n n0 d by (simp add: s' block_ok_def)
  moreover have "PageLink ?r \<notin> set (FreeHead # map block_link as @ PageLink p # map block_link ds)"
    using nr n0 by force
  then have "clist (links s') FreeHead (map block_link as @ PageLink ?r # map block_link ds)"
    using clist_delete [OF clist_add_mid [OF c]] by (simp add: s')
  moreover have "n \<le> nr_free s" using len n by (simp add: word_le_nat_alt)
  ultimately show ?thesis
    using inv len n dis by (auto simp: ff_inv_def s' unat_diff_le split)
qed


text \<open>
  What an operation on the free list may touch: the descriptors and links of the frames in
  \<open>F\<close>, the list head and the counter; never a reference count, never the rest of the state.
\<close>

definition ff_frame :: "nat set \<Rightarrow> 'a pmm_scheme \<Rightarrow> 'a pmm_scheme \<Rightarrow> bool" where
  "ff_frame F s s' \<longleftrightarrow>
     pmm.more s' = pmm.more s \<and> npage s' = npage s \<and>
     (\<forall>q. q \<notin> F \<longrightarrow> pages s' q = pages s q) \<and>
     (\<forall>q. pd_ref (pages s' q) = pd_ref (pages s q)) \<and>
     (\<forall>x. x \<notin> insert FreeHead (PageLink ` F) \<longrightarrow>
        nxt (links s') x = nxt (links s) x \<and> prv (links s') x = prv (links s) x)"

lemma ff_frame_refl: "ff_frame F s s"
  by (simp add: ff_frame_def)

lemma ff_frame_other_list:
  assumes "ff_frame F s s'" and "clist (links s) k ys"
    and "set (k # ys) \<inter> insert FreeHead (PageLink ` F) = {}"
  shows "clist (links s') k ys"
  using assms by (subst clist_frame [of k ys _ "links s"]) (auto simp: ff_frame_def disjoint_iff)

lemma ff_links_in_frames:
  assumes "ff_inv s bs"
  shows "set (FreeHead # map block_link bs) \<subseteq> insert FreeHead (PageLink ` set (frames bs))"
  using assms heads_sub [of bs s] by (auto simp: ff_inv_def)

text \<open>The first block that fits: either its front is cut off, or the whole block is taken.\<close>

lemma ff_alloc_found:
  assumes inv: "ff_inv s bs" and n: "0 < n" and r: "take_first_fit (unat n) bs = Some (p, cs)"
  shows "ff_alloc n s = (let
      s1 = (if n < pd_property (pages s p) then
         upd_links (list_add (PageLink p) (PageLink (p + unat n)))
          (upd_page (p + unat n) (set_bit_flag PG_RESERVED)
            (upd_page (p + unat n) (\<lambda>d. d\<lparr>pd_property := pd_property (pages s p) - n\<rparr>) s))
         else s);
      s2 = upd_links (list_del (PageLink p)) s1
      in Inr (Some p, upd_page p (clear_bit_flag PG_RESERVED) (s2\<lparr>nr_free := nr_free s2 - n\<rparr>)))"
proof -
  obtain as k ds where bs: "bs = as @ (p, k) # ds" "unat n \<le> k"
    using take_first_fit_Some [OF r] by blast
  have "length (frames bs) = unat (nr_free s)" using inv by (simp add: ff_inv_def)
  then have "n \<le> nr_free s" using bs by (simp add: word_le_nat_alt)
  then show ?thesis using r by (simp add: ff_alloc_def ff_scan [OF inv] Let_def)
qed

lemma ff_alloc_front:
  assumes inv: "ff_inv s bs" and n: "0 < n" and r: "take_first_fit (unat n) bs = Some (p, cs)"
    and bs: "bs = as @ (p, k) # ds" and lt: "unat n < k"
  obtains s' where "ff_alloc n s = Inr (Some p, s')"
    "ff_inv s' (as @ (p + unat n, k - unat n) # ds)" "ff_frame (set (frames bs)) s s'"
proof -
  let ?r = "p + unat n" and ?q = "pd_property (pages s p)"
  let ?d = "set_bit_flag PG_RESERVED ((pages s ?r)\<lparr>pd_property := ?q - n\<rparr>)"
  have ok: "block_ok s (p, k)" and c: "clist (links s) FreeHead (map block_link bs)"
    using inv bs by (auto simp: ff_inv_def)
  have pk: "unat ?q = k" using ok by (simp add: block_ok_def)
  have nq: "n < ?q" using lt by (simp add: word_less_nat_alt pk)
  have n0: "0 < unat n" using n by (simp add: word_greater_zero_iff unat_gt_0)
  have in_bs: "p \<in> set (frames bs)" "?r \<in> set (frames bs)" using bs ok lt by (auto simp: block_ok_def)
  have "\<exists>s'. ff_alloc n s = Inr (Some p, s') \<and>
      links s' = list_del (PageLink p) (list_add (PageLink p) (PageLink ?r) (links s)) \<and>
      pages s' = (pages s)(?r := ?d, p := clear_bit_flag PG_RESERVED (pages s p)) \<and>
      npage s' = npage s \<and> nr_free s' = nr_free s - n \<and> pmm.more s' = pmm.more s"
    using ff_alloc_found [OF inv n r] nq n0 by (simp add: Let_def page_simps)
  then obtain s' where s': "ff_alloc n s = Inr (Some p, s')"
    and sel: "links s' = list_del (PageLink p) (list_add (PageLink p) (PageLink ?r) (links s))"
      "pages s' = (pages s)(?r := ?d, p := clear_bit_flag PG_RESERVED (pages s p))"
      "npage s' = npage s" "nr_free s' = nr_free s - n" "pmm.more s' = pmm.more s"
    by blast
  have new: "PageLink ?r \<notin> set (FreeHead # map block_link bs)"
    using ff_inv_mid [OF inv [unfolded bs], of ?r] lt n0 bs by force
  have c': "clist (list_add (PageLink p) (PageLink ?r) (links s)) FreeHead
      (map block_link as @ PageLink p # PageLink ?r # map block_link ds)"
    using clist_add_mid [of "links s" FreeHead "map block_link as" "PageLink p"] c new bs by simp
  have "nxt (links s') y = nxt (links s) y \<and> prv (links s') y = prv (links s) y"
    if y: "y \<notin> insert FreeHead (PageLink ` set (frames bs))" for y
  proof -
    have y1: "y \<notin> insert (PageLink ?r) (set (FreeHead # map block_link bs))"
      using y ff_links_in_frames [OF inv] in_bs(2) by blast
    then have y2: "y \<notin> set (FreeHead # map block_link as @ PageLink p # PageLink ?r # map block_link ds)"
      using bs by auto
    have pin: "PageLink p \<in> set (FreeHead # map block_link bs)" using bs by auto
    show ?thesis
      using list_del_unchanged [OF c' _ y2, of "PageLink p"] list_add_unchanged [OF c pin y1]
      by (simp add: sel)
  qed
  then have "ff_frame (set (frames bs)) s s'" using sel in_bs by (auto simp: ff_frame_def page_simps)
  moreover have "ff_inv s' (as @ (p + unat n, k - unat n) # ds)"
    by (intro ff_inv_take_front [OF inv [unfolded bs] n lt sel(1-4)])
      (use nq in \<open>simp_all add: page_simps unat_diff_le pk\<close>)
  ultimately show ?thesis using s' that by blast
qed

lemma ff_alloc_whole:
  assumes inv: "ff_inv s bs" and n: "0 < n" and r: "take_first_fit (unat n) bs = Some (p, cs)"
    and bs: "bs = as @ (p, unat n) # ds"
  obtains s' where "ff_alloc n s = Inr (Some p, s')" "ff_inv s' (as @ ds)" "ff_frame (set (frames bs)) s s'"
proof -
  have ok: "block_ok s (p, unat n)" and c: "clist (links s) FreeHead (map block_link bs)"
    using inv bs by (auto simp: ff_inv_def)
  then have nlt: "\<not> n < pd_property (pages s p)" by (simp add: word_less_nat_alt block_ok_def)
  have pin: "p \<in> set (frames bs)" "PageLink p \<in> set (FreeHead # map block_link bs)"
    using bs ok by (auto simp: block_ok_def)
  have "\<exists>s'. ff_alloc n s = Inr (Some p, s') \<and>
      links s' = list_del (PageLink p) (links s) \<and>
      pages s' = (pages s)(p := clear_bit_flag PG_RESERVED (pages s p)) \<and>
      npage s' = npage s \<and> nr_free s' = nr_free s - n \<and> pmm.more s' = pmm.more s"
    using ff_alloc_found [OF inv n r] nlt by (simp add: Let_def page_simps)
  then obtain s' where s': "ff_alloc n s = Inr (Some p, s')"
    and sel: "links s' = list_del (PageLink p) (links s)"
      "pages s' = (pages s)(p := clear_bit_flag PG_RESERVED (pages s p))"
      "npage s' = npage s" "nr_free s' = nr_free s - n" "pmm.more s' = pmm.more s"
    by blast
  have "nxt (links s') y = nxt (links s) y \<and> prv (links s') y = prv (links s) y"
    if "y \<notin> insert FreeHead (PageLink ` set (frames bs))" for y
    using that ff_links_in_frames [OF inv] list_del_unchanged [OF c pin(2), of y] by (simp only: sel) blast
  then have "ff_frame (set (frames bs)) s s'" using sel pin by (auto simp: ff_frame_def page_simps)
  moreover have "ff_inv s' (as @ ds)" by (intro ff_inv_take_all [OF _ sel(1-4)]) (use inv bs in simp)
  ultimately show ?thesis using s' that by blast
qed

theorem ff_alloc_refines:
  assumes inv: "ff_inv s bs" and n: "0 < n"
  shows "case take_first_fit (unat n) bs of
      None \<Rightarrow> ff_alloc n s = Inr (None, s)
    | Some (p, cs) \<Rightarrow> \<exists>s'. ff_alloc n s = Inr (Some p, s') \<and> ff_inv s' cs \<and>
        ff_frame (set (frames bs)) s s'"
proof (cases "take_first_fit (unat n) bs")
  case None
  then show ?thesis by (simp add: ff_alloc_def ff_scan [OF inv])
next
  case (Some r)
  then obtain p cs where r: "take_first_fit (unat n) bs = Some (p, cs)" by (cases r) simp
  then obtain as k ds where bs: "bs = as @ (p, k) # ds" and nk: "unat n \<le> k"
    and cs: "cs = as @ (if unat n < k then (p + unat n, k - unat n) # ds else ds)"
    using take_first_fit_Some by blast
  show ?thesis
  proof (cases "unat n < k")
    case True
    from ff_alloc_front [OF inv n r bs True] show ?thesis using True r cs by auto
  next
    case False
    then have "k = unat n" using nk by simp
    from ff_alloc_whole [OF inv n r bs [unfolded this]] show ?thesis using False r cs by auto
  qed
qed

section \<open>Freeing refines absorption\<close>

lemma ff_clear_flags_simps [page_simps]:
  "links (ff_clear_flags p k s) = links s"
  "npage (ff_clear_flags p k s) = npage s"
  "nr_free (ff_clear_flags p k s) = nr_free s"
  "pmm.more (ff_clear_flags p k s) = pmm.more s"
  "pages (ff_clear_flags p k s) q =
     (if p \<le> q \<and> q < p + k then (pages s q)\<lparr>pd_flags := 0\<rparr> else pages s q)"
  by (induction p k s rule: ff_clear_flags.induct) (auto simp: page_simps)

text \<open>
  The state of the merging pass: the entries \<open>xs\<close> before the place \<open>le\<close> were kept, those of
  \<open>ys\<close> are to come, the block \<open>b\<close> being freed is not in the list.
\<close>

definition ff_merging ::
  "'a pmm_scheme \<Rightarrow> block list \<Rightarrow> block \<Rightarrow> lnode \<Rightarrow> block list \<Rightarrow> bool" where
  "ff_merging s xs b le ys \<longleftrightarrow>
     clist (links s) FreeHead (map block_link (xs @ ys)) \<and>
     nxt (links s) le = hd (map block_link ys @ [FreeHead]) \<and>
     (\<forall>c \<in> set (b # xs @ ys). block_ok s c) \<and>
     distinct (frames (b # xs @ ys)) \<and>
     length (frames (b # xs @ ys)) < 2 ^ 32"

lemma ff_merging_head:
  assumes "ff_merging s xs b le (y # ys)"
  shows "nxt (links s) le = block_link y" "block_ok s y" "block_ok s b"
  using assms by (auto simp: ff_merging_def)

text \<open>The heads of the blocks in a merging state are distinct pages.\<close>

lemma ff_merging_heads:
  assumes "ff_merging s xs b le (y # ys)"
  shows "fst b \<noteq> fst y" and "c \<in> set (xs @ ys) \<Longrightarrow> fst c \<noteq> fst y \<and> fst c \<noteq> fst b"
proof -
  have ok: "\<forall>c \<in> set (b # y # xs @ ys). block_ok s c"
    and dis: "distinct (frames (b # xs @ y # ys))"
    using assms by (auto simp: ff_merging_def)
  have inb: "fst b \<in> set (block_frames b)" "fst y \<in> set (block_frames y)"
    using ok by (auto intro: block_head_in)
  then show "fst b \<noteq> fst y" using dis by auto
  assume c: "c \<in> set (xs @ ys)"
  then have "fst c \<in> set (frames xs) \<union> set (frames ys)"
    using ok head_in_frames [of "xs @ ys" s c] by auto
  then show "fst c \<noteq> fst y \<and> fst c \<noteq> fst b" using dis inb by auto
qed

text \<open>
  One merge: the list loses \<open>y\<close>, the descriptor of the lower of the two heads gets the sum.
\<close>

lemma ff_merging_step:
  assumes m: "ff_merging s xs (b, n) le ((p, k) # ys)"
    and lo: "lo = b \<and> hi = p \<and> b + n = p \<or> lo = p \<and> hi = b \<and> p + k = b"
    and s': "links s' = list_del (PageLink p) (links s)"
      "pages s' = (pages s)(lo := (pages s lo)\<lparr>pd_property := pd_property (pages s lo) + pd_property (pages s hi)\<rparr>,
          hi := clear_bit_flag PG_RESERVED (pages s hi))"
  shows "ff_merging s' xs (lo, n + k) (PageLink p) ys"
proof -
  have c: "clist (links s) FreeHead (map block_link xs @ PageLink p # map block_link ys)"
    and ok: "block_ok s (b, n)" "block_ok s (p, k)" "\<forall>c \<in> set (xs @ ys). block_ok s c"
    and dis: "distinct (frames ((b, n) # xs @ (p, k) # ys))"
    and len: "length (frames ((b, n) # xs @ (p, k) # ys)) < 2 ^ 32"
    using m by (auto simp: ff_merging_def)
  note ne = ff_merging_heads [OF m]
  have sum: "unat (pd_property (pages s lo) + pd_property (pages s hi)) = n + k"
    using ok lo len by (subst unat_add_small) (auto simp: block_ok_def)
  have hl: "fst c \<noteq> lo \<and> fst c \<noteq> hi" if "c \<in> set (xs @ ys)" for c
    using ne(2) [OF that] lo by auto
  have lh: "lo \<noteq> hi" using ne(1) lo by auto
  have "block_ok s' c" if "c \<in> set (xs @ ys)" for c
    using hl [OF that] ok(3) that by (simp add: s' block_ok_def)
  moreover have "page_reserved (pages s lo)" "0 < n + k"
    using ok lo by (auto simp: block_ok_def)
  then have "block_ok s' (lo, n + k)"
    using lh sum by (simp add: s' block_ok_def page_simps)
  moreover have "mset (frames ((lo, n + k) # xs @ ys)) = mset (frames ((b, n) # xs @ (p, k) # ys))"
  proof -
    have "[b..<b + (n + k)] = [b..<b + n] @ [b + n..<b + n + k]"
      using upt_add_eq_append [of b "b + n" k] by (simp add: add.assoc)
    moreover have "[p..<p + (n + k)] = [p..<p + k] @ [p + k..<p + k + n]"
      using upt_add_eq_append [of p "p + k" n] by (simp add: ac_simps)
    ultimately show ?thesis using lo by (elim disjE conjE) (simp_all add: union_ac)
  qed
  moreover from this have "distinct (frames ((lo, n + k) # xs @ ys))"
    and "length (frames ((lo, n + k) # xs @ ys)) < 2 ^ 32"
    using dis len by (metis mset_eq_imp_distinct_iff, metis mset_eq_length)
  ultimately show ?thesis
    using clist_delete [OF c] list_del_nxt_self [OF c] clist_nxt_mid [OF c]
    by (auto simp: ff_merging_def s')
qed


lemma ff_frame_trans:
  "ff_frame F s t \<Longrightarrow> ff_frame F t u \<Longrightarrow> ff_frame F s u"
  by (auto simp: ff_frame_def)

lemma ff_frame_mono: "ff_frame F s t \<Longrightarrow> F \<subseteq> G \<Longrightarrow> ff_frame G s t"
  by (fastforce simp: ff_frame_def)

lemma ff_merging_step_frame:
  assumes m: "ff_merging s xs (b, n) le ((p, k) # ys)"
    and lo: "lo \<in> {b, p}" "hi \<in> {b, p}"
    and s': "links s' = list_del (PageLink p) (links s)"
      "pages s' = (pages s)(lo := (pages s lo)\<lparr>pd_property := v\<rparr>,
          hi := clear_bit_flag PG_RESERVED (pages s hi))"
      "npage s' = npage s" "pmm.more s' = pmm.more s"
    and ne: "lo \<noteq> hi"
  shows "ff_frame (set (frames ((b, n) # xs @ (p, k) # ys))) s s'"
proof -
  let ?L = "set (FreeHead # map block_link (xs @ (p, k) # ys))"
  let ?F = "set (frames ((b, n) # xs @ (p, k) # ys))"
  have c: "clist (links s) FreeHead (map block_link (xs @ (p, k) # ys))"
    and ok: "\<forall>c \<in> set ((b, n) # xs @ (p, k) # ys). block_ok s c"
    using m by (auto simp: ff_merging_def)
  have sub: "?L \<subseteq> insert FreeHead (PageLink ` ?F)"
    using heads_sub [OF ok] by (auto simp del: frames_simps block_frames.simps)
  have in_F: "lo \<in> ?F" "hi \<in> ?F"
    using lo ok by (auto simp: block_ok_def)
  have "nxt (links s') y = nxt (links s) y \<and> prv (links s') y = prv (links s) y"
    if "y \<notin> insert FreeHead (PageLink ` ?F)" for y
  proof -
    have "y \<notin> ?L" using that sub by blast
    from list_del_unchanged [OF c _ this, of "PageLink p"] show ?thesis by (simp add: s')
  qed
  then show ?thesis
    using in_F ne by (auto simp: ff_frame_def s' page_simps)
qed

lemma ff_merge_loop_refines:
  assumes "ff_merging s xs (b, n) le ys" and "absorb (b, n) ys = (c, zs)"
    and "prev = last (FreeHead # map block_link xs)"
  shows "\<exists>le' s'. ff_merge_loop b prev le s =
      Some (fst c, last (FreeHead # map block_link (xs @ zs)), s') \<and>
    ff_merging s' (xs @ zs) c le' [] \<and> nr_free s' = nr_free s \<and>
    ff_frame (set (frames ((b, n) # xs @ ys))) s s'"
  using assms
proof (induction ys arbitrary: xs b n le prev s zs)
  case Nil
  then have "nxt (links s) le = FreeHead" by (simp add: ff_merging_def)
  then show ?case
    using Nil by (subst ff_merge_loop.simps) (auto simp: list_next_def ff_frame_refl simp del: last.simps)
next
  case (Cons y ys)
  obtain p k where y: "y = (p, k)" by (cases y)
  note m = Cons.prems(1) [unfolded y]
  have le: "nxt (links s) le = PageLink p" and bn: "unat (pd_property (pages s b)) = n"
    and pk: "unat (pd_property (pages s p)) = k" and ne: "b \<noteq> p"
    using ff_merging_head [OF m] ff_merging_heads(1) [OF m] by (auto simp: block_ok_def)
  let ?go = "\<lambda>lo hi. upd_links (list_del (PageLink p)) (upd_page hi (clear_bit_flag PG_RESERVED)
      (upd_page lo (\<lambda>d. d\<lparr>pd_property := pd_property d + pd_property (pages s hi)\<rparr>) s))"
  have loop: "ff_merge_loop b prev le s =
     (if b + n = p then ff_merge_loop b prev (PageLink p) (?go b p)
      else if p + k = b then ff_merge_loop p prev (PageLink p) (?go p b)
      else ff_merge_loop b (PageLink p) (PageLink p) s)"
    by (subst ff_merge_loop.simps) (simp add: list_next_def le bn pk Let_def page_simps)
  show ?case
  proof (cases "b + n = p \<or> p + k = b")
    case False
    then obtain zs' where ab: "absorb (b, n) ys = (c, zs')" and zs: "zs = (p, k) # zs'"
      using Cons.prems(2) y by (auto split: prod.splits)
    have "clist (links s) FreeHead (map block_link xs @ PageLink p # map block_link ys)"
      using m by (simp add: ff_merging_def)
    then have "ff_merging s (xs @ [(p, k)]) (b, n) (PageLink p) ys"
      using m clist_nxt_mid by (simp add: ff_merging_def)
    from Cons.IH [OF this ab, of "PageLink p"] show ?thesis
      using False zs y by (auto simp: loop)
  next
    case True
    obtain lo hi where lo: "lo = b \<and> hi = p \<and> b + n = p \<or> lo = p \<and> hi = b \<and> p + k = b \<and> b + n \<noteq> p"
      using True by blast
    then have go: "ff_merge_loop b prev le s = ff_merge_loop lo prev (PageLink p) (?go lo hi)"
      and lh: "lo \<noteq> hi"
      using loop ne by auto
    have m': "ff_merging (?go lo hi) xs (lo, n + k) (PageLink p) ys"
      by (rule ff_merging_step [OF m, of lo hi]) (use lo lh in \<open>auto simp: page_simps\<close>)
    have ab: "absorb (lo, n + k) ys = (c, zs)"
      using Cons.prems(2) lo y by (auto simp: add.commute)
    have fr: "ff_frame (set (frames ((b, n) # xs @ (p, k) # ys))) s (?go lo hi)"
      by (rule ff_merging_step_frame [OF m, of lo hi _ "pd_property (pages s lo) + pd_property (pages s hi)"])
        (use lo lh in \<open>auto simp: page_simps\<close>)
    have "set (frames ((lo, n + k) # xs @ ys)) = set (frames ((b, n) # xs @ (p, k) # ys))"
      using lo by auto
    then show ?thesis
      using Cons.IH [OF m' ab Cons.prems(3)] fr go y
      by (auto simp: page_simps intro: ff_frame_trans)
  qed
qed


lemma absorb_mset:
  "absorb b bs = (c, cs) \<Longrightarrow> mset (frames (c # cs)) = mset (frames (b # bs))"
proof (induction b bs arbitrary: c cs rule: absorb.induct)
  case (1 b)
  then show ?case by simp
next
  case (2 b n p k bs)
  have l: "[b..<b + (n + k)] = [b..<b + n] @ [b + n..<b + n + k]"
    using upt_add_eq_append [of b "b + n" k] by (simp add: add.assoc)
  have r: "[p..<p + (k + n)] = [p..<p + k] @ [p + k..<p + k + n]"
    using upt_add_eq_append [of p "p + k" n] by (simp add: add.assoc)
  consider "b + n = p" | "b + n \<noteq> p" "p + k = b" | "b + n \<noteq> p" "p + k \<noteq> b" by blast
  then show ?case
  proof cases
    case 1
    then show ?thesis using "2.IH"(1) "2.prems" l by auto
  next
    case 2
    then show ?thesis using "2.IH"(2) "2.prems" r by (auto simp: union_ac)
  next
    case 3
    then obtain ds where "absorb (b, n) bs = (c, ds)" "cs = (p, k) # ds"
      using "2.prems" by (auto split: prod.splits)
    then show ?thesis using "2.IH"(3) 3 by (auto simp: union_ac)
  qed
qed

lemma put_back_mset: "mset (frames (put_back b bs)) = mset (block_frames b @ frames bs)"
  using absorb_mset [of b bs] by (cases "absorb b bs") (auto simp: put_back_def union_ac)

text \<open>What an equation between frame multisets says of the frames and their number.\<close>

lemma mset_frames_eq:
  assumes "mset xs = mset (ys :: nat list)"
  shows "set xs = set ys" and "length xs = length ys" and "distinct xs = distinct ys"
  using assms by (auto dest: mset_eq_setD mset_eq_length mset_eq_imp_distinct_iff)

text \<open>The block given back, once its flags are cleared and its head is marked, can be merged.\<close>

definition ff_marked :: "nat \<Rightarrow> u32 \<Rightarrow> 'a pmm_scheme \<Rightarrow> 'a pmm_scheme" where
  "ff_marked base n s = upd_page base (set_bit_flag PG_RESERVED)
     (upd_page base (\<lambda>d. d\<lparr>pd_property := n\<rparr>) (ff_clear_flags base (unat n) s))"

lemma ff_marked_merging:
  assumes inv: "ff_inv s bs" and n: "0 < n"
    and fresh: "{base..<base + unat n} \<inter> set (frames bs) = {}"
    and bound: "base + unat n \<le> unat (npage s)"
  shows "distinct (frames ((base, unat n) # bs))" "length (frames ((base, unat n) # bs)) < 2 ^ 32"
    "set (frames ((base, unat n) # bs)) \<subseteq> {..<unat (npage s)}"
    "ff_merging (ff_marked base n s) [] (base, unat n) FreeHead bs"
    "ff_frame (set (frames ((base, unat n) # bs))) s (ff_marked base n s)"
    "nr_free (ff_marked base n s) = nr_free s"
proof -
  let ?b = "(base, unat n)" and ?s = "ff_marked base n s"
  let ?F = "set (frames (?b # bs))"
  note mk = ff_marked_def page_simps
  have n0: "0 < unat n" using n by (simp add: word_greater_zero_iff unat_gt_0)
  show dis: "distinct (frames (?b # bs))" and sub: "?F \<subseteq> {..<unat (npage s)}"
    using inv fresh bound by (auto simp: ff_inv_def)
  have "length (frames (?b # bs)) = card ?F" using dis distinct_card by metis
  also have "\<dots> \<le> unat (npage s)" using card_mono [OF _ sub] by simp
  also have "\<dots> < 2 ^ 32" by simp
  finally show len: "length (frames (?b # bs)) < 2 ^ 32" .
  have "block_ok ?s c" if c: "c \<in> set bs" for c
  proof -
    have "fst c \<notin> {base..<base + unat n}" using inv fresh c head_in_frames [of bs s c] by (auto simp: ff_inv_def)
    then show ?thesis using inv c n0 by (auto simp: ff_inv_def block_ok_def mk)
  qed
  moreover have "block_ok ?s ?b" using n0 by (simp add: block_ok_def mk)
  ultimately show "ff_merging ?s [] ?b FreeHead bs"
    using inv dis len clist_nxt [of "links s" FreeHead "map block_link bs"]
    by (auto simp: ff_merging_def ff_inv_def mk)
  show "ff_frame ?F s ?s" using n0 by (auto simp: ff_frame_def mk)
  show "nr_free ?s = nr_free s" by (simp add: mk)
qed

theorem ff_free_refines:
  assumes inv: "ff_inv s bs" and n: "0 < n"
    and fresh: "{base..<base + unat n} \<inter> set (frames bs) = {}"
    and bound: "base + unat n \<le> unat (npage s)"
  shows "\<exists>s'. ff_free base n s = Inr ((), s') \<and> ff_inv s' (put_back (base, unat n) bs) \<and>
    ff_frame (set (frames ((base, unat n) # bs))) s s'"
proof -
  let ?b = "(base, unat n)" and ?F = "set (frames ((base, unat n) # bs))"
  note M = ff_marked_merging [OF assms]
  obtain c zs where ab: "absorb ?b bs = (c, zs)" by (cases "absorb ?b bs")
  let ?prev = "last (FreeHead # map block_link zs)"
  obtain le' s2 where loop: "ff_merge_loop base FreeHead FreeHead (ff_marked base n s) = Some (fst c, ?prev, s2)"
    and m2: "ff_merging s2 zs c le' []" and nf: "nr_free s2 = nr_free s"
    and fr2: "ff_frame ?F (ff_marked base n s) s2"
    using ff_merge_loop_refines [OF M(4) ab] M(6) by auto
  have fr: "ff_frame ?F s s2" using ff_frame_trans [OF M(5) fr2] .
  obtain s3 where s3: "s3 = upd_links (list_add ?prev (PageLink (fst c))) (s2\<lparr>nr_free := nr_free s2 + n\<rparr>)"
    by simp
  have free: "ff_free base n s = Inr ((), s3)"
    using loop by (simp add: ff_free_def Let_def ff_marked_def s3)
  have cl: "clist (links s2) FreeHead (map block_link zs)"
    and ok: "\<forall>d \<in> set (c # zs). block_ok s2 d" and d2: "distinct (frames (c # zs))"
    using m2 by (auto simp: ff_merging_def)
  have cnew: "PageLink (fst c) \<notin> set (FreeHead # map block_link zs)"
    using d2 not_frame_not_head [of zs s2 "fst c"] block_head_in [of s2 c] ok by fastforce
  have ms: "mset (frames (put_back ?b bs)) = mset (frames (?b # bs))" by (simp add: put_back_mset)
  have pb: "put_back ?b bs = zs @ [c]" by (simp add: put_back_def ab)
  have nr: "unat (nr_free s + n) = length (frames (?b # bs))"
    using inv M(2) by (subst unat_add_small) (auto simp: ff_inv_def)
  have inv3: "ff_inv s3 (put_back ?b bs)"
    unfolding ff_inv_def
  proof (intro conjI)
    show "clist (links s3) FreeHead (map block_link (put_back ?b bs))"
      using clist_add_last [OF cl cnew] by (simp add: s3 pb page_simps)
    show "\<forall>d \<in> set (put_back ?b bs). block_ok s3 d"
      using ok by (auto simp: pb s3 block_ok_def page_simps)
    show "distinct (frames (put_back ?b bs))" using M(1) mset_frames_eq(3) [OF ms] by simp
    show "set (frames (put_back ?b bs)) \<subseteq> {..<unat (npage s3)}"
      using M(3) mset_frames_eq(1) [OF ms] fr by (simp add: s3 ff_frame_def page_simps)
    show "length (frames (put_back ?b bs)) = unat (nr_free s3)"
      using mset_frames_eq(2) [OF ms] nr by (simp add: s3 nf page_simps)
  qed
  have "nxt (links s3) y = nxt (links s2) y \<and> prv (links s3) y = prv (links s2) y"
    if y: "y \<notin> insert FreeHead (PageLink ` ?F)" for y
  proof -
    have "block_link ` set (c # zs) \<subseteq> PageLink ` ?F"
      using heads_sub [OF ok] mset_frames_eq(1) [OF ms] by (auto simp: pb simp del: block_frames.simps)
    then have "y \<notin> insert (PageLink (fst c)) (set (FreeHead # map block_link zs))"
      using y by auto
    from list_add_unchanged [OF cl last_in_set this] show ?thesis by (simp add: s3 page_simps)
  qed
  then have "ff_frame ?F s s3" using fr by (auto simp: ff_frame_def s3 page_simps)
  then show ?thesis using free inv3 by blast
qed

end
