(* ===== verification/FirstFitLaws.thy ===== *)
theory FirstFitLaws
  imports FreeList
begin

text \<open>
  Consequences of the refinement for the manager as a whole: freeing leaves no two free
  blocks that touch, the boot-time operations establish the invariant, first fit satisfies the
  interface \<open>pmm_manager\<close>, and the built-in self-check holds exactly when it can allocate.
\<close>


section \<open>No two free blocks touch\<close>

definition coalesced :: "block list \<Rightarrow> bool" where
  "coalesced bs \<longleftrightarrow> (\<forall>x \<in> set bs. \<forall>y \<in> set bs. fst x + snd x \<noteq> fst y)"

text \<open>
  The two ends of the block absorption returns are ends of the freed block or of an absorbed
  one, so a block kept in the list does not touch it.
\<close>

lemma absorb_ends:
  "absorb b bs = (c, cs) \<Longrightarrow>
   fst c \<in> insert (fst b) (fst ` set bs) \<and>
   fst c + snd c \<in> insert (fst b + snd b) ((\<lambda>x. fst x + snd x) ` set bs) \<and>
   set cs \<subseteq> set bs"
proof (induction b bs arbitrary: c cs rule: absorb.induct)
  case (1 b)
  then show ?case by simp
next
  case (2 b n p k bs)
  consider "b + n = p" | "b + n \<noteq> p" "p + k = b" | "b + n \<noteq> p" "p + k \<noteq> b" by blast
  then show ?case
  proof cases
    case 1
    then show ?thesis using "2.IH"(1) [OF 1, of c cs] "2.prems" by (auto simp: add.assoc)
  next
    case 2
    then show ?thesis using "2.IH"(2) [OF 2, of c cs] "2.prems" by (auto simp: add.assoc)
  next
    case 3
    then obtain ds where "absorb (b, n) bs = (c, ds)" "cs = (p, k) # ds"
      using "2.prems" by (auto split: prod.splits)
    then show ?thesis using "2.IH"(3) [OF 3, of c ds] by auto
  qed
qed

lemma absorb_apart:
  "absorb b bs = (c, cs) \<Longrightarrow> coalesced bs \<Longrightarrow> y \<in> set cs \<Longrightarrow>
   fst c + snd c \<noteq> fst y \<and> fst y + snd y \<noteq> fst c"
proof (induction b bs arbitrary: c cs rule: absorb.induct)
  case (1 b)
  then show ?case by simp
next
  case (2 b n p k bs)
  have co: "coalesced bs" using "2.prems"(2) by (simp add: coalesced_def)
  consider "b + n = p" | "b + n \<noteq> p" "p + k = b" | "b + n \<noteq> p" "p + k \<noteq> b" by blast
  then show ?case
  proof cases
    case 1
    then show ?thesis using "2.IH"(1) [OF 1 _ co] "2.prems" by simp
  next
    case 2
    then show ?thesis using "2.IH"(2) [OF 2 _ co] "2.prems" by simp
  next
    case 3
    then obtain ds where ds: "absorb (b, n) bs = (c, ds)" "cs = (p, k) # ds"
      using "2.prems" by (auto split: prod.splits)
    have "fst c + snd c \<noteq> p \<and> p + k \<noteq> fst c"
      using absorb_ends [OF ds(1)] "2.prems"(2) 3 by (auto simp: coalesced_def)
    then show ?thesis using "2.IH"(3) [OF 3 ds(1) co] "2.prems"(3) ds(2) by auto
  qed
qed

lemma put_back_coalesced:
  assumes "coalesced bs" and "0 < snd (fst (absorb b bs))"
  shows "coalesced (put_back b bs)"
proof -
  obtain c cs where ab: "absorb b bs = (c, cs)" by (cases "absorb b bs")
  have "set cs \<subseteq> set bs" using absorb_ends [OF ab] by blast
  then have "coalesced cs" using assms(1) unfolding coalesced_def by blast
  then show ?thesis
    using absorb_apart [OF ab assms(1)] assms(2)
    unfolding coalesced_def put_back_def ab by (simp add: ball_Un)
qed

lemma take_first_fit_coalesced:
  assumes "take_first_fit n bs = Some (p, cs)" and "coalesced bs" and "0 < n"
    and "distinct (frames bs)" and "\<forall>b \<in> set bs. 0 < snd b"
  shows "coalesced cs"
proof -
  obtain as k ds where *: "bs = as @ (p, k) # ds" "n \<le> k"
    "cs = as @ (if n < k then (p + n, k - n) # ds else ds)"
    using take_first_fit_Some [OF assms(1)] by blast
  have "fst x + snd x \<noteq> p + n" if x: "x \<in> set as \<union> set ds" and "n < k" for x
  proof
    assume e: "fst x + snd x = p + n"
    have "0 < snd x" using x assms(5) * by auto
    then have "p + n - 1 \<in> set (block_frames x)" using e assms(3) by (cases x) auto
    then have "p + n - 1 \<in> set (frames as) \<union> set (frames ds)"
      using x by (auto simp: set_frames)
    moreover have "p + n - 1 \<in> {p..<p + k}" using assms(3) *(2) by auto
    moreover have "set (frames as) \<inter> {p..<p + k} = {}" "set (frames ds) \<inter> {p..<p + k} = {}"
      using assms(4) *(1) by auto
    ultimately show False by blast
  qed
  then show ?thesis using assms(2,3) * by (auto simp: coalesced_def)
qed

section \<open>Initialisation\<close>

text \<open>The static data before any code runs: \<^verbatim>\<open>init/head.S\<close> clears the BSS.\<close>

definition bss_desc :: page_desc where
  "bss_desc = \<lparr>pd_ref = 0, pd_flags = 0, pd_property = 0\<rparr>"

definition bss_pmm :: "u32 \<Rightarrow> pmm" where
  "bss_pmm np = \<lparr>links = \<lparr>nxt = (\<lambda>_. LNull), prv = (\<lambda>_. LNull)\<rparr>,
     pages = (\<lambda>_. bss_desc), npage = np, nr_free = 0\<rparr>"

lemma ff_init_inv: "ff_inv (ff_init s) []"
  by (simp add: ff_inv_def ff_init_def clist_init Let_def page_simps)

lemma ff_clear_descs_simps [page_simps]:
  "links (ff_clear_descs p k s) = links s"
  "npage (ff_clear_descs p k s) = npage s"
  "nr_free (ff_clear_descs p k s) = nr_free s"
  "pmm.more (ff_clear_descs p k s) = pmm.more s"
  "pages (ff_clear_descs p k s) q =
     (if p \<le> q \<and> q < p + k
      then (pages s q)\<lparr>pd_ref := 0, pd_flags := 0, pd_property := 0\<rparr> else pages s q)"
  by (induction p k s rule: ff_clear_descs.induct) (auto simp: page_simps Let_def)

lemma ff_init_memmap_inv:
  assumes inv: "ff_inv s bs" and n: "0 < n"
    and fresh: "{base..<base + unat n} \<inter> set (frames bs) = {}"
    and bound: "base + unat n \<le> unat (npage s)"
  shows "ff_inv (ff_init_memmap base n s) (bs @ [(base, unat n)])"
    and "npage (ff_init_memmap base n s) = npage s"
    and "pmm.more (ff_init_memmap base n s) = pmm.more s"
proof -
  let ?s = "ff_init_memmap base n s"
  have n0: "0 < unat n" using n by (simp add: word_greater_zero_iff unat_gt_0)
  have sel: "links ?s = list_add_before FreeHead (PageLink base) (links s)"
    "npage ?s = npage s" "nr_free ?s = nr_free s + n" "pmm.more ?s = pmm.more s"
    by (simp_all add: ff_init_memmap_def Let_def page_simps)
  have c: "clist (links s) FreeHead (map block_link bs)" and ok: "\<forall>b \<in> set bs. block_ok s b"
    and dis: "distinct (frames (bs @ [(base, unat n)]))"
    and sub: "set (frames (bs @ [(base, unat n)])) \<subseteq> {..<unat (npage s)}"
    using inv fresh bound by (auto simp: ff_inv_def)
  have "length (frames (bs @ [(base, unat n)])) = card (set (frames (bs @ [(base, unat n)])))"
    using dis distinct_card by metis
  also have "\<dots> \<le> unat (npage s)"
    using card_mono [OF _ sub] by simp
  also have "\<dots> < 2 ^ 32" by simp
  finally have nr: "unat (nr_free s + n) = length (frames (bs @ [(base, unat n)]))"
    using inv by (subst unat_add_small) (auto simp: ff_inv_def)
  have "block_ok ?s b" if "b \<in> set bs" for b
  proof -
    have "fst b \<notin> {base..<base + unat n}"
      using head_in_frames [OF ok that] fresh by auto
    then show ?thesis
      using ok that n0 by (auto simp: block_ok_def ff_init_memmap_def Let_def page_simps)
  qed
  moreover have "block_ok ?s (base, unat n)"
    using n0 by (simp add: block_ok_def ff_init_memmap_def Let_def page_simps)
  moreover have "PageLink base \<notin> set (FreeHead # map block_link bs)"
    by (rule ff_inv_head_notin [OF inv]) (use fresh n0 in \<open>auto simp: disjoint_iff\<close>)
  ultimately show "ff_inv ?s (bs @ [(base, unat n)])"
    using clist_add_before [OF c] dis sub nr by (auto simp: ff_inv_def sel)
  show "npage ?s = npage s" "pmm.more ?s = pmm.more s" by (fact sel)+
qed

section \<open>The blocks of a state\<close>

lemma ff_inv_unique:
  assumes "ff_inv s bs" and "ff_inv s cs"
  shows "bs = cs"
proof -
  have "map block_link bs = map block_link cs"
    using assms clist_unique by (auto simp: ff_inv_def)
  then have "map le2page (map block_link bs) = map le2page (map block_link cs)" by simp
  then have f: "map fst bs = map fst cs" by (simp add: comp_def)
  have "map snd bs = map (\<lambda>p. unat (pd_property (pages s p))) (map fst bs)"
    and "map snd cs = map (\<lambda>p. unat (pd_property (pages s p))) (map fst cs)"
    using assms by (auto simp: ff_inv_def block_ok_def)
  then have "map snd bs = map snd cs" using f by simp
  then show ?thesis using f by (metis zip_map_fst_snd)
qed

definition ff_ok :: "'a pmm_scheme \<Rightarrow> bool" where
  "ff_ok s \<longleftrightarrow> (\<exists>bs. ff_inv s bs)"

definition ff_avail :: "'a pmm_scheme \<Rightarrow> nat set" where
  "ff_avail s = {q. \<exists>bs. ff_inv s bs \<and> q \<in> set (frames bs)}"

lemma ff_avail_frames: "ff_inv s bs \<Longrightarrow> ff_avail s = set (frames bs)"
  using ff_inv_unique by (auto simp: ff_avail_def)

lemma ff_ok_intro [intro]: "ff_inv s bs \<Longrightarrow> ff_ok s"
  by (auto simp: ff_ok_def)

section \<open>First fit is a memory manager\<close>

interpretation ff: pmm_manager ff_alloc ff_free ff_nr_free_pages ff_ok ff_avail "\<lambda>s. unat (npage s)"
proof (unfold_locales, goal_cases)
  case (1 s)
  then show ?case by (auto simp: ff_ok_def ff_avail_frames ff_inv_def)
next
  case (2 s)
  then show ?case
    by (auto simp: ff_ok_def ff_avail_frames ff_inv_def ff_nr_free_pages_def distinct_card)
next
  case (3 s n)
  then obtain bs where inv: "ff_inv s bs" by (auto simp: ff_ok_def)
  show ?case
    using ff_alloc_refines [OF inv 3(2)] by (auto split: option.splits)
next
  case (4 s n s')
  then obtain bs where inv: "ff_inv s bs" by (auto simp: ff_ok_def)
  show ?case
    using ff_alloc_refines [OF inv 4(2)] 4(3) by (auto split: option.splits)
next
  case (5 s s')
  then obtain bs where inv: "ff_inv s bs" by (auto simp: ff_ok_def)
  have "take_first_fit (unat 1) bs = None"
    using ff_alloc_refines [OF inv, of 1] 5(2) by (auto split: option.splits)
  then have "bs = []"
    using inv by (cases bs) (auto simp: take_first_fit_None ff_inv_def block_ok_def)
  then show ?case using inv by (simp add: ff_avail_frames)
next
  case (6 s n p s')
  then obtain bs where inv: "ff_inv s bs" by (auto simp: ff_ok_def)
  obtain cs where t: "take_first_fit (unat n) bs = Some (p, cs)" and inv': "ff_inv s' cs"
    and fr: "ff_frame (set (frames bs)) s s'"
    using ff_alloc_refines [OF inv, of n] 6(2,3) by (auto split: option.splits)
  have "mset (frames bs) = mset ([p..<p + unat n] @ frames cs)"
    by (rule take_first_fit_frames [OF t])
  note m = mset_frames_eq [OF this]
  have "distinct (frames bs)" using inv by (simp add: ff_inv_def)
  then show ?case
    using m inv inv' fr by (auto simp: ff_avail_frames ff_frame_def)
next
  case (7 s n p)
  then obtain bs where inv: "ff_inv s bs" by (auto simp: ff_ok_def)
  have fresh: "{p..<p + unat n} \<inter> set (frames bs) = {}"
    using 7(3) inv by (auto simp: ff_avail_frames)
  have "0 < unat n" using 7(2) by (simp add: word_greater_zero_iff unat_gt_0)
  then have "p + unat n - 1 \<in> {p..<p + unat n}" by auto
  then have "p + unat n - 1 \<in> {..<unat (npage s)}" using 7(3) by blast
  then have "p + unat n \<le> unat (npage s)" by auto
  from ff_free_refines [OF inv 7(2) fresh this] obtain s' where
    "ff_free p n s = Inr ((), s')" "ff_inv s' (put_back (p, unat n) bs)"
    "ff_frame (set (frames ((p, unat n) # bs))) s s'" by blast
  moreover have "set (frames (put_back (p, unat n) bs)) = {p..<p + unat n} \<union> set (frames bs)"
    using mset_frames_eq(1) [OF put_back_mset] by simp
  ultimately show ?case
    using inv by (auto simp: ff_avail_frames ff_frame_def)
qed


section \<open>The self-check\<close>

lemma ff_check_loop_from:
  "clist (links s) FreeHead (map block_link (as @ bs)) \<Longrightarrow> \<forall>b \<in> set bs. block_ok s b \<Longrightarrow>
   ff_check_loop (last (FreeHead # map block_link as)) tot s =
     Some (Inr (tot + of_nat (length (frames bs))))"
proof (induction bs arbitrary: as tot)
  case Nil
  then have "nxt (links s) (last (FreeHead # map block_link as)) = FreeHead"
    by (cases as rule: rev_cases) (auto simp: clist_def seg_snoc)
  then show ?case
    by (subst ff_check_loop.simps) (simp add: list_next_def del: last.simps)
next
  case (Cons b bs)
  have "nxt (links s) (last (FreeHead # map block_link as)) = block_link b"
    using Cons.prems(1) by (cases as rule: rev_cases) (auto simp: clist_def seg_append)
  moreover have "ff_check_loop (block_link b) (tot + pd_property (pages s (fst b))) s =
      Some (Inr (tot + pd_property (pages s (fst b)) + of_nat (length (frames bs))))"
    using Cons.IH [of "as @ [b]"] Cons.prems by simp
  moreover have "pd_property (pages s (fst b)) = of_nat (snd b)"
    using Cons.prems(2) by (simp add: block_ok_def word_of_unat)
  ultimately show ?case
    using Cons.prems(2)
    by (subst ff_check_loop.simps)
      (cases b, simp add: list_next_def block_ok_def Let_def add.assoc del: last.simps)
qed

lemma ff_check_loop_inv:
  assumes "ff_inv s bs"
  shows "ff_check_loop FreeHead 0 s = Some (Inr (nr_free s))"
proof -
  have "of_nat (length (frames bs)) = nr_free s"
    using assms by (simp add: ff_inv_def)
  then show ?thesis
    using ff_check_loop_from [of s "[]" bs 0] assms by (simp add: ff_inv_def)
qed

lemma ff_alloc_unreserved:
  "ff_alloc n s = Inr (Some p, s') \<Longrightarrow> \<not> page_reserved (pages s' p)"
  by (auto simp: ff_alloc_def bindE_eq_Inr Let_def page_simps split: if_splits option.splits)

lemma ff_check_result:
  assumes "ff_inv s bs"
  shows "case take_first_fit 5 bs of
      None \<Rightarrow> ff_check s = Inl Assert_Failed
    | Some (p, cs) \<Rightarrow> \<exists>s'. ff_check s = Inr ((), s') \<and> ff_inv s' cs"
  using ff_alloc_refines [OF assms, of 5]
  by (auto simp: ff_check_def ff_check_loop_inv [OF assms] ff_alloc_unreserved split: option.splits)

section \<open>A manager with one block, for the witnesses\<close>

definition demo_pmm :: pmm where
  "demo_pmm = ff_init_memmap 4 8 (ff_init (bss_pmm 64))"

lemma demo_pmm_inv: "ff_inv demo_pmm [(4, 8)]" and demo_pmm_npage: "npage demo_pmm = 64"
  using ff_init_memmap_inv [OF ff_init_inv, of 8 4 "bss_pmm 64"]
  by (simp_all add: demo_pmm_def ff_init_def bss_pmm_def upd_links_def)

section \<open>Properties\<close>

text \<open>
  C8. Allocation is first fit: on a free list with blocks \<open>bs\<close>, \<^verbatim>\<open>alloc(n)\<close> returns
  \<^verbatim>\<open>NULL\<close> and changes nothing when every block is shorter than \<open>n\<close>, and otherwise the
  first frame of the first block that is long enough, leaving in its place the rest of that
  block.
\<close>

theorem firstfit_alloc_correct:
  assumes "ff_inv s bs" and "0 < n"
  shows "case take_first_fit (unat n) bs of
      None \<Rightarrow> ff_alloc n s = Inr (None, s) \<and> (\<forall>b \<in> set bs. snd b < unat n)
    | Some (p, cs) \<Rightarrow> \<exists>s'. ff_alloc n s = Inr (Some p, s') \<and> ff_inv s' cs \<and>
        nr_free s' = nr_free s - n"
proof (cases "take_first_fit (unat n) bs")
  case None
  then show ?thesis
    using ff_alloc_refines [OF assms] by (simp flip: take_first_fit_None)
next
  case (Some r)
  then obtain p cs s' where r: "r = (p, cs)" "ff_alloc n s = Inr (Some p, s')" "ff_inv s' cs"
    using ff_alloc_refines [OF assms] by (cases r) auto
  have "nr_free s' = nr_free s - n"
    using r(2) by (auto simp: ff_alloc_def bindE_eq_Inr Let_def page_simps split: if_splits option.splits)
  then show ?thesis using Some r by simp
qed

theorem firstfit_alloc_correct_witness:
  "\<exists>s'. ff_alloc 3 demo_pmm = Inr (Some 4, s') \<and> ff_inv s' [(7, 5)] \<and>
     nr_free s' = nr_free demo_pmm - 3"
  using firstfit_alloc_correct [OF demo_pmm_inv, of 3] by simp

text \<open>
  C9. Freeing merges: giving back frames that are not free puts them, together with every free
  block they touch, at the end of the free list; no frame is lost or duplicated and the counter
  is exact.
\<close>

theorem firstfit_free_correct:
  assumes "ff_inv s bs" and "0 < n"
    and "{base..<base + unat n} \<inter> set (frames bs) = {}" and "base + unat n \<le> unat (npage s)"
  shows "\<exists>s'. ff_free base n s = Inr ((), s') \<and> ff_inv s' (put_back (base, unat n) bs) \<and>
    mset (frames (put_back (base, unat n) bs)) = mset ([base..<base + unat n] @ frames bs)"
  using ff_free_refines [OF assms] put_back_mset [of "(base, unat n)" bs] by auto

theorem firstfit_free_correct_witness:
  "\<exists>s'. ff_free 12 2 demo_pmm = Inr ((), s') \<and> ff_inv s' [(4, 10)]"
  using firstfit_free_correct [OF demo_pmm_inv, of 2 12]
  by (simp add: demo_pmm_npage put_back_def)

text \<open>
  C10. If no two free blocks touch before a \<^verbatim>\<open>free\<close>, none do after it: one pass over the
  unordered free list is enough to merge completely.
\<close>

theorem firstfit_free_coalesces:
  assumes "ff_inv s bs" and "coalesced bs" and "0 < n"
    and "{base..<base + unat n} \<inter> set (frames bs) = {}" and "base + unat n \<le> unat (npage s)"
  shows "\<exists>s' cs. ff_free base n s = Inr ((), s') \<and> ff_inv s' cs \<and> coalesced cs"
proof -
  obtain s' where s': "ff_free base n s = Inr ((), s')" "ff_inv s' (put_back (base, unat n) bs)"
    using ff_free_refines [OF assms(1,3-5)] by blast
  moreover have "fst (absorb (base, unat n) bs) \<in> set (put_back (base, unat n) bs)"
    by (cases "absorb (base, unat n) bs") (simp add: put_back_def)
  then have "0 < snd (fst (absorb (base, unat n) bs))"
    using s'(2) by (simp add: ff_inv_def block_ok_def)
  ultimately show ?thesis using put_back_coalesced [OF assms(2)] by blast
qed

theorem firstfit_free_coalesces_witness:
  "\<exists>s' cs. ff_free 2 2 demo_pmm = Inr ((), s') \<and> ff_inv s' cs \<and> coalesced cs"
  by (rule firstfit_free_coalesces [OF demo_pmm_inv]) (simp_all add: coalesced_def demo_pmm_npage)

text \<open>
  C11. Allocating and freeing again restores the set of free frames and the counter, whatever
  splitting and merging happened in between.
\<close>

theorem firstfit_alloc_free_roundtrip:
  assumes "ff_ok s" and "0 < n" and "ff_alloc n s = Inr (Some p, s1)"
  shows "\<exists>s2. ff_free p n s1 = Inr ((), s2) \<and> ff_ok s2 \<and> ff_avail s2 = ff_avail s \<and>
    ff_nr_free_pages s2 = ff_nr_free_pages s"
  by (rule ff.alloc_dealloc [OF assms])

theorem firstfit_alloc_free_roundtrip_witness:
  "\<exists>s1 s2. ff_alloc 3 demo_pmm = Inr (Some 4, s1) \<and> ff_free 4 3 s1 = Inr ((), s2) \<and>
     ff_avail s2 = {4..<12}"
proof -
  obtain s1 where s1: "ff_alloc 3 demo_pmm = Inr (Some 4, s1)"
    using ff_alloc_refines [OF demo_pmm_inv, of 3] by auto
  have "ff_ok demo_pmm" by (rule ff_ok_intro [OF demo_pmm_inv])
  from firstfit_alloc_free_roundtrip [OF this _ s1] show ?thesis
    using s1 by (auto simp: ff_avail_frames [OF demo_pmm_inv])
qed

text \<open>
  The manager's self-check passes on a consistent free list exactly when five frames in a
  row can be allocated, fails its last assertion otherwise, and keeps the five frames: it never
  frees its test allocation.
\<close>

theorem firstfit_check_result:
  assumes "ff_inv s bs"
  shows "case take_first_fit 5 bs of
      None \<Rightarrow> ff_check s = Inl Assert_Failed
    | Some (p, cs) \<Rightarrow> \<exists>s'. ff_check s = Inr ((), s') \<and> ff_inv s' cs \<and>
        ff_avail s' = ff_avail s - {p..<p + 5}"
proof (cases "take_first_fit 5 bs")
  case None
  then show ?thesis using ff_check_result [OF assms] by simp
next
  case (Some r)
  then obtain p cs s' where r: "r = (p, cs)" "ff_check s = Inr ((), s')" "ff_inv s' cs"
    using ff_check_result [OF assms] by (cases r) auto
  note m = mset_frames_eq [OF take_first_fit_frames [OF Some [unfolded r]]]
  have "distinct (frames bs)" using assms by (simp add: ff_inv_def)
  then have "ff_avail s' = ff_avail s - {p..<p + 5}"
    using m r(3) assms by (auto simp: ff_avail_frames)
  then show ?thesis using Some r by simp
qed

theorem firstfit_check_result_witness:
  "\<exists>s'. ff_check demo_pmm = Inr ((), s') \<and> ff_inv s' [(9, 3)] \<and>
     ff_avail s' = ff_avail demo_pmm - {4..<9}"
  using firstfit_check_result [OF demo_pmm_inv] by simp

text \<open>
  C12. A request for zero pages is not refused: it returns the head of the first free block
  without unlinking it, and leaves a free list on which the self-check fails.
\<close>

theorem firstfit_alloc_zero_breaks:
  assumes "ff_inv s ((p, k) # bs)"
  shows "\<exists>s'. ff_alloc 0 s = Inr (Some p, s') \<and> nr_free s' = nr_free s \<and>
    list_next (links s') FreeHead = PageLink p \<and> ff_check s' = Inl Assert_Failed"
proof -
  have c: "clist (links s) FreeHead (PageLink p # map block_link bs)"
    and k: "unat (pd_property (pages s p)) = k" "0 < k"
    using assms by (auto simp: ff_inv_def block_ok_def)
  have "0 < pd_property (pages s p)" using k by (simp add: word_less_nat_alt)
  moreover have "list_scan (\<lambda>le. pd_property (pages s (le2page le)) \<ge> 0) (links s) FreeHead FreeHead =
      Some (Some (PageLink p))"
    using list_scan_find [OF c] by simp
  moreover have "nxt (links s) FreeHead = PageLink p"
    using c by (simp add: clist_def)
  ultimately have "\<exists>s'. ff_alloc 0 s = Inr (Some p, s') \<and> nr_free s' = nr_free s \<and>
    nxt (links s') FreeHead = PageLink p \<and> \<not> page_reserved (pages s' p)"
    by (simp add: ff_alloc_def Let_def page_simps list_del_def list_add_def list_add_after_def link_simps)
  then obtain s' where s': "ff_alloc 0 s = Inr (Some p, s')" "nr_free s' = nr_free s"
    "nxt (links s') FreeHead = PageLink p" "\<not> page_reserved (pages s' p)"
    by blast
  have "ff_check_loop FreeHead 0 s' = Some (Inl Assert_Failed)"
    using s'(3,4) by (subst ff_check_loop.simps) (simp add: list_next_def)
  then show ?thesis using s' by (simp add: ff_check_def list_next_def)
qed

theorem firstfit_alloc_zero_breaks_witness:
  "\<exists>s'. ff_alloc 0 demo_pmm = Inr (Some 4, s') \<and> ff_check s' = Inl Assert_Failed"
  using firstfit_alloc_zero_breaks [OF demo_pmm_inv] by blast

end
