(* ===== verification/Mmu.thy ===== *)
theory Mmu
  imports Prelude
begin

text \<open>
  Address arithmetic: the paging macros of \<^verbatim>\<open>include/arch/x86/mmu.h\<close> and
  \<^verbatim>\<open>asm/pg.h\<close>, the rounding macros of \<^verbatim>\<open>kern/include/math.h\<close>, and the conversions
  between page descriptors, physical and kernel virtual addresses of \<^verbatim>\<open>kern/mm/pmm.c\<close>.
  Addresses are 32-bit words; a page descriptor is the index of its frame.
\<close>

section \<open>Paging constants and macros\<close>

definition PTE_P :: u32 where "PTE_P = 0x001"
definition PTE_W :: u32 where "PTE_W = 0x002"
definition PTE_U :: u32 where "PTE_U = 0x004"
definition PTE_USER :: u32 where "PTE_USER = PTE_U OR PTE_W OR PTE_P"

definition PG_SIZE :: u32 where "PG_SIZE = 4096"
definition PG_SHIFT :: nat where "PG_SHIFT = 12"
definition PTX_SHIFT :: nat where "PTX_SHIFT = 12"
definition PDX_SHIFT :: nat where "PDX_SHIFT = 22"
definition PDE_NUM :: nat where "PDE_NUM = 1024"
definition PTE_NUM :: nat where "PTE_NUM = 1024"
definition PDX_MASK :: u32 where "PDX_MASK = 1023"
definition PTX_MASK :: u32 where "PTX_MASK = 1023"
definition PG_MASK :: u32 where "PG_MASK = 4095"
definition PT_SIZE :: u32 where "PT_SIZE = 0x400000"

definition KERNEL_BASE :: u32 where "KERNEL_BASE = 0xC0000000"
definition KERNEL_MEM_SIZE :: u32 where "KERNEL_MEM_SIZE = 0x38000000"
definition VPT :: u32 where "VPT = 0xFAC00000"

lemmas paging_consts =
  PTE_P_def PTE_W_def PTE_U_def PTE_USER_def PG_SIZE_def PG_SHIFT_def PTX_SHIFT_def PDX_SHIFT_def
  PDE_NUM_def PTE_NUM_def PDX_MASK_def PTX_MASK_def PG_MASK_def PT_SIZE_def
  KERNEL_BASE_def KERNEL_MEM_SIZE_def VPT_def

definition PDX :: "u32 \<Rightarrow> u32" where
  "PDX la = drop_bit PDX_SHIFT la AND PDX_MASK"

definition PTX :: "u32 \<Rightarrow> u32" where
  "PTX la = drop_bit PTX_SHIFT la AND PTX_MASK"

definition PTE_ADDR :: "u32 \<Rightarrow> u32" where
  "PTE_ADDR pte = pte AND NOT 0xFFF"

definition PDE_ADDR :: "u32 \<Rightarrow> u32" where
  "PDE_ADDR pde = PTE_ADDR pde"

definition PG_OFF :: "u32 \<Rightarrow> u32" where
  "PG_OFF la = la AND PG_MASK"

definition PG_ADDR :: "u32 \<Rightarrow> u32 \<Rightarrow> u32 \<Rightarrow> u32" where
  "PG_ADDR d t off = push_bit PDX_SHIFT d OR push_bit PTX_SHIFT t OR off"

definition P_ADDR :: "u32 \<Rightarrow> u32" where
  "P_ADDR kva = kva - KERNEL_BASE"

definition K_ADDR :: "u32 \<Rightarrow> u32" where
  "K_ADDR pa = pa + KERNEL_BASE"

section \<open>Rounding\<close>

definition ROUND_DOWN :: "u32 \<Rightarrow> u32 \<Rightarrow> u32" where
  "ROUND_DOWN a n = a - a mod n"

definition ROUND_UP :: "u32 \<Rightarrow> u32 \<Rightarrow> u32" where
  "ROUND_UP a n = ROUND_DOWN (a + n - 1) n"

text \<open>
  On a 64-bit argument the macros still compute in \<^verbatim>\<open>uint32_t\<close> and only cast the result
  back.
\<close>

definition ROUND_DOWN64 :: "u64 \<Rightarrow> u32 \<Rightarrow> u64" where
  "ROUND_DOWN64 a n = ucast (ROUND_DOWN (ucast a) n)"

definition ROUND_UP64 :: "u64 \<Rightarrow> u32 \<Rightarrow> u64" where
  "ROUND_UP64 a n = ucast (ROUND_UP (ucast a) n)"

section \<open>Page descriptors and addresses\<close>

definition page2pa :: "nat \<Rightarrow> u32" where
  "page2pa page = push_bit PG_SHIFT (of_nat page)"

definition page2kva :: "nat \<Rightarrow> u32" where
  "page2kva page = KERNEL_BASE + page2pa page"

definition pa2page :: "u32 \<Rightarrow> nat" where
  "pa2page pa = unat (drop_bit PG_SHIFT pa)"

definition kva2page :: "u32 \<Rightarrow> nat" where
  "kva2page kva = pa2page (P_ADDR kva)"

section \<open>Lemmas\<close>

lemma P_ADDR_K_ADDR [addr_simps]: "P_ADDR (K_ADDR pa) = pa"
  and K_ADDR_P_ADDR [addr_simps]: "K_ADDR (P_ADDR kva) = kva"
  by (simp_all add: P_ADDR_def K_ADDR_def)

lemma page2kva_K_ADDR: "page2kva p = K_ADDR (page2pa p)"
  by (simp add: page2kva_def K_ADDR_def add.commute)

lemma unat_mask_less: "unat (x AND 1023 :: u32) < 1024"
proof -
  have "x AND 1023 \<le> (1023 :: u32)" by (rule word_and_le1)
  then show ?thesis by (simp add: word_le_nat_alt)
qed

lemma PDX_less: "unat (PDX la) < 1024" and PTX_less: "unat (PTX la) < 1024"
  by (simp_all add: PDX_def PTX_def PDX_MASK_def PTX_MASK_def unat_mask_less)

text \<open>The masks as \<open>take_bit\<close>, for reasoning bit by bit.\<close>

lemma PDX_bits: "PDX la = take_bit 10 (drop_bit 22 la)"
  and PTX_bits: "PTX la = take_bit 10 (drop_bit 12 la)"
  by (simp_all add: PDX_def PTX_def paging_consts take_bit_eq_mask mask_eq_exp_minus_1)

lemma PG_OFF_bits: "PG_OFF la = take_bit 12 la"
  by (simp add: PG_OFF_def paging_consts take_bit_eq_mask mask_eq_exp_minus_1)

lemma PTE_ADDR_bits: "PTE_ADDR x = x AND NOT (mask 12)"
  by (simp add: PTE_ADDR_def mask_eq_exp_minus_1)

lemma page2pa_bits: "page2pa p = push_bit 12 (of_nat p)"
  by (simp add: page2pa_def PG_SHIFT_def)

lemma PG_ADDR_bits: "PG_ADDR d t off = push_bit 22 d OR push_bit 12 t OR off"
  by (simp add: PG_ADDR_def paging_consts)

lemmas bits_simps = PDX_bits PTX_bits PG_OFF_bits PTE_ADDR_bits page2pa_bits PG_ADDR_bits

text \<open>An address is put together from its directory index, table index and offset.\<close>

lemma PG_ADDR_parts [addr_simps]: "PG_ADDR (PDX la) (PTX la) (PG_OFF la) = la"
proof (rule bit_word_eqI)
  fix n
  assume "n < LENGTH(32)"
  then show "bit (PG_ADDR (PDX la) (PTX la) (PG_OFF la)) n = bit la n"
    by (cases "n < 12"; cases "n < 22") (auto simp: bits_simps bit_simps)
qed

lemma less_1024_take_bit: "unat (d :: u32) < 1024 \<Longrightarrow> take_bit 10 d = d"
  by (simp add: take_bit_eq_mod word_unat_eq_iff unat_mod)

lemma less_4096_take_bit: "unat (d :: u32) < 4096 \<Longrightarrow> take_bit 12 d = d"
  by (simp add: take_bit_eq_mod word_unat_eq_iff unat_mod)

lemma bit_less_1024: "unat (d :: u32) < 1024 \<Longrightarrow> bit d n \<Longrightarrow> n < 10"
  by (metis less_1024_take_bit bit_take_bit_iff)

lemma bit_less_4096: "unat (d :: u32) < 4096 \<Longrightarrow> bit d n \<Longrightarrow> n < 12"
  by (metis less_4096_take_bit bit_take_bit_iff)

lemma PDX_PG_ADDR:
  "unat d < 1024 \<Longrightarrow> unat t < 1024 \<Longrightarrow> unat off < 4096 \<Longrightarrow> PDX (PG_ADDR d t off) = d"
  by (rule bit_word_eqI) (auto simp: bits_simps bit_simps dest: bit_less_1024 bit_less_4096)

lemma PTX_PG_ADDR:
  "unat d < 1024 \<Longrightarrow> unat t < 1024 \<Longrightarrow> unat off < 4096 \<Longrightarrow> PTX (PG_ADDR d t off) = t"
  by (rule bit_word_eqI) (auto simp: bits_simps bit_simps dest: bit_less_1024 bit_less_4096)


text \<open>Frame numbers: physical addresses as numbers.\<close>

lemma unat_page2pa: "p < 2 ^ 20 \<Longrightarrow> unat (page2pa p) = p * 4096"
  by (simp add: page2pa_bits push_bit_eq_mult unat_word_ariths unat_of_nat)

lemma unat_pa2page: "pa2page pa = unat pa div 4096"
  by (simp add: pa2page_def PG_SHIFT_def drop_bit_eq_div unat_div)

lemma pa2page_less: "pa2page pa < 2 ^ 20"
  using unsigned_less [of pa, where ?'a = nat] by (simp add: unat_pa2page div_less_iff_less_mult)

lemma pa2page_page2pa [addr_simps]: "p < 2 ^ 20 \<Longrightarrow> pa2page (page2pa p) = p"
  by (simp add: unat_pa2page unat_page2pa)

lemma kva2page_page2kva [addr_simps]: "p < 2 ^ 20 \<Longrightarrow> kva2page (page2kva p) = p"
  by (simp add: kva2page_def page2kva_K_ADDR addr_simps)

lemma page2pa_inj: "p < 2 ^ 20 \<Longrightarrow> q < 2 ^ 20 \<Longrightarrow> page2pa p = page2pa q \<Longrightarrow> p = q"
  using pa2page_page2pa by metis

lemma page2pa_pa2page: "page2pa (pa2page pa) = PTE_ADDR pa"
  by (rule bit_word_eqI) (auto simp: bits_simps pa2page_def PG_SHIFT_def bit_simps)

lemma PTE_ADDR_idem [addr_simps]: "PTE_ADDR (PTE_ADDR x) = PTE_ADDR x"
  by (simp add: PTE_ADDR_def and.assoc)

text \<open>An entry made from a frame and flag bits: the frame and the flags can be read back.\<close>

lemma PTE_ADDR_entry [addr_simps]:
  assumes "unat perm < 4096"
  shows "PTE_ADDR (page2pa p OR perm) = page2pa p"
  by (intro bit_word_eqI) (auto simp: bits_simps bit_simps dest: bit_less_4096 [OF assms])

lemma entry_flags:
  assumes "unat m < 4096"
  shows "(page2pa p OR perm) AND m = perm AND m"
  by (intro bit_word_eqI) (auto simp: bits_simps bit_simps dest: bit_less_4096 [OF assms])

text \<open>The frame a kernel virtual address lies in.\<close>

lemma kva2page_K_ADDR: "kva2page (K_ADDR pa) = pa2page pa"
  by (simp add: kva2page_def addr_simps)

lemma in_frame_iff:
  assumes "p < 2 ^ 20"
  shows "unat (a - page2kva p) < 4096 \<longleftrightarrow> kva2page a = p"
proof -
  obtain x where x: "x = P_ADDR a" by simp
  have a: "a - page2kva p = x - page2pa p"
    by (simp add: x P_ADDR_def page2kva_def)
  have "unat x div 4096 = p \<longleftrightarrow> p * 4096 \<le> unat x \<and> unat x < p * 4096 + 4096"
    by auto
  also have "\<dots> \<longleftrightarrow> unat (x - page2pa p) < 4096"
  proof (cases "page2pa p \<le> x")
    case True
    then show ?thesis
      using unat_page2pa [OF assms] by (auto simp: unat_sub word_le_nat_alt)
  next
    case False
    have "unat (x - page2pa p) = unat x + 2 ^ 32 - p * 4096"
      using False unat_page2pa [OF assms] by (simp add: unat_sub_if_size word_size word_le_nat_alt)
    then show ?thesis
      using False unat_page2pa [OF assms] assms by (auto simp: word_le_nat_alt)
  qed
  finally show ?thesis by (auto simp: a kva2page_def unat_pa2page x)
qed

section \<open>Rounding to pages\<close>

lemma ROUND_DOWN_page: "ROUND_DOWN a PG_SIZE = PTE_ADDR a"
proof -
  have "a mod 4096 = take_bit 12 a" by (simp add: take_bit_eq_mod)
  moreover have "a = PTE_ADDR a + take_bit 12 a"
  proof -
    have "PTE_ADDR a + take_bit 12 a = PTE_ADDR a OR take_bit 12 a"
      by (rule disjunctive_add) (auto simp: bits_simps bit_simps)
    also have "\<dots> = a" by (rule bit_word_eqI) (auto simp: bits_simps bit_simps)
    finally show ?thesis by simp
  qed
  ultimately show ?thesis by (simp add: ROUND_DOWN_def PG_SIZE_def algebra_simps)
qed

lemma unat_ROUND_DOWN: "unat (ROUND_DOWN a PG_SIZE) = unat a div 4096 * 4096"
proof -
  have "a mod 4096 \<le> a" by (simp add: word_le_nat_alt unat_mod)
  then show ?thesis
    by (simp only: ROUND_DOWN_def PG_SIZE_def unat_sub unat_mod)
      (simp add: minus_mod_eq_div_mult)
qed

lemma unat_ROUND_UP:
  assumes "unat a + 4095 < 2 ^ 32"
  shows "unat (ROUND_UP a PG_SIZE) = (unat a + 4095) div 4096 * 4096"
proof -
  have "a + PG_SIZE - 1 = a + 4095" by (simp add: PG_SIZE_def)
  moreover have "unat (a + 4095) = unat a + 4095"
    using assms by (subst unat_add_small) simp_all
  ultimately show ?thesis by (simp only: ROUND_UP_def unat_ROUND_DOWN)
qed

end
