(* ===== verification/Mem.thy ===== *)
theory Mem
  imports Mmu
begin

text \<open>
  Byte memory of the kernel's address space, with the little-endian 16-, 32- and 64-bit
  accesses the compiled C code makes through pointers, and the two copying loops of
  \<^verbatim>\<open>kern/include/memory.h\<close>. Addresses are kernel virtual addresses and wrap around.
\<close>

type_synonym memory = "u32 \<Rightarrow> u8"

section \<open>Accesses\<close>

definition load16 :: "memory \<Rightarrow> u32 \<Rightarrow> u16" where
  "load16 m a = ucast (m a) OR push_bit 8 (ucast (m (a + 1)))"

definition load32 :: "memory \<Rightarrow> u32 \<Rightarrow> u32" where
  "load32 m a = ucast (m a) OR push_bit 8 (ucast (m (a + 1))) OR
     push_bit 16 (ucast (m (a + 2))) OR push_bit 24 (ucast (m (a + 3)))"

definition load64 :: "memory \<Rightarrow> u32 \<Rightarrow> u64" where
  "load64 m a = ucast (load32 m a) OR push_bit 32 (ucast (load32 m (a + 4)))"

definition store16 :: "u32 \<Rightarrow> u16 \<Rightarrow> memory \<Rightarrow> memory" where
  "store16 a v m = m(a := ucast v, a + 1 := ucast (drop_bit 8 v))"

definition store32 :: "u32 \<Rightarrow> u32 \<Rightarrow> memory \<Rightarrow> memory" where
  "store32 a v m = m(a := ucast v, a + 1 := ucast (drop_bit 8 v),
     a + 2 := ucast (drop_bit 16 v), a + 3 := ucast (drop_bit 24 v))"

section \<open>\<^verbatim>\<open>memset\<close> and \<^verbatim>\<open>memcpy\<close>\<close>

fun mem_set :: "u32 \<Rightarrow> u8 \<Rightarrow> nat \<Rightarrow> memory \<Rightarrow> memory" where
  "mem_set s c 0 m = m"
| "mem_set s c (Suc n) m = mem_set (s + 1) c n (m(s := c))"

fun mem_cpy :: "u32 \<Rightarrow> u32 \<Rightarrow> nat \<Rightarrow> memory \<Rightarrow> memory" where
  "mem_cpy d s 0 m = m"
| "mem_cpy d s (Suc n) m = mem_cpy (d + 1) (s + 1) n (m(d := m s))"

section \<open>Reading back\<close>

lemma load32_store32 [mem_simps]: "load32 (store32 a v m) a = v"
proof (rule bit_word_eqI)
  fix n
  assume n: "n < LENGTH(32)"
  have b: "store32 a v m a = ucast v" "store32 a v m (a + 1) = ucast (drop_bit 8 v)"
    "store32 a v m (a + 2) = ucast (drop_bit 16 v)" "store32 a v m (a + 3) = ucast (drop_bit 24 v)"
    by (simp_all add: store32_def)
  show "bit (load32 (store32 a v m) a) n = bit v n"
    unfolding load32_def b using n
    by (cases "n < 8"; cases "n < 16"; cases "n < 24") (auto simp: bit_simps)
qed

lemma load32_cong:
  assumes "\<And>i. i < 4 \<Longrightarrow> m' (a + of_nat i) = m (a + of_nat i)"
  shows "load32 m' a = load32 m a"
  using assms [of 0] assms [of 1] assms [of 2] assms [of 3] by (simp add: load32_def)

text \<open>Aligned words at different addresses do not overlap.\<close>

definition aligned4 :: "u32 \<Rightarrow> bool" where
  "aligned4 a \<longleftrightarrow> unat a mod 4 = 0"

lemma aligned4_add:
  assumes "aligned4 a" and "i < 4"
  shows "unat (a + of_nat i) = unat a + i"
proof -
  have "unat a < 2 ^ 32" by simp
  moreover have "4 dvd unat a" "(4 :: nat) dvd 2 ^ 32"
    using assms(1) by (auto simp: aligned4_def)
  ultimately have "unat a + 4 \<le> 2 ^ 32" by presburger
  moreover have "unat (of_nat i :: u32) = i" using assms(2) by (simp add: unat_of_nat)
  ultimately show ?thesis using assms(2) by (subst unat_add_small) auto
qed

lemma aligned4_disjoint:
  assumes "aligned4 a" "aligned4 b" "a \<noteq> b" "i < 4" "j < 4"
  shows "a + of_nat i \<noteq> b + of_nat j"
proof
  assume "a + of_nat i = b + of_nat j"
  then have "unat a + i = unat b + j"
    using aligned4_add assms by metis
  moreover have "4 dvd unat a" "4 dvd unat b"
    using assms(1,2) by (auto simp: aligned4_def)
  ultimately have "unat a = unat b" using assms(4,5) by presburger
  then show False using assms(3) by (simp add: word_unat_eq_iff)
qed

lemma store32_other:
  assumes "\<And>i. i < 4 \<Longrightarrow> b \<noteq> a + of_nat i"
  shows "store32 a v m b = m b"
  using assms [of 0] assms [of 1] assms [of 2] assms [of 3] by (simp add: store32_def)

lemma load32_store32_other:
  assumes "aligned4 a" "aligned4 b" "a \<noteq> b"
  shows "load32 (store32 a v m) b = load32 m b"
  by (rule load32_cong, rule store32_other) (use aligned4_disjoint assms in metis)

section \<open>\<^verbatim>\<open>memset\<close> in closed form\<close>

lemma mem_set_apply:
  "n \<le> 2 ^ 32 \<Longrightarrow> mem_set s c n m a = (if unat (a - s) < n then c else m a)"
proof (induction n arbitrary: s m)
  case 0
  then show ?case by simp
next
  case (Suc n)
  show ?case
  proof (cases "a = s")
    case True
    have "s - (s + 1) = - 1" by simp
    then have "unat (s - (s + 1)) = 2 ^ 32 - 1"
      by (simp only: unsigned_minus_1_eq_mask mask_eq_exp_minus_1) simp
    then show ?thesis using Suc True by simp
  next
    case False
    have e: "a - (s + 1) = (a - s) - 1" by simp
    have "unat ((a - s) - 1) = unat (a - s) - 1"
      using False by (intro unat_minus_one) simp
    moreover have "0 < unat (a - s)" using False by (simp add: unat_gt_0)
    ultimately have "Suc (unat (a - (s + 1))) = unat (a - s)" unfolding e by simp
    then show ?thesis using Suc False by auto
  qed
qed

lemma mem_set_page:
  assumes "p < 2 ^ 20"
  shows "mem_set (page2kva p) c 4096 m a = (if kva2page a = p then c else m a)"
  using in_frame_iff [OF assms] by (simp add: mem_set_apply)

section \<open>Words inside a frame\<close>

text \<open>The \<open>i\<close>-th 32-bit word of frame \<open>p\<close>; a page table is such a frame.\<close>

definition entry_addr :: "nat \<Rightarrow> nat \<Rightarrow> u32" where
  "entry_addr p i = page2kva p + 4 * of_nat i"

lemma P_ADDR_unat: "unat (P_ADDR (page2kva p + w)) = unat (page2pa p + w)"
  by (simp add: P_ADDR_def page2kva_def)

lemma entry_addr_byte:
  assumes "p < 2 ^ 20" "i < 1024" "j < 4"
  shows "unat (P_ADDR (entry_addr p i + of_nat j)) = p * 4096 + 4 * i + j"
proof -
  have w: "unat (4 * of_nat i + of_nat j :: u32) = 4 * i + j"
    using assms(2,3) by (simp add: unat_word_ariths unat_of_nat)
  have "unat (page2pa p + (4 * of_nat i + of_nat j)) = p * 4096 + (4 * i + j)"
    using assms w unat_page2pa [OF assms(1)] by (subst unat_add_small) auto
  then show ?thesis
    using P_ADDR_unat [of p "4 * of_nat i + of_nat j"] by (simp add: entry_addr_def add.assoc)
qed

lemma entry_addr_frame [addr_simps]:
  assumes "p < 2 ^ 20" "i < 1024" "j < 4"
  shows "kva2page (entry_addr p i + of_nat j) = p"
  using entry_addr_byte [OF assms] assms(2,3) by (simp add: kva2page_def unat_pa2page)

lemma entry_addr_inj:
  assumes "p < 2 ^ 20" "q < 2 ^ 20" "i < 1024" "j < 1024" "entry_addr p i = entry_addr q j"
  shows "p = q \<and> i = j"
proof -
  have e: "p * 4096 + 4 * i = q * 4096 + 4 * j"
    using entry_addr_byte [of p i 0] entry_addr_byte [of q j 0] assms by simp
  have "p = (p * 4096 + 4 * i) div 4096" "q = (q * 4096 + 4 * j) div 4096"
    using assms(3,4) by simp_all
  then have "p = q" using e by metis
  then show ?thesis using e by simp
qed

lemma aligned4_entry_addr:
  assumes "p < 2 ^ 20" "i < 1024"
  shows "aligned4 (entry_addr p i)"
proof -
  have "entry_addr p i = 4 * (of_nat i + 1024 * of_nat p + 0x30000000)"
    by (simp add: entry_addr_def page2kva_def page2pa_bits push_bit_eq_mult KERNEL_BASE_def
      algebra_simps)
  then have "unat (entry_addr p i) =
    (4 * unat (of_nat i + 1024 * of_nat p + 0x30000000 :: u32)) mod 4294967296"
    using unat_word_ariths(2) [of "4 :: u32" "of_nat i + 1024 * of_nat p + 0x30000000"] by simp
  moreover have "(4 * k :: nat) mod 4294967296 mod 4 = 0" for k
    by (simp add: mod_mod_cancel)
  ultimately show ?thesis unfolding aligned4_def by metis
qed

definition entry :: "memory \<Rightarrow> nat \<Rightarrow> nat \<Rightarrow> u32" where
  "entry m p i = load32 m (entry_addr p i)"

lemma entry_store [mem_simps]:
  assumes "p < 2 ^ 20" "q < 2 ^ 20" "i < 1024" "j < 1024"
  shows "entry (store32 (entry_addr p i) v m) q j = (if q = p \<and> j = i then v else entry m q j)"
proof (cases "q = p \<and> j = i")
  case True
  then show ?thesis by (simp add: entry_def load32_store32)
next
  case False
  then have "entry_addr p i \<noteq> entry_addr q j" using entry_addr_inj assms by blast
  then show ?thesis
    using False assms by (auto simp: entry_def load32_store32_other aligned4_entry_addr)
qed

lemma entry_zero_page [mem_simps]:
  assumes "p < 2 ^ 20" "q < 2 ^ 20" "j < 1024"
  shows "entry (mem_set (page2kva p) 0 4096 m) q j = (if q = p then 0 else entry m q j)"
proof (cases "q = p")
  case True
  have b: "mem_set (page2kva p) 0 4096 m (entry_addr p j + of_nat k) = 0" if "k < 4" for k
    using assms that by (simp add: mem_set_page entry_addr_frame)
  show ?thesis
    using True b [of 0] b [of 1] b [of 2] b [of 3] by (simp add: entry_def load32_def)
next
  case False
  have "load32 (mem_set (page2kva p) 0 4096 m) (entry_addr q j) = load32 m (entry_addr q j)"
    by (rule load32_cong) (use assms False in \<open>simp add: mem_set_page entry_addr_frame\<close>)
  then show ?thesis using False by (simp add: entry_def)
qed

end
