(* ===== verification/Pmm.thy ===== *)
theory Pmm
  imports FirstFitLaws Mem
begin

text \<open>
  \<^verbatim>\<open>kern/mm/pmm.c\<close>: the wrappers that call the memory manager with interrupts off, the
  page-table walk, mapping and allocation of pages, \<^verbatim>\<open>kmalloc\<close>, and the boot-time
  discovery of memory from the BIOS map (\<^verbatim>\<open>kern/arch/x86/e820.c\<close>). The machine state
  adds to the manager's state the byte memory, the registers the code reads and the list of
  the addresses whose TLB entry was invalidated. \<open>pages\<close> is an array of its own, separate
  from the byte memory.
\<close>

section \<open>The machine state\<close>

record mach = pmm +
  mem :: memory
  cr2 :: u32
  cr3 :: u32
  if_flag :: bool
  flushed :: "u32 list"

definition upd_mem :: "(memory \<Rightarrow> memory) \<Rightarrow> 'a mach_scheme \<Rightarrow> 'a mach_scheme" where
  "upd_mem f s = s\<lparr>mem := f (mem s)\<rparr>"

section \<open>Interrupt flag\<close>

definition intr_enable :: "'a mach_scheme \<Rightarrow> 'a mach_scheme" where
  "intr_enable s = s\<lparr>if_flag := True\<rparr>"

definition intr_disable :: "'a mach_scheme \<Rightarrow> 'a mach_scheme" where
  "intr_disable s = s\<lparr>if_flag := False\<rparr>"

definition intr_save :: "'a mach_scheme \<Rightarrow> bool \<times> 'a mach_scheme" where
  "intr_save s = (if if_flag s then (True, intr_disable s) else (False, s))"

definition intr_restore :: "bool \<Rightarrow> 'a mach_scheme \<Rightarrow> 'a mach_scheme" where
  "intr_restore flag s = (if flag then intr_enable s else s)"

section \<open>Allocation\<close>

definition alloc_pages :: "u32 \<Rightarrow> 'a mach_scheme \<Rightarrow> (nat option \<times> 'a mach_scheme) res" where
  "alloc_pages n s =
     (let (flag, s) = intr_save s in
      bindE (ff_alloc n s) (\<lambda>(page, s).
      Inr (page, intr_restore flag s)))"

definition pages_free :: "nat \<Rightarrow> u32 \<Rightarrow> 'a mach_scheme \<Rightarrow> (unit \<times> 'a mach_scheme) res" where
  "pages_free base n s =
     (let (flag, s) = intr_save s in
      bindE (ff_free base n s) (\<lambda>(_, s).
      Inr ((), intr_restore flag s)))"

definition kmalloc :: "u32 \<Rightarrow> 'a mach_scheme \<Rightarrow> (u32 \<times> 'a mach_scheme) res" where
  "kmalloc sz s =
     bindE (alloc_pages 1 s) (\<lambda>(page, s).
     Inr (case page of Some p \<Rightarrow> page2kva p | None \<Rightarrow> 0, s))"

definition kfree :: "u32 \<Rightarrow> 'a mach_scheme \<Rightarrow> (unit \<times> 'a mach_scheme) res" where
  "kfree ptr s = (if ptr \<noteq> 0 then pages_free (kva2page ptr) 1 s else Inr ((), s))"

section \<open>Page tables\<close>

text \<open>Pointers to table entries are addresses; the null pointer is \<open>0\<close>.\<close>

definition get_pte :: "u32 \<Rightarrow> u32 \<Rightarrow> bool \<Rightarrow> 'a mach_scheme \<Rightarrow> (u32 \<times> 'a mach_scheme) res" where
  "get_pte pgdir la create s =
     (let pdep = pgdir + 4 * PDX la;
          ptep = (\<lambda>s. K_ADDR (PDE_ADDR (load32 (mem s) pdep)) + 4 * PTX la)
      in if load32 (mem s) pdep AND PTE_P = 0 then
           if \<not> create then Inr (0, s)
           else bindE (alloc_pages 1 s) (\<lambda>(page, s).
             case page of
               None \<Rightarrow> Inr (0, s)
             | Some p \<Rightarrow>
                 let s = upd_page p (\<lambda>d. d\<lparr>pd_ref := 1\<rparr>) s;
                     pa = page2pa p;
                     s = upd_mem (mem_set (K_ADDR pa) 0 (unat PG_SIZE)) s;
                     s = upd_mem (store32 pdep (pa OR PTE_USER)) s
                 in Inr (ptep s, s))
         else Inr (ptep s, s))"

definition tlb_invl :: "u32 \<Rightarrow> u32 \<Rightarrow> 'a mach_scheme \<Rightarrow> 'a mach_scheme" where
  "tlb_invl pgdir la s =
     (if cr3 s = P_ADDR pgdir then s\<lparr>flushed := la # flushed s\<rparr> else s)"

definition page_insert ::
  "u32 \<Rightarrow> nat \<Rightarrow> u32 \<Rightarrow> u32 \<Rightarrow> 'a mach_scheme \<Rightarrow> (bool \<times> 'a mach_scheme) res" where
  "page_insert pgdir page la perm s =
     bindE (get_pte pgdir la True s) (\<lambda>(ptep, s).
     if ptep = 0 then Inr (False, s)
     else
       let s = upd_page page (\<lambda>d. d\<lparr>pd_ref := pd_ref d + 1\<rparr>) s;
           s = upd_mem (store32 ptep (page2pa page OR perm OR PTE_P)) s
       in Inr (True, tlb_invl pgdir la s))"

definition pgdir_alloc_page ::
  "u32 \<Rightarrow> u32 \<Rightarrow> u32 \<Rightarrow> 'a mach_scheme \<Rightarrow> (nat option \<times> 'a mach_scheme) res" where
  "pgdir_alloc_page pgdir la perm s =
     bindE (alloc_pages 1 s) (\<lambda>(page, s).
     case page of
       None \<Rightarrow> Inr (None, s)
     | Some p \<Rightarrow> bindE (page_insert pgdir p la perm s) (\<lambda>(_, s). Inr (Some p, s)))"

section \<open>Physical memory discovery\<close>

definition E820_MEM_BASE :: u32 where "E820_MEM_BASE = 0x8000"
definition E820_RAM :: u32 where "E820_RAM = 1"

text \<open>
  The map starts with the signed count; the packed items of 20 bytes follow it. The result is
  \<open>None\<close> for the return value 0.
\<close>

definition e820map_get_items :: "int \<Rightarrow> memory \<Rightarrow> (u64 \<times> u64 \<times> u32) option" where
  "e820map_get_items index m =
     (let e820map = E820_MEM_BASE + KERNEL_BASE;
          item = e820map + 4 + 20 * of_int index
      in if sint (load32 m e820map) \<le> index then None
         else Some (load64 m item, load64 m (item + 8), load32 m (item + 16)))"

definition PAG_NUM :: "u64 \<Rightarrow> u64" where
  "PAG_NUM a = drop_bit PG_SHIFT a"

text \<open>The first loop of \<^verbatim>\<open>page_init\<close>: the end of the highest RAM region.\<close>

function max_pa_loop :: "int \<Rightarrow> memory \<Rightarrow> u64 \<Rightarrow> u64" where
  "max_pa_loop index m max_pa =
     (case e820map_get_items index m of
        None \<Rightarrow> max_pa
      | Some (addr, sz, type) \<Rightarrow>
          max_pa_loop (index + 1) m
            (if type = E820_RAM \<and> max_pa < addr + sz then addr + sz else max_pa))"
  by pat_completeness auto

termination
  by (relation "measure (\<lambda>(i, m, _). nat (sint (load32 m (E820_MEM_BASE + KERNEL_BASE)) - i))")
    (auto simp: e820map_get_items_def Let_def split: if_splits)

declare max_pa_loop.simps [simp del]

fun reserve_all :: "nat \<Rightarrow> nat \<Rightarrow> 'a pmm_scheme \<Rightarrow> 'a pmm_scheme" where
  "reserve_all i 0 s = s"
| "reserve_all i (Suc k) s = reserve_all (Suc i) k (upd_page i (set_bit_flag PG_RESERVED) s)"

text \<open>The body of the second loop, for one RAM item.\<close>

definition init_region :: "u32 \<Rightarrow> u64 \<Rightarrow> u64 \<Rightarrow> 'a pmm_scheme \<Rightarrow> 'a pmm_scheme" where
  "init_region valid_mem addr sz s =
     (let limit = addr + sz;
          addr = (if addr < ucast valid_mem then ucast valid_mem else addr)
      in if addr < limit then
           let addr = ROUND_UP64 addr PG_SIZE;
               limit = ROUND_DOWN64 limit PG_SIZE
           in ff_init_memmap (pa2page (ucast addr)) (ucast (PAG_NUM (limit - addr))) s
         else s)"

lemma ff_init_memmap_more: "pmm.more (ff_init_memmap b n s) = pmm.more s"
  by (simp add: ff_init_memmap_def Let_def page_simps)

lemma init_region_mem [simp]: "mem (init_region v a z s) = mem s"
proof -
  have "pmm.more (init_region v a z s) = pmm.more s"
    by (simp add: init_region_def Let_def ff_init_memmap_more)
  then show ?thesis by (cases s; cases "init_region v a z s") simp
qed

function memmap_loop :: "int \<Rightarrow> u32 \<Rightarrow> 'a mach_scheme \<Rightarrow> 'a mach_scheme" where
  "memmap_loop index valid_mem s =
     (case e820map_get_items index (mem s) of
        None \<Rightarrow> s
      | Some (addr, sz, type) \<Rightarrow>
          memmap_loop (index + 1) valid_mem
            (if type = E820_RAM then init_region valid_mem addr sz s else s))"
  by pat_completeness auto

termination
  by (relation "measure (\<lambda>(i, _, s). nat (sint (load32 (mem s) (E820_MEM_BASE + KERNEL_BASE)) - i))")
    (auto simp: e820map_get_items_def Let_def split: if_splits)

declare memmap_loop.simps [simp del]

text \<open>\<open>kernel_end\<close> is the linker's symbol; a descriptor takes 20 bytes.\<close>

definition PAGE_DESC_SIZE :: u32 where "PAGE_DESC_SIZE = 20"

definition page_init :: "u32 \<Rightarrow> 'a mach_scheme \<Rightarrow> 'a mach_scheme" where
  "page_init kernel_end s =
     (let max_pa = max_pa_loop 0 (mem s) 0;
          s = s\<lparr>npage := ucast (PAG_NUM max_pa)\<rparr>;
          pages_base = ROUND_UP kernel_end PG_SIZE;
          s = reserve_all 0 (unat (npage s)) s;
          valid_mem = P_ADDR (pages_base + PAGE_DESC_SIZE * npage s)
      in memmap_loop 0 valid_mem s)"

definition pmm_init :: "u32 \<Rightarrow> 'a mach_scheme \<Rightarrow> 'a mach_scheme" where
  "pmm_init kernel_end s = page_init kernel_end (ff_init s)"

end
