(* ===== verification/PageTables.thy ===== *)
theory PageTables
  imports Pmm
begin

text \<open>
  What the page-table code does to an address space. A directory and its tables are read as
  one map from directory and table index to the entry (\<open>vm_entry\<close>, \<open>0\<close> when nothing is
  mapped); the invariant \<open>pgdir_ok\<close> keeps the tables apart from each other, from the
  directory and from the free frames. The directory's own slot for the virtual page table
  (\<open>VPT_IDX\<close>), which points back to the directory, is left out of the map.
\<close>

section \<open>State components under the operations\<close>

lemma upd_mem_simps [mem_simps]:
  "mem (upd_mem f s) = f (mem s)"
  "links (upd_mem f s) = links s" "pages (upd_mem f s) = pages s"
  "npage (upd_mem f s) = npage s" "nr_free (upd_mem f s) = nr_free s"
  "cr2 (upd_mem f s) = cr2 s" "cr3 (upd_mem f s) = cr3 s" "if_flag (upd_mem f s) = if_flag s"
  "flushed (upd_mem f s) = flushed s" "mach.more (upd_mem f s) = mach.more s"
  by (simp_all add: upd_mem_def)

lemma upd_page_mach [mem_simps]:
  "mem (upd_page p f s) = mem s" "cr2 (upd_page p f s) = cr2 s" "cr3 (upd_page p f s) = cr3 s"
  "if_flag (upd_page p f s) = if_flag s" "flushed (upd_page p f s) = flushed s"
  "mach.more (upd_page p f s) = mach.more s"
  by (simp_all add: upd_page_def)

lemma upd_links_mach [mem_simps]:
  "mem (upd_links f s) = mem s" "cr2 (upd_links f s) = cr2 s" "cr3 (upd_links f s) = cr3 s"
  "if_flag (upd_links f s) = if_flag s" "flushed (upd_links f s) = flushed s"
  "mach.more (upd_links f s) = mach.more s"
  by (simp_all add: upd_links_def)

lemma more_eq_mach:
  assumes "pmm.more s' = pmm.more (s :: 'a mach_scheme)"
  shows "mem s' = mem s" "cr2 s' = cr2 s" "cr3 s' = cr3 s" "if_flag s' = if_flag s"
    "flushed s' = flushed s" "mach.more s' = mach.more s"
  using assms by (cases s; cases s'; simp)+

text \<open>The free list does not depend on memory, registers or reference counts.\<close>

lemma ff_inv_same:
  "links s' = links s \<Longrightarrow> pages s' = pages s \<Longrightarrow> npage s' = npage s \<Longrightarrow> nr_free s' = nr_free s \<Longrightarrow>
   ff_inv s' = ff_inv s"
  by (simp add: ff_inv_def block_ok_def fun_eq_iff)

lemma ff_inv_mach [simp]:
  "ff_inv (upd_mem f s) = ff_inv s" "ff_inv (s\<lparr>if_flag := b\<rparr>) = ff_inv s"
  "ff_inv (s\<lparr>flushed := fl\<rparr>) = ff_inv s" "ff_inv (s\<lparr>cr2 := v\<rparr>) = ff_inv s"
  "ff_inv (s\<lparr>cr3 := v\<rparr>) = ff_inv s"
  by (simp_all add: ff_inv_def block_ok_def fun_eq_iff upd_mem_def)

lemma ff_inv_ref [simp]: "ff_inv (upd_page p (\<lambda>d. d\<lparr>pd_ref := r d\<rparr>) s) = ff_inv s"
  by (auto simp: ff_inv_def block_ok_def fun_eq_iff page_simps test_bit_flag_def)

lemma ff_ok_avail_cong:
  "ff_inv s = ff_inv s' \<Longrightarrow> ff_ok s = ff_ok s'"
  "ff_inv s = ff_inv s' \<Longrightarrow> ff_avail s = ff_avail s'"
  by (simp_all add: ff_ok_def ff_avail_def)

lemma ff_ok_avail_same:
  assumes "links s' = links s" "pages s' = pages s" "npage s' = npage s" "nr_free s' = nr_free s"
  shows "ff_ok s' = ff_ok s" "ff_avail s' = ff_avail s"
  using ff_inv_same [OF assms] by (simp_all add: ff_ok_def ff_avail_def)

lemma ff_ok_avail_mach [simp]:
  "ff_ok (upd_mem f s) = ff_ok s" "ff_avail (upd_mem f s) = ff_avail s"
  "ff_ok (s\<lparr>if_flag := b\<rparr>) = ff_ok s" "ff_avail (s\<lparr>if_flag := b\<rparr>) = ff_avail s"
  "ff_ok (s\<lparr>flushed := fl\<rparr>) = ff_ok s" "ff_avail (s\<lparr>flushed := fl\<rparr>) = ff_avail s"
  "ff_ok (s\<lparr>cr2 := v\<rparr>) = ff_ok s" "ff_avail (s\<lparr>cr2 := v\<rparr>) = ff_avail s"
  "ff_ok (s\<lparr>cr3 := v\<rparr>) = ff_ok s" "ff_avail (s\<lparr>cr3 := v\<rparr>) = ff_avail s"
  "ff_ok (upd_page p (\<lambda>d. d\<lparr>pd_ref := r d\<rparr>) s) = ff_ok s"
  "ff_avail (upd_page p (\<lambda>d. d\<lparr>pd_ref := r d\<rparr>) s) = ff_avail s"
  by (simp_all only: ff_ok_def ff_avail_def ff_inv_mach ff_inv_ref)

section \<open>Allocating and freeing through the wrappers\<close>

lemma intr_save_restore:
  assumes "pmm.more s1 = pmm.more (snd (intr_save s))"
  shows "pmm.more (intr_restore (fst (intr_save s)) s1) = pmm.more s"
  using assms
  by (cases s; cases s1)
    (auto simp: intr_save_def intr_restore_def intr_disable_def intr_enable_def split: if_splits)

lemma intr_frames [simp]:
  "ff_ok (intr_restore b s) = ff_ok s" "ff_avail (intr_restore b s) = ff_avail s"
  "ff_ok (snd (intr_save s)) = ff_ok s" "ff_avail (snd (intr_save s)) = ff_avail s"
  "links (intr_restore b s) = links s" "pages (intr_restore b s) = pages s"
  "npage (intr_restore b s) = npage s" "nr_free (intr_restore b s) = nr_free s"
  "links (snd (intr_save s)) = links s" "pages (snd (intr_save s)) = pages s"
  "npage (snd (intr_save s)) = npage s" "nr_free (snd (intr_save s)) = nr_free s"
  by (simp_all add: intr_restore_def intr_save_def intr_enable_def intr_disable_def)

lemma alloc_pages_eq:
  "alloc_pages n s = bindE (ff_alloc n (snd (intr_save s)))
     (\<lambda>(page, s1). Inr (page, intr_restore (fst (intr_save s)) s1))"
  by (simp add: alloc_pages_def case_prod_unfold Let_def)

lemma pages_free_eq:
  "pages_free p n s = bindE (ff_free p n (snd (intr_save s)))
     (\<lambda>(_, s1). Inr ((), intr_restore (fst (intr_save s)) s1))"
  by (simp add: pages_free_def case_prod_unfold Let_def)

lemma ff_frame_intr:
  assumes "ff_frame F (snd (intr_save s)) s1"
  shows "ff_frame F s (intr_restore (fst (intr_save s)) s1)"
  using assms intr_save_restore [of s1 s] by (simp add: ff_frame_def)

lemma ff_alloc_framed:
  assumes "ff_ok s" "0 < n" "ff_alloc n s = Inr (r, s')"
  shows "ff_frame (ff_avail s) s s'"
proof -
  obtain bs where inv: "ff_inv s bs" using assms(1) by (auto simp: ff_ok_def)
  then show ?thesis
    using ff_alloc_refines [OF inv assms(2)] assms(3) ff_frame_refl
    by (auto simp: ff_avail_frames split: option.splits)
qed

lemma intr_restore_save: "intr_restore (fst (intr_save s)) (snd (intr_save s)) = s"
  by (simp add: intr_restore_def intr_save_def intr_enable_def intr_disable_def)

text \<open>One page: refused exactly when no frame is left, and only the free list changes.\<close>

lemma alloc_page_none:
  assumes "ff_ok s" "ff_avail s = {}"
  shows "alloc_pages 1 s = Inr (None, s)"
proof -
  have "ff_alloc 1 (snd (intr_save s)) = Inr (None, snd (intr_save s))"
    using ff.alloc_one [of "snd (intr_save s)"] assms by simp
  then show ?thesis by (simp add: alloc_pages_eq intr_restore_save)
qed

lemma alloc_page_some:
  assumes "ff_ok s" "ff_avail s \<noteq> {}"
  obtains p s' where "alloc_pages 1 s = Inr (Some p, s')" "p \<in> ff_avail s" "ff_ok s'"
    "ff_avail s' = ff_avail s - {p}" "ff_frame (ff_avail s) s s'"
proof -
  let ?s0 = "snd (intr_save s)"
  have ok: "ff_ok ?s0" using assms by simp
  obtain p s1 where *: "p \<in> ff_avail s" "ff_alloc 1 ?s0 = Inr (Some p, s1)" "ff_ok s1"
    "ff_avail s1 = ff_avail s - {p}"
    using ff.alloc_one [OF ok] assms(2) by auto
  have "ff_frame (ff_avail s) ?s0 s1"
    using ff_alloc_framed [OF ok _ *(2)] by simp
  from ff_frame_intr [OF this] show ?thesis
    using * by (intro that [of p "intr_restore (fst (intr_save s)) s1"]) (simp_all add: alloc_pages_eq)
qed

lemma ff_avail_npage: "ff_ok s \<Longrightarrow> ff_avail s \<subseteq> {..<unat (npage s)}"
  by (rule ff.avail_limit)

lemma pages_free_range:
  assumes "ff_ok s" "0 < n" "{p..<p + unat n} \<subseteq> {..<unat (npage s)} - ff_avail s"
  obtains s' where "pages_free p n s = Inr ((), s')" "ff_ok s'"
    "ff_avail s' = ff_avail s \<union> {p..<p + unat n}"
    "ff_frame (ff_avail s \<union> {p..<p + unat n}) s s'"
proof -
  let ?s0 = "snd (intr_save s)"
  have "ff_ok ?s0" using assms(1) by simp
  then obtain bs where inv: "ff_inv ?s0 bs" by (auto simp: ff_ok_def)
  have av: "ff_avail s = set (frames bs)" using ff_avail_frames [OF inv] by simp
  have "0 < unat n" using assms(2) by (simp add: word_greater_zero_iff unat_gt_0)
  then have "p + unat n - 1 \<in> {p..<p + unat n}" by auto
  then have "p + unat n - 1 < unat (npage s)" using assms(3) by blast
  then have b: "p + unat n \<le> unat (npage ?s0)" by simp
  have "{p..<p + unat n} \<inter> set (frames bs) = {}" using assms(3) av by auto
  from ff_free_refines [OF inv assms(2) this b] obtain s1 where s1:
    "ff_free p n ?s0 = Inr ((), s1)" "ff_inv s1 (put_back (p, unat n) bs)"
    "ff_frame (set (frames ((p, unat n) # bs))) ?s0 s1" by blast
  have "set (frames (put_back (p, unat n) bs)) = {p..<p + unat n} \<union> set (frames bs)"
    using mset_frames_eq(1) [OF put_back_mset] by simp
  then have "ff_avail s1 = ff_avail s \<union> {p..<p + unat n}"
    using ff_avail_frames [OF s1(2)] av by auto
  moreover have "set (frames ((p, unat n) # bs)) = ff_avail s \<union> {p..<p + unat n}"
    using av by auto
  ultimately show ?thesis
    using s1 ff_frame_intr [OF s1(3)]
    by (intro that [of "intr_restore (fst (intr_save s)) s1"]) (auto simp: pages_free_eq)
qed

section \<open>Directory, tables, address space\<close>

definition VPT_IDX :: nat where "VPT_IDX = unat (PDX VPT)"

definition pde_present :: "memory \<Rightarrow> nat \<Rightarrow> nat \<Rightarrow> bool" where
  "pde_present m pg d \<longleftrightarrow> entry m pg d AND PTE_P \<noteq> 0"

definition table_of :: "memory \<Rightarrow> nat \<Rightarrow> nat \<Rightarrow> nat" where
  "table_of m pg d = pa2page (entry m pg d)"

definition vm_entry :: "memory \<Rightarrow> nat \<Rightarrow> nat \<Rightarrow> nat \<Rightarrow> u32" where
  "vm_entry m pg d t = (if pde_present m pg d then entry m (table_of m pg d) t else 0)"

text \<open>The entry a linear address is translated with.\<close>

definition translate :: "memory \<Rightarrow> nat \<Rightarrow> u32 \<Rightarrow> u32" where
  "translate m pg la = vm_entry m pg (unat (PDX la)) (unat (PTX la))"

definition user_slots :: "nat set" where
  "user_slots = {..<1024} - {VPT_IDX}"

text \<open>Frames the kernel's direct map reaches: \<^verbatim>\<open>KERNEL_MEM_SIZE\<close> over the page size.\<close>

definition KFRAMES :: nat where "KFRAMES = 0x38000"

definition pgdir_ok :: "'a mach_scheme \<Rightarrow> nat \<Rightarrow> bool" where
  "pgdir_ok s pg \<longleftrightarrow>
     ff_ok s \<and> unat (npage s) \<le> KFRAMES \<and> pg < KFRAMES \<and> pg \<notin> ff_avail s \<and>
     (\<forall>d \<in> user_slots. pde_present (mem s) pg d \<longrightarrow>
        table_of (mem s) pg d < KFRAMES \<and> table_of (mem s) pg d \<noteq> pg \<and>
        table_of (mem s) pg d \<notin> ff_avail s) \<and>
     (\<forall>d \<in> user_slots. \<forall>d' \<in> user_slots. pde_present (mem s) pg d \<longrightarrow> pde_present (mem s) pg d' \<longrightarrow>
        table_of (mem s) pg d = table_of (mem s) pg d' \<longrightarrow> d = d')"

lemma VPT_IDX_1003: "VPT_IDX = 1003"
  by (simp add: VPT_IDX_def PDX_bits VPT_def take_bit_eq_mod drop_bit_eq_div)

lemma KFRAMES_less: "p < KFRAMES \<Longrightarrow> p < 2 ^ 20"
  and KFRAMES_less_simp [simp]: "p < KFRAMES \<Longrightarrow> p < 1048576"
  by (simp_all add: KFRAMES_def)

lemma table_of_less: "table_of m pg d < 2 ^ 20"
  using pa2page_less by (simp add: table_of_def)

lemma user_slots_less: "d \<in> user_slots \<Longrightarrow> d < 1024"
  by (simp add: user_slots_def)

text \<open>The addresses the code computes are the words of frames.\<close>

lemma pde_addr: "page2kva pg + 4 * PDX la = entry_addr pg (unat (PDX la))"
  by (simp add: entry_addr_def)

lemma pte_addr: "K_ADDR (PDE_ADDR e) + 4 * PTX la = entry_addr (pa2page e) (unat (PTX la))"
  by (simp add: entry_addr_def PDE_ADDR_def page2kva_K_ADDR page2pa_pa2page)

lemma entry_addr_nonzero:
  assumes "p < KFRAMES" "i < 1024"
  shows "entry_addr p i \<noteq> 0"
proof
  assume "entry_addr p i = 0"
  then have "unat (P_ADDR 0) = p * 4096 + 4 * i"
    using entry_addr_byte [of p i 0] assms by simp
  moreover have "unat (P_ADDR 0) = 0x40000000" by (simp add: P_ADDR_def KERNEL_BASE_def)
  ultimately show False using assms by (simp add: KFRAMES_def)
qed

lemma pa2page_entry:
  assumes "p < 2 ^ 20" "unat perm < 4096"
  shows "pa2page (page2pa p OR perm) = p"
proof -
  have "page2pa (pa2page (page2pa p OR perm)) = page2pa p"
    by (simp add: page2pa_pa2page PTE_ADDR_entry assms)
  then show ?thesis using page2pa_inj assms(1) pa2page_less by metis
qed

lemma entry_present: "(page2pa p OR perm OR PTE_P) AND PTE_P \<noteq> 0"
proof -
  have "(page2pa p OR (perm OR PTE_P)) AND PTE_P = (perm OR PTE_P) AND PTE_P"
    by (rule entry_flags) (simp add: PTE_P_def)
  also have "\<dots> = PTE_P" by simp
  finally show ?thesis by (simp add: or.assoc) (simp add: PTE_P_def)
qed

lemma pde_entry: "(page2pa p OR PTE_USER) AND PTE_P \<noteq> 0"
  using entry_present [of p "PTE_U OR PTE_W"] by (simp add: PTE_USER_def or.assoc)

lemma pgdir_ok_pg: "pgdir_ok s pg \<Longrightarrow> pg < 2 ^ 20"
  and pgdir_ok_ff: "pgdir_ok s pg \<Longrightarrow> ff_ok s"
  and pgdir_ok_free: "pgdir_ok s pg \<Longrightarrow> pg \<notin> ff_avail s"
  by (simp_all add: pgdir_ok_def)

lemma pgdir_ok_table:
  assumes "pgdir_ok s pg" "d \<in> user_slots" "pde_present (mem s) pg d"
  shows "table_of (mem s) pg d < KFRAMES" "table_of (mem s) pg d \<noteq> pg"
    "table_of (mem s) pg d \<notin> ff_avail s"
  using assms by (simp_all add: pgdir_ok_def)

lemma pgdir_ok_inj:
  assumes "pgdir_ok s pg" "d \<in> user_slots" "pde_present (mem s) pg d"
    "d' \<in> user_slots" "pde_present (mem s) pg d'" "table_of (mem s) pg d = table_of (mem s) pg d'"
  shows "d = d'"
  using assms unfolding pgdir_ok_def by blast

section \<open>\<^verbatim>\<open>get_pte\<close>\<close>

lemma get_pte_present:
  assumes "pde_present (mem s) pg (unat (PDX la))"
  shows "get_pte (page2kva pg) la create s =
    Inr (entry_addr (table_of (mem s) pg (unat (PDX la))) (unat (PTX la)), s)"
  using assms
  by (simp add: get_pte_def pde_addr pte_addr pde_present_def table_of_def flip: entry_def)

lemma get_pte_lookup_only:
  assumes "\<not> pde_present (mem s) pg (unat (PDX la))"
  shows "get_pte (page2kva pg) la False s = Inr (0, s)"
  using assms by (simp add: get_pte_def pde_addr pde_present_def flip: entry_def)

lemma get_pte_no_memory:
  assumes "\<not> pde_present (mem s) pg (unat (PDX la))" "ff_ok s" "ff_avail s = {}"
  shows "get_pte (page2kva pg) la True s = Inr (0, s)"
  using assms
  by (simp add: get_pte_def pde_addr pde_present_def alloc_page_none flip: entry_def)

text \<open>What a new, empty table changes in the memory.\<close>

definition new_table :: "nat \<Rightarrow> nat \<Rightarrow> nat \<Rightarrow> memory \<Rightarrow> memory" where
  "new_table pg d p m =
     store32 (entry_addr pg d) (page2pa p OR PTE_USER) (mem_set (page2kva p) 0 4096 m)"

lemma new_table_entry:
  assumes "pg < 2 ^ 20" "p < 2 ^ 20" "d < 1024" "q < 2 ^ 20" "j < 1024"
  shows "entry (new_table pg d p m) q j =
    (if q = pg \<and> j = d then page2pa p OR PTE_USER else if q = p then 0 else entry m q j)"
  using assms by (simp add: new_table_def mem_simps)

lemma new_table_pde:
  assumes "pg < 2 ^ 20" "p < 2 ^ 20" "p \<noteq> pg" "d < 1024" "j < 1024"
  shows "pde_present (new_table pg d p m) pg j \<longleftrightarrow> j = d \<or> pde_present m pg j"
    and "table_of (new_table pg d p m) pg j = (if j = d then p else table_of m pg j)"
  using assms pde_entry [of p] pa2page_entry [of p PTE_USER]
  by (auto simp: pde_present_def table_of_def new_table_entry PTE_USER_def PTE_U_def PTE_W_def PTE_P_def)

lemma get_pte_creates:
  assumes "pgdir_ok s pg" "\<not> pde_present (mem s) pg (unat (PDX la))" "ff_avail s \<noteq> {}"
  obtains p s' where
    "get_pte (page2kva pg) la True s = Inr (entry_addr p (unat (PTX la)), s')"
    "p \<in> ff_avail s" "ff_ok s'" "ff_avail s' = ff_avail s - {p}" "npage s' = npage s"
    "mem s' = new_table pg (unat (PDX la)) p (mem s)"
    "cr3 s' = cr3 s" "if_flag s' = if_flag s" "flushed s' = flushed s"
    "\<And>q. q \<noteq> p \<Longrightarrow> pd_ref (pages s' q) = pd_ref (pages s q)" "pd_ref (pages s' p) = 1"
proof -
  obtain p s1 where *: "alloc_pages 1 s = Inr (Some p, s1)" "p \<in> ff_avail s" "ff_ok s1"
    "ff_avail s1 = ff_avail s - {p}" "ff_frame (ff_avail s) s s1"
    using alloc_page_some [OF pgdir_ok_ff [OF assms(1)] assms(3)] by metis
  have p: "p < 2 ^ 20" "p \<noteq> pg"
    using assms(1) *(2) ff_avail_npage [of s] by (auto simp: pgdir_ok_def KFRAMES_def)
  have m: "mem s1 = mem s" and np: "npage s1 = npage s" and rg: "cr3 s1 = cr3 s"
    "if_flag s1 = if_flag s" "flushed s1 = flushed s" and rf: "pd_ref (pages s1 q) = pd_ref (pages s q)" for q
    using *(5) more_eq_mach [of s1 s] by (simp_all add: ff_frame_def)
  let ?s' = "upd_mem (store32 (entry_addr pg (unat (PDX la))) (page2pa p OR PTE_USER))
    (upd_mem (mem_set (page2kva p) 0 4096) (upd_page p (\<lambda>d. d\<lparr>pd_ref := 1\<rparr>) s1))"
  have m': "mem ?s' = new_table pg (unat (PDX la)) p (mem s)"
    by (simp add: mem_simps new_table_def m)
  have "table_of (mem ?s') pg (unat (PDX la)) = p"
    unfolding m' using new_table_pde(2) [OF pgdir_ok_pg [OF assms(1)] p PDX_less PDX_less] by simp
  then have "get_pte (page2kva pg) la True s = Inr (entry_addr p (unat (PTX la)), ?s')"
    using assms(2) *(1)
    by (simp add: get_pte_def pde_addr pte_addr pde_present_def table_of_def Let_def PG_SIZE_def
      flip: entry_def page2kva_K_ADDR)
  then show ?thesis
    using * np m' rg rf by (intro that [of p ?s']) (simp_all add: mem_simps page_simps)
qed

text \<open>A new table keeps the invariant and maps nothing.\<close>

lemma new_table_ok:
  assumes ok: "pgdir_ok s pg" and d: "d \<in> user_slots" "\<not> pde_present (mem s) pg d"
    and p: "p \<in> ff_avail s" and s': "ff_ok s'" "ff_avail s' = ff_avail s - {p}"
    "npage s' = npage s" "mem s' = new_table pg d p (mem s)"
  shows "pgdir_ok s' pg"
    and "e \<in> user_slots \<Longrightarrow> t < 1024 \<Longrightarrow> vm_entry (mem s') pg e t = vm_entry (mem s) pg e t"
proof -
  have p1: "p < KFRAMES" "p \<noteq> pg"
    using ok p ff_avail_npage [of s] by (auto simp: pgdir_ok_def)
  have p2: "p < 2 ^ 20" using p1 by simp
  have pg: "pg < 2 ^ 20" by (rule pgdir_ok_pg [OF ok])
  note pde = new_table_pde [OF pg p2 p1(2) user_slots_less [OF d(1)], of _ "mem s", folded s'(4)]
  have other: "table_of (mem s) pg e \<noteq> p" if "e \<in> user_slots" "pde_present (mem s) pg e" for e
    using pgdir_ok_table(3) [OF ok that] p by auto
  show "pgdir_ok s' pg"
    unfolding pgdir_ok_def
  proof (intro conjI ballI impI)
    show "ff_ok s'" "unat (npage s') \<le> KFRAMES" "pg < KFRAMES" "pg \<notin> ff_avail s'"
      using ok s' by (auto simp: pgdir_ok_def)
  next
    fix e
    assume e: "e \<in> user_slots" "pde_present (mem s') pg e"
    show "table_of (mem s') pg e < KFRAMES" "table_of (mem s') pg e \<noteq> pg"
      "table_of (mem s') pg e \<notin> ff_avail s'"
      using e p1 pde [of e] pgdir_ok_table [OF ok, of e] user_slots_less [OF e(1)] s'(2)
      by (auto split: if_splits)
  next
    fix e f
    assume *: "e \<in> user_slots" "f \<in> user_slots" "pde_present (mem s') pg e"
      "pde_present (mem s') pg f" "table_of (mem s') pg e = table_of (mem s') pg f"
    show "e = f"
      using * pde [of e] pde [of f] user_slots_less [of e] user_slots_less [of f] other
        pgdir_ok_inj [OF ok, of e f] by (auto split: if_splits)
  qed
  assume e: "e \<in> user_slots" and t: "t < 1024"
  show "vm_entry (mem s') pg e t = vm_entry (mem s) pg e t"
  proof (cases "e = d")
    case True
    then show ?thesis
      using pde [of e] user_slots_less [OF e] d(2) t p1 p2 pg user_slots_less [OF d(1)]
      by (simp add: vm_entry_def s'(4) new_table_entry)
  next
    case False
    then show ?thesis
      using pde [of e] user_slots_less [OF e] t p2 pg user_slots_less [OF d(1)] other [OF e]
        pgdir_ok_table [OF ok e]
      by (auto simp: vm_entry_def s'(4) new_table_entry table_of_less)
  qed
qed

section \<open>Writing an entry\<close>

lemma store_pte:
  assumes ok: "pgdir_ok s pg" and d: "d \<in> user_slots" "pde_present (mem s) pg d" and t: "t < 1024"
    and m': "m' = store32 (entry_addr (table_of (mem s) pg d) t) v (mem s)"
  shows "e \<in> user_slots \<Longrightarrow> u < 1024 \<Longrightarrow>
      vm_entry m' pg e u = (if e = d \<and> u = t then v else vm_entry (mem s) pg e u)"
    and "e < 1024 \<Longrightarrow> pde_present m' pg e = pde_present (mem s) pg e"
    and "e < 1024 \<Longrightarrow> table_of m' pg e = table_of (mem s) pg e"
proof -
  have pg: "pg < 2 ^ 20" by (rule pgdir_ok_pg [OF ok])
  have T: "table_of (mem s) pg d \<noteq> pg" by (rule pgdir_ok_table(2) [OF ok d])
  note es = entry_store [OF table_of_less _ t]
  have dir: "entry m' pg e = entry (mem s) pg e" if "e < 1024" for e
    using es [OF pg that] T by (simp add: m')
  then show P: "pde_present m' pg e = pde_present (mem s) pg e"
    and Q: "table_of m' pg e = table_of (mem s) pg e" if "e < 1024" for e
    using that by (simp_all add: pde_present_def table_of_def)
  assume e: "e \<in> user_slots" and u: "u < 1024"
  have "entry m' (table_of (mem s) pg e) u =
    (if table_of (mem s) pg e = table_of (mem s) pg d \<and> u = t then v
     else entry (mem s) (table_of (mem s) pg e) u)"
    using es [OF table_of_less u] by (simp add: m')
  then show "vm_entry m' pg e u = (if e = d \<and> u = t then v else vm_entry (mem s) pg e u)"
    using P [OF user_slots_less [OF e]] Q [OF user_slots_less [OF e]] d(2)
      pgdir_ok_inj [OF ok e _ d]
    by (auto simp: vm_entry_def)
qed

lemma store_pte_ok:
  assumes ok: "pgdir_ok s pg" and d: "d \<in> user_slots" "pde_present (mem s) pg d" and t: "t < 1024"
    and s': "mem s' = store32 (entry_addr (table_of (mem s) pg d) t) v (mem s)"
    "ff_ok s' = ff_ok s" "ff_avail s' = ff_avail s" "npage s' = npage s"
  shows "pgdir_ok s' pg"
  using ok store_pte(2,3) [OF ok d t s'(1)] s'(2-4)
  by (simp add: pgdir_ok_def user_slots_less)

section \<open>The invariant from one state to another\<close>

text \<open>
  The invariant reads the memory only through the directory's entries. A state whose free
  frames do not reach into the directory or a table keeps it.
\<close>

lemma pgdir_ok_transfer:
  assumes ok: "pgdir_ok s pg" and s': "ff_ok s'" "npage s' = npage s" "pg \<notin> ff_avail s'"
    and e: "\<And>d. d < 1024 \<Longrightarrow> entry (mem s') pg d = entry (mem s) pg d"
    and t: "\<And>d. d \<in> user_slots \<Longrightarrow> pde_present (mem s) pg d \<Longrightarrow> table_of (mem s) pg d \<notin> ff_avail s'"
  shows "pgdir_ok s' pg"
proof -
  have "pde_present (mem s') pg d = pde_present (mem s) pg d" "table_of (mem s') pg d = table_of (mem s) pg d"
    if "d \<in> user_slots" for d
    using e [OF user_slots_less [OF that]] by (simp_all add: pde_present_def table_of_def)
  then show ?thesis using ok s' t unfolding pgdir_ok_def by auto
qed

lemma page_insert_present:
  assumes "pde_present (mem s) pg (unat (PDX la))"
    "entry_addr (table_of (mem s) pg (unat (PDX la))) (unat (PTX la)) \<noteq> 0"
  shows "page_insert (page2kva pg) p la perm s =
    Inr (True, tlb_invl (page2kva pg) la
      (upd_mem (store32 (entry_addr (table_of (mem s) pg (unat (PDX la))) (unat (PTX la)))
         (page2pa p OR perm OR PTE_P))
       (upd_page p (\<lambda>d. d\<lparr>pd_ref := pd_ref d + 1\<rparr>) s)))"
  using assms by (simp add: page_insert_def get_pte_present)

end
