(* ===== verification/Mapping_Laws.thy ===== *)
theory Mapping_Laws
  imports PageTables
begin

text \<open>
  The operations of \<^verbatim>\<open>kern/mm/pmm.c\<close> that map pages: \<^verbatim>\<open>get_pte\<close> with creation,
  \<^verbatim>\<open>page_insert\<close>, \<^verbatim>\<open>pgdir_alloc_page\<close>, and \<^verbatim>\<open>kmalloc\<close> with \<^verbatim>\<open>kfree\<close>. Each
  is an update of one entry of the address space.
\<close>

section \<open>Walking with creation\<close>

definition same_map :: "nat \<Rightarrow> memory \<Rightarrow> memory \<Rightarrow> bool" where
  "same_map pg m m' \<longleftrightarrow> (\<forall>d \<in> user_slots. \<forall>t < 1024. vm_entry m' pg d t = vm_entry m pg d t)"

definition maps_one :: "nat \<Rightarrow> u32 \<Rightarrow> u32 \<Rightarrow> memory \<Rightarrow> memory \<Rightarrow> bool" where
  "maps_one pg la v m m' \<longleftrightarrow> (\<forall>d \<in> user_slots. \<forall>t < 1024.
     vm_entry m' pg d t = (if d = unat (PDX la) \<and> t = unat (PTX la) then v else vm_entry m pg d t))"

definition in_user :: "u32 \<Rightarrow> bool" where
  "in_user la \<longleftrightarrow> unat (PDX la) \<noteq> VPT_IDX"

lemma in_user_slot: "in_user la \<Longrightarrow> unat (PDX la) \<in> user_slots"
  by (simp add: in_user_def user_slots_def PDX_less)

definition can_map :: "'a mach_scheme \<Rightarrow> nat \<Rightarrow> u32 \<Rightarrow> bool" where
  "can_map s pg la \<longleftrightarrow> pde_present (mem s) pg (unat (PDX la)) \<or> ff_avail s \<noteq> {}"

lemma get_pte_fails:
  "pgdir_ok s pg \<Longrightarrow> \<not> can_map s pg la \<Longrightarrow> get_pte (page2kva pg) la True s = Inr (0, s)"
  by (simp add: can_map_def get_pte_no_memory pgdir_ok_ff)

lemma get_pte_succeeds:
  assumes ok: "pgdir_ok s pg" and la: "in_user la" and can: "can_map s pg la"
  obtains s' where
    "get_pte (page2kva pg) la True s =
       Inr (entry_addr (table_of (mem s') pg (unat (PDX la))) (unat (PTX la)), s')"
    "pgdir_ok s' pg" "pde_present (mem s') pg (unat (PDX la))"
    "same_map pg (mem s) (mem s')" "ff_avail s' \<subseteq> ff_avail s" "npage s' = npage s"
    "card (ff_avail s) \<le> Suc (card (ff_avail s'))"
    "pde_present (mem s) pg (unat (PDX la)) \<Longrightarrow> s' = s"
    "cr3 s' = cr3 s" "if_flag s' = if_flag s" "flushed s' = flushed s"
    "\<And>q. q \<notin> ff_avail s \<Longrightarrow> pd_ref (pages s' q) = pd_ref (pages s q)"
proof (cases "pde_present (mem s) pg (unat (PDX la))")
  case True
  then show ?thesis
    using ok by (intro that [of s]) (simp_all add: get_pte_present same_map_def)
next
  case False
  then have "ff_avail s \<noteq> {}" using can by (simp add: can_map_def)
  then obtain p s' where *:
    "get_pte (page2kva pg) la True s = Inr (entry_addr p (unat (PTX la)), s')"
    "p \<in> ff_avail s" "ff_ok s'" "ff_avail s' = ff_avail s - {p}" "npage s' = npage s"
    "mem s' = new_table pg (unat (PDX la)) p (mem s)"
    "cr3 s' = cr3 s" "if_flag s' = if_flag s" "flushed s' = flushed s"
    "\<And>q. q \<noteq> p \<Longrightarrow> pd_ref (pages s' q) = pd_ref (pages s q)"
    using get_pte_creates [OF ok False] by metis
  have p: "p < 2 ^ 20" "p \<noteq> pg"
    using ok *(2) ff_avail_npage [of s] by (auto simp: pgdir_ok_def KFRAMES_def)
  note n = new_table_ok [OF ok in_user_slot [OF la] False *(2-6)]
  have "table_of (mem s') pg (unat (PDX la)) = p" "pde_present (mem s') pg (unat (PDX la))"
    using new_table_pde [OF pgdir_ok_pg [OF ok] p PDX_less PDX_less] by (simp_all add: *(6))
  moreover have "pd_ref (pages s' q) = pd_ref (pages s q)" if "q \<notin> ff_avail s" for q
    using that *(2,10) by (cases "q = p") auto
  moreover have "card (ff_avail s) = Suc (card (ff_avail s'))"
    using card_Suc_Diff1 [OF ff.avail_finite [OF pgdir_ok_ff [OF ok]] *(2)] *(4) by simp
  ultimately show ?thesis
    using *(1,4,5,7-9) n False
    by (intro that [of s']) (auto simp: same_map_def)
qed

text \<open>What becomes of the directory and of the memory when a table is made.\<close>

lemma new_table_facts:
  assumes ok: "pgdir_ok s pg" and g: "get_pte (page2kva pg) la True s = Inr (a, s')"
    and no: "\<not> pde_present (mem s) pg (unat (PDX la))" "ff_avail s \<noteq> {}"
  shows "\<exists>p \<in> ff_avail s. ff_avail s' = ff_avail s - {p} \<and> pd_ref (pages s' p) = 1 \<and>
    entry (mem s') pg (unat (PDX la)) = page2pa p OR PTE_U OR PTE_W OR PTE_P \<and>
    (\<forall>j < 1024. entry (mem s') p j = 0) \<and>
    (\<forall>q < 2 ^ 20. \<forall>j < 1024. q \<noteq> p \<and> \<not> (q = pg \<and> j = unat (PDX la)) \<longrightarrow> entry (mem s') q j = entry (mem s) q j)"
proof -
  obtain p where p: "p \<in> ff_avail s" "ff_avail s' = ff_avail s - {p}" "pd_ref (pages s' p) = 1"
    and m: "mem s' = new_table pg (unat (PDX la)) p (mem s)"
    using get_pte_creates [OF ok no] g by (metis Inr_inject prod.inject)
  have pb: "p < 2 ^ 20" "p \<noteq> pg" using ok p(1) ff_avail_npage [of s] by (auto simp: pgdir_ok_def KFRAMES_def)
  note e = new_table_entry [OF pgdir_ok_pg [OF ok] pb(1) PDX_less, of _ _ la "mem s", folded m]
  have "entry (mem s') pg (unat (PDX la)) = page2pa p OR PTE_U OR PTE_W OR PTE_P"
    using e [OF pgdir_ok_pg [OF ok] PDX_less] by (simp add: PTE_USER_def or.assoc)
  then show ?thesis using p e pb by (intro bexI [of _ p]) auto
qed

section \<open>\<^verbatim>\<open>page_insert\<close>\<close>

lemma tlb_invl_simps [mem_simps]:
  "mem (tlb_invl pd la s) = mem s" "pages (tlb_invl pd la s) = pages s"
  "links (tlb_invl pd la s) = links s" "npage (tlb_invl pd la s) = npage s"
  "if_flag (tlb_invl pd la s) = if_flag s" "cr3 (tlb_invl pd la s) = cr3 s"
  "flushed (tlb_invl pd la s) = (if cr3 s = P_ADDR pd then la # flushed s else flushed s)"
  "ff_ok (tlb_invl pd la s) = ff_ok s" "ff_avail (tlb_invl pd la s) = ff_avail s"
  by (simp_all add: tlb_invl_def)

lemma page_insert_fails:
  "pgdir_ok s pg \<Longrightarrow> \<not> can_map s pg la \<Longrightarrow>
   page_insert (page2kva pg) p la perm s = Inr (False, s)"
  by (simp add: page_insert_def get_pte_fails)

lemma page_insert_succeeds:
  assumes ok: "pgdir_ok s pg" and la: "in_user la" and can: "can_map s pg la"
  obtains s' where "page_insert (page2kva pg) p la perm s = Inr (True, s')"
    "pgdir_ok s' pg" "maps_one pg la (page2pa p OR perm OR PTE_P) (mem s) (mem s')"
    "ff_avail s' \<subseteq> ff_avail s" "if_flag s' = if_flag s" "cr3 s' = cr3 s" "npage s' = npage s"
    "flushed s' = (if cr3 s = P_ADDR (page2kva pg) then la # flushed s else flushed s)"
    "\<And>q. q \<notin> ff_avail s \<Longrightarrow>
       pd_ref (pages s' q) = pd_ref (pages s q) + (if q = p then 1 else 0)"
proof -
  obtain s1 where g:
    "get_pte (page2kva pg) la True s =
       Inr (entry_addr (table_of (mem s1) pg (unat (PDX la))) (unat (PTX la)), s1)"
    and ok1: "pgdir_ok s1 pg" and pr: "pde_present (mem s1) pg (unat (PDX la))"
    and same: "same_map pg (mem s) (mem s1)" and av: "ff_avail s1 \<subseteq> ff_avail s"
    and np: "npage s1 = npage s" and rg: "cr3 s1 = cr3 s" "if_flag s1 = if_flag s" "flushed s1 = flushed s"
    and rf: "\<And>q. q \<notin> ff_avail s \<Longrightarrow> pd_ref (pages s1 q) = pd_ref (pages s q)"
    using get_pte_succeeds [OF ok la can] by metis
  let ?T = "table_of (mem s1) pg (unat (PDX la))"
  let ?v = "page2pa p OR perm OR PTE_P"
  let ?s' = "tlb_invl (page2kva pg) la (upd_mem (store32 (entry_addr ?T (unat (PTX la))) ?v)
    (upd_page p (\<lambda>d. d\<lparr>pd_ref := pd_ref d + 1\<rparr>) s1))"
  note slot = in_user_slot [OF la]
  have "entry_addr ?T (unat (PTX la)) \<noteq> 0"
    by (rule entry_addr_nonzero [OF pgdir_ok_table(1) [OF ok1 slot pr] PTX_less])
  then have r: "page_insert (page2kva pg) p la perm s = Inr (True, ?s')"
    by (simp add: page_insert_def g)
  have m: "mem ?s' = store32 (entry_addr ?T (unat (PTX la))) ?v (mem s1)" by (simp add: mem_simps)
  have "pgdir_ok ?s' pg"
    by (rule store_pte_ok [OF ok1 slot pr PTX_less m]) (simp_all add: mem_simps page_simps)
  moreover have "maps_one pg la ?v (mem s) (mem ?s')"
    using same store_pte(1) [OF ok1 slot pr PTX_less m] by (simp add: maps_one_def same_map_def)
  ultimately show ?thesis
    using r av np rg rf by (intro that [of ?s']) (auto simp: mem_simps page_simps)
qed

section \<open>Mapping a fresh page\<close>

lemma alloc_page_pgdir_ok:
  assumes ok: "pgdir_ok s pg" and fr: "ff_frame (ff_avail s) s s'" and s': "ff_ok s'" "ff_avail s' \<subseteq> ff_avail s"
  shows "pgdir_ok s' pg"
proof -
  have "mem s' = mem s" "npage s' = npage s" using fr more_eq_mach [of s' s] by (simp_all add: ff_frame_def)
  then show ?thesis
    using ok s' unfolding pgdir_ok_def by (simp add: subset_iff) metis
qed

lemma pgdir_alloc_page_none:
  "ff_ok s \<Longrightarrow> ff_avail s = {} \<Longrightarrow> pgdir_alloc_page pd la perm s = Inr (None, s)"
  by (simp add: pgdir_alloc_page_def alloc_page_none)

lemma pgdir_alloc_page_some:
  assumes ok: "pgdir_ok s pg" and la: "in_user la" and av: "ff_avail s \<noteq> {}"
  obtains p s' where "pgdir_alloc_page (page2kva pg) la perm s = Inr (Some p, s')"
    "p \<in> ff_avail s" "p \<notin> ff_avail s'" "pgdir_ok s' pg"
    "if pde_present (mem s) pg (unat (PDX la)) \<or> ff_avail s \<noteq> {p}
     then maps_one pg la (page2pa p OR perm OR PTE_P) (mem s) (mem s') else mem s' = mem s"
    "if_flag s' = if_flag s"
proof -
  obtain p s1 where a: "alloc_pages 1 s = Inr (Some p, s1)" "p \<in> ff_avail s" "ff_ok s1"
    "ff_avail s1 = ff_avail s - {p}" "ff_frame (ff_avail s) s s1"
    using alloc_page_some [OF pgdir_ok_ff [OF ok] av] by metis
  have m: "mem s1 = mem s" "if_flag s1 = if_flag s"
    using a(5) more_eq_mach [of s1 s] by (simp_all add: ff_frame_def)
  have ok1: "pgdir_ok s1 pg"
    by (rule alloc_page_pgdir_ok [OF ok a(5,3)]) (simp add: a(4))
  show ?thesis
  proof (cases "can_map s1 pg la")
    case True
    then obtain s' where i: "page_insert (page2kva pg) p la perm s1 = Inr (True, s')"
      "pgdir_ok s' pg" "maps_one pg la (page2pa p OR perm OR PTE_P) (mem s1) (mem s')"
      "ff_avail s' \<subseteq> ff_avail s1" "if_flag s' = if_flag s1"
      using page_insert_succeeds [OF ok1 la] by metis
    moreover have "pde_present (mem s) pg (unat (PDX la)) \<or> ff_avail s \<noteq> {p}"
      using True a(4) m by (auto simp: can_map_def)
    ultimately show ?thesis
      using a m by (intro that [of p s']) (auto simp: pgdir_alloc_page_def)
  next
    case False
    then have "\<not> pde_present (mem s) pg (unat (PDX la))" "ff_avail s = {p}"
      using a(2,4) m by (auto simp: can_map_def)
    then show ?thesis
      using a m ok1 page_insert_fails [OF ok1 False]
      by (intro that [of p s1]) (auto simp: pgdir_alloc_page_def)
  qed
qed

section \<open>\<^verbatim>\<open>kmalloc\<close> and \<^verbatim>\<open>kfree\<close>\<close>

lemma page2kva_nonzero: "p < KFRAMES \<Longrightarrow> page2kva p \<noteq> 0"
  using entry_addr_nonzero [of p 0] by (simp add: entry_addr_def)

lemma kmalloc_kfree_frames:
  assumes ok: "ff_ok s" and n: "unat (npage s) \<le> KFRAMES" and av: "ff_avail s \<noteq> {}"
  obtains p s1 s2 where "kmalloc sz s = Inr (page2kva p, s1)" "page2kva p \<noteq> 0" "p \<in> ff_avail s"
    "ff_avail s1 = ff_avail s - {p}" "mem s1 = mem s"
    "kfree (page2kva p) s1 = Inr ((), s2)" "ff_ok s2" "ff_avail s2 = ff_avail s" "mem s2 = mem s"
    "if_flag s2 = if_flag s"
proof -
  obtain p s1 where a: "alloc_pages 1 s = Inr (Some p, s1)" "p \<in> ff_avail s" "ff_ok s1"
    "ff_avail s1 = ff_avail s - {p}" "ff_frame (ff_avail s) s s1"
    using alloc_page_some [OF ok av] by metis
  have p: "p < unat (npage s)" using a(2) ff_avail_npage [OF ok] by auto
  then have pk: "p < KFRAMES" using n by simp
  have fr: "mem s1 = mem s" "npage s1 = npage s" "if_flag s1 = if_flag s"
    using a(5) more_eq_mach [of s1 s] by (simp_all add: ff_frame_def)
  have "{p..<p + unat (1 :: u32)} \<subseteq> {..<unat (npage s1)} - ff_avail s1"
    using p a(4) fr by auto
  from pages_free_range [OF a(3) _ this] obtain s2 where
    f: "pages_free p 1 s1 = Inr ((), s2)" "ff_ok s2"
    "ff_avail s2 = ff_avail s1 \<union> {p..<p + unat (1 :: u32)}"
    "ff_frame (ff_avail s1 \<union> {p..<p + unat (1 :: u32)}) s1 s2" by auto
  have "mem s2 = mem s" "if_flag s2 = if_flag s"
    using f(4) fr more_eq_mach [of s2 s1] by (simp_all add: ff_frame_def)
  moreover have "ff_avail s2 = ff_avail s" using f(3) a(2,4) by auto
  moreover have "kfree (page2kva p) s1 = Inr ((), s2)"
    using f(1) page2kva_nonzero [OF pk] kva2page_page2kva [of p] pk by (simp add: kfree_def)
  ultimately show ?thesis
    using a f(2) fr page2kva_nonzero [OF pk] by (intro that [of p s1 s2]) (auto simp: kmalloc_def)
qed

section \<open>A concrete machine for the witnesses\<close>

definition mach_of :: "pmm \<Rightarrow> memory \<Rightarrow> u32 \<Rightarrow> mach" where
  "mach_of p m c = pmm.extend p \<lparr>mem = m, cr2 = 0, cr3 = c, if_flag = True, flushed = []\<rparr>"

lemma mach_of_simps [simp]:
  "links (mach_of p m c) = links p" "pages (mach_of p m c) = pages p"
  "npage (mach_of p m c) = npage p" "nr_free (mach_of p m c) = nr_free p"
  "mem (mach_of p m c) = m" "cr3 (mach_of p m c) = c" "if_flag (mach_of p m c)"
  "flushed (mach_of p m c) = []"
  by (simp_all add: mach_of_def pmm.defs mach.defs)

lemma mach_of_inv [simp]: "ff_inv (mach_of p m c) bs = ff_inv p bs"
  by (simp add: ff_inv_def block_ok_def)

lemma mach_of_ff: "ff_ok (mach_of p m c) = ff_ok p" "ff_avail (mach_of p m c) = ff_avail p"
  by (simp_all add: ff_ok_def ff_avail_def)

text \<open>Sixty-four frames, 4 to 11 free, and an empty directory in frame 1.\<close>

definition demo_mach :: mach where
  "demo_mach = mach_of demo_pmm (\<lambda>_. 0) (page2pa 1)"

lemma entry_zero_mem [simp]: "entry (\<lambda>_. 0) p i = 0"
  by (simp add: entry_def load32_def)

lemma demo_mach_inv: "ff_inv demo_mach [(4, 8)]"
  by (simp add: demo_mach_def demo_pmm_inv)

lemma demo_mach_avail: "ff_avail demo_mach = {4..<12}"
proof -
  have "set (frames [(4, 8)]) = {4..<4 + 8}"
    by (simp only: frames_def list.map concat.simps block_frames.simps append_Nil2 set_upt)
  then show ?thesis using ff_avail_frames [OF demo_mach_inv] by simp
qed

lemma demo_mach_ok: "pgdir_ok demo_mach 1"
  using demo_mach_avail ff_ok_intro [OF demo_mach_inv]
  by (simp add: pgdir_ok_def pde_present_def demo_mach_def demo_pmm_npage KFRAMES_def)

lemma demo_mach_user: "in_user 0x400000"
  by (simp add: in_user_def VPT_IDX_1003 PDX_bits take_bit_eq_mod drop_bit_eq_div)

section \<open>Properties\<close>

text \<open>
  C13. \<^verbatim>\<open>get_pte\<close> with creation returns the address of the entry that translates \<open>la\<close>
  in the table its directory entry, which is present then, points to, and changes no translation.
  If the directory entry was present nothing changes. Otherwise a free frame is taken, with
  reference count 1 and every entry 0, and the directory entry is its address with the present,
  write and user bits; no other entry of any frame changes. It returns \<^verbatim>\<open>NULL\<close>, changing
  nothing, exactly when there is no table and no free frame for one.
\<close>

theorem get_pte_walk:
  assumes ok: "pgdir_ok s pg" and la: "in_user la"
  shows "\<exists>ptep s'. get_pte (page2kva pg) la True s = Inr (ptep, s') \<and> pgdir_ok s' pg \<and>
    same_map pg (mem s) (mem s') \<and>
    (let d = unat (PDX la) in
     if can_map s pg la then
       ptep \<noteq> 0 \<and> load32 (mem s') ptep = translate (mem s') pg la \<and>
       ptep = page2kva (table_of (mem s') pg d) + 4 * PTX la \<and> pde_present (mem s') pg d \<and>
       (if pde_present (mem s) pg d then s' = s
        else \<exists>p \<in> ff_avail s. ff_avail s' = ff_avail s - {p} \<and> pd_ref (pages s' p) = 1 \<and>
          entry (mem s') pg d = page2pa p OR PTE_U OR PTE_W OR PTE_P \<and>
          (\<forall>j < 1024. entry (mem s') p j = 0) \<and>
          (\<forall>q < 2 ^ 20. \<forall>j < 1024. q \<noteq> p \<and> \<not> (q = pg \<and> j = d) \<longrightarrow> entry (mem s') q j = entry (mem s) q j))
     else ptep = 0 \<and> s' = s)"
proof (cases "can_map s pg la")
  case True
  let ?d = "unat (PDX la)"
  obtain s' where g: "get_pte (page2kva pg) la True s =
      Inr (entry_addr (table_of (mem s') pg ?d) (unat (PTX la)), s')"
    and ok': "pgdir_ok s' pg" and pr: "pde_present (mem s') pg ?d"
    and same: "same_map pg (mem s) (mem s')" and old: "pde_present (mem s) pg ?d \<Longrightarrow> s' = s"
    using get_pte_succeeds [OF ok la True] by metis
  have "entry_addr (table_of (mem s') pg ?d) (unat (PTX la)) \<noteq> 0"
    by (rule entry_addr_nonzero [OF pgdir_ok_table(1) [OF ok' in_user_slot [OF la] pr] PTX_less])
  moreover have "entry_addr q (unat (PTX la)) = page2kva q + 4 * PTX la" for q by (simp add: entry_addr_def)
  moreover from this have "load32 m (page2kva q + 4 * PTX la) = entry m q (unat (PTX la))" for m q
    by (simp add: entry_def)
  moreover note new_table_facts [OF ok g]
  ultimately show ?thesis
    using True g ok' pr same old by (cases "pde_present (mem s) pg ?d")
      (simp_all add: can_map_def Let_def translate_def vm_entry_def)
next
  case False
  then show ?thesis using ok get_pte_fails [OF ok] by (simp add: same_map_def)
qed

theorem get_pte_walk_witness:
  "\<exists>ptep s' p. get_pte (page2kva 1) 0x400000 True demo_mach = Inr (ptep, s') \<and> ptep \<noteq> 0 \<and>
     load32 (mem s') ptep = translate (mem s') 1 0x400000 \<and>
     p \<in> {4..<12} \<and> ff_avail s' = {4..<12} - {p} \<and> entry (mem s') 1 1 = page2pa p OR PTE_U OR PTE_W OR PTE_P"
proof -
  have "can_map demo_mach 1 0x400000" by (simp add: can_map_def demo_mach_avail)
  moreover have "unat (PDX 0x400000) = 1" by (simp add: PDX_bits take_bit_eq_mod drop_bit_eq_div)
  moreover have "\<not> pde_present (mem demo_mach) 1 1" by (simp add: pde_present_def demo_mach_def)
  ultimately show ?thesis
    using get_pte_walk [OF demo_mach_ok demo_mach_user] by (auto simp: Let_def demo_mach_avail)
qed

text \<open>
  C14. \<^verbatim>\<open>page_insert\<close> is an update of one entry: afterwards \<open>la\<close> translates to the page
  with the given permissions and the present bit, every other address is translated as before,
  the page's reference count went up by one, and the TLB entry was invalidated if the directory
  is the active one. It fails, without effect, exactly when no table can be made.
\<close>

theorem page_insert_maps:
  assumes ok: "pgdir_ok s pg" and la: "in_user la" and p: "p \<notin> ff_avail s"
  shows "\<exists>r s'. page_insert (page2kva pg) p la perm s = Inr (r, s') \<and> pgdir_ok s' pg \<and>
    (if can_map s pg la then
       r \<and> maps_one pg la (page2pa p OR perm OR PTE_P) (mem s) (mem s') \<and>
       pd_ref (pages s' p) = pd_ref (pages s p) + 1 \<and>
       (cr3 s = P_ADDR (page2kva pg) \<longrightarrow> la \<in> set (flushed s'))
     else \<not> r \<and> s' = s)"
proof (cases "can_map s pg la")
  case True
  obtain s' where "page_insert (page2kva pg) p la perm s = Inr (True, s')" "pgdir_ok s' pg"
    "maps_one pg la (page2pa p OR perm OR PTE_P) (mem s) (mem s')"
    "flushed s' = (if cr3 s = P_ADDR (page2kva pg) then la # flushed s else flushed s)"
    "\<And>q. q \<notin> ff_avail s \<Longrightarrow> pd_ref (pages s' q) = pd_ref (pages s q) + (if q = p then 1 else 0)"
    using page_insert_succeeds [OF ok la True] by metis
  then show ?thesis using p True by auto
next
  case False
  then show ?thesis using ok page_insert_fails [OF ok False] by auto
qed

theorem page_insert_maps_witness:
  "\<exists>s'. page_insert (page2kva 1) 20 0x400000 7 demo_mach = Inr (True, s') \<and>
     maps_one 1 0x400000 (page2pa 20 OR 7 OR PTE_P) (mem demo_mach) (mem s')"
proof -
  have "can_map demo_mach 1 0x400000" by (simp add: can_map_def demo_mach_avail)
  then show ?thesis
    using page_insert_maps [OF demo_mach_ok demo_mach_user, of 20 7] by (auto simp: demo_mach_avail)
qed

text \<open>
  C15. \<^verbatim>\<open>pgdir_alloc_page\<close> takes a free frame and maps it at \<open>la\<close>. If the last free
  frame was taken and the page table is missing, the frame is returned although nothing was
  mapped: the failure of \<^verbatim>\<open>page_insert\<close> is not looked at.
\<close>

theorem pgdir_alloc_page_result:
  assumes ok: "pgdir_ok s pg" and la: "in_user la"
  shows "if ff_avail s = {} then pgdir_alloc_page (page2kva pg) la perm s = Inr (None, s)
    else \<exists>p s'. pgdir_alloc_page (page2kva pg) la perm s = Inr (Some p, s') \<and>
      p \<in> ff_avail s \<and> p \<notin> ff_avail s' \<and> pgdir_ok s' pg \<and>
      (if pde_present (mem s) pg (unat (PDX la)) \<or> ff_avail s \<noteq> {p}
       then maps_one pg la (page2pa p OR perm OR PTE_P) (mem s) (mem s')
       else mem s' = mem s)"
proof (cases "ff_avail s = {}")
  case True
  then show ?thesis using pgdir_alloc_page_none [OF pgdir_ok_ff [OF ok]] by simp
next
  case False
  obtain p s' where "pgdir_alloc_page (page2kva pg) la perm s = Inr (Some p, s')"
    "p \<in> ff_avail s" "p \<notin> ff_avail s'" "pgdir_ok s' pg"
    "if pde_present (mem s) pg (unat (PDX la)) \<or> ff_avail s \<noteq> {p}
     then maps_one pg la (page2pa p OR perm OR PTE_P) (mem s) (mem s') else mem s' = mem s"
    by (rule pgdir_alloc_page_some [OF ok la False, of perm])
  then show ?thesis using False by auto
qed

theorem pgdir_alloc_page_result_witness:
  "\<exists>p s'. pgdir_alloc_page (page2kva 1) 0x400000 4 demo_mach = Inr (Some p, s') \<and>
     maps_one 1 0x400000 (page2pa p OR 4 OR PTE_P) (mem demo_mach) (mem s')"
proof -
  have "4 \<in> ff_avail demo_mach" "5 \<in> ff_avail demo_mach" by (simp_all add: demo_mach_avail)
  then have "ff_avail demo_mach \<noteq> {}" "\<forall>p. ff_avail demo_mach \<noteq> {p}" by auto
  then show ?thesis
    using pgdir_alloc_page_result [OF demo_mach_ok demo_mach_user, of 4]
    by (simp only: if_False if_True simp_thms) blast
qed

text \<open>
  C16. \<^verbatim>\<open>kmalloc\<close> returns \<^verbatim>\<open>NULL\<close> only when no frame is free, and otherwise the
  non-null address of a free frame, whatever the size asked for; \<^verbatim>\<open>kfree\<close> of that address
  gives the frame back. Memory and the interrupt flag are as before.
\<close>

theorem kmalloc_kfree_roundtrip:
  assumes ok: "ff_ok s" and n: "unat (npage s) \<le> KFRAMES"
  shows "if ff_avail s = {} then kmalloc sz s = Inr (0, s)
    else \<exists>p s1 s2. kmalloc sz s = Inr (page2kva p, s1) \<and> page2kva p \<noteq> 0 \<and>
      p \<in> ff_avail s \<and> ff_avail s1 = ff_avail s - {p} \<and>
      kfree (page2kva p) s1 = Inr ((), s2) \<and> ff_ok s2 \<and> ff_avail s2 = ff_avail s \<and>
      mem s2 = mem s \<and> if_flag s2 = if_flag s"
proof (cases "ff_avail s = {}")
  case True
  then show ?thesis using alloc_page_none [OF ok] by (simp add: kmalloc_def)
next
  case False
  obtain p s1 s2 where "kmalloc sz s = Inr (page2kva p, s1)" "page2kva p \<noteq> 0" "p \<in> ff_avail s"
    "ff_avail s1 = ff_avail s - {p}" "kfree (page2kva p) s1 = Inr ((), s2)" "ff_ok s2"
    "ff_avail s2 = ff_avail s" "mem s2 = mem s" "if_flag s2 = if_flag s"
    by (rule kmalloc_kfree_frames [OF ok n False, of sz])
  then show ?thesis using False by auto
qed

theorem kmalloc_kfree_roundtrip_witness:
  "\<exists>p s1 s2. kmalloc 100 demo_mach = Inr (page2kva p, s1) \<and> p \<in> {4..<12} \<and>
     kfree (page2kva p) s1 = Inr ((), s2) \<and> ff_avail s2 = {4..<12}"
proof -
  have "unat (npage demo_mach) \<le> KFRAMES" by (simp add: demo_mach_def demo_pmm_npage KFRAMES_def)
  then show ?thesis
    using kmalloc_kfree_roundtrip [OF pgdir_ok_ff [OF demo_mach_ok], of 100]
    by (simp add: demo_mach_avail) blast
qed

end
