(* ===== verification/Mem_Init.thy ===== *)
theory Mem_Init
  imports Mapping_Laws
begin

text \<open>
  What \<^verbatim>\<open>pmm_init\<close> makes of the BIOS memory map: the free list holds, for every usable
  region, the whole pages of it that lie above the kernel image and the descriptor array, and
  nothing else. The result needs a map of the 32-bit address space whose usable regions hold at
  least one whole page each and do not overlap (\<open>map_ok\<close>); \<^verbatim>\<open>ROUND_UP\<close> and
  \<^verbatim>\<open>ROUND_DOWN\<close> compute in 32 bits even for the 64-bit addresses of the map.
\<close>

section \<open>The items of the map\<close>

type_synonym e820_item = "u64 \<times> u64 \<times> u32"

definition e820_count :: "memory \<Rightarrow> nat" where
  "e820_count m = nat (sint (load32 m (E820_MEM_BASE + KERNEL_BASE)))"

definition e820_item :: "memory \<Rightarrow> nat \<Rightarrow> e820_item" where
  "e820_item m i =
     (let item = E820_MEM_BASE + KERNEL_BASE + 4 + 20 * of_nat i
      in (load64 m item, load64 m (item + 8), load32 m (item + 16)))"

definition e820_list :: "memory \<Rightarrow> e820_item list" where
  "e820_list m = map (e820_item m) [0..<e820_count m]"

lemma e820map_get_items_nat:
  "e820map_get_items (int i) m = (if i < e820_count m then Some (e820_item m i) else None)"
  by (auto simp: e820map_get_items_def e820_count_def e820_item_def Let_def)

lemma e820_drop:
  "drop i (e820_list m) = (if i < e820_count m then e820_item m i # drop (Suc i) (e820_list m) else [])"
  by (auto simp: e820_list_def Cons_nth_drop_Suc [symmetric])

text \<open>Both loops are folds over the items.\<close>

definition max_step :: "e820_item \<Rightarrow> u64 \<Rightarrow> u64" where
  "max_step it mx = (case it of (addr, sz, type) \<Rightarrow>
     if type = E820_RAM \<and> mx < addr + sz then addr + sz else mx)"

definition region_step :: "u32 \<Rightarrow> e820_item \<Rightarrow> 'a pmm_scheme \<Rightarrow> 'a pmm_scheme" where
  "region_step v it s = (case it of (addr, sz, type) \<Rightarrow>
     if type = E820_RAM then init_region v addr sz s else s)"

lemma max_pa_loop_fold: "max_pa_loop (int i) m mx = fold max_step (drop i (e820_list m)) mx"
proof (induction "e820_count m - i" arbitrary: i mx)
  case 0
  then show ?case
    by (subst max_pa_loop.simps, subst e820_drop) (simp add: e820map_get_items_nat)
next
  case (Suc k)
  then have i: "i < e820_count m" and k: "k = e820_count m - Suc i" by simp_all
  obtain addr sz ty where it: "e820_item m i = (addr, sz, ty)" by (cases "e820_item m i")
  have e: "int i + 1 = 1 + int i" by simp
  then show ?case
    using Suc(1) [OF k] i it
    by (subst max_pa_loop.simps, subst e820_drop) (simp add: e820map_get_items_nat max_step_def e)
qed

lemma region_step_mem [simp]: "mem (region_step v it s) = mem s"
  by (simp add: region_step_def split: prod.splits)

lemma memmap_loop_fold:
  "memmap_loop (int i) v s = fold (region_step v) (drop i (e820_list (mem s))) s"
proof (induction "e820_count (mem s) - i" arbitrary: i s)
  case 0
  then show ?case
    by (subst memmap_loop.simps, subst e820_drop) (simp add: e820map_get_items_nat)
next
  case (Suc k)
  then have i: "i < e820_count (mem s)" by simp
  obtain addr sz ty where it: "e820_item (mem s) i = (addr, sz, ty)" by (cases "e820_item (mem s) i")
  have st: "(if ty = E820_RAM then init_region v addr sz s else s) = region_step v (addr, sz, ty) s"
    by (simp add: region_step_def)
  have IH: "memmap_loop (int (Suc i)) v (region_step v (addr, sz, ty) s) =
      fold (region_step v) (drop (Suc i) (e820_list (mem s))) (region_step v (addr, sz, ty) s)"
    using Suc(1) [of "region_step v (addr, sz, ty) s" "Suc i"] Suc(2) by simp
  have e: "int i + 1 = 1 + int i" by simp
  then show ?case
    using IH i it st
    by (subst memmap_loop.simps, subst e820_drop) (simp add: e820map_get_items_nat e)
qed

section \<open>One region\<close>

text \<open>The block of whole pages an item contributes, given the first usable address.\<close>

fun ram_block :: "nat \<Rightarrow> e820_item \<Rightarrow> block list" where
  "ram_block v (addr, sz, ty) =
     (let lo = max (unat addr) v; hi = unat addr + unat sz
      in if ty = E820_RAM \<and> lo < hi
         then [((lo + 4095) div 4096, hi div 4096 - (lo + 4095) div 4096)] else [])"

fun item_ok :: "nat \<Rightarrow> e820_item \<Rightarrow> bool" where
  "item_ok v (addr, sz, ty) \<longleftrightarrow>
     (let lo = max (unat addr) v; hi = unat addr + unat sz
      in ty = E820_RAM \<longrightarrow> hi < 2 ^ 32 \<and> (lo < hi \<longrightarrow> (lo + 4095) div 4096 < hi div 4096))"

lemma unat_ucast_u32: "unat (a :: u64) < 2 ^ 32 \<Longrightarrow> unat (ucast a :: u32) = unat a"
  by (simp add: unsigned_ucast_eq take_bit_eq_mod)

lemma unat_ucast_u64: "unat (ucast (a :: u32) :: u64) = unat a"
proof -
  have "unat a < 2 ^ 64" using unat_u32_less [of a] by (rule less_trans) simp
  then show ?thesis by (simp add: unsigned_ucast_eq take_bit_eq_mod)
qed

lemma unat_PAG_NUM: "unat (PAG_NUM a) = unat a div 4096"
  by (simp add: PAG_NUM_def PG_SHIFT_def drop_bit_eq_div unat_div)

lemma init_region_blocks:
  assumes "item_ok (unat v) (addr, sz, E820_RAM)"
  shows "init_region v addr sz s =
    (case ram_block (unat v) (addr, sz, E820_RAM) of
       [] \<Rightarrow> s | (p, k) # _ \<Rightarrow> ff_init_memmap p (of_nat k) s)"
proof -
  let ?hi = "unat addr + unat sz" and ?lo = "max (unat addr) (unat v)"
  let ?a = "if addr < ucast v then ucast v else addr"
  have hi: "?hi < 2 ^ 32" using assms by (simp add: Let_def)
  then have u: "unat (addr + sz) = ?hi" by (subst unat_add_small) simp_all
  have lo: "unat ?a = ?lo" by (auto simp: word_less_nat_alt unat_ucast_u64)
  have c: "?a < addr + sz \<longleftrightarrow> ?lo < ?hi"
    using lo u by (simp only: word_less_nat_alt)
  show ?thesis
  proof (cases "?lo < ?hi")
    case False
    then have "init_region v addr sz s = s"
      using c by (simp only: init_region_def Let_def if_False simp_thms)
    moreover have "ram_block (unat v) (addr, sz, E820_RAM) = []"
      using False by (simp only: ram_block.simps Let_def simp_thms if_False)
    ultimately show ?thesis by simp
  next
    case True
    then have lt: "(?lo + 4095) div 4096 < ?hi div 4096" using assms by (simp add: Let_def)
    moreover have "?hi div 4096 < 2 ^ 20" using hi by (simp add: div_less_iff_less_mult)
    ultimately have lo32: "?lo + 4095 < 2 ^ 32" by (simp add: div_less_iff_less_mult) linarith
    obtain A where A: "A = ROUND_UP64 ?a PG_SIZE" by simp
    obtain L where L: "L = ROUND_DOWN64 (addr + sz) PG_SIZE" by simp
    have ca: "unat (ucast ?a :: u32) = ?lo" using lo lo32 by (subst unat_ucast_u32) simp_all
    have "unat (ROUND_UP (ucast ?a) PG_SIZE) = (?lo + 4095) div 4096 * 4096"
      using unat_ROUND_UP [of "ucast ?a"] ca lo32 by simp
    then have uA: "unat A = (?lo + 4095) div 4096 * 4096"
      by (simp add: A ROUND_UP64_def unat_ucast_u64)
    have "unat (ucast (addr + sz) :: u32) = ?hi" using u hi by (subst unat_ucast_u32) simp_all
    then have uL: "unat L = ?hi div 4096 * 4096"
      by (simp add: L ROUND_DOWN64_def unat_ucast_u64 unat_ROUND_DOWN)
    have "A \<le> L" using uA uL lt by (simp add: word_le_nat_alt)
    then have "unat (L - A) = (?hi div 4096 - (?lo + 4095) div 4096) * 4096"
      using uA uL by (simp add: unat_sub diff_mult_distrib)
    then have n: "unat (PAG_NUM (L - A)) = ?hi div 4096 - (?lo + 4095) div 4096"
      by (simp add: unat_PAG_NUM)
    then have "(ucast (PAG_NUM (L - A)) :: u32) = of_nat (?hi div 4096 - (?lo + 4095) div 4096)"
      using \<open>?hi div 4096 < 2 ^ 20\<close>
      by (intro word_of_unat, subst unat_ucast_u32) simp_all
    moreover have "pa2page (ucast A) = (?lo + 4095) div 4096"
      using uA lo32 by (subst unat_pa2page, subst unat_ucast_u32) auto
    moreover have "init_region v addr sz s = ff_init_memmap (pa2page (ucast A)) (ucast (PAG_NUM (L - A))) s"
      using True c by (simp add: init_region_def Let_def A L)
    ultimately show ?thesis using True by (simp add: Let_def)
  qed
qed

section \<open>All regions\<close>

definition ram_blocks :: "nat \<Rightarrow> e820_item list \<Rightarrow> block list" where
  "ram_blocks v its = concat (map (ram_block v) its)"

lemma ram_blocks_simps [simp]:
  "ram_blocks v [] = []" "ram_blocks v (it # its) = ram_block v it @ ram_blocks v its"
  by (simp_all add: ram_blocks_def)

lemma frames_append_list: "frames (xs @ ys) = frames xs @ frames ys"
  by (simp add: frames_def)

lemma region_step_inv:
  assumes inv: "ff_inv s bs" and ok: "item_ok (unat v) it"
    and dis: "distinct (frames (bs @ ram_block (unat v) it))"
    and sub: "set (frames (ram_block (unat v) it)) \<subseteq> {..<unat (npage s)}"
  shows "ff_inv (region_step v it s) (bs @ ram_block (unat v) it) \<and>
    npage (region_step v it s) = npage s \<and> pmm.more (region_step v it s) = pmm.more s"
proof -
  obtain addr sz ty where it: "it = (addr, sz, ty)" by (cases it)
  show ?thesis
  proof (cases "ram_block (unat v) it")
    case Nil
    have "region_step v it s = s"
    proof (cases "ty = E820_RAM")
      case True
      then show ?thesis
        using init_region_blocks [of v addr sz s] ok Nil it by (simp add: region_step_def)
    qed (simp add: region_step_def it)
    then show ?thesis using inv Nil by simp
  next
    case (Cons b bs')
    then have ty: "ty = E820_RAM" by (auto simp: it Let_def split: if_splits)
    obtain p k where b: "b = (p, k)" by (cases b)
    have hi: "unat addr + unat sz < 2 ^ 32" using ok ty by (simp add: it Let_def)
    have bl: "ram_block (unat v) it = [(p, k)]" and k: "0 < k" "k \<le> (unat addr + unat sz) div 4096"
      using Cons ok ty by (auto simp: it b Let_def split: if_splits)
    have "(unat addr + unat sz) div 4096 \<le> unat addr + unat sz" by (rule div_le_dividend)
    then have k2: "k < 2 ^ 32" using k(2) hi by linarith
    have n: "unat (of_nat k :: u32) = k" using k2 by (simp add: unat_of_nat)
    have "0 < (of_nat k :: u32)" using k n by (simp add: word_less_nat_alt)
    moreover have "{p..<p + unat (of_nat k :: u32)} \<inter> set (frames bs) = {}"
      using dis bl n by auto
    moreover have "p + k - 1 \<in> set (frames (ram_block (unat v) it))" using bl k by auto
    then have "p + unat (of_nat k :: u32) \<le> unat (npage s)" using sub k n by fastforce
    moreover have "region_step v it s = ff_init_memmap p (of_nat k) s"
      using init_region_blocks [of v addr sz s] ok bl it ty by (simp add: region_step_def)
    ultimately show ?thesis
      using ff_init_memmap_inv [OF inv, of "of_nat k" p] n bl by simp
  qed
qed

lemma regions_inv:
  "ff_inv s bs \<Longrightarrow> \<forall>it \<in> set its. item_ok (unat v) it \<Longrightarrow>
   distinct (frames (bs @ ram_blocks (unat v) its)) \<Longrightarrow>
   set (frames (ram_blocks (unat v) its)) \<subseteq> {..<unat (npage s)} \<Longrightarrow>
   ff_inv (fold (region_step v) its s) (bs @ ram_blocks (unat v) its) \<and>
   npage (fold (region_step v) its s) = npage s \<and>
   pmm.more (fold (region_step v) its s) = pmm.more s"
proof (induction its arbitrary: s bs)
  case Nil
  then show ?case by simp
next
  case (Cons it its)
  have "ff_inv (region_step v it s) (bs @ ram_block (unat v) it) \<and>
    npage (region_step v it s) = npage s \<and> pmm.more (region_step v it s) = pmm.more s"
    by (rule region_step_inv [OF Cons.prems(1)])
      (use Cons.prems(2-4) in \<open>auto simp: frames_append_list\<close>)
  then show ?case
    using Cons.IH [of "region_step v it s" "bs @ ram_block (unat v) it"] Cons.prems
    by (simp add: frames_append_list)
qed

text \<open>The end of the highest usable region.\<close>

definition ram_end :: "e820_item list \<Rightarrow> nat" where
  "ram_end its = fold (\<lambda>(addr, sz, ty) m. if ty = E820_RAM then max m (unat addr + unat sz) else m) its 0"

lemma max_step_fold:
  "\<forall>it \<in> set its. item_ok v it \<Longrightarrow> unat mx < 2 ^ 32 \<Longrightarrow>
   unat (fold max_step its mx) =
     fold (\<lambda>(addr, sz, ty) m. if ty = E820_RAM then max m (unat addr + unat sz) else m) its (unat mx) \<and>
   unat (fold max_step its mx) < 2 ^ 32"
proof (induction its arbitrary: mx)
  case Nil
  then show ?case by simp
next
  case (Cons it its)
  obtain addr sz ty where it: "it = (addr, sz, ty)" by (cases it)
  have "unat (max_step it mx) = (if ty = E820_RAM then max (unat mx) (unat addr + unat sz) else unat mx)"
    and "unat (max_step it mx) < 2 ^ 32"
  proof -
    have "ty = E820_RAM \<Longrightarrow> unat addr + unat sz < 2 ^ 32"
      using Cons.prems(1) by (simp add: it Let_def)
    moreover from this have "ty = E820_RAM \<Longrightarrow> unat (addr + sz) = unat addr + unat sz"
      by (subst unat_add_small) simp_all
    ultimately show "unat (max_step it mx) = (if ty = E820_RAM then max (unat mx) (unat addr + unat sz) else unat mx)"
      and "unat (max_step it mx) < 2 ^ 32"
      using Cons.prems(2) by (auto simp: max_step_def it word_less_nat_alt)
  qed
  then show ?case using Cons.IH [of "max_step it mx"] Cons.prems(1) by (simp add: it)
qed

lemma ram_end_ge_aux:
  "m \<le> fold (\<lambda>(addr, sz, ty) m. if ty = E820_RAM then max m (unat addr + unat sz) else m) its m"
proof (induction its arbitrary: m)
  case (Cons it its)
  obtain addr sz ty where it: "it = (addr, sz, ty)" by (cases it)
  show ?case
    using Cons [of "max m (unat addr + unat sz)"] Cons [of m] by (auto simp: it)
qed simp

lemma ram_end_ge:
  "(addr, sz, E820_RAM) \<in> set its \<Longrightarrow>
   unat addr + unat sz \<le> fold (\<lambda>(addr, sz, ty) m. if ty = E820_RAM then max m (unat addr + unat sz) else m) its m"
proof (induction its arbitrary: m)
  case (Cons it its)
  show ?case
  proof (cases "it = (addr, sz, E820_RAM)")
    case True
    then show ?thesis
      using ram_end_ge_aux [of "max m (unat addr + unat sz)" its] by simp
  next
    case False
    then show ?thesis using Cons by (cases it) auto
  qed
qed simp

lemma in_ram_block:
  assumes "item_ok v (addr, sz, ty)"
  shows "q \<in> set (frames (ram_block v (addr, sz, ty))) \<longleftrightarrow>
    ty = E820_RAM \<and> v \<le> q * 4096 \<and> unat addr \<le> q * 4096 \<and> q * 4096 + 4096 \<le> unat addr + unat sz"
proof (cases "ty = E820_RAM \<and> max (unat addr) v < unat addr + unat sz")
  case True
  let ?lo = "max (unat addr) v" and ?hi = "unat addr + unat sz"
  have "(?lo + 4095) div 4096 < ?hi div 4096" using assms True by (simp add: Let_def)
  then have "q \<in> set (frames (ram_block v (addr, sz, ty))) \<longleftrightarrow>
      (?lo + 4095) div 4096 \<le> q \<and> q < ?hi div 4096"
    using True by (simp add: Let_def)
  also have "\<dots> \<longleftrightarrow> ?lo \<le> q * 4096 \<and> q * 4096 + 4096 \<le> ?hi"
  proof -
    have "(?lo + 4095) div 4096 \<le> q \<longleftrightarrow> ?lo \<le> q * 4096" by linarith
    moreover have "q < ?hi div 4096 \<longleftrightarrow> q * 4096 + 4096 \<le> ?hi" by linarith
    ultimately show ?thesis by simp
  qed
  finally show ?thesis using True by auto
next
  case False
  then show ?thesis by (auto simp: Let_def)
qed

lemma frames_ram_blocks: "set (frames (ram_blocks v its)) = (\<Union>it \<in> set its. set (frames (ram_block v it)))"
  by (induction its) (simp_all add: frames_append_list)

section \<open>\<^verbatim>\<open>pmm_init\<close>\<close>

lemma reserve_all_simps [page_simps]:
  "links (reserve_all i k s) = links s" "npage (reserve_all i k s) = npage s"
  "nr_free (reserve_all i k s) = nr_free s" "pmm.more (reserve_all i k s) = pmm.more s"
  by (induction i k s rule: reserve_all.induct) (simp_all add: page_simps)

definition map_ok :: "nat \<Rightarrow> e820_item list \<Rightarrow> bool" where
  "map_ok v its \<longleftrightarrow> (\<forall>it \<in> set its. item_ok v it) \<and> distinct (frames (ram_blocks v its))"

text \<open>The physical address after the descriptor array, from where on frames are handed out.\<close>

definition first_usable :: "u32 \<Rightarrow> e820_item list \<Rightarrow> u32" where
  "first_usable kernel_end its =
     P_ADDR (ROUND_UP kernel_end PG_SIZE + PAGE_DESC_SIZE * of_nat (ram_end its div 4096))"

lemma ram_blocks_bound:
  assumes "\<forall>it \<in> set its. item_ok v it"
  shows "set (frames (ram_blocks v its)) \<subseteq> {..<ram_end its div 4096}"
proof
  fix q
  assume "q \<in> set (frames (ram_blocks v its))"
  then obtain addr sz ty where it: "(addr, sz, ty) \<in> set its"
    "q \<in> set (frames (ram_block v (addr, sz, ty)))"
    unfolding frames_ram_blocks by auto
  moreover have "item_ok v (addr, sz, ty)" using it(1) assms by blast
  ultimately have "ty = E820_RAM" "q * 4096 + 4096 \<le> unat addr + unat sz"
    using in_ram_block [of v addr sz ty q] by blast+
  then have "q * 4096 + 4096 \<le> ram_end its"
    using ram_end_ge [of addr sz its 0] it unfolding ram_end_def by auto
  then show "q \<in> {..<ram_end its div 4096}" by simp
qed

lemma pmm_init_inv:
  assumes "its = e820_list (mem s)" and "v = first_usable kernel_end its" and "map_ok (unat v) its"
  shows "ff_inv (pmm_init kernel_end s) (ram_blocks (unat v) its)"
    and "unat (npage (pmm_init kernel_end s)) = ram_end its div 4096"
    and "mem (pmm_init kernel_end s) = mem s"
proof -
  have ok: "\<forall>it \<in> set its. item_ok (unat v) it" and dis: "distinct (frames (ram_blocks (unat v) its))"
    using assms(3) by (simp_all add: map_ok_def)
  obtain mx where mx: "mx = max_pa_loop 0 (mem s) 0" by simp
  have "mx = fold max_step its 0"
    using max_pa_loop_fold [of 0 "mem s" 0] by (simp add: mx assms(1))
  then have e: "unat mx = ram_end its" "ram_end its < 2 ^ 32"
    using max_step_fold [OF ok, of 0] by (simp_all add: ram_end_def)
  obtain np :: u32 where np: "np = ucast (PAG_NUM mx)" by simp
  have "ram_end its div 4096 \<le> ram_end its" by (rule div_le_dividend)
  then have unp: "unat np = ram_end its div 4096"
    using e by (simp add: np unat_ucast_u32 unat_PAG_NUM)
  then have np': "np = of_nat (ram_end its div 4096)" by (rule word_of_unat)
  obtain s1 where s1: "s1 = reserve_all 0 (unat np) ((ff_init s)\<lparr>npage := np\<rparr>)" by simp
  have m0: "mem (ff_init s) = mem s" by (simp add: ff_init_def upd_links_def)
  have "pmm.more s1 = pmm.more s" by (simp add: s1 page_simps ff_init_def upd_links_def)
  then have m1: "mem s1 = mem s" by (rule more_eq_mach(1))
  have n1: "npage s1 = np" by (simp add: s1 page_simps)
  have "P_ADDR (ROUND_UP kernel_end PG_SIZE + PAGE_DESC_SIZE * np) = v"
    by (simp add: assms(2) first_usable_def np')
  then have r: "pmm_init kernel_end s = memmap_loop 0 v s1"
    using n1 by (simp add: pmm_init_def page_init_def m0 s1 Let_def flip: mx np)
  then have r: "pmm_init kernel_end s = fold (region_step v) its s1"
    using memmap_loop_fold [of 0 v s1] by (simp add: m1 assms(1))
  have i1: "ff_inv s1 []"
    using ff_init_inv [of s] by (simp add: s1 ff_inv_def page_simps)
  have "set (frames (ram_blocks (unat v) its)) \<subseteq> {..<unat (npage s1)}"
    using ram_blocks_bound [OF ok] by (simp add: n1 unp)
  then have R: "ff_inv (pmm_init kernel_end s) (ram_blocks (unat v) its) \<and>
    npage (pmm_init kernel_end s) = npage s1 \<and> pmm.more (pmm_init kernel_end s) = pmm.more s1"
    using regions_inv [OF i1 ok] dis by (simp add: r)
  then show "ff_inv (pmm_init kernel_end s) (ram_blocks (unat v) its)"
    and "unat (npage (pmm_init kernel_end s)) = ram_end its div 4096"
    using n1 unp by simp_all
  show "mem (pmm_init kernel_end s) = mem s" using R m1 more_eq_mach(1) by metis
qed

text \<open>
  C17. After \<^verbatim>\<open>pmm_init\<close> the free frames are exactly the whole pages that lie inside a
  usable region of the BIOS map and above the kernel image and the descriptor array; the free
  list is consistent, so every later allocation returns such a page.
\<close>

theorem pmm_init_free_pages:
  assumes "its = e820_list (mem s)" and "v = first_usable kernel_end its" and "map_ok (unat v) its"
  shows "ff_ok (pmm_init kernel_end s) \<and>
    (\<forall>q. q \<in> ff_avail (pmm_init kernel_end s) \<longleftrightarrow>
       unat v \<le> q * 4096 \<and>
       (\<exists>(addr, sz, ty) \<in> set its. ty = E820_RAM \<and> unat addr \<le> q * 4096 \<and>
          q * 4096 + 4096 \<le> unat addr + unat sz))"
proof -
  note inv = pmm_init_inv(1) [OF assms]
  have "q \<in> ff_avail (pmm_init kernel_end s) \<longleftrightarrow> (\<exists>it \<in> set its. q \<in> set (frames (ram_block (unat v) it)))" for q
    by (simp add: ff_avail_frames [OF inv] frames_ram_blocks)
  moreover have "q \<in> set (frames (ram_block (unat v) it)) \<longleftrightarrow> unat v \<le> q * 4096 \<and>
      (case it of (addr, sz, ty) \<Rightarrow> ty = E820_RAM \<and> unat addr \<le> q * 4096 \<and>
          q * 4096 + 4096 \<le> unat addr + unat sz)" if "it \<in> set its" for it q
  proof -
    obtain addr sz ty where it: "it = (addr, sz, ty)" by (cases it)
    have "item_ok (unat v) (addr, sz, ty)" using assms(3) that it unfolding map_ok_def by blast
    then show ?thesis using in_ram_block [of "unat v" addr sz ty q] it by auto
  qed
  ultimately show ?thesis using inv by auto
qed

text \<open>A map with one usable region, from 1 MB to 17 MB, as the BIOS leaves it in memory.\<close>

definition demo_bios :: memory where
  "demo_bios = (\<lambda>_. 0)(0xC0008000 := 1, 0xC0008006 := 0x10, 0xC000800F := 1, 0xC0008014 := 1)"

definition demo_boot :: mach where
  "demo_boot = mach_of (bss_pmm 0) demo_bios 0"

lemma demo_bios_list: "e820_list demo_bios = [(0x100000, 0x1000000, E820_RAM)]"
proof -
  have "e820_count demo_bios = 1"
    by (simp add: e820_count_def load32_def demo_bios_def E820_MEM_BASE_def KERNEL_BASE_def)
  moreover have "e820_item demo_bios 0 = (0x100000, 0x1000000, E820_RAM)"
    by (simp add: e820_item_def load64_def load32_def demo_bios_def E820_MEM_BASE_def
      KERNEL_BASE_def E820_RAM_def push_bit_eq_mult)
  ultimately show ?thesis by (simp add: e820_list_def)
qed

lemma demo_boot_ok:
  "first_usable 0xC0120000 (e820_list (mem demo_boot)) = 0x135400"
  "map_ok (unat (0x135400 :: u32)) (e820_list (mem demo_boot))"
proof -
  have l: "e820_list (mem demo_boot) = [(0x100000, 0x1000000, E820_RAM)]"
    by (simp add: demo_boot_def demo_bios_list)
  show "first_usable 0xC0120000 (e820_list (mem demo_boot)) = 0x135400"
    unfolding l
    by (simp add: first_usable_def ram_end_def ROUND_UP_def ROUND_DOWN_def PG_SIZE_def
      PAGE_DESC_SIZE_def P_ADDR_def KERNEL_BASE_def)
  have "distinct (frames [(310, 4042)])"
    by (simp only: frames_def list.map concat.simps block_frames.simps append_Nil2 distinct_upt)
  then show "map_ok (unat (0x135400 :: u32)) (e820_list (mem demo_boot))"
    unfolding l map_ok_def by (simp add: Let_def del: frames_simps)
qed

theorem pmm_init_free_pages_witness:
  "ff_ok (pmm_init 0xC0120000 demo_boot) \<and> 0x136 \<in> ff_avail (pmm_init 0xC0120000 demo_boot) \<and>
   0x135 \<notin> ff_avail (pmm_init 0xC0120000 demo_boot)"
  using pmm_init_free_pages [OF refl demo_boot_ok(1) [symmetric] demo_boot_ok(2)]
  by (simp add: demo_boot_def demo_bios_list)

end
