(* ===== verification/Swap_Fifo.thy ===== *)
theory Swap_Fifo
  imports Pmm
begin

text \<open>
  The page replacement managers: the FIFO manager in use (\<^verbatim>\<open>kern/mm/swap_fifo.c\<close>) and
  the archived clock and LRU managers (\<^verbatim>\<open>kern/mm/archived\<close>). The state adds the fields of
  \<^verbatim>\<open>init_mm\<close>, the only \<^verbatim>\<open>mm_struct\<close> of the kernel, and the clock hand. A manager's
  static \<^verbatim>\<open>pra_list_head\<close> is \<open>PraHead\<close>; one manager is active at a time. A
  \<^verbatim>\<open>swap_list\<close> that was never set is the null pointer \<open>LNull\<close>.
\<close>

record vmm = mach +
  mm_pgdir :: u32
  mm_map_count :: u32
  mm_swap_list :: lnode
  clock_ptr :: lnode

section \<open>FIFO\<close>

definition swap_fifo_init :: "'a vmm_scheme \<Rightarrow> int \<times> 'a vmm_scheme" where
  "swap_fifo_init s = (0, s)"

definition swap_fifo_init_mm :: "'a vmm_scheme \<Rightarrow> int \<times> 'a vmm_scheme" where
  "swap_fifo_init_mm s =
     (let s = upd_links (list_init PraHead) s
      in (0, s\<lparr>mm_swap_list := PraHead\<rparr>))"

definition swap_fifo_map_swappable ::
  "u32 \<Rightarrow> nat \<Rightarrow> bool \<Rightarrow> 'a vmm_scheme \<Rightarrow> (int \<times> 'a vmm_scheme) res" where
  "swap_fifo_map_swappable addr page swap_in s =
     (let head = mm_swap_list s; entry = PageLink page in
      if head = LNull then Inl Null_Deref
      else Inr (0, upd_links (list_add_before head entry) s))"

text \<open>The out parameter \<^verbatim>\<open>page_ptr\<close> is the second component of the result.\<close>

definition swap_fifo_swap_out_victim ::
  "bool \<Rightarrow> 'a vmm_scheme \<Rightarrow> (int \<times> nat option \<times> 'a vmm_scheme) res" where
  "swap_fifo_swap_out_victim in_tick s =
     (let head = mm_swap_list s in
      if head = LNull then Inl Null_Deref
      else
        let victim = list_next (links s) head in
        if victim = head then Inr (-1, None, s)
        else Inr (0, Some (le2page victim), upd_links (list_del victim) s))"

section \<open>Clock\<close>

definition swap_clock_init_mm :: "'a vmm_scheme \<Rightarrow> int \<times> 'a vmm_scheme" where
  "swap_clock_init_mm s =
     (let s = upd_links (list_init PraHead) s;
          s = s\<lparr>mm_swap_list := PraHead\<rparr>
      in (0, s\<lparr>clock_ptr := PraHead\<rparr>))"

definition swap_clock_map_swappable ::
  "u32 \<Rightarrow> nat \<Rightarrow> bool \<Rightarrow> 'a vmm_scheme \<Rightarrow> (int \<times> 'a vmm_scheme) res" where
  "swap_clock_map_swappable addr page swap_in s =
     (let head = mm_swap_list s; entry = PageLink page in
      if head = LNull then Inl Null_Deref
      else Inr (0, upd_links (list_add_before head entry) s))"

text \<open>The \<^verbatim>\<open>while (1)\<close> loop returns in its first round on every path.\<close>

definition swap_clock_swap_out_victim ::
  "bool \<Rightarrow> 'a vmm_scheme \<Rightarrow> (int \<times> nat option \<times> 'a vmm_scheme) res" where
  "swap_clock_swap_out_victim in_tick s =
     (let head = mm_swap_list s in
      if head = LNull then Inl Null_Deref
      else
        let s = (if clock_ptr s = LNull \<or> clock_ptr s = head
                 then s\<lparr>clock_ptr := list_next (links s) head\<rparr> else s);
            s = (if clock_ptr s = head
                 then s\<lparr>clock_ptr := list_next (links s) (clock_ptr s)\<rparr> else s)
        in if clock_ptr s = head then Inr (-1, None, s)
           else
             let victim = clock_ptr s;
                 s = s\<lparr>clock_ptr := list_next (links s) (clock_ptr s)\<rparr>;
                 s = upd_links (list_del victim) s
             in Inr (0, Some (le2page victim), s))"

section \<open>LRU\<close>

definition swap_lru_init_mm :: "'a vmm_scheme \<Rightarrow> int \<times> 'a vmm_scheme" where
  "swap_lru_init_mm s =
     (let s = upd_links (list_init PraHead) s
      in (0, s\<lparr>mm_swap_list := PraHead\<rparr>))"

definition swap_lru_map_swappable ::
  "u32 \<Rightarrow> nat \<Rightarrow> bool \<Rightarrow> 'a vmm_scheme \<Rightarrow> (int \<times> 'a vmm_scheme) res" where
  "swap_lru_map_swappable addr page swap_in s =
     (let head = mm_swap_list s; entry = PageLink page;
          s = (if prv (links s) entry \<noteq> LNull \<and> nxt (links s) entry \<noteq> LNull
               then upd_links (list_del entry) s else s)
      in if head = LNull then Inl Null_Deref
         else Inr (0, upd_links (list_add_before head entry) s))"

definition swap_lru_swap_out_victim ::
  "bool \<Rightarrow> 'a vmm_scheme \<Rightarrow> (int \<times> nat option \<times> 'a vmm_scheme) res" where
  "swap_lru_swap_out_victim in_tick s =
     (let head = mm_swap_list s in
      if head = LNull then Inl Null_Deref
      else
        let victim = list_next (links s) head in
        if victim = head then Inr (-1, None, s)
        else Inr (0, Some (le2page victim), upd_links (list_del victim) s))"

definition swap_lru_tick_event :: "'a vmm_scheme \<Rightarrow> int \<times> 'a vmm_scheme" where
  "swap_lru_tick_event s = (0, s)"

end
