(* ===== verification/Swap_Interface.thy ===== *)
theory Swap_Interface
  imports Prelude
begin

text \<open>
  The interface \<^verbatim>\<open>swap_manager\<close> of \<^verbatim>\<open>kern/mm/swap.h\<close>. \<open>queue s ps\<close> says that the
  manager holds the pages \<open>ps\<close>, next victim first; \<open>fresh s p\<close> that the page \<open>p\<close> may be
  made swappable. The laws are those of a queue, and the lemma is what they give a client that
  maps pages and later takes victims.
\<close>

text \<open>A client that makes several pages swappable in order, and one that takes \<open>k\<close> victims.\<close>

fun map_all :: "(u32 \<Rightarrow> nat \<Rightarrow> bool \<Rightarrow> 's \<Rightarrow> (int \<times> 's) res) \<Rightarrow> (u32 \<times> nat) list \<Rightarrow> 's \<Rightarrow> 's res" where
  "map_all ms [] s = Inr s"
| "map_all ms ((a, p) # ps) s = bindE (ms a p False s) (\<lambda>(_, s). map_all ms ps s)"

fun victims :: "(bool \<Rightarrow> 's \<Rightarrow> (int \<times> nat option \<times> 's) res) \<Rightarrow> nat \<Rightarrow> 's \<Rightarrow> nat option list res" where
  "victims sv 0 s = Inr []"
| "victims sv (Suc k) s = bindE (sv False s) (\<lambda>(_, p, s). bindE (victims sv k s) (\<lambda>ps. Inr (p # ps)))"

locale swap_manager =
  fixes init_mm :: "'s \<Rightarrow> int \<times> 's"
    and map_swappable :: "u32 \<Rightarrow> nat \<Rightarrow> bool \<Rightarrow> 's \<Rightarrow> (int \<times> 's) res"
    and victim :: "bool \<Rightarrow> 's \<Rightarrow> (int \<times> nat option \<times> 's) res"
    and queue :: "'s \<Rightarrow> nat list \<Rightarrow> bool"
    and fresh :: "'s \<Rightarrow> nat \<Rightarrow> bool"
  assumes init_queue: "fst (init_mm s) = 0 \<and> queue (snd (init_mm s)) []"
    and init_fresh: "fresh s p \<Longrightarrow> fresh (snd (init_mm s)) p"
    and map_queue: "queue s ps \<Longrightarrow> p \<notin> set ps \<Longrightarrow> fresh s p \<Longrightarrow>
      \<exists>s'. map_swappable a p b s = Inr (0, s') \<and> queue s' (ps @ [p]) \<and>
        (\<forall>q. q \<notin> insert p (set ps) \<longrightarrow> fresh s q \<longrightarrow> fresh s' q)"
    and victim_none: "queue s [] \<Longrightarrow> \<exists>s'. victim t s = Inr (-1, None, s') \<and> queue s' []"
    and victim_some: "queue s (p # ps) \<Longrightarrow> \<exists>s'. victim t s = Inr (0, Some p, s') \<and> queue s' ps"
begin

lemma map_all_queue:
  "queue s qs \<Longrightarrow> distinct (qs @ map snd ps) \<Longrightarrow> \<forall>p \<in> set (map snd ps). fresh s p \<Longrightarrow>
   \<exists>s'. map_all map_swappable ps s = Inr s' \<and> queue s' (qs @ map snd ps)"
proof (induction ps arbitrary: s qs)
  case Nil
  then show ?case by simp
next
  case (Cons ap ps)
  obtain a p where ap: "ap = (a, p)" by (cases ap)
  obtain s1 where s1: "map_swappable a p False s = Inr (0, s1)" "queue s1 (qs @ [p])"
    "\<forall>q. q \<notin> insert p (set qs) \<longrightarrow> fresh s q \<longrightarrow> fresh s1 q"
    using map_queue [OF Cons.prems(1), of p a False] Cons.prems(2,3) ap by auto
  have "\<forall>q \<in> set (map snd ps). fresh s1 q"
    using s1(3) Cons.prems(2,3) ap by fastforce
  then show ?case
    using Cons.IH [OF s1(2)] Cons.prems(2) s1(1) ap by auto
qed

lemma victims_queue:
  "queue s ps \<Longrightarrow> victims victim k s = Inr (map Some (take k ps) @ replicate (k - length ps) None)"
proof (induction k arbitrary: s ps)
  case 0
  then show ?case by simp
next
  case (Suc k)
  show ?case
  proof (cases ps)
    case Nil
    obtain s' where "victim False s = Inr (-1, None, s')" "queue s' []"
      using victim_none Suc.prems Nil by blast
    then show ?thesis using Suc.IH [of s' "[]"] Nil by simp
  next
    case (Cons p qs)
    obtain s' where "victim False s = Inr (0, Some p, s')" "queue s' qs"
      using victim_some Suc.prems Cons by blast
    then show ?thesis using Suc.IH [of s' qs] Cons by simp
  qed
qed

lemma first_in_first_out:
  assumes "distinct (map snd ps)" and "\<forall>p \<in> set (map snd ps). fresh s p"
  shows "\<exists>s'. map_all map_swappable ps (snd (init_mm s)) = Inr s' \<and>
    victims victim k s' = Inr (map Some (take k (map snd ps)) @ replicate (k - length ps) None)"
proof -
  have "queue (snd (init_mm s)) []" by (simp add: init_queue)
  from map_all_queue [OF this, of ps] obtain s' where
    s': "map_all map_swappable ps (snd (init_mm s)) = Inr s'" "queue s' ([] @ map snd ps)"
    using assms init_fresh by auto
  then show ?thesis using victims_queue [OF s'(2), of k] by simp
qed

end

end
