(* ===== verification/Swap_Fifo_Laws.thy ===== *)
theory Swap_Fifo_Laws
  imports Swap_Fifo Swap_Interface Mapping_Laws
begin

text \<open>
  The three page replacement managers as instances of the interface: all of them hand out
  victims in the order the pages came in, the clock manager included. LRU moves a page that is
  touched again to the back; because it recognises such a page by its link pointers, it takes a
  freshly allocated page for a queued one and damages the free list.
\<close>

lemma upd_links_vmm [simp]:
  "mm_pgdir (upd_links f s) = mm_pgdir s" "mm_map_count (upd_links f s) = mm_map_count s"
  "mm_swap_list (upd_links f s) = mm_swap_list s" "clock_ptr (upd_links f s) = clock_ptr s"
  by (simp_all add: upd_links_def)

section \<open>Queues\<close>

definition pra_queue :: "'a vmm_scheme \<Rightarrow> nat list \<Rightarrow> bool" where
  "pra_queue s ps \<longleftrightarrow> mm_swap_list s = PraHead \<and> clist (links s) PraHead (map PageLink ps)"

lemma pra_queue_push:
  assumes "pra_queue s ps" "p \<notin> set ps"
  shows "pra_queue (upd_links (list_add_before PraHead (PageLink p)) s) (ps @ [p])"
  using assms clist_add_before [of "links s" PraHead "map PageLink ps" "PageLink p"]
  by (auto simp: pra_queue_def page_simps)

lemma pra_queue_pop:
  "pra_queue s (p # ps) \<Longrightarrow> pra_queue (upd_links (list_del (PageLink p)) s) ps"
  using clist_del_head [of "links s" PraHead "PageLink p" "map PageLink ps"]
  by (auto simp: pra_queue_def page_simps)

lemma pra_queue_next:
  "pra_queue s ps \<Longrightarrow> list_next (links s) PraHead = (case ps of [] \<Rightarrow> PraHead | p # _ \<Rightarrow> PageLink p)"
  by (auto simp: pra_queue_def list_next_def clist_nxt split: list.splits)

lemma pra_queue_init: "pra_queue ((upd_links (list_init PraHead) s)\<lparr>mm_swap_list := PraHead\<rparr>) []"
  by (simp add: pra_queue_def page_simps clist_init)

interpretation fifo: swap_manager swap_fifo_init_mm swap_fifo_map_swappable
  swap_fifo_swap_out_victim pra_queue "\<lambda>_ _. True"
proof (unfold_locales, goal_cases)
  case (1 s)
  then show ?case using pra_queue_init by (simp add: swap_fifo_init_mm_def)
next
  case (3 s ps p a b)
  then show ?case
    using pra_queue_push by (auto simp: swap_fifo_map_swappable_def pra_queue_def)
next
  case (4 s t)
  then show ?case
    using pra_queue_next [OF 4] by (auto simp: swap_fifo_swap_out_victim_def pra_queue_def Let_def)
next
  case (5 s p ps t)
  then show ?case
    using pra_queue_next [OF 5] pra_queue_pop [OF 5]
    by (auto simp: swap_fifo_swap_out_victim_def pra_queue_def Let_def)
qed simp

text \<open>The hand stands on the head or on the first entry: the clock never passes a page.\<close>

definition clock_queue :: "'a vmm_scheme \<Rightarrow> nat list \<Rightarrow> bool" where
  "clock_queue s ps \<longleftrightarrow> pra_queue s ps \<and>
     (clock_ptr s = PraHead \<or> (ps \<noteq> [] \<and> clock_ptr s = PageLink (hd ps)))"

interpretation clock: swap_manager swap_clock_init_mm swap_clock_map_swappable
  swap_clock_swap_out_victim clock_queue "\<lambda>_ _. True"
proof (unfold_locales, goal_cases)
  case (1 s)
  then show ?case
    using pra_queue_init [of s]
    by (simp add: swap_clock_init_mm_def clock_queue_def pra_queue_def Let_def)
next
  case (3 s ps p a b)
  then show ?case
    using pra_queue_push [of s ps p]
    by (auto simp: swap_clock_map_swappable_def clock_queue_def pra_queue_def page_simps hd_append)
next
  case (4 s t)
  then have "list_next (links s) PraHead = PraHead"
    using pra_queue_next [of s "[]"] by (simp add: clock_queue_def)
  then show ?case
    using 4 by (auto simp: swap_clock_swap_out_victim_def clock_queue_def pra_queue_def Let_def)
next
  case (5 s p ps t)
  then have q: "pra_queue s (p # ps)" and cp: "clock_ptr s = PraHead \<or> clock_ptr s = PageLink p"
    by (auto simp: clock_queue_def)
  have n: "list_next (links s) PraHead = PageLink p" using pra_queue_next [OF q] by simp
  have m: "list_next (links s) (PageLink p) = (case ps of [] \<Rightarrow> PraHead | r # _ \<Rightarrow> PageLink r)"
    using clist_nxt_mid [of "links s" PraHead "[]" "PageLink p" "map PageLink ps"] q
    by (auto simp: pra_queue_def list_next_def split: list.splits)
  have h: "mm_swap_list s = PraHead" using q by (simp add: pra_queue_def)
  let ?s' = "upd_links (list_del (PageLink p)) (s\<lparr>clock_ptr := list_next (links s) (PageLink p)\<rparr>)"
  have "swap_clock_swap_out_victim t s = Inr (0, Some p, ?s')"
    using cp by (auto simp: swap_clock_swap_out_victim_def h n Let_def)
  moreover have "clock_queue ?s' ps"
    using pra_queue_pop [OF q] m
    by (auto simp: clock_queue_def pra_queue_def page_simps split: list.splits)
  ultimately show ?case by blast
qed simp

text \<open>For LRU a page is new only when one of its link pointers is null.\<close>

definition lru_fresh :: "'a vmm_scheme \<Rightarrow> nat \<Rightarrow> bool" where
  "lru_fresh s p \<longleftrightarrow> prv (links s) (PageLink p) = LNull \<or> nxt (links s) (PageLink p) = LNull"

interpretation lru: swap_manager swap_lru_init_mm swap_lru_map_swappable
  swap_lru_swap_out_victim pra_queue lru_fresh
proof (unfold_locales, goal_cases)
  case (1 s)
  then show ?case using pra_queue_init by (simp add: swap_lru_init_mm_def)
next
  case (2 s p)
  then show ?case
    by (simp add: swap_lru_init_mm_def lru_fresh_def page_simps list_init_def Let_def)
next
  case (3 s ps p a b)
  let ?s' = "upd_links (list_add_before PraHead (PageLink p)) s"
  have c: "clist (links s) PraHead (map PageLink ps)" and h: "mm_swap_list s = PraHead"
    using 3(1) by (simp_all add: pra_queue_def)
  have "swap_lru_map_swappable a p b s = Inr (0, ?s')"
    using 3(3) h by (auto simp: swap_lru_map_swappable_def lru_fresh_def Let_def)
  moreover have "lru_fresh ?s' q" if "q \<notin> insert p (set ps)" "lru_fresh s q" for q
  proof -
    have "PageLink q \<notin> insert (PageLink p) (set (PraHead # map PageLink ps))"
      using that(1) by auto
    then show ?thesis
      using that(2) list_add_before_unchanged [OF c] by (simp add: lru_fresh_def page_simps)
  qed
  ultimately show ?case using pra_queue_push [OF 3(1,2)] by blast
next
  case (4 s t)
  then show ?case
    using pra_queue_next [OF 4] by (auto simp: swap_lru_swap_out_victim_def pra_queue_def Let_def)
next
  case (5 s p ps t)
  then show ?case
    using pra_queue_next [OF 5] pra_queue_pop [OF 5]
    by (auto simp: swap_lru_swap_out_victim_def pra_queue_def Let_def)
qed

section \<open>Touching a page again\<close>

lemma lru_touch:
  assumes q: "pra_queue s (as @ p # bs)"
  shows "\<exists>s'. swap_lru_map_swappable a p b s = Inr (0, s') \<and> pra_queue s' (as @ bs @ [p])"
proof -
  have c: "clist (links s) PraHead (map PageLink as @ PageLink p # map PageLink bs)"
    and h: "mm_swap_list s = PraHead"
    using q by (simp_all add: pra_queue_def)
  have "PageLink p \<in> set (PraHead # map PageLink as @ PageLink p # map PageLink bs)" by simp
  note np = clist_member_nxt_prv [OF c this]
  have ne: "prv (links s) (PageLink p) \<noteq> LNull" "nxt (links s) (PageLink p) \<noteq> LNull"
    using np by auto
  have "distinct (as @ p # bs)"
    using clist_distinct [OF c] by (simp add: distinct_map inj_on_def) (auto simp: distinct_map)
  moreover have "pra_queue (upd_links (list_del (PageLink p)) s) (as @ bs)"
    using clist_delete [OF c] h by (simp add: pra_queue_def page_simps)
  ultimately have "pra_queue (upd_links (list_add_before PraHead (PageLink p))
      (upd_links (list_del (PageLink p)) s)) ((as @ bs) @ [p])"
    by (intro pra_queue_push) auto
  then show ?thesis using ne h by (simp add: swap_lru_map_swappable_def Let_def)
qed

section \<open>The queue and the free list\<close>

lemma pra_push_keeps_free_list:
  assumes q: "pra_queue s ps" and inv: "ff_inv s bs" and p: "p \<notin> ff_avail s"
    and ps: "set ps \<inter> ff_avail s = {}"
  shows "ff_inv (upd_links (list_add_before PraHead (PageLink p)) s) bs"
proof -
  let ?s' = "upd_links (list_add_before PraHead (PageLink p)) s"
  have c: "clist (links s) PraHead (map PageLink ps)" using q by (simp add: pra_queue_def)
  have av: "ff_avail s = set (frames bs)" by (rule ff_avail_frames [OF inv])
  have out: "x \<notin> insert (PageLink p) (set (PraHead # map PageLink ps))"
    if "x \<in> set (FreeHead # map block_link bs)" for x
    using that ff_links_in_frames [OF inv] p ps unfolding av by auto
  have "clist (links ?s') FreeHead (map block_link bs) = clist (links s) FreeHead (map block_link bs)"
    using list_add_before_unchanged [OF c out] by (intro clist_frame) (simp_all add: page_simps)
  then show ?thesis using inv by (simp add: ff_inv_def block_ok_def page_simps)
qed

lemma pra_pop_keeps_free_list:
  assumes q: "pra_queue s (p # ps)" and inv: "ff_inv s bs"
    and ps: "set (p # ps) \<inter> ff_avail s = {}"
  shows "ff_inv (upd_links (list_del (PageLink p)) s) bs"
proof -
  let ?s' = "upd_links (list_del (PageLink p)) s"
  have c: "clist (links s) PraHead (map PageLink (p # ps))" using q by (simp add: pra_queue_def)
  have av: "ff_avail s = set (frames bs)" by (rule ff_avail_frames [OF inv])
  have out: "x \<notin> set (PraHead # map PageLink (p # ps))"
    if "x \<in> set (FreeHead # map block_link bs)" for x
    using that ff_links_in_frames [OF inv] ps unfolding av by auto
  have "PageLink p \<in> set (PraHead # map PageLink (p # ps))" by simp
  from list_del_unchanged [OF c this out]
  have "clist (links ?s') FreeHead (map block_link bs) = clist (links s) FreeHead (map block_link bs)"
    by (intro clist_frame) (simp_all add: page_simps)
  then show ?thesis using inv by (simp add: ff_inv_def block_ok_def page_simps)
qed

section \<open>A freshly allocated page under LRU\<close>

text \<open>What an allocation of one page from a longer first block does to the links.\<close>

lemma ff_alloc_one_head:
  assumes inv: "ff_inv s ((p, k) # bs)" and k: "1 < k"
  obtains s' where "ff_alloc 1 s = Inr (Some p, s')" "ff_inv s' ((p + 1, k - 1) # bs)"
    "nxt (links s') (PageLink p) = PageLink (p + 1)" "prv (links s') (PageLink p) = FreeHead"
    "\<And>q. q \<noteq> p + 1 \<Longrightarrow> pd_property (pages s' q) = pd_property (pages s q)"
    "ff_frame (ff_avail s) s s'"
proof -
  have c: "clist (links s) FreeHead (PageLink p # map block_link bs)"
    and pr: "unat (pd_property (pages s p)) = k"
    and nr: "length (frames ((p, k) # bs)) = unat (nr_free s)"
    using inv by (auto simp: ff_inv_def block_ok_def)
  have lt: "1 < pd_property (pages s p)" using pr k by (simp add: word_less_nat_alt)
  have le: "1 \<le> pd_property (pages s p)" using lt by simp
  have n1: "nr_free s \<noteq> 0" using nr k by auto
  have sc: "list_scan (\<lambda>le. 1 \<le> pd_property (pages s (le2page le))) (links s) FreeHead FreeHead =
      Some (Some (PageLink p))"
    using list_scan_find [OF c] le by simp
  have "\<exists>s'. ff_alloc 1 s = Inr (Some p, s') \<and>
    links s' = list_del (PageLink p) (list_add (PageLink p) (PageLink (p + 1)) (links s)) \<and>
    (\<forall>q. q \<noteq> p + 1 \<longrightarrow> pd_property (pages s' q) = pd_property (pages s q))"
    using sc lt n1 by (simp add: ff_alloc_def Let_def page_simps not_less)
  then obtain s' where s': "ff_alloc 1 s = Inr (Some p, s')"
    "links s' = list_del (PageLink p) (list_add (PageLink p) (PageLink (p + 1)) (links s))"
    "\<forall>q. q \<noteq> p + 1 \<longrightarrow> pd_property (pages s' q) = pd_property (pages s q)"
    by blast
  have pv: "prv (links s) (PageLink p) = FreeHead" using c by (simp add: clist_def)
  have ne: "nxt (links s) (PageLink p) \<noteq> PageLink p"
    using c clist_nxt_mid [of "links s" FreeHead "[]" "PageLink p" "map block_link bs"]
    by (cases bs) (auto simp: clist_def)
  have "nxt (links s') (PageLink p) = PageLink (p + 1)" "prv (links s') (PageLink p) = FreeHead"
    using pv ne by (simp_all add: s'(2) list_del_def list_add_def list_add_after_def link_simps)
  moreover have "ff_inv s' ((p + 1, k - 1) # bs)"
    using ff_alloc_refines [OF inv, of 1] s'(1) k by auto
  moreover have "ff_frame (ff_avail s) s s'"
    using ff_alloc_framed [of s 1] s'(1) inv by auto
  ultimately show ?thesis using s' that by blast
qed

text \<open>
  Two frames cut off the front of the free list one after the other: the first one's links still
  name the second one and the list's head.
\<close>

lemma two_allocs:
  assumes inv: "ff_inv s ((p, k) # bs)" and k: "3 \<le> k"
  obtains s1 s2 where "ff_alloc 1 s = Inr (Some p, s1)" "ff_alloc 1 s1 = Inr (Some (p + 1), s2)"
    "nxt (links s2) (PageLink p) = PageLink (p + 1)" "prv (links s2) (PageLink p) = FreeHead"
    "1 \<le> pd_property (pages s2 (p + 1))" "nr_free s2 \<noteq> 0" "pmm.more s2 = pmm.more s"
    "nxt (links s2) PraHead = nxt (links s) PraHead" "prv (links s2) PraHead = prv (links s) PraHead"
proof -
  have k1: "1 < k" "1 < k - 1" using k by simp_all
  obtain s1 where s1: "ff_alloc 1 s = Inr (Some p, s1)" "ff_inv s1 ((p + 1, k - 1) # bs)"
    "nxt (links s1) (PageLink p) = PageLink (p + 1)" "prv (links s1) (PageLink p) = FreeHead"
    "ff_frame (ff_avail s) s s1"
    using ff_alloc_one_head [OF inv k1(1)] by blast
  obtain s2 where s2: "ff_alloc 1 s1 = Inr (Some (p + 1), s2)" "ff_inv s2 ((p + 1 + 1, k - 1 - 1) # bs)"
    "nxt (links s2) (PageLink (p + 1)) = PageLink (p + 1 + 1)" "prv (links s2) (PageLink (p + 1)) = FreeHead"
    "\<And>q. q \<noteq> p + 1 + 1 \<Longrightarrow> pd_property (pages s2 q) = pd_property (pages s1 q)"
    "ff_frame (ff_avail s1) s1 s2"
    using ff_alloc_one_head [OF s1(2) k1(2)] by blast
  have av1: "ff_avail s1 = {p + 1..<p + k} \<union> set (frames bs)"
    using ff_avail_frames [OF s1(2)] k by auto
  have "distinct (frames ((p, k) # bs))" using inv by (simp add: ff_inv_def)
  then have "{p..<p + k} \<inter> set (frames bs) = {}" by simp
  moreover have "p \<in> {p..<p + k}" using k by simp
  ultimately have "p \<notin> set (frames bs)" by blast
  then have "p \<notin> ff_avail s1" unfolding av1 by simp
  then have pl: "nxt (links s2) (PageLink p) = PageLink (p + 1)" "prv (links s2) (PageLink p) = FreeHead"
    using s2(6) s1(3,4) unfolding ff_frame_def by auto
  have "unat (pd_property (pages s1 (p + 1))) = k - 1" using s1(2) by (simp add: ff_inv_def block_ok_def)
  then have pr: "1 \<le> pd_property (pages s2 (p + 1))"
    using s2(5) [of "p + 1"] k by (simp add: word_le_nat_alt)
  have fl: "length (frames ((q, m) # bs)) = m + length (frames bs)" for q m by simp
  have "length (frames ((p + 1 + 1, k - 1 - 1) # bs)) = unat (nr_free s2)"
    using s2(2) by (simp only: ff_inv_def)
  then have "k - 1 - 1 \<le> unat (nr_free s2)" unfolding fl by linarith
  then have nr: "nr_free s2 \<noteq> 0" using k1 by auto
  have "PraHead \<notin> insert FreeHead (PageLink ` F)" for F by auto
  then have "nxt (links s2) PraHead = nxt (links s) PraHead" "prv (links s2) PraHead = prv (links s) PraHead"
    using s1(5) s2(6) unfolding ff_frame_def by metis+
  moreover have "pmm.more s2 = pmm.more s" using s1(5) s2(6) by (simp add: ff_frame_def)
  ultimately show ?thesis using that s1(1) s2(1) pl pr nr by blast
qed

lemma lru_reuses_allocated:
  assumes inv: "ff_inv s ((p, k) # bs)" and k: "3 \<le> k" and q: "pra_queue s []"
  shows "\<exists>s1 s2 s3 s4. ff_alloc 1 s = Inr (Some p, s1) \<and> ff_alloc 1 s1 = Inr (Some (p + 1), s2) \<and>
    swap_lru_map_swappable a p b s2 = Inr (0, s3) \<and> ff_alloc 1 s3 = Inr (Some (p + 1), s4)"
proof -
  obtain s1 s2 where s2: "ff_alloc 1 s = Inr (Some p, s1)" "ff_alloc 1 s1 = Inr (Some (p + 1), s2)"
    "nxt (links s2) (PageLink p) = PageLink (p + 1)" "prv (links s2) (PageLink p) = FreeHead"
    "1 \<le> pd_property (pages s2 (p + 1))" "nr_free s2 \<noteq> 0" "pmm.more s2 = pmm.more s"
    "nxt (links s2) PraHead = nxt (links s) PraHead" "prv (links s2) PraHead = prv (links s) PraHead"
    using two_allocs [OF inv k] .
  have "nxt (links s2) PraHead = PraHead" "prv (links s2) PraHead = PraHead"
    using q s2(8,9) by (simp_all add: pra_queue_def clist_def)
  moreover have "mm_swap_list s2 = PraHead"
    using q more_eq_mach(6) [OF s2(7)] by (cases s; cases s2) (simp add: pra_queue_def)
  ultimately have "\<exists>s3. swap_lru_map_swappable a p b s2 = Inr (0, s3) \<and> nr_free s3 = nr_free s2 \<and>
    pages s3 = pages s2 \<and> nxt (links s3) FreeHead = PageLink (p + 1)"
    using s2(3,4) by (simp add: swap_lru_map_swappable_def Let_def page_simps list_del_def
      list_add_before_def link_simps)
  then obtain s3 where s3: "swap_lru_map_swappable a p b s2 = Inr (0, s3)" "nr_free s3 = nr_free s2"
    "pages s3 = pages s2" "nxt (links s3) FreeHead = PageLink (p + 1)"
    by blast
  have "list_scan (\<lambda>le. 1 \<le> pd_property (pages s3 (le2page le))) (links s3) FreeHead FreeHead =
      Some (Some (PageLink (p + 1)))"
    using s3 s2(5) by (subst list_scan.simps) (simp add: list_next_def Let_def)
  then have "\<exists>s4. ff_alloc 1 s3 = Inr (Some (p + 1), s4)"
    using s2(6) s3(2) by (simp add: ff_alloc_def Let_def not_less)
  then show ?thesis using s2(1,2) s3(1) by blast
qed

section \<open>A concrete state for the witnesses\<close>

definition vmm_of :: "mach \<Rightarrow> vmm" where
  "vmm_of m = mach.extend m \<lparr>mm_pgdir = page2kva 1, mm_map_count = 0, mm_swap_list = LNull,
     clock_ptr = LNull\<rparr>"

lemma vmm_of_simps [simp]:
  "links (vmm_of m) = links m" "pages (vmm_of m) = pages m" "npage (vmm_of m) = npage m"
  "nr_free (vmm_of m) = nr_free m" "mem (vmm_of m) = mem m" "cr3 (vmm_of m) = cr3 m"
  "if_flag (vmm_of m) = if_flag m" "flushed (vmm_of m) = flushed m"
  "mm_swap_list (vmm_of m) = LNull" "mm_pgdir (vmm_of m) = page2kva 1"
  by (simp_all add: vmm_of_def mach.defs vmm.defs)

lemma vmm_of_inv [simp]: "ff_inv (vmm_of m) bs = ff_inv m bs"
  by (simp add: ff_inv_def block_ok_def)

lemma vmm_of_ff: "ff_ok (vmm_of m) = ff_ok m" "ff_avail (vmm_of m) = ff_avail m"
  by (simp_all add: ff_ok_def ff_avail_def)

lemma vmm_of_pgdir_ok [simp]: "pgdir_ok (vmm_of m) pg = pgdir_ok m pg"
  by (simp add: pgdir_ok_def vmm_of_ff)

definition demo_vmm :: vmm where
  "demo_vmm = snd (swap_fifo_init_mm (vmm_of demo_mach))"

lemma demo_vmm_queue: "pra_queue demo_vmm []"
  using fifo.init_queue [of "vmm_of demo_mach"] by (simp add: demo_vmm_def)

lemma demo_vmm_inv: "ff_inv demo_vmm [(4, 8)]"
proof -
  have c: "clist (links (vmm_of demo_mach)) FreeHead [PageLink 4]"
    using demo_mach_inv by (simp add: ff_inv_def)
  have "clist (links demo_vmm) FreeHead [PageLink 4]"
    using clist_init_other [of "links (vmm_of demo_mach)" FreeHead "[PageLink 4]" PraHead] c
    by (simp add: demo_vmm_def swap_fifo_init_mm_def Let_def page_simps)
  moreover have "pages demo_vmm = pages demo_mach" "npage demo_vmm = npage demo_mach"
    "nr_free demo_vmm = nr_free demo_mach"
    by (simp_all add: demo_vmm_def swap_fifo_init_mm_def Let_def page_simps)
  ultimately show ?thesis using demo_mach_inv by (simp add: ff_inv_def block_ok_def)
qed

section \<open>Properties\<close>

text \<open>
  C18. The FIFO manager is a queue: after \<^verbatim>\<open>init_mm\<close>, pages made swappable one after the
  other come back as victims in the same order, and then no page is left.
\<close>

theorem fifo_first_in_first_out:
  assumes "distinct (map snd ps)"
  shows "\<exists>s'. map_all swap_fifo_map_swappable ps (snd (swap_fifo_init_mm s)) = Inr s' \<and>
    victims swap_fifo_swap_out_victim k s' =
      Inr (map Some (take k (map snd ps)) @ replicate (k - length ps) None)"
  using fifo.first_in_first_out [OF assms] by simp

theorem fifo_first_in_first_out_witness:
  "\<exists>s'. map_all swap_fifo_map_swappable [(0x1000, 20), (0x2000, 21)]
      (snd (swap_fifo_init_mm demo_vmm)) = Inr s' \<and>
    victims swap_fifo_swap_out_victim 3 s' = Inr [Some 20, Some 21, None]"
  using fifo_first_in_first_out [of "[(0x1000, 20), (0x2000, 21)]" demo_vmm 3]
  by (simp add: numeral_3_eq_3)

text \<open>
  The clock manager gives no page a second chance: it picks exactly the victims FIFO
  picks.
\<close>

theorem clock_is_fifo:
  assumes "distinct (map snd ps)"
  shows "\<exists>s1 s2. map_all swap_clock_map_swappable ps (snd (swap_clock_init_mm s)) = Inr s1 \<and>
    map_all swap_fifo_map_swappable ps (snd (swap_fifo_init_mm s)) = Inr s2 \<and>
    victims swap_clock_swap_out_victim k s1 = victims swap_fifo_swap_out_victim k s2"
  using clock.first_in_first_out [OF assms, of s k] fifo.first_in_first_out [OF assms, of s k]
  by auto

theorem clock_is_fifo_witness:
  "\<exists>s1 s2. map_all swap_clock_map_swappable [(0x1000, 20), (0x2000, 21)]
      (snd (swap_clock_init_mm demo_vmm)) = Inr s1 \<and>
    map_all swap_fifo_map_swappable [(0x1000, 20), (0x2000, 21)]
      (snd (swap_fifo_init_mm demo_vmm)) = Inr s2 \<and>
    victims swap_clock_swap_out_victim 2 s1 = victims swap_fifo_swap_out_victim 2 s2"
  by (rule clock_is_fifo) simp

text \<open>
  Under LRU a page that is mapped again moves from wherever it was to the back of the
  queue, and the others keep their order: the next victim is the least recently used page.
\<close>

theorem lru_touch_moves_back:
  assumes "pra_queue s (as @ p # bs)"
  shows "\<exists>s'. swap_lru_map_swappable a p b s = Inr (0, s') \<and> pra_queue s' (as @ bs @ [p])"
  by (rule lru_touch [OF assms])

theorem lru_touch_moves_back_witness:
  "\<exists>s s'. map_all swap_fifo_map_swappable [(0, 20), (0, 21)] demo_vmm = Inr s \<and>
     swap_lru_map_swappable 0 20 True s = Inr (0, s') \<and> pra_queue s' [21, 20]"
proof -
  obtain s where s: "map_all swap_fifo_map_swappable [(0, 20), (0, 21)] demo_vmm = Inr s"
    "pra_queue s ([] @ 20 # [21])"
    using fifo.map_all_queue [OF demo_vmm_queue, of "[(0, 20), (0, 21)]"] by auto
  show ?thesis using lru_touch_moves_back [OF s(2), of 0 True] s(1) by auto
qed

text \<open>
  LRU takes a freshly allocated page for a queued one, because an allocated page keeps the
  link pointers it had in the free list: making the first of two pages just allocated swappable
  puts the second one, still in use, back into the free list, and the next allocation returns
  it again.
\<close>

theorem lru_double_allocation:
  assumes "ff_inv s ((p, k) # bs)" and "3 \<le> k" and "pra_queue s []"
  shows "\<exists>s1 s2 s3 s4. ff_alloc 1 s = Inr (Some p, s1) \<and> ff_alloc 1 s1 = Inr (Some (p + 1), s2) \<and>
    swap_lru_map_swappable a p b s2 = Inr (0, s3) \<and> ff_alloc 1 s3 = Inr (Some (p + 1), s4)"
  by (rule lru_reuses_allocated [OF assms])

theorem lru_double_allocation_witness:
  "\<exists>s1 s2 s3 s4. ff_alloc 1 demo_vmm = Inr (Some 4, s1) \<and> ff_alloc 1 s1 = Inr (Some 5, s2) \<and>
    swap_lru_map_swappable 0x400000 4 False s2 = Inr (0, s3) \<and> ff_alloc 1 s3 = Inr (Some 5, s4)"
  using lru_double_allocation [OF demo_vmm_inv _ demo_vmm_queue, where a = "0x400000" and b = False] by simp

text \<open>
  C19. The replacement queue and the free list share the link field of the page descriptors
  but never get in each other's way: as long as the pages involved are not free, queueing a page
  and taking a victim leave the free list as it is.
\<close>

theorem fifo_keeps_free_list:
  assumes "pra_queue s ps" and "ff_inv s bs" and "p \<notin> ff_avail s" and "p \<notin> set ps"
    and "set ps \<inter> ff_avail s = {}"
  shows "\<exists>s1 v s2. swap_fifo_map_swappable a p b s = Inr (0, s1) \<and> ff_inv s1 bs \<and>
    swap_fifo_swap_out_victim t s1 = Inr (0, Some v, s2) \<and> v = hd (ps @ [p]) \<and> ff_inv s2 bs"
proof -
  obtain s1 where s1: "s1 = upd_links (list_add_before PraHead (PageLink p)) s" by simp
  have h: "mm_swap_list s = PraHead" using assms(1) by (simp add: pra_queue_def)
  have i1: "ff_inv s1 bs" unfolding s1 by (rule pra_push_keeps_free_list [OF assms(1-3,5)])
  have "pra_queue s1 (ps @ [p])" unfolding s1 by (rule pra_queue_push [OF assms(1,4)])
  moreover obtain v vs where v: "ps @ [p] = v # vs" by (cases "ps @ [p]") auto
  ultimately have q1: "pra_queue s1 (v # vs)" by simp
  have "set (v # vs) = insert p (set ps)" using v by (metis Un_insert_right list.set(1,2) set_append sup_bot_right)
  then have "set (v # vs) \<inter> ff_avail s1 = {}"
    using assms(2,3,5) ff_avail_frames [OF i1] ff_avail_frames [OF assms(2)] by auto
  from pra_pop_keeps_free_list [OF q1 i1 this]
  have i2: "ff_inv (upd_links (list_del (PageLink v)) s1) bs" .
  have "swap_fifo_map_swappable a p b s = Inr (0, s1)"
    by (simp add: swap_fifo_map_swappable_def h s1)
  moreover have "swap_fifo_swap_out_victim t s1 = Inr (0, Some v, upd_links (list_del (PageLink v)) s1)"
    using pra_queue_next [OF q1] q1 by (simp add: swap_fifo_swap_out_victim_def pra_queue_def Let_def)
  ultimately show ?thesis using i1 i2 v by auto
qed

theorem fifo_keeps_free_list_witness:
  "\<exists>s1 v s2. swap_fifo_map_swappable 0x400000 20 False demo_vmm = Inr (0, s1) \<and> ff_inv s1 [(4, 8)] \<and>
    swap_fifo_swap_out_victim False s1 = Inr (0, Some v, s2) \<and> v = 20 \<and> ff_inv s2 [(4, 8)]"
proof -
  have "20 \<notin> ff_avail demo_vmm" using ff_avail_frames [OF demo_vmm_inv] by simp
  then show ?thesis
    using fifo_keeps_free_list [OF demo_vmm_queue demo_vmm_inv, where p = 20 and a = "0x400000" and b = False and t = False] by simp
qed

end
