(* ===== verification/Ports.thy ===== *)
theory Ports
  imports Swap_Fifo
begin

text \<open>
  Port input and output (\<^verbatim>\<open>include/arch/x86/io.h\<close>) and the two motherboard chips driven
  through it, the interrupt controller (\<^verbatim>\<open>kern/drivers/pic.c\<close>) and the timer with the
  real-time clock (\<^verbatim>\<open>kern/drivers/pit.c\<close>). The hardware behind the ports is a parameter:
  a value of a type \<open>'h\<close> that every port operation may change, and a record of five functions
  that say what a read returns and how a read or a write changes it. Nothing is assumed about
  them here.
\<close>

section \<open>Ports\<close>

record 'h port_io =
  p_inb :: "u16 \<Rightarrow> 'h \<Rightarrow> u8 \<times> 'h"
  p_inw :: "u16 \<Rightarrow> 'h \<Rightarrow> u16 \<times> 'h"
  p_inl :: "u16 \<Rightarrow> 'h \<Rightarrow> u32 \<times> 'h"
  p_outb :: "u16 \<Rightarrow> u8 \<Rightarrow> 'h \<Rightarrow> 'h"
  p_outw :: "u16 \<Rightarrow> u16 \<Rightarrow> 'h \<Rightarrow> 'h"

record 'h devs = vmm +
  hw :: 'h
  irq_mask :: u16
  ticks :: u64

definition inb :: "'h port_io \<Rightarrow> u16 \<Rightarrow> 'h \<Rightarrow> u8 \<times> 'h" where
  "inb io port h = p_inb io port h"

definition outb :: "'h port_io \<Rightarrow> u16 \<Rightarrow> u8 \<Rightarrow> 'h \<Rightarrow> 'h" where
  "outb io port data h = p_outb io port data h"

text \<open>
  \<^verbatim>\<open>insw\<close>, \<^verbatim>\<open>insl\<close> and \<^verbatim>\<open>outsw\<close> move \<open>cnt\<close> units between a port and the memory at
  \<open>addr\<close>, upwards (\<^verbatim>\<open>cld; rep insw\<close>).
\<close>

fun insw :: "'h port_io \<Rightarrow> u16 \<Rightarrow> u32 \<Rightarrow> nat \<Rightarrow> 'h \<Rightarrow> memory \<Rightarrow> 'h \<times> memory" where
  "insw io port addr 0 h m = (h, m)"
| "insw io port addr (Suc n) h m =
     (let (w, h) = p_inw io port h
      in insw io port (addr + 2) n h (store16 addr w m))"

fun outsw :: "'h port_io \<Rightarrow> u16 \<Rightarrow> u32 \<Rightarrow> nat \<Rightarrow> memory \<Rightarrow> 'h \<Rightarrow> 'h" where
  "outsw io port addr 0 m h = h"
| "outsw io port addr (Suc n) m h =
     outsw io port (addr + 2) n m (p_outw io port (load16 m addr) h)"

fun insl :: "'h port_io \<Rightarrow> u16 \<Rightarrow> u32 \<Rightarrow> nat \<Rightarrow> 'h \<Rightarrow> memory \<Rightarrow> 'h \<times> memory" where
  "insl io port addr 0 h m = (h, m)"
| "insl io port addr (Suc n) h m =
     (let (w, h) = p_inl io port h
      in insl io port (addr + 4) n h (store32 addr w m))"

text \<open>\<^verbatim>\<open>insw\<close> into a local array, which has no address in the byte memory.\<close>

fun insw_array :: "'h port_io \<Rightarrow> u16 \<Rightarrow> nat \<Rightarrow> 'h \<Rightarrow> u16 list \<times> 'h" where
  "insw_array io port 0 h = ([], h)"
| "insw_array io port (Suc n) h =
     (let (w, h) = p_inw io port h; (ws, h) = insw_array io port n h in (w # ws, h))"

section \<open>Interrupt controller\<close>

definition PIC1_CMD :: u16 where "PIC1_CMD = 0x20"
definition PIC1_IMR :: u16 where "PIC1_IMR = 0x21"
definition PIC2_CMD :: u16 where "PIC2_CMD = 0xA0"
definition PIC2_IMR :: u16 where "PIC2_IMR = 0xA1"
definition IRQ_TIMER :: nat where "IRQ_TIMER = 0"
definition IRQ_KBD :: nat where "IRQ_KBD = 1"
definition IRQ_SLAVE :: nat where "IRQ_SLAVE = 2"
definition IRQ_IDE1 :: nat where "IRQ_IDE1 = 14"
definition IRQ_IDE2 :: nat where "IRQ_IDE2 = 15"

definition pic_setmask :: "'h port_io \<Rightarrow> u16 \<Rightarrow> ('h, 'a) devs_scheme \<Rightarrow> ('h, 'a) devs_scheme" where
  "pic_setmask io m s =
     (let s = s\<lparr>irq_mask := m\<rparr>;
          s = s\<lparr>hw := outb io PIC1_IMR (ucast m) (hw s)\<rparr>
      in s\<lparr>hw := outb io PIC2_IMR (ucast (drop_bit 8 m)) (hw s)\<rparr>)"

definition pic_enable :: "'h port_io \<Rightarrow> nat \<Rightarrow> ('h, 'a) devs_scheme \<Rightarrow> ('h, 'a) devs_scheme" where
  "pic_enable io irq s = pic_setmask io (irq_mask s AND NOT (push_bit irq 1)) s"

definition pic_send_eoi :: "'h port_io \<Rightarrow> nat \<Rightarrow> ('h, 'a) devs_scheme \<Rightarrow> ('h, 'a) devs_scheme" where
  "pic_send_eoi io irq s =
     (let s = (if irq \<ge> 8 then s\<lparr>hw := outb io PIC2_CMD 0x20 (hw s)\<rparr> else s)
      in s\<lparr>hw := outb io PIC1_CMD 0x20 (hw s)\<rparr>)"

definition pic_init :: "'h port_io \<Rightarrow> ('h, 'a) devs_scheme \<Rightarrow> ('h, 'a) devs_scheme" where
  "pic_init io s = pic_enable io IRQ_SLAVE s"

section \<open>Timer\<close>

definition TIMER_FREQ :: nat where "TIMER_FREQ = 1193180"

definition TIMER_DIV :: "nat \<Rightarrow> nat" where "TIMER_DIV x = TIMER_FREQ div x"

definition PIT_TIMER0_REG :: u16 where "PIT_TIMER0_REG = 0x40"
definition PIT_CTRL_REG :: u16 where "PIT_CTRL_REG = 0x43"
definition PIT_SEL_TIMER0 :: u8 where "PIT_SEL_TIMER0 = 0x00"
definition PIT_RATE_GEN :: u8 where "PIT_RATE_GEN = 0x04"
definition PIT_16BIT :: u8 where "PIT_16BIT = 0x30"

definition CMOS_READ :: "'h port_io \<Rightarrow> u8 \<Rightarrow> 'h \<Rightarrow> u8 \<times> 'h" where
  "CMOS_READ io addr h = inb io 0x71 (outb io 0x70 (0x80 OR addr) h)"

definition BCD_TO_BIN :: "int \<Rightarrow> int" where
  "BCD_TO_BIN val = (val AND 0xF) + drop_bit 4 val * 10"

record tm =
  tm_sec :: int
  tm_min :: int
  tm_hour :: int
  tm_mday :: int
  tm_mon :: int
  tm_year :: int

definition read_clock :: "'h port_io \<Rightarrow> 'h \<Rightarrow> tm \<times> 'h" where
  "read_clock io h =
     (let (sec, h) = CMOS_READ io 0 h; (mn, h) = CMOS_READ io 2 h; (hour, h) = CMOS_READ io 4 h;
          (mday, h) = CMOS_READ io 7 h; (mon, h) = CMOS_READ io 8 h; (year, h) = CMOS_READ io 9 h
      in (\<lparr>tm_sec = uint sec, tm_min = uint mn, tm_hour = uint hour, tm_mday = uint mday,
           tm_mon = uint mon, tm_year = uint year\<rparr>, h))"

text \<open>The clock is read again until the seconds did not change meanwhile.\<close>

partial_function (option) clock_loop :: "'h port_io \<Rightarrow> 'h \<Rightarrow> (tm \<times> 'h) option" where
  "clock_loop io h =
     (let (time, h) = read_clock io h; (sec, h) = CMOS_READ io 0 h
      in if tm_sec time \<noteq> uint sec then clock_loop io h else Some (time, h))"

definition pit_init ::
  "'h port_io \<Rightarrow> ('h, 'a) devs_scheme \<Rightarrow> (tm \<times> ('h, 'a) devs_scheme) res" where
  "pit_init io s =
     bindE (returns (clock_loop io (hw s))) (\<lambda>(time, h).
       let time = \<lparr>tm_sec = BCD_TO_BIN (tm_sec time), tm_min = BCD_TO_BIN (tm_min time),
             tm_hour = BCD_TO_BIN (tm_hour time), tm_mday = BCD_TO_BIN (tm_mday time),
             tm_mon = BCD_TO_BIN (tm_mon time), tm_year = BCD_TO_BIN (tm_year time)\<rparr>;
           h = outb io PIT_CTRL_REG (PIT_SEL_TIMER0 OR PIT_RATE_GEN OR PIT_16BIT) h;
           h = outb io PIT_TIMER0_REG (of_nat (TIMER_DIV 100 mod 256)) h;
           h = outb io PIT_TIMER0_REG (of_nat (TIMER_DIV 100 div 256)) h
       in Inr (time, pic_enable io IRQ_TIMER (s\<lparr>hw := h\<rparr>)))"

end
