(* ===== verification/Hd.thy ===== *)
theory Hd
  imports Ports
begin

text \<open>
  The ATA disk driver, \<^verbatim>\<open>kern/drivers/hd.c\<close>: programmed input and output on the two
  channels, one sector at a time, with polling loops that give up after 100000 reads of the
  status register. The functions return \<^verbatim>\<open>int\<close> results as the code does.
\<close>

section \<open>Constants\<close>

definition SECTOR_SIZE :: u32 where "SECTOR_SIZE = 512"
definition IDE0_BASE :: u16 where "IDE0_BASE = 0x1F0"
definition IDE1_BASE :: u16 where "IDE1_BASE = 0x170"
definition MAX_IDE_DEVICES :: nat where "MAX_IDE_DEVICES = 4"

definition IDE_DATA :: u16 where "IDE_DATA = 0"
definition IDE_SECTOR_COUNT :: u16 where "IDE_SECTOR_COUNT = 2"
definition IDE_LBA_LOW :: u16 where "IDE_LBA_LOW = 3"
definition IDE_LBA_MID :: u16 where "IDE_LBA_MID = 4"
definition IDE_LBA_HIGH :: u16 where "IDE_LBA_HIGH = 5"
definition IDE_DEVICE :: u16 where "IDE_DEVICE = 6"
definition IDE_STATUS :: u16 where "IDE_STATUS = 7"
definition IDE_COMMAND :: u16 where "IDE_COMMAND = 7"

definition IDE_BSY :: u8 where "IDE_BSY = 0x80"
definition IDE_DRDY :: u8 where "IDE_DRDY = 0x40"
definition IDE_DRQ :: u8 where "IDE_DRQ = 0x08"
definition IDE_ERR :: u8 where "IDE_ERR = 0x01"

definition IDE_CMD_READ :: u8 where "IDE_CMD_READ = 0x20"
definition IDE_CMD_WRITE :: u8 where "IDE_CMD_WRITE = 0x30"
definition IDE_CMD_IDENTIFY :: u8 where "IDE_CMD_IDENTIFY = 0xEC"

definition IDE_DEV_MASTER :: u8 where "IDE_DEV_MASTER = 0xE0"
definition IDE_DEV_SLAVE :: u8 where "IDE_DEV_SLAVE = 0xF0"

lemmas ide_defs = IDE0_BASE_def IDE1_BASE_def IDE_DATA_def IDE_SECTOR_COUNT_def IDE_LBA_LOW_def
  IDE_LBA_MID_def IDE_LBA_HIGH_def IDE_DEVICE_def IDE_STATUS_def IDE_COMMAND_def

lemmas ide_bits = IDE_BSY_def IDE_DRDY_def IDE_DRQ_def IDE_ERR_def

section \<open>Devices\<close>

record disk_info =
  di_size :: u32
  di_cylinders :: u16
  di_heads :: u16
  di_sectors :: u16
  di_valid :: bool

record ide_device =
  ide_channel :: u8
  ide_drive :: u8
  ide_base :: u16
  ide_irq :: u8
  ide_info :: disk_info
  ide_present :: bool
  ide_name :: string

record 'h hd = "'h devs" +
  ide_devices :: "nat \<Rightarrow> ide_device"
  hd_num_devices :: nat

text \<open>The rows of \<^verbatim>\<open>ide_configs\<close>: channel, drive, base, irq and name.\<close>

definition ide_configs :: "(u8 \<times> u8 \<times> u16 \<times> u8 \<times> string) list" where
  "ide_configs =
     [(0, 0, IDE0_BASE, 14, ''hda''), (0, 1, IDE0_BASE, 14, ''hdb''),
      (1, 0, IDE1_BASE, 15, ''hdc''), (1, 1, IDE1_BASE, 15, ''hdd'')]"

section \<open>Polling\<close>

fun wait_ready_loop :: "'h port_io \<Rightarrow> u16 \<Rightarrow> nat \<Rightarrow> 'h \<Rightarrow> int \<times> 'h" where
  "wait_ready_loop io base 0 h = (-1, h)"
| "wait_ready_loop io base (Suc timeout) h =
     (let (status, h) = inb io (base + IDE_STATUS) h
      in if status AND (IDE_BSY OR IDE_DRDY) = IDE_DRDY then (0, h)
         else wait_ready_loop io base timeout h)"

definition hd_wait_ready_on_base :: "'h port_io \<Rightarrow> u16 \<Rightarrow> 'h \<Rightarrow> int \<times> 'h" where
  "hd_wait_ready_on_base io base h = wait_ready_loop io base 100000 h"

fun wait_data_loop :: "'h port_io \<Rightarrow> u16 \<Rightarrow> nat \<Rightarrow> 'h \<Rightarrow> int \<times> 'h" where
  "wait_data_loop io base 0 h = (-1, h)"
| "wait_data_loop io base (Suc timeout) h =
     (let (status, h) = inb io (base + IDE_STATUS) h
      in if status AND (IDE_BSY OR IDE_DRQ) = IDE_DRQ then (0, h)
         else if status AND IDE_ERR \<noteq> 0 then (-1, h)
         else wait_data_loop io base timeout h)"

definition hd_wait_data_on_base :: "'h port_io \<Rightarrow> u16 \<Rightarrow> 'h \<Rightarrow> int \<times> 'h" where
  "hd_wait_data_on_base io base h = wait_data_loop io base 100000 h"

section \<open>Detection\<close>

text \<open>
  \<^verbatim>\<open>hd_detect_device\<close> copies eight characters out of a string literal of four; the name
  is the C string, which ends at the literal's terminator.
\<close>

definition identified :: "nat \<Rightarrow> u16 list \<Rightarrow> ide_device" where
  "identified dev_id buf =
     (let (channel, drive, base, irq, name) = ide_configs ! dev_id;
          dsize = ucast (buf ! 60) OR push_bit 16 (ucast (buf ! 61)) :: u32;
          dsize = (if dsize = 0 then ucast (buf ! 1) * ucast (buf ! 3) * ucast (buf ! 6) else dsize)
      in \<lparr>ide_channel = channel, ide_drive = drive, ide_base = base, ide_irq = irq,
          ide_info = \<lparr>di_size = dsize, di_cylinders = buf ! 1, di_heads = buf ! 3,
            di_sectors = buf ! 6, di_valid = True\<rparr>,
          ide_present = True, ide_name = name\<rparr>)"

definition drive_select :: "u8 \<Rightarrow> u8" where
  "drive_select drive = (if drive \<noteq> 0 then IDE_DEV_SLAVE else IDE_DEV_MASTER)"

definition hd_detect_device ::
  "'h port_io \<Rightarrow> nat \<Rightarrow> ('h, 'a) hd_scheme \<Rightarrow> int \<times> ('h, 'a) hd_scheme" where
  "hd_detect_device io dev_id s =
     (let (channel, drive, base, irq, name) = ide_configs ! dev_id;
          h = outb io (base + IDE_DEVICE) (drive_select drive) (hw s);
          (_, h) = inb io (base + IDE_STATUS) h;
          (_, h) = inb io (base + IDE_STATUS) h;
          (_, h) = inb io (base + IDE_STATUS) h;
          (_, h) = inb io (base + IDE_STATUS) h;
          h = outb io (base + IDE_COMMAND) IDE_CMD_IDENTIFY h;
          (status, h) = inb io (base + IDE_STATUS) h
      in if status = 0 \<or> status = 0xFF then (-1, s\<lparr>hw := h\<rparr>)
         else
           let (r, h) = hd_wait_data_on_base io base h
           in if r \<noteq> 0 then (-1, s\<lparr>hw := h\<rparr>)
              else
                let (buf, h) = insw_array io (base + IDE_DATA) 256 h
                in (0, s\<lparr>hw := h, ide_devices :=
                     (ide_devices s)(dev_id := identified dev_id buf)\<rparr>))"

fun detect_loop :: "'h port_io \<Rightarrow> nat \<Rightarrow> nat \<Rightarrow> ('h, 'a) hd_scheme \<Rightarrow> ('h, 'a) hd_scheme" where
  "detect_loop io i 0 s = s"
| "detect_loop io i (Suc n) s =
     (let (r, s) = hd_detect_device io i s;
          s = (if r = 0 then s\<lparr>hd_num_devices := hd_num_devices s + 1\<rparr> else s)
      in detect_loop io (i + 1) n s)"

fun clear_devices :: "nat \<Rightarrow> nat \<Rightarrow> (nat \<Rightarrow> ide_device) \<Rightarrow> nat \<Rightarrow> ide_device" where
  "clear_devices i 0 d = d"
| "clear_devices i (Suc n) d =
     clear_devices (i + 1) n
       (d(i := (d i)\<lparr>ide_present := False, ide_info := (ide_info (d i))\<lparr>di_valid := False\<rparr>\<rparr>))"

definition hd_init :: "'h port_io \<Rightarrow> ('h, 'a) hd_scheme \<Rightarrow> ('h, 'a) hd_scheme" where
  "hd_init io s =
     (let s = pic_enable io IRQ_IDE1 s;
          s = pic_enable io IRQ_IDE2 s;
          s = s\<lparr>ide_devices := clear_devices 0 MAX_IDE_DEVICES (ide_devices s)\<rparr>;
          s = s\<lparr>hd_num_devices := 0\<rparr>
      in detect_loop io 0 MAX_IDE_DEVICES s)"

section \<open>Reading and writing\<close>

text \<open>The registers a transfer is set up with, up to the command byte.\<close>

definition send_command :: "'h port_io \<Rightarrow> u16 \<Rightarrow> u8 \<Rightarrow> u32 \<Rightarrow> u8 \<Rightarrow> 'h \<Rightarrow> 'h" where
  "send_command io base drive_sel lba cmd h =
     (let h = outb io (base + IDE_SECTOR_COUNT) 1 h;
          h = outb io (base + IDE_LBA_LOW) (ucast (lba AND 0xFF)) h;
          h = outb io (base + IDE_LBA_MID) (ucast (drop_bit 8 lba AND 0xFF)) h;
          h = outb io (base + IDE_LBA_HIGH) (ucast (drop_bit 16 lba AND 0xFF)) h;
          h = outb io (base + IDE_DEVICE) (drive_sel OR ucast (drop_bit 24 lba AND 0x0F)) h
      in outb io (base + IDE_COMMAND) cmd h)"

fun read_loop ::
  "'h port_io \<Rightarrow> u16 \<Rightarrow> u8 \<Rightarrow> u32 \<Rightarrow> u32 \<Rightarrow> u32 \<Rightarrow> nat \<Rightarrow> 'h \<Rightarrow> memory \<Rightarrow> int \<times> 'h \<times> memory" where
  "read_loop io base drive_sel secno dst i 0 h m = (0, h, m)"
| "read_loop io base drive_sel secno dst i (Suc n) h m =
     (let lba = secno + i;
          (r, h) = hd_wait_ready_on_base io base h
      in if r \<noteq> 0 then (-1, h, m)
         else
           let h = send_command io base drive_sel lba IDE_CMD_READ h;
               (r, h) = hd_wait_data_on_base io base h
           in if r \<noteq> 0 then (-1, h, m)
              else
                let (h, m) = insw io (base + IDE_DATA) (dst + i * SECTOR_SIZE) 256 h m
                in read_loop io base drive_sel secno dst (i + 1) n h m)"

definition hd_read_device ::
  "'h port_io \<Rightarrow> nat \<Rightarrow> u32 \<Rightarrow> u32 \<Rightarrow> u32 \<Rightarrow> ('h, 'a) hd_scheme \<Rightarrow> int \<times> ('h, 'a) hd_scheme" where
  "hd_read_device io dev_id secno dst nsecs s =
     (let dev = ide_devices s dev_id
      in if \<not> ide_present dev then (-1, s)
         else if secno + nsecs > di_size (ide_info dev) then (-1, s)
         else
           let (r, h, m) = read_loop io (ide_base dev) (drive_select (ide_drive dev)) secno dst 0
                 (unat nsecs) (hw s) (mem s)
           in (r, s\<lparr>hw := h, mem := m\<rparr>))"

fun write_loop ::
  "'h port_io \<Rightarrow> u16 \<Rightarrow> u8 \<Rightarrow> u32 \<Rightarrow> u32 \<Rightarrow> u32 \<Rightarrow> nat \<Rightarrow> memory \<Rightarrow> 'h \<Rightarrow> int \<times> 'h" where
  "write_loop io base drive_sel secno src i 0 m h = (0, h)"
| "write_loop io base drive_sel secno src i (Suc n) m h =
     (let lba = secno + i;
          (r, h) = hd_wait_ready_on_base io base h
      in if r \<noteq> 0 then (-1, h)
         else
           let h = send_command io base drive_sel lba IDE_CMD_WRITE h;
               (r, h) = hd_wait_data_on_base io base h
           in if r \<noteq> 0 then (-1, h)
              else
                let h = outsw io (base + IDE_DATA) (src + i * SECTOR_SIZE) 256 m h;
                    (r, h) = hd_wait_ready_on_base io base h
                in if r \<noteq> 0 then (-1, h)
                   else write_loop io base drive_sel secno src (i + 1) n m h)"

definition hd_write_device ::
  "'h port_io \<Rightarrow> nat \<Rightarrow> u32 \<Rightarrow> u32 \<Rightarrow> u32 \<Rightarrow> ('h, 'a) hd_scheme \<Rightarrow> int \<times> ('h, 'a) hd_scheme" where
  "hd_write_device io dev_id secno src nsecs s =
     (let dev = ide_devices s dev_id
      in if \<not> ide_present dev then (-1, s)
         else if secno + nsecs > di_size (ide_info dev) then (-1, s)
         else
           let (r, h) = write_loop io (ide_base dev) (drive_select (ide_drive dev)) secno src 0
                 (unat nsecs) (mem s) (hw s)
           in (r, s\<lparr>hw := h\<rparr>))"

definition hd_get_device :: "nat \<Rightarrow> ('h, 'a) hd_scheme \<Rightarrow> nat option" where
  "hd_get_device dev_id s = (if \<not> ide_present (ide_devices s dev_id) then None else Some dev_id)"

definition hd_get_device_count :: "('h, 'a) hd_scheme \<Rightarrow> nat" where
  "hd_get_device_count s = hd_num_devices s"

end
