(* ===== verification/Blk.thy ===== *)
theory Blk
  imports Hd
begin

text \<open>
  The block device layer, \<^verbatim>\<open>kern/drivers/blk.c\<close>: a registry of at most four block devices,
  the static array they live in, and the calls through a device's function pointers. A pointer
  to a block device is the index of its element of \<^verbatim>\<open>disk_devs\<close>, the null pointer is
  \<open>None\<close>; the function pointers are null or one of the two wrappers.
\<close>

definition BLK_SIZE :: u32 where "BLK_SIZE = 512"
definition MAX_BLK_DEV :: nat where "MAX_BLK_DEV = 4"
definition BLK_TYPE_DISK :: u32 where "BLK_TYPE_DISK = 1"
definition BLK_TYPE_SWAP :: u32 where "BLK_TYPE_SWAP = 2"

datatype read_op = No_Read | Disk_Read_Wrapper
datatype write_op = No_Write | Disk_Write_Wrapper

record block_device =
  bd_type :: u32
  bd_size :: u32
  bd_name :: string
  bd_private_data :: nat
  bd_read :: read_op
  bd_write :: write_op

record 'h blk = "'h hd" +
  block_devices :: "nat \<Rightarrow> nat option"
  num_devices :: nat
  disk_devs :: "nat \<Rightarrow> block_device"

definition blk_register :: "nat \<Rightarrow> ('h, 'a) blk_scheme \<Rightarrow> int \<times> ('h, 'a) blk_scheme" where
  "blk_register dev s =
     (if num_devices s \<ge> MAX_BLK_DEV then (-1, s)
      else (0, s\<lparr>block_devices := (block_devices s)(num_devices s := Some dev),
             num_devices := num_devices s + 1\<rparr>))"

definition disk_of :: "nat \<Rightarrow> ide_device \<Rightarrow> block_device" where
  "disk_of i dev =
     \<lparr>bd_type = BLK_TYPE_DISK, bd_size = di_size (ide_info dev), bd_name = ide_name dev,
      bd_private_data = i, bd_read = Disk_Read_Wrapper, bd_write = Disk_Write_Wrapper\<rparr>"

fun register_loop :: "nat \<Rightarrow> nat \<Rightarrow> ('h, 'a) blk_scheme \<Rightarrow> ('h, 'a) blk_scheme" where
  "register_loop i 0 s = s"
| "register_loop i (Suc n) s =
     (let ide_dev = hd_get_device i s;
          s = (case ide_dev of
                 None \<Rightarrow> s
               | Some d \<Rightarrow>
                   if ide_present (ide_devices s d) then
                     let s = s\<lparr>disk_devs := (disk_devs s)(i := disk_of i (ide_devices s d))\<rparr>
                     in snd (blk_register i s)
                   else s)
      in register_loop (i + 1) n s)"

text \<open>The loop runs while \<^verbatim>\<open>i < num_hd && i < MAX_BLK_DEV\<close>.\<close>

definition blk_init :: "'h port_io \<Rightarrow> ('h, 'a) blk_scheme \<Rightarrow> ('h, 'a) blk_scheme" where
  "blk_init io s =
     (let s = s\<lparr>block_devices := (\<lambda>i. if i < MAX_BLK_DEV then None else block_devices s i)\<rparr>;
          s = s\<lparr>num_devices := 0\<rparr>;
          s = hd_init io s;
          num_hd = hd_get_device_count s
      in register_loop 0 (min num_hd MAX_BLK_DEV) s)"

fun find_device :: "u32 \<Rightarrow> nat \<Rightarrow> nat \<Rightarrow> ('h, 'a) blk_scheme \<Rightarrow> nat option" where
  "find_device type i 0 s = None"
| "find_device type i (Suc n) s =
     (case block_devices s i of
        Some d \<Rightarrow> if bd_type (disk_devs s d) = type then Some d else find_device type (i + 1) n s
      | None \<Rightarrow> find_device type (i + 1) n s)"

definition blk_get_device :: "u32 \<Rightarrow> ('h, 'a) blk_scheme \<Rightarrow> nat option" where
  "blk_get_device type s = find_device type 0 (num_devices s) s"

definition disk_read_wrapper ::
  "'h port_io \<Rightarrow> nat \<Rightarrow> u32 \<Rightarrow> u32 \<Rightarrow> u32 \<Rightarrow> ('h, 'a) blk_scheme \<Rightarrow> int \<times> ('h, 'a) blk_scheme" where
  "disk_read_wrapper io dev blockno buf nblocks s =
     (let dev_id = bd_private_data (disk_devs s dev)
      in hd_read_device io dev_id blockno buf nblocks s)"

definition disk_write_wrapper ::
  "'h port_io \<Rightarrow> nat \<Rightarrow> u32 \<Rightarrow> u32 \<Rightarrow> u32 \<Rightarrow> ('h, 'a) blk_scheme \<Rightarrow> int \<times> ('h, 'a) blk_scheme" where
  "disk_write_wrapper io dev blockno buf nblocks s =
     (let dev_id = bd_private_data (disk_devs s dev)
      in hd_write_device io dev_id blockno buf nblocks s)"

definition blk_read ::
  "'h port_io \<Rightarrow> nat option \<Rightarrow> u32 \<Rightarrow> u32 \<Rightarrow> u32 \<Rightarrow> ('h, 'a) blk_scheme \<Rightarrow> int \<times> ('h, 'a) blk_scheme" where
  "blk_read io dev blockno buf nblocks s =
     (case dev of
        None \<Rightarrow> (-1, s)
      | Some d \<Rightarrow>
          (case bd_read (disk_devs s d) of
             No_Read \<Rightarrow> (-1, s)
           | Disk_Read_Wrapper \<Rightarrow> disk_read_wrapper io d blockno buf nblocks s))"

definition blk_write ::
  "'h port_io \<Rightarrow> nat option \<Rightarrow> u32 \<Rightarrow> u32 \<Rightarrow> u32 \<Rightarrow> ('h, 'a) blk_scheme \<Rightarrow> int \<times> ('h, 'a) blk_scheme" where
  "blk_write io dev blockno buf nblocks s =
     (case dev of
        None \<Rightarrow> (-1, s)
      | Some d \<Rightarrow>
          (case bd_write (disk_devs s d) of
             No_Write \<Rightarrow> (-1, s)
           | Disk_Write_Wrapper \<Rightarrow> disk_write_wrapper io d blockno buf nblocks s))"

text \<open>
  The numbers of a line of \<^verbatim>\<open>blk_list_devices\<close>: whole megabytes and one decimal, computed
  in 32 bits.
\<close>

definition size_mb :: "u32 \<Rightarrow> u32 \<times> u32" where
  "size_mb blocks =
     (let size_bytes = blocks * BLK_SIZE;
          remainder = size_bytes mod (1024 * 1024)
      in (size_bytes div (1024 * 1024), (remainder * 10) div (1024 * 1024)))"

end
