(* ===== verification/Swap.thy ===== *)
theory Swap
  imports Blk
begin

text \<open>
  Swapping, \<^verbatim>\<open>kern/mm/swap.c\<close>: the swap file on a block device, moving a page in on a
  fault and pages out on demand, and the search for the address a frame is mapped at. The
  manager in use is FIFO. \<open>swap_offset\<close> is the static counter of \<^verbatim>\<open>swap_out\<close>.
\<close>

datatype swap_mgr_ptr = Mgr_Null | Swap_Mgr_Fifo

record 'h swap = "'h blk" +
  swap_mgr :: swap_mgr_ptr
  max_swap_offset :: u32
  swap_device :: "nat option"
  swap_offset :: u32

definition SWAP_START_SECTOR :: u32 where "SWAP_START_SECTOR = 1000"
definition SECTORS_PER_PAGE :: u32 where "SECTORS_PER_PAGE = PG_SIZE div 512"

section \<open>The swap file\<close>

definition swapfs_init :: "('h, 'a) swap_scheme \<Rightarrow> (int \<times> ('h, 'a) swap_scheme) res" where
  "swapfs_init s =
     (let s = s\<lparr>swap_device := blk_get_device BLK_TYPE_DISK s\<rparr>
      in if swap_device s = None then Inl Null_Deref else Inr (0, s))"

definition swap_sector :: "u32 \<Rightarrow> u32" where
  "swap_sector ent =
     (let offset = drop_bit 8 ent AND 0xFFFFFF
      in SWAP_START_SECTOR + offset * SECTORS_PER_PAGE)"

definition swapfs_read ::
  "'h port_io \<Rightarrow> u32 \<Rightarrow> nat \<Rightarrow> ('h, 'a) swap_scheme \<Rightarrow> int \<times> ('h, 'a) swap_scheme" where
  "swapfs_read io ent page s =
     (let sector = swap_sector ent;
          kva = page2kva page;
          (r, s) = blk_read io (swap_device s) sector kva SECTORS_PER_PAGE s
      in if r \<noteq> 0 then (-1, s) else (0, s))"

definition swapfs_write ::
  "'h port_io \<Rightarrow> u32 \<Rightarrow> nat \<Rightarrow> ('h, 'a) swap_scheme \<Rightarrow> int \<times> ('h, 'a) swap_scheme" where
  "swapfs_write io ent page s =
     (let sector = swap_sector ent;
          kva = page2kva page;
          (r, s) = blk_write io (swap_device s) sector kva SECTORS_PER_PAGE s
      in if r \<noteq> 0 then (-1, s) else (0, s))"

definition swap_init :: "('h, 'a) swap_scheme \<Rightarrow> (int \<times> ('h, 'a) swap_scheme) res" where
  "swap_init s =
     (let s = s\<lparr>swap_mgr := Swap_Mgr_Fifo\<rparr>;
          (_, s) = swap_fifo_init s
      in bindE (swapfs_init s) (\<lambda>(_, s).
         case swap_device s of
           None \<Rightarrow> Inl Null_Deref
         | Some d \<Rightarrow>
             let available_sectors = bd_size (disk_devs s d) - SWAP_START_SECTOR
             in Inr (0, s\<lparr>max_swap_offset := available_sectors div SECTORS_PER_PAGE\<rparr>)))"

definition swap_init_mm :: "('h, 'a) swap_scheme \<Rightarrow> (int \<times> ('h, 'a) swap_scheme) res" where
  "swap_init_mm s =
     (case swap_mgr s of
        Mgr_Null \<Rightarrow> Inl Null_Deref
      | Swap_Mgr_Fifo \<Rightarrow> Inr (swap_fifo_init_mm s))"

definition mgr_map_swappable ::
  "u32 \<Rightarrow> nat \<Rightarrow> bool \<Rightarrow> ('h, 'a) swap_scheme \<Rightarrow> (int \<times> ('h, 'a) swap_scheme) res" where
  "mgr_map_swappable addr page swap_in s =
     (case swap_mgr s of
        Mgr_Null \<Rightarrow> Inl Null_Deref
      | Swap_Mgr_Fifo \<Rightarrow> swap_fifo_map_swappable addr page swap_in s)"

definition mgr_swap_out_victim ::
  "bool \<Rightarrow> ('h, 'a) swap_scheme \<Rightarrow> (int \<times> nat option \<times> ('h, 'a) swap_scheme) res" where
  "mgr_swap_out_victim in_tick s =
     (case swap_mgr s of
        Mgr_Null \<Rightarrow> Inl Null_Deref
      | Swap_Mgr_Fifo \<Rightarrow> swap_fifo_swap_out_victim in_tick s)"

section \<open>Moving a page in\<close>

text \<open>The out parameter \<^verbatim>\<open>page_ptr\<close> is the second component.\<close>

definition swap_in ::
  "'h port_io \<Rightarrow> u32 \<Rightarrow> ('h, 'a) swap_scheme \<Rightarrow> (int \<times> nat option \<times> ('h, 'a) swap_scheme) res" where
  "swap_in io addr s =
     bindE (alloc_pages 1 s) (\<lambda>(page, s).
     case page of
       None \<Rightarrow> Inr (-1, None, s)
     | Some p \<Rightarrow>
         bindE (get_pte (mm_pgdir s) addr False s) (\<lambda>(ptep, s).
         if ptep = 0 then bindE (pages_free p 1 s) (\<lambda>(_, s). Inr (-1, None, s))
         else
           let swap_entry = load32 (mem s) ptep;
               (r, s) = swapfs_read io swap_entry p s
           in if r \<noteq> 0 then bindE (pages_free p 1 s) (\<lambda>(_, s). Inr (-1, None, s))
              else
                bindE (page_insert (mm_pgdir s) p addr (PTE_P OR PTE_W OR PTE_U) s) (\<lambda>(_, s).
                bindE (mgr_map_swappable addr p True s) (\<lambda>(_, s).
                Inr (0, Some p, s)))))"

section \<open>Moving pages out\<close>

text \<open>The two nested loops of \<^verbatim>\<open>find_vaddr_for_page\<close> over the 1024 entries of each table.\<close>

fun find_pte :: "memory \<Rightarrow> u32 \<Rightarrow> u32 \<Rightarrow> nat \<Rightarrow> nat \<Rightarrow> nat option" where
  "find_pte m pt pa pte_idx 0 = None"
| "find_pte m pt pa pte_idx (Suc n) =
     (let pte = load32 m (pt + 4 * of_nat pte_idx)
      in if pte AND PTE_P \<noteq> 0 \<and> PTE_ADDR pte = pa then Some pte_idx
         else find_pte m pt pa (pte_idx + 1) n)"

fun find_pde :: "memory \<Rightarrow> u32 \<Rightarrow> u32 \<Rightarrow> nat \<Rightarrow> nat \<Rightarrow> u32" where
  "find_pde m pgdir pa pde_idx 0 = 0"
| "find_pde m pgdir pa pde_idx (Suc n) =
     (let pde = load32 m (pgdir + 4 * of_nat pde_idx)
      in if pde AND PTE_P \<noteq> 0 then
           (case find_pte m (K_ADDR (PDE_ADDR pde)) pa 0 1024 of
              Some pte_idx \<Rightarrow> push_bit 22 (of_nat pde_idx) OR push_bit 12 (of_nat pte_idx)
            | None \<Rightarrow> find_pde m pgdir pa (pde_idx + 1) n)
         else find_pde m pgdir pa (pde_idx + 1) n)"

definition find_vaddr_for_page :: "nat \<Rightarrow> ('h, 'a) swap_scheme \<Rightarrow> u32" where
  "find_vaddr_for_page page s = find_pde (mem s) (mm_pgdir s) (page2pa page) 0 1024"

text \<open>
  One round of \<^verbatim>\<open>swap_out\<close>: whether the loop goes on (a \<^verbatim>\<open>break\<close> ends it, a
  \<^verbatim>\<open>continue\<close> does not), and the state.
\<close>

definition swap_out_step ::
  "'h port_io \<Rightarrow> bool \<Rightarrow> ('h, 'a) swap_scheme \<Rightarrow> (bool \<times> ('h, 'a) swap_scheme) res" where
  "swap_out_step io in_tick s =
     bindE (mgr_swap_out_victim in_tick s) (\<lambda>(r, victim, s).
     if r \<noteq> 0 then Inr (False, s)
     else
       case victim of
         None \<Rightarrow> Inr (False, s)
       | Some v \<Rightarrow>
           let victim_addr = find_vaddr_for_page v s
           in if victim_addr = 0 then Inr (True, s)
              else
                bindE (get_pte (mm_pgdir s) victim_addr False s) (\<lambda>(ptep, s).
                if ptep = 0 then Inr (True, s)
                else
                  let swap_entry = push_bit 8 (swap_offset s);
                      (r, s) = swapfs_write io swap_entry v s
                  in if r \<noteq> 0 then Inr (True, s)
                     else
                       let s = upd_mem (store32 ptep swap_entry) s;
                           s = tlb_invl (mm_pgdir s) victim_addr s
                       in bindE (pages_free v 1 s) (\<lambda>(_, s).
                            let s = s\<lparr>swap_offset := swap_offset s + 1\<rparr>;
                                s = (if swap_offset s \<ge> max_swap_offset s
                                     then s\<lparr>swap_offset := 1\<rparr> else s)
                            in Inr (True, s))))"

fun swap_out_loop ::
  "'h port_io \<Rightarrow> bool \<Rightarrow> nat \<Rightarrow> nat \<Rightarrow> ('h, 'a) swap_scheme \<Rightarrow> (nat \<times> ('h, 'a) swap_scheme) res" where
  "swap_out_loop io in_tick i 0 s = Inr (i, s)"
| "swap_out_loop io in_tick i (Suc n) s =
     bindE (swap_out_step io in_tick s) (\<lambda>(go_on, s).
     if go_on then swap_out_loop io in_tick (i + 1) n s else Inr (i, s))"

definition swap_out ::
  "'h port_io \<Rightarrow> int \<Rightarrow> bool \<Rightarrow> ('h, 'a) swap_scheme \<Rightarrow> (nat \<times> ('h, 'a) swap_scheme) res" where
  "swap_out io n in_tick s = swap_out_loop io in_tick 0 (nat n) s"

end
