(* ===== verification/Stdio.thy ===== *)
theory Stdio
  imports Prelude
begin

text \<open>
  Formatted output, \<^verbatim>\<open>kern/cons/stdio.c\<close>, with the 64-bit division of
  \<^verbatim>\<open>kern/include/math.h\<close>. The functions only call \<^verbatim>\<open>cons_putc\<close>, so each is modelled by
  the list of the integers it passes to it. The variable arguments are the words on the stack: a
  \<^verbatim>\<open>uint64_t\<close> takes two, a string stands for a pointer to it. \<open>None\<close> means that the call does
  not return or reads an argument that is not there.
\<close>

section \<open>Division\<close>

text \<open>\<^verbatim>\<open>divl\<close> divides the 64-bit number in \<^verbatim>\<open>edx:eax\<close> by a 32-bit one.\<close>

definition divl :: "u32 \<Rightarrow> u32 \<Rightarrow> u32 \<Rightarrow> u32 \<times> u32" where
  "divl edx eax b =
     (let n = push_bit 32 (ucast edx) OR ucast eax :: u64
      in (ucast (n div ucast b), ucast (n mod ucast b)))"

definition do_div :: "u64 \<Rightarrow> u32 \<Rightarrow> u64 \<times> u32" where
  "do_div n base =
     (let low = ucast n :: u32;
          high = ucast (drop_bit 32 n) :: u32;
          upper = high;
          (upper, high) = (if high \<noteq> 0 then (high mod base, high div base) else (upper, high));
          (low, m) = divl upper low base
      in (push_bit 32 (ucast high) OR ucast low, m))"

section \<open>Numbers\<close>

definition putc_of :: "char \<Rightarrow> u32" where
  "putc_of c = scast (of_char c :: u8)"

text \<open>\<^verbatim>\<open>mod < 10 ? '0' + mod : 'A' + mod - 10\<close>\<close>

definition digit_char :: "u32 \<Rightarrow> u32" where
  "digit_char m = (if m < 10 then putc_of CHR ''0'' + m else putc_of CHR ''A'' + m - 10)"

partial_function (option) get_num_digits_loop :: "u64 \<Rightarrow> u32 \<Rightarrow> int \<Rightarrow> int option" where
  "get_num_digits_loop num base digits =
     (if num > 0 then get_num_digits_loop (fst (do_div num base)) base (digits + 1) else Some digits)"

definition get_num_digits :: "u64 \<Rightarrow> u32 \<Rightarrow> int option" where
  "get_num_digits num base = (if num = 0 then Some 1 else get_num_digits_loop num base 0)"

text \<open>A loop that puts the same character \<open>n\<close> times, none when \<open>n\<close> is not positive.\<close>

definition pad :: "u32 \<Rightarrow> int \<Rightarrow> u32 list" where
  "pad c n = replicate (nat n) c"

partial_function (option) print_digit :: "u64 \<Rightarrow> u32 \<Rightarrow> int \<Rightarrow> u32 \<Rightarrow> u32 list option" where
  "print_digit num base width padc =
     (if num \<ge> ucast base then
        Option.bind (print_digit (fst (do_div num base)) base (width - 1) padc)
          (\<lambda>out. Some (out @ [digit_char (snd (do_div num base))]))
      else Some (pad padc (width - 1) @ [digit_char (ucast num)]))"

partial_function (option) print_digit_no_pad :: "u64 \<Rightarrow> u32 \<Rightarrow> u32 list option" where
  "print_digit_no_pad num base =
     (if num \<ge> ucast base then
        Option.bind (print_digit_no_pad (fst (do_div num base)) base)
          (\<lambda>out. Some (out @ [digit_char (snd (do_div num base))]))
      else Some [digit_char (ucast num)])"

section \<open>Arguments\<close>

datatype vararg = Word u32 | Str string

fun va_u32 :: "vararg list \<Rightarrow> (u32 \<times> vararg list) option" where
  "va_u32 (Word w # args) = Some (w, args)"
| "va_u32 _ = None"

fun va_u64 :: "vararg list \<Rightarrow> (u64 \<times> vararg list) option" where
  "va_u64 (Word lo # Word hi # args) = Some (push_bit 32 (ucast hi) OR ucast lo, args)"
| "va_u64 _ = None"

fun va_str :: "vararg list \<Rightarrow> (string \<times> vararg list) option" where
  "va_str (Str s # args) = Some (s, args)"
| "va_str _ = None"

definition va_num :: "bool \<Rightarrow> vararg list \<Rightarrow> (u64 \<times> vararg list) option" where
  "va_num lflag args = (if lflag then va_u64 args else map_option (apfst ucast) (va_u32 args))"

definition va_signed :: "bool \<Rightarrow> vararg list \<Rightarrow> (u64 \<times> vararg list) option" where
  "va_signed lflag args = (if lflag then va_u64 args else map_option (apfst scast) (va_u32 args))"

definition print_num ::
  "u32 \<Rightarrow> bool \<Rightarrow> int \<Rightarrow> u32 \<Rightarrow> bool \<Rightarrow> vararg list \<Rightarrow> (u32 list \<times> vararg list) option" where
  "print_num base lflag width padc left_align args =
     Option.bind (va_num lflag args) (\<lambda>(num, args).
       if left_align then
         Option.bind (get_num_digits num base) (\<lambda>num_digits.
         Option.bind (print_digit_no_pad num base) (\<lambda>out.
         Some (out @ pad (putc_of CHR '' '') (width - num_digits), args)))
       else
         Option.bind (print_digit num base width padc) (\<lambda>out. Some (out, args)))"

text \<open>
  \<^verbatim>\<open>num = -signed_num\<close> of the smallest 64-bit integer is that integer again, read as unsigned.
\<close>

definition print_signed_num ::
  "u32 \<Rightarrow> bool \<Rightarrow> int \<Rightarrow> u32 \<Rightarrow> bool \<Rightarrow> vararg list \<Rightarrow> (u32 list \<times> vararg list) option" where
  "print_signed_num base lflag width padc left_align args =
     Option.bind (va_signed lflag args) (\<lambda>(signed_num, args).
       let is_negative = signed_num <s 0;
           num = (if is_negative then - signed_num else signed_num);
           sign = (if is_negative then [putc_of CHR ''-''] else [])
       in Option.bind (get_num_digits num base) (\<lambda>num_digits.
          Option.bind (print_digit_no_pad num base) (\<lambda>out.
          let total_width = num_digits + (if is_negative then 1 else 0)
          in Some
            (if left_align then sign @ out @ pad (putc_of CHR '' '') (width - total_width)
             else if padc = putc_of CHR ''0'' \<and> is_negative
             then sign @ pad (putc_of CHR ''0'') (width - total_width) @ out
             else pad padc (width - total_width) @ sign @ out, args))))"

definition print_str :: "int \<Rightarrow> bool \<Rightarrow> vararg list \<Rightarrow> (u32 list \<times> vararg list) option" where
  "print_str width left_align args =
     Option.bind (va_str args) (\<lambda>(s, args).
       let len = int (length s);
           fill = (if width > len then pad (putc_of CHR '' '') (width - len) else [])
       in Some ((if left_align then [] else fill) @ map putc_of s @ (if left_align then fill else []), args))"

section \<open>\<^verbatim>\<open>cprintf\<close>\<close>

record fmt =
  transfer :: bool
  lflag :: bool
  fwidth :: int
  left_align :: bool
  padc :: u32

definition fmt_start :: "bool \<Rightarrow> fmt" where
  "fmt_start t = \<lparr>transfer = t, lflag = False, fwidth = 0, left_align = False, padc = putc_of CHR '' ''\<rparr>"

text \<open>
  One character of the format: what is put out, the new state, and the arguments left.
  \<^verbatim>\<open>status\<close> is \<open>transfer\<close>: whether a conversion is being read. The pad character, flags and
  width are set back by every character outside a conversion.
\<close>

type_synonym fmt_result = "(u32 list \<times> fmt \<times> vararg list) option"

definition converted :: "fmt \<Rightarrow> (u32 list \<times> vararg list) option \<Rightarrow> fmt_result" where
  "converted f r = map_option (\<lambda>(out, args). (out, f\<lparr>transfer := False\<rparr>, args)) r"

definition digits19 :: "char list" where
  "digits19 = ''123456789''"

definition fmt_step :: "char \<Rightarrow> fmt \<Rightarrow> vararg list \<Rightarrow> fmt_result" where
  "fmt_step c f args =
     (if \<not> transfer f then
        Some (if c = CHR ''%'' then [] else [putc_of c], fmt_start (c = CHR ''%''), args)
      else if c = CHR ''-'' then Some ([], f\<lparr>left_align := True\<rparr>, args)
      else if c = CHR ''0'' then Some ([], f\<lparr>padc := putc_of CHR ''0''\<rparr>, args)
      else if c \<in> set digits19 then
        Some ([], f\<lparr>fwidth := fwidth f * 10 + (of_char c - of_char CHR ''0'')\<rparr>, args)
      else if c = CHR ''l'' then Some ([], f\<lparr>lflag := True\<rparr>, args)
      else if c = CHR ''x'' \<or> c = CHR ''p'' then
        converted f (print_num 16 (lflag f) (fwidth f) (padc f) (left_align f) args)
      else if c = CHR ''d'' then
        converted f (print_signed_num 10 (lflag f) (fwidth f) (padc f) (left_align f) args)
      else if c = CHR ''u'' then
        converted f (print_num 10 (lflag f) (fwidth f) (padc f) (left_align f) args)
      else if c = CHR ''s'' then converted f (print_str (fwidth f) (left_align f) args)
      else if c = CHR ''c'' then converted f (map_option (apfst (\<lambda>w. [w])) (va_u32 args))
      else Some ([], f, args))"

primrec cprintf_loop :: "string \<Rightarrow> fmt \<Rightarrow> vararg list \<Rightarrow> u32 list option" where
  "cprintf_loop [] f args = Some []"
| "cprintf_loop (c # cs) f args =
     Option.bind (fmt_step c f args) (\<lambda>(out, f, args).
       map_option ((@) out) (cprintf_loop cs f args))"

definition cprintf :: "string \<Rightarrow> vararg list \<Rightarrow> u32 list option" where
  "cprintf fmt args = cprintf_loop fmt (fmt_start False) args"

end
