(* ===== verification/Cons.thy ===== *)
theory Cons
  imports Swap Stdio
begin

text \<open>
  The console: the CGA text screen (\<^verbatim>\<open>kern/drivers/cga.c\<close>), the keyboard
  (\<^verbatim>\<open>kern/drivers/kdb.c\<close>) and the calls that go through both
  (\<^verbatim>\<open>kern/cons/cons.c\<close>). The screen is the memory at \<open>crt_buf\<close>, two bytes a cell; the cursor
  is a 16-bit cell number. The hardware cursor and the debug port are behind the ports.
\<close>

record 'h cons = "'h swap" +
  crt_pos :: u16

section \<open>Screen\<close>

definition CRT_ROWS :: nat where "CRT_ROWS = 25"
definition CRT_COLS :: nat where "CRT_COLS = 80"
definition CGA_IDX_REG :: u16 where "CGA_IDX_REG = 0x3D4"
definition CGA_DATA_REG :: u16 where "CGA_DATA_REG = 0x3D5"
definition CRTC_CURSOR_HIGH :: u8 where "CRTC_CURSOR_HIGH = 0x0E"
definition CRTC_CURSOR_LOW :: u8 where "CRTC_CURSOR_LOW = 0x0F"
definition CGA_BUF :: u32 where "CGA_BUF = 0xB8000"
definition CRT_ERASE_CHAR :: u16 where "CRT_ERASE_CHAR = 0x0720"

definition crt_buf :: u32 where "crt_buf = CGA_BUF + KERNEL_BASE"

text \<open>The cell \<open>crt_buf[i]\<close>.\<close>

definition crt_cell :: "nat \<Rightarrow> u32" where
  "crt_cell i = crt_buf + 2 * of_nat i"

definition cur_update :: "'h port_io \<Rightarrow> ('h, 'a) cons_scheme \<Rightarrow> ('h, 'a) cons_scheme" where
  "cur_update io s =
     (let h = outb io CGA_IDX_REG CRTC_CURSOR_HIGH (hw s);
          h = outb io CGA_DATA_REG (ucast (drop_bit 8 (crt_pos s))) h;
          h = outb io CGA_IDX_REG CRTC_CURSOR_LOW h;
          h = outb io CGA_DATA_REG (ucast (crt_pos s)) h
      in s\<lparr>hw := h\<rparr>)"

definition cga_init :: "'h port_io \<Rightarrow> ('h, 'a) cons_scheme \<Rightarrow> ('h, 'a) cons_scheme" where
  "cga_init io s =
     (let h = outb io CGA_IDX_REG CRTC_CURSOR_HIGH (hw s);
          (hi, h) = inb io CGA_DATA_REG h;
          h = outb io CGA_IDX_REG CRTC_CURSOR_LOW h;
          (lo, h) = inb io CGA_DATA_REG h
      in s\<lparr>hw := h, crt_pos := push_bit 8 (ucast hi) OR ucast lo\<rparr>)"

fun scroll_loop :: "nat \<Rightarrow> nat \<Rightarrow> memory \<Rightarrow> memory" where
  "scroll_loop i 0 m = m"
| "scroll_loop i (Suc n) m =
     scroll_loop (i + 1) n (store16 (crt_cell i) (load16 m (crt_cell (i + CRT_COLS))) m)"

fun erase_loop :: "nat \<Rightarrow> nat \<Rightarrow> memory \<Rightarrow> memory" where
  "erase_loop i 0 m = m"
| "erase_loop i (Suc n) m = erase_loop (i + 1) n (store16 (crt_cell i) CRT_ERASE_CHAR m)"

definition cga_scrup :: "('h, 'a) cons_scheme \<Rightarrow> ('h, 'a) cons_scheme" where
  "cga_scrup s =
     (let s = upd_mem (scroll_loop 0 ((CRT_ROWS - 1) * CRT_COLS)) s;
          s = upd_mem (erase_loop (CRT_COLS * (CRT_ROWS - 1)) CRT_COLS) s
      in s\<lparr>crt_pos := crt_pos s - of_nat CRT_COLS\<rparr>)"

text \<open>The case for a newline goes on into the case for a carriage return.\<close>

definition cga_return :: "('h, 'a) cons_scheme \<Rightarrow> ('h, 'a) cons_scheme" where
  "cga_return s = s\<lparr>crt_pos := crt_pos s - crt_pos s mod of_nat CRT_COLS\<rparr>"

definition cga_newline :: "('h, 'a) cons_scheme \<Rightarrow> ('h, 'a) cons_scheme" where
  "cga_newline s =
     (let s = s\<lparr>crt_pos := crt_pos s + of_nat CRT_COLS\<rparr>;
          s = (if crt_pos s div of_nat CRT_COLS \<ge> of_nat CRT_ROWS then cga_scrup s else s)
      in cga_return s)"

definition cga_putc :: "'h port_io \<Rightarrow> u32 \<Rightarrow> ('h, 'a) cons_scheme \<Rightarrow> ('h, 'a) cons_scheme" where
  "cga_putc io c s =
     (let c = c OR 0x0700;
          s = (if c AND 0xFF = 0x08 then
                 if crt_pos s > 0 then
                   let s = s\<lparr>crt_pos := crt_pos s - 1\<rparr>
                   in upd_mem (store16 (crt_cell (unat (crt_pos s))) (ucast ((c AND NOT 0xFF) OR 0x20))) s
                 else s
               else if c AND 0xFF = 0x0A then cga_newline s
               else if c AND 0xFF = 0x0D then cga_return s
               else
                 let s = upd_mem (store16 (crt_cell (unat (crt_pos s))) (ucast c)) s
                 in s\<lparr>crt_pos := crt_pos s + 1\<rparr>)
      in cur_update io s)"

section \<open>Keyboard\<close>

definition KBD_DATA_REG :: u16 where "KBD_DATA_REG = 0x60"
definition KBD_STATUS_REG :: u16 where "KBD_STATUS_REG = 0x64"
definition KBD_OBF_FULL :: u8 where "KBD_OBF_FULL = 0x01"

text \<open>The first rows of \<^verbatim>\<open>normal_map\<close>; \<^verbatim>\<open>NO\<close> is 0.\<close>

definition key_rows :: "u8 list" where
  "key_rows =
     [0, 0x1B] @ map of_char ''1234567890-='' @ [8, 9] @
     map of_char ''qwertyuiop[]'' @ [10, 0] @
     map of_char ''asdfghjkl;'' @ [of_char (CHR 0x27), of_char (CHR 0x60), 0, of_char (CHR 0x5C)] @
     map of_char ''zxcvbnm,./'' @ [0, of_char CHR ''*'', 0, of_char CHR '' '', 0, 0, 0, 0, 0, 0,
       0, 0, 0, 0, 0, 0, 0] @ map of_char ''789-456+1230.'' @ [0, 0, 0, 0]"

text \<open>The entries set by their index.\<close>

definition key_extended :: "(u8 \<times> u8) list" where
  "key_extended =
     [(0xC7, 0xE0), (0x9C, 10), (0xB5, of_char CHR ''/''), (0xC8, 0xE2), (0xC9, 0xE6), (0xCB, 0xE4),
      (0xCD, 0xE5), (0xCF, 0xE1), (0xD0, 0xE3), (0xD1, 0xE7), (0xD2, 0xE8), (0xD3, 0xE9)]"

definition normal_map :: "u8 \<Rightarrow> u8" where
  "normal_map k =
     (if unat k < length key_rows then key_rows ! unat k
      else case map_of key_extended k of None \<Rightarrow> 0 | Some c \<Rightarrow> c)"

definition kbd_init :: "'h port_io \<Rightarrow> ('h, 'a) devs_scheme \<Rightarrow> ('h, 'a) devs_scheme" where
  "kbd_init io s = pic_enable io IRQ_KBD s"

definition kdb_getc :: "'h port_io \<Rightarrow> ('h, 'a) devs_scheme \<Rightarrow> int \<times> ('h, 'a) devs_scheme" where
  "kdb_getc io s =
     (let (st, h) = inb io KBD_STATUS_REG (hw s); s = s\<lparr>hw := h\<rparr>
      in if st AND KBD_OBF_FULL = 0 then (-1, s)
         else
           let (data, h) = inb io KBD_DATA_REG (hw s); s = s\<lparr>hw := h\<rparr>
           in if data AND 0x80 \<noteq> 0 then (-1, s) else (uint (normal_map data), s))"

section \<open>Console\<close>

text \<open>The result of \<^verbatim>\<open>cons_getc\<close> is a \<^verbatim>\<open>char\<close>, the low byte read as signed.\<close>

definition cons_getc :: "'h port_io \<Rightarrow> ('h, 'a) devs_scheme \<Rightarrow> int \<times> ('h, 'a) devs_scheme" where
  "cons_getc io s = (let (c, s) = kdb_getc io s in (sint (of_int c :: u8), s))"

definition cons_putc :: "'h port_io \<Rightarrow> u32 \<Rightarrow> ('h, 'a) cons_scheme \<Rightarrow> ('h, 'a) cons_scheme" where
  "cons_putc io c s =
     (let s = cga_putc io c s
      in s\<lparr>hw := outb io 0xe9 (ucast c) (hw s)\<rparr>)"

text \<open>\<^verbatim>\<open>cprintf\<close> with its output on the console.\<close>

definition cons_out :: "'h port_io \<Rightarrow> u32 list \<Rightarrow> ('h, 'a) cons_scheme \<Rightarrow> ('h, 'a) cons_scheme" where
  "cons_out io cs s = fold (cons_putc io) cs s"

definition cons_printf ::
  "'h port_io \<Rightarrow> string \<Rightarrow> vararg list \<Rightarrow> ('h, 'a) cons_scheme \<Rightarrow> (unit \<times> ('h, 'a) cons_scheme) res" where
  "cons_printf io fm args s = bindE (returns (cprintf fm args)) (\<lambda>cs. Inr ((), cons_out io cs s))"

definition cons_init ::
  "'h port_io \<Rightarrow> u32 \<Rightarrow> ('h, 'a) cons_scheme \<Rightarrow> (unit \<times> ('h, 'a) cons_scheme) res" where
  "cons_init io kernel_start s =
     (let s = cga_init io s;
          s = kbd_init io s
      in cons_printf io (''Zonix OS is Loading in [0x%x]...'' @ [CHR 0x0A]) [Word kernel_start] s)"

end
