(* ===== verification/Swap_Test.thy ===== *)
theory Swap_Test
  imports Cons
begin

text \<open>
  The tests behind the shell's \<^verbatim>\<open>swaptest\<close>, \<^verbatim>\<open>kern/mm/swap_test.c\<close>: the two that are
  compiled in, both on the FIFO manager, and the counters they keep. The test pages are local
  arrays of page descriptors; they are the descriptors from \<open>test_page 0\<close> on, behind those of
  the frames, and hold whatever is there.
\<close>

record 'h tests = "'h cons" +
  tests_passed :: int
  tests_failed :: int

definition newline :: string where "newline = [CHR 0x0A]"

definition line :: "string \<Rightarrow> string" where
  "line s = s @ newline"

definition int_arg :: "int \<Rightarrow> vararg" where
  "int_arg i = Word (of_int i)"

definition test_page :: "nat \<Rightarrow> nat" where
  "test_page i = 0x40000 + i"

text \<open>
  The file declares \<^verbatim>\<open>init_mm\<close> as a pointer although it is a structure, so the pointer it
  uses is the first word of the structure, \<^verbatim>\<open>mmap_list.prev\<close>. This is null before
  \<^verbatim>\<open>mm_init\<close>; afterwards the list is empty and the word is the address of its head, which is
  the address of \<^verbatim>\<open>init_mm\<close>.
\<close>

definition test_mm :: "'a pmm_scheme \<Rightarrow> unit res" where
  "test_mm s = (if prv (links s) MmapHead = MmapHead then Inr () else Inl Null_Deref)"

definition test_start :: "'h port_io \<Rightarrow> string \<Rightarrow> ('h, 'a) tests_scheme \<Rightarrow> (bool \<times> ('h, 'a) tests_scheme) res" where
  "test_start io name s =
     bindE (cons_printf io (newline @ line ''[TEST] %s'') [Str name] s) (\<lambda>(_, s). Inr (True, s))"

definition test_assert ::
  "'h port_io \<Rightarrow> bool \<Rightarrow> string \<Rightarrow> bool \<Rightarrow> ('h, 'a) tests_scheme \<Rightarrow> (bool \<times> ('h, 'a) tests_scheme) res" where
  "test_assert io cond msg result s =
     (if \<not> cond
      then bindE (cons_printf io (line ''  [FAIL] %s'') [Str msg] s) (\<lambda>(_, s). Inr (False, s))
      else bindE (cons_printf io (line ''  [OK] %s'') [Str msg] s) (\<lambda>(_, s). Inr (result, s)))"

definition test_end :: "'h port_io \<Rightarrow> bool \<Rightarrow> ('h, 'a) tests_scheme \<Rightarrow> (unit \<times> ('h, 'a) tests_scheme) res" where
  "test_end io result s =
     (if result
      then bindE (cons_printf io (line ''  [PASSED]'') [] s)
             (\<lambda>(_, s). Inr ((), s\<lparr>tests_passed := tests_passed s + 1\<rparr>))
      else bindE (cons_printf io (line ''  [FAILED]'') [] s)
             (\<lambda>(_, s). Inr ((), s\<lparr>tests_failed := tests_failed s + 1\<rparr>)))"

fun add_pages :: "nat \<Rightarrow> nat \<Rightarrow> 'a vmm_scheme \<Rightarrow> (unit \<times> 'a vmm_scheme) res" where
  "add_pages i 0 s = Inr ((), s)"
| "add_pages i (Suc n) s =
     bindE (swap_fifo_map_swappable (0x1000 * of_nat i) (test_page i) False s)
       (\<lambda>(_, s). add_pages (i + 1) n s)"

fun check_victims ::
  "'h port_io \<Rightarrow> nat \<Rightarrow> nat \<Rightarrow> bool \<Rightarrow> ('h, 'a) tests_scheme \<Rightarrow> (bool \<times> ('h, 'a) tests_scheme) res" where
  "check_victims io i 0 result s = Inr (result, s)"
| "check_victims io i (Suc n) result s =
     bindE (swap_fifo_swap_out_victim False s) (\<lambda>(ret, victim, s).
     if ret = 0 \<and> victim = Some (test_page i)
     then bindE (cons_printf io (line ''  [OK] Victim %d is page %d'') [int_arg (int i), int_arg (int i)] s)
            (\<lambda>(_, s). check_victims io (i + 1) n result s)
     else bindE (cons_printf io (line ''  [FAIL] Victim %d is not page %d'') [int_arg (int i), int_arg (int i)] s)
            (\<lambda>(_, s). check_victims io (i + 1) n False s))"

definition test_fifo_basic :: "'h port_io \<Rightarrow> ('h, 'a) tests_scheme \<Rightarrow> (unit \<times> ('h, 'a) tests_scheme) res" where
  "test_fifo_basic io s =
     bindE (test_start io ''FIFO Basic Operation'' s) (\<lambda>(result, s).
     bindE (test_mm s) (\<lambda>_.
       let (_, s) = swap_fifo_init_mm s
       in bindE (add_pages 0 5 s) (\<lambda>(_, s).
          bindE (check_victims io 0 5 result s) (\<lambda>(result, s).
          bindE (swap_fifo_swap_out_victim False s) (\<lambda>(ret, victim, s).
          bindE (test_assert io (ret \<noteq> 0) ''Empty list returns error'' result s) (\<lambda>(result, s).
          test_end io result s))))))"

definition test_fifo_interleaved :: "'h port_io \<Rightarrow> ('h, 'a) tests_scheme \<Rightarrow> (unit \<times> ('h, 'a) tests_scheme) res" where
  "test_fifo_interleaved io s =
     bindE (test_start io ''FIFO Interleaved Add/Remove'' s) (\<lambda>(result, s).
     bindE (test_mm s) (\<lambda>_.
       let (_, s) = swap_fifo_init_mm s
       in bindE (add_pages 0 3 s) (\<lambda>(_, s).
          bindE (swap_fifo_swap_out_victim False s) (\<lambda>(_, victim, s).
          bindE (test_assert io (victim = Some (test_page 0)) ''First victim is page 0'' result s) (\<lambda>(result, s).
          bindE (add_pages 3 2 s) (\<lambda>(_, s).
          bindE (swap_fifo_swap_out_victim False s) (\<lambda>(ret, victim', s).
          let victim = (if ret = 0 then victim' else victim) in
          bindE (test_assert io (victim = Some (test_page 1)) ''Second victim is page 1'' result s) (\<lambda>(result, s).
          test_end io result s))))))))"

text \<open>Several \<^verbatim>\<open>cprintf\<close> calls in a row.\<close>

fun printfs ::
  "'h port_io \<Rightarrow> (string \<times> vararg list) list \<Rightarrow> ('h, 'a) cons_scheme \<Rightarrow> (unit \<times> ('h, 'a) cons_scheme) res" where
  "printfs io [] s = Inr ((), s)"
| "printfs io ((fm, args) # ps) s = bindE (cons_printf io fm args s) (\<lambda>(_, s). printfs io ps s)"

definition rule :: string where
  "rule = line ''========================================''"

definition test_summary :: "'h port_io \<Rightarrow> ('h, 'a) tests_scheme \<Rightarrow> (unit \<times> ('h, 'a) tests_scheme) res" where
  "test_summary io s =
     bindE (printfs io [(newline, []), (rule, []), (line ''   TEST SUMMARY                        '', []),
       (rule, []), (line ''   Passed: %d'', [int_arg (tests_passed s)]),
       (line ''   Failed: %d'', [int_arg (tests_failed s)]),
       (line ''   Total:  %d'', [int_arg (tests_passed s + tests_failed s)])] s) (\<lambda>(_, s).
     bindE (if tests_failed s = 0
            then cons_printf io (newline @ line ''   [OK] ALL TESTS PASSED!'') [] s
            else cons_printf io (newline @ line ''   [FAIL] SOME TESTS FAILED'') [] s) (\<lambda>(_, s).
     cons_printf io (rule @ newline) [] s))"

definition run_swap_tests :: "'h port_io \<Rightarrow> ('h, 'a) tests_scheme \<Rightarrow> (unit \<times> ('h, 'a) tests_scheme) res" where
  "run_swap_tests io s =
     bindE (printfs io [(newline, []), (rule, []), (line ''   ZONIX SWAP SYSTEM TEST SUITE       '', []),
       (rule, [])] s) (\<lambda>(_, s).
       let s = s\<lparr>tests_passed := 0\<rparr>;
           s = s\<lparr>tests_failed := 0\<rparr>
       in bindE (cons_printf io (newline @ line ''--- FIFO Algorithm Tests ---'') [] s) (\<lambda>(_, s).
          bindE (test_fifo_basic io s) (\<lambda>(_, s).
          bindE (test_fifo_interleaved io s) (\<lambda>(_, s).
          test_summary io s))))"

end
