(* ===== verification/Shell.thy ===== *)
theory Shell
  imports Swap_Test
begin

text \<open>
  The shell's data, \<^verbatim>\<open>kern/cons/shell.c\<close>: the line buffer, the table of commands and the
  search of a line in it. What the commands do is in the theory of the kernel as a whole.
\<close>

definition CMD_BUF_SIZE :: nat where "CMD_BUF_SIZE = 128"
definition ASCII_PRINTABLE_MIN :: int where "ASCII_PRINTABLE_MIN = 0x20"
definition ASCII_PRINTABLE_MAX :: int where "ASCII_PRINTABLE_MAX = 0x7F"
definition ASCII_DEL :: int where "ASCII_DEL = 0x7F"

record 'h shell = "'h tests" +
  cmd_buffer :: "nat \<Rightarrow> char"
  cmd_pos :: nat

section \<open>Commands\<close>

datatype command =
  Cmd_help | Cmd_pgdir | Cmd_clear | Cmd_swap_test | Cmd_lsblk | Cmd_hdparm | Cmd_disktest | Cmd_dd
| Cmd_uname_a | Cmd_uname | Cmd_ps

definition commands :: "(string \<times> string \<times> command) list" where
  "commands =
     [(''help'', ''Show this help message'', Cmd_help),
      (''pgdir'', ''Print page directory'', Cmd_pgdir),
      (''clear'', ''Clear the screen'', Cmd_clear),
      (''swaptest'', ''Run swap system tests'', Cmd_swap_test),
      (''lsblk'', ''List block devices'', Cmd_lsblk),
      (''hdparm'', ''Show disk information'', Cmd_hdparm),
      (''disktest'', ''Test disk read/write'', Cmd_disktest),
      (''dd'', ''Disk dump/copy (info only)'', Cmd_dd),
      (''uname -a'', ''Print all system information'', Cmd_uname_a),
      (''uname'', ''Print system information'', Cmd_uname),
      (''ps'', ''List all processes'', Cmd_ps)]"

text \<open>
  C strings are lists of their characters before the terminator; reading at the end gives the
  terminator, 0.
\<close>

definition char_at :: "string \<Rightarrow> nat \<Rightarrow> char" where
  "char_at s i = (if i < length s then s ! i else CHR 0x00)"

fun strncmp :: "string \<Rightarrow> string \<Rightarrow> nat \<Rightarrow> int" where
  "strncmp s1 s2 0 = 0"
| "strncmp s1 s2 (Suc n) =
     (if s1 \<noteq> [] \<and> char_at s1 0 = char_at s2 0 then strncmp (tl s1) (tl s2) n
      else of_char (char_at s1 0) - of_char (char_at s2 0))"

fun find_command :: "string \<Rightarrow> (string \<times> string \<times> command) list \<Rightarrow> command option" where
  "find_command cmd [] = None"
| "find_command cmd ((name, desc, func) # cs) =
     (let len = length name
      in if strncmp cmd name len = 0 \<and> (char_at cmd len = CHR 0x00 \<or> char_at cmd len = CHR '' '')
         then Some func else find_command cmd cs)"

text \<open>The string in the buffer, as \<^verbatim>\<open>execute_command\<close> reads it.\<close>

definition buffer_string :: "(nat \<Rightarrow> char) \<Rightarrow> string" where
  "buffer_string buf = takeWhile (\<lambda>c. c \<noteq> CHR 0x00) (map buf [0..<CMD_BUF_SIZE])"

definition skip_spaces :: "string \<Rightarrow> string" where
  "skip_spaces cmd = dropWhile (\<lambda>c. c = CHR '' '') cmd"

section \<open>Prompt\<close>

definition shell_prompt :: "'h port_io \<Rightarrow> ('h, 'a) shell_scheme \<Rightarrow> (unit \<times> ('h, 'a) shell_scheme) res" where
  "shell_prompt io s = cons_printf io ''zonix> '' [] s"

definition shell_init :: "'h port_io \<Rightarrow> ('h, 'a) shell_scheme \<Rightarrow> (unit \<times> ('h, 'a) shell_scheme) res" where
  "shell_init io s =
     (let s = s\<lparr>cmd_pos := 0\<rparr>;
          s = s\<lparr>cmd_buffer := (cmd_buffer s)(0 := CHR 0x00)\<rparr>
      in bindE (cons_printf io newline [] s) (\<lambda>(_, s).
         bindE (cons_printf io (''============================================='' @ newline) [] s) (\<lambda>(_, s).
         bindE (cons_printf io (''  Welcome to Zonix OS Interactive Console'' @ newline) [] s) (\<lambda>(_, s).
         bindE (cons_printf io (''  Type '' @ [CHR 0x27] @ ''help'' @ [CHR 0x27] @ '' to see available commands'' @ newline) [] s) (\<lambda>(_, s).
         cons_printf io (''============================================='' @ newline) [] s)))))"

end
