(* ===== verification/Sched.thy ===== *)
theory Sched
  imports Shell
begin

text \<open>
  Processes and the scheduler: \<^verbatim>\<open>kern/sched/sched.c\<close>, \<^verbatim>\<open>sched.h\<close> and
  \<^verbatim>\<open>switch.S\<close>. A \<^verbatim>\<open>task_struct\<close> is a record in a heap indexed by its address;
  the address 0 is \<^verbatim>\<open>NULL\<close>. Trap frames have a heap of their own. The live registers
  are \<open>regs\<close>; a function that switches returns the state in which the CPU starts to run the
  next process at \<open>ctx_eip (regs s)\<close>, and \<open>resume\<close> is what that process does first. The
  interrupt flags that \<^verbatim>\<open>schedule\<close> and \<^verbatim>\<open>proc_run\<close> keep in locals on the stack of
  a suspended process are \<open>sched_flag\<close> and \<open>run_flag\<close>.
\<close>

section \<open>Data\<close>

datatype proc_state =
  TASK_UNINIT | TASK_SLEEPING | TASK_RUNNABLE | TASK_RUNNING | TASK_ZOMBIE

record cpu_context =
  ctx_eip :: u32
  ctx_esp :: u32
  ctx_ebx :: u32
  ctx_ecx :: u32
  ctx_edx :: u32
  ctx_esi :: u32
  ctx_edi :: u32
  ctx_ebp :: u32

definition zero_context :: cpu_context where
  "zero_context = \<lparr>ctx_eip = 0, ctx_esp = 0, ctx_ebx = 0, ctx_ecx = 0, ctx_edx = 0,
     ctx_esi = 0, ctx_edi = 0, ctx_ebp = 0\<rparr>"

record trap_regs =
  reg_edi :: u32
  reg_esi :: u32
  reg_ebp :: u32
  reg_unused :: u32
  reg_ebx :: u32
  reg_edx :: u32
  reg_ecx :: u32
  reg_eax :: u32

record trap_frame =
  tf_regs :: trap_regs
  tf_trapno :: u32
  tf_err :: u32
  tf_eip :: u32
  tf_cs :: u16
  tf_eflags :: u32
  tf_esp :: u32
  tf_ss :: u16

definition TRAP_FRAME_SIZE :: u32 where "TRAP_FRAME_SIZE = 60"

text \<open>The kernel has one \<^verbatim>\<open>mm_struct\<close>, \<^verbatim>\<open>init_mm\<close>.\<close>

datatype mm_ptr = MmNull | InitMm

record task =
  t_state :: proc_state
  t_pid :: u32
  t_kstack :: u32
  t_parent :: u32
  t_mm :: mm_ptr
  t_context :: cpu_context
  t_tf :: u32
  t_flags :: u32
  t_name :: string
  t_exit_code :: u32
  t_wait_state :: u32
  t_cptr :: u32
  t_yptr :: u32
  t_optr :: u32

record 'h sched = "'h shell" +
  tasks :: "u32 \<Rightarrow> task"
  tframes :: "u32 \<Rightarrow> trap_frame"
  idle_proc :: u32
  init_proc :: u32
  current :: u32
  nr_process :: u32
  next_pid :: u32
  regs :: cpu_context
  sched_flag :: "u32 \<Rightarrow> bool"
  run_flag :: "u32 \<Rightarrow> bool"

text \<open>Addresses chosen by the linker.\<close>

record symbols =
  sym_forkret :: u32
  sym_switch_ret :: u32
  sym_init_main :: u32
  sym_user_stack :: u32

definition upd_task :: "u32 \<Rightarrow> (task \<Rightarrow> task) \<Rightarrow> ('h, 'a) sched_scheme \<Rightarrow> ('h, 'a) sched_scheme" where
  "upd_task a f s = s\<lparr>tasks := (tasks s)(a := f (tasks s a))\<rparr>"

fun le2proc_list :: "lnode \<Rightarrow> u32" where
  "le2proc_list (ListLink a) = a"

fun le2proc_hash :: "lnode \<Rightarrow> u32" where
  "le2proc_hash (HashLink a) = a"

section \<open>Allocation of the parts of a process\<close>

definition HASH_SHIFT :: nat where "HASH_SHIFT = 10"

definition HASH_LIST_SIZE :: nat where "HASH_LIST_SIZE = 2 ^ HASH_SHIFT"

definition hash32 :: "u32 \<Rightarrow> nat \<Rightarrow> u32" where
  "hash32 val bits = drop_bit (32 - bits) (val * 0x61C88647)"

definition pid_hashfn :: "u32 \<Rightarrow> nat" where
  "pid_hashfn x = unat (hash32 x HASH_SHIFT)"

definition KSTACK_SIZE :: u32 where "KSTACK_SIZE = 4096"

definition get_current :: "('h, 'a) sched_scheme \<Rightarrow> u32" where
  "get_current s = current s"

definition proc_get_cr3 :: "u32 \<Rightarrow> ('h, 'a) sched_scheme \<Rightarrow> u32 res" where
  "proc_get_cr3 proc s =
     (if t_mm (tasks s proc) \<noteq> MmNull \<and> mm_pgdir s \<noteq> 0 then Inr (P_ADDR (mm_pgdir s))
      else Inl Assert_Failed)"

definition init_task :: "task \<Rightarrow> task" where
  "init_task t = t\<lparr>t_state := TASK_UNINIT, t_pid := -1, t_kstack := 0,
     t_parent := 0, t_mm := MmNull, t_context := zero_context, t_tf := 0, t_flags := 0,
     t_name := '''', t_wait_state := 0, t_cptr := 0, t_optr := 0, t_yptr := 0\<rparr>"

definition alloc_proc :: "('h, 'a) sched_scheme \<Rightarrow> (u32 \<times> ('h, 'a) sched_scheme) res" where
  "alloc_proc s =
     bindE (kmalloc 128 s) (\<lambda>(proc, s).
     if proc \<noteq> 0 then
       Inr (proc, upd_task proc init_task s)
     else Inr (0, s))"

definition setup_kstack :: "u32 \<Rightarrow> ('h, 'a) sched_scheme \<Rightarrow> (int \<times> ('h, 'a) sched_scheme) res" where
  "setup_kstack proc s =
     bindE (alloc_pages 1 s) (\<lambda>(page, s).
     case page of
       Some p \<Rightarrow> Inr (0, upd_task proc (\<lambda>t. t\<lparr>t_kstack := page2kva p\<rparr>) s)
     | None \<Rightarrow> Inr (-1, s))"

definition free_kstack :: "u32 \<Rightarrow> ('h, 'a) sched_scheme \<Rightarrow> (unit \<times> ('h, 'a) sched_scheme) res" where
  "free_kstack proc s = pages_free (kva2page (t_kstack (tasks s proc))) 1 s"

definition copy_mm :: "u32 \<Rightarrow> u32 \<Rightarrow> ('h, 'a) sched_scheme \<Rightarrow> (int \<times> ('h, 'a) sched_scheme) res" where
  "copy_mm clone_flags proc s =
     (if current s = 0 then Inl Null_Deref
      else if t_mm (tasks s (current s)) = InitMm
      then Inr (0, upd_task proc (\<lambda>t. t\<lparr>t_mm := InitMm\<rparr>) s)
      else Inr (0, upd_task proc (\<lambda>t. t\<lparr>t_mm := t_mm (tasks s (current s))\<rparr>) s))"

definition copy_thread :: "symbols \<Rightarrow> u32 \<Rightarrow> u32 \<Rightarrow> trap_frame \<Rightarrow> ('h, 'a) sched_scheme \<Rightarrow> ('h, 'a) sched_scheme" where
  "copy_thread syms proc esp tf s =
     (let ptf = t_kstack (tasks s proc) + KSTACK_SIZE - TRAP_FRAME_SIZE;
          s = upd_task proc (\<lambda>t. t\<lparr>t_tf := ptf\<rparr>) s;
          tf = tf\<lparr>tf_regs := (tf_regs tf)\<lparr>reg_eax := 0\<rparr>\<rparr>;
          tf = tf\<lparr>tf_esp := esp\<rparr>;
          tf = tf\<lparr>tf_eflags := tf_eflags tf OR 0x200\<rparr>;
          s = s\<lparr>tframes := (tframes s)(ptf := tf)\<rparr>
      in upd_task proc (\<lambda>t. t\<lparr>t_context := (t_context t)\<lparr>ctx_eip := sym_forkret syms, ctx_esp := ptf\<rparr>\<rparr>) s)"

definition get_pid :: "('h, 'a) sched_scheme \<Rightarrow> u32 \<times> ('h, 'a) sched_scheme" where
  "get_pid s = (next_pid s, s\<lparr>next_pid := next_pid s + 1\<rparr>)"

section \<open>The process tables\<close>

definition hash_proc :: "u32 \<Rightarrow> ('h, 'a) sched_scheme \<Rightarrow> ('h, 'a) sched_scheme" where
  "hash_proc proc s =
     upd_links (list_add (HashHead (pid_hashfn (t_pid (tasks s proc)))) (HashLink proc)) s"

definition unhash_proc :: "u32 \<Rightarrow> ('h, 'a) sched_scheme \<Rightarrow> ('h, 'a) sched_scheme" where
  "unhash_proc proc s = upd_links (list_del (HashLink proc)) s"

definition find_proc :: "u32 \<Rightarrow> ('h, 'a) sched_scheme \<Rightarrow> u32 res" where
  "find_proc pid s =
     (if sint pid \<le> 0 then Inr 0
      else
        let list = HashHead (pid_hashfn pid) in
        bindE (returns (list_scan (\<lambda>le. t_pid (tasks s (le2proc_hash le)) = pid) (links s) list list))
          (\<lambda>r. Inr (case r of Some le \<Rightarrow> le2proc_hash le | None \<Rightarrow> 0)))"

definition set_links :: "u32 \<Rightarrow> ('h, 'a) sched_scheme \<Rightarrow> (unit \<times> ('h, 'a) sched_scheme) res" where
  "set_links proc s =
     (let s = upd_links (list_add ProcHead (ListLink proc)) s;
          s = upd_task proc (\<lambda>t. t\<lparr>t_yptr := 0\<rparr>) s;
          parent = t_parent (tasks s proc)
      in if parent = 0 then Inl Null_Deref
         else
           let s = upd_task proc (\<lambda>t. t\<lparr>t_optr := t_cptr (tasks s parent)\<rparr>) s;
               optr = t_optr (tasks s proc);
               s = (if optr \<noteq> 0 then upd_task optr (\<lambda>t. t\<lparr>t_yptr := proc\<rparr>) s else s);
               s = upd_task parent (\<lambda>t. t\<lparr>t_cptr := proc\<rparr>) s
           in Inr ((), s\<lparr>nr_process := nr_process s + 1\<rparr>))"

definition remove_links :: "u32 \<Rightarrow> ('h, 'a) sched_scheme \<Rightarrow> (unit \<times> ('h, 'a) sched_scheme) res" where
  "remove_links proc s =
     (let s = upd_links (list_del (ListLink proc)) s;
          optr = t_optr (tasks s proc);
          s = (if optr \<noteq> 0 then upd_task optr (\<lambda>t. t\<lparr>t_yptr := t_yptr (tasks s proc)\<rparr>) s else s);
          yptr = t_yptr (tasks s proc)
      in if yptr \<noteq> 0 then
           let s = upd_task yptr (\<lambda>t. t\<lparr>t_optr := t_optr (tasks s proc)\<rparr>) s
           in Inr ((), s\<lparr>nr_process := nr_process s - 1\<rparr>)
         else if t_parent (tasks s proc) = 0 then Inl Null_Deref
         else
           let s = upd_task (t_parent (tasks s proc)) (\<lambda>t. t\<lparr>t_cptr := t_optr (tasks s proc)\<rparr>) s
           in Inr ((), s\<lparr>nr_process := nr_process s - 1\<rparr>))"

definition wakeup_proc :: "u32 \<Rightarrow> ('h, 'a) sched_scheme \<Rightarrow> (unit \<times> ('h, 'a) sched_scheme) res" where
  "wakeup_proc proc s =
     (if t_state (tasks s proc) = TASK_ZOMBIE then Inl Assert_Failed
      else if t_state (tasks s proc) \<noteq> TASK_RUNNABLE
      then Inr ((), upd_task proc (\<lambda>t. t\<lparr>t_state := TASK_RUNNABLE\<rparr>) s)
      else Inr ((), s))"

section \<open>Switching\<close>

definition lcr3 :: "u32 \<Rightarrow> 'a mach_scheme \<Rightarrow> 'a mach_scheme" where
  "lcr3 v s = s\<lparr>cr3 := v\<rparr>"

text \<open>
  The live registers, with the return address as \<^verbatim>\<open>eip\<close>, go to the old context; the new
  context becomes live.
\<close>

definition switch_to :: "symbols \<Rightarrow> u32 \<Rightarrow> u32 \<Rightarrow> ('h, 'a) sched_scheme \<Rightarrow> ('h, 'a) sched_scheme" where
  "switch_to syms prev next s =
     (let s = upd_task prev (\<lambda>t. t\<lparr>t_context := (regs s)\<lparr>ctx_eip := sym_switch_ret syms\<rparr>\<rparr>) s
      in s\<lparr>regs := t_context (tasks s next)\<rparr>)"

definition proc_run :: "symbols \<Rightarrow> u32 \<Rightarrow> ('h, 'a) sched_scheme \<Rightarrow> (unit \<times> ('h, 'a) sched_scheme) res" where
  "proc_run syms proc s =
     (if proc \<noteq> current s then
        if proc = 0 then Inl Null_Deref
        else
          let (flag, s) = intr_save s;
              prev = current s;
              next = proc;
              s = s\<lparr>current := next\<rparr>;
              s = upd_task next (\<lambda>t. t\<lparr>t_state := TASK_RUNNING\<rparr>) s
          in bindE (proc_get_cr3 next s) (\<lambda>next_cr3.
             bindE (proc_get_cr3 prev s) (\<lambda>prev_cr3.
               let s = (if next_cr3 \<noteq> prev_cr3 then lcr3 next_cr3 s else s);
                   s = s\<lparr>run_flag := (run_flag s)(prev := flag)\<rparr>
               in Inr ((), switch_to syms prev next s)))
      else Inr ((), s))"

text \<open>The first step of \<^verbatim>\<open>schedule\<close>: a running caller becomes runnable.\<close>

definition demote :: "('h, 'a) sched_scheme \<Rightarrow> ('h, 'a) sched_scheme" where
  "demote s = (if t_state (tasks s (current s)) = TASK_RUNNING
     then upd_task (current s) (\<lambda>t. t\<lparr>t_state := TASK_RUNNABLE\<rparr>) s else s)"

definition schedule :: "symbols \<Rightarrow> ('h, 'a) sched_scheme \<Rightarrow> (unit \<times> ('h, 'a) sched_scheme) res" where
  "schedule syms s =
     (let (flag, s) = intr_save s in
      if current s = 0 then Inl Null_Deref
      else
        let s = demote s
        in bindE (returns (list_scan (\<lambda>le. t_state (tasks s (le2proc_list le)) = TASK_RUNNABLE)
                    (links s) ProcHead ProcHead)) (\<lambda>r.
           let next = (case r of Some le \<Rightarrow> le2proc_list le | None \<Rightarrow> idle_proc s) in
           if next \<noteq> current s
           then proc_run syms next (s\<lparr>sched_flag := (sched_flag s)(current s := flag)\<rparr>)
           else Inr ((), intr_restore flag s)))"

text \<open>
  How the process that was switched to goes on: back in \<^verbatim>\<open>proc_run\<close> and
  \<^verbatim>\<open>schedule\<close>, or, for a new process, through \<^verbatim>\<open>forkret\<close>, which loads the
  registers from the trap frame and executes \<^verbatim>\<open>iret\<close>.
\<close>

definition FL_IF :: u32 where "FL_IF = 0x200"

definition forkret :: "('h, 'a) sched_scheme \<Rightarrow> ('h, 'a) sched_scheme" where
  "forkret s =
     (let esp = ctx_esp (regs s);
          tf = tframes s esp;
          r = tf_regs tf;
          esp' = (if tf_cs tf AND 3 = 0 then esp + 52 else tf_esp tf)
      in s\<lparr>regs := \<lparr>ctx_eip = tf_eip tf, ctx_esp = esp', ctx_ebx = reg_ebx r, ctx_ecx = reg_ecx r,
            ctx_edx = reg_edx r, ctx_esi = reg_esi r, ctx_edi = reg_edi r, ctx_ebp = reg_ebp r\<rparr>,
          if_flag := (tf_eflags tf AND FL_IF \<noteq> 0)\<rparr>)"

definition resume :: "symbols \<Rightarrow> ('h, 'a) sched_scheme \<Rightarrow> ('h, 'a) sched_scheme" where
  "resume syms s =
     (if ctx_eip (regs s) = sym_switch_ret syms
      then intr_restore (sched_flag s (current s)) (intr_restore (run_flag s (current s)) s)
      else if ctx_eip (regs s) = sym_forkret syms then forkret s
      else s)"

section \<open>Fork and exit\<close>

definition do_fork ::
  "symbols \<Rightarrow> u32 \<Rightarrow> u32 \<Rightarrow> trap_frame \<Rightarrow> ('h, 'a) sched_scheme \<Rightarrow> (u32 \<times> ('h, 'a) sched_scheme) res" where
  "do_fork syms clone_flags stack tf s =
     bindE (alloc_proc s) (\<lambda>(proc, s).
     if proc = 0 then Inl Null_Deref
     else
       let s = upd_task proc (\<lambda>t. t\<lparr>t_parent := current s\<rparr>) s in
       bindE (setup_kstack proc s) (\<lambda>(_, s).
       bindE (copy_mm clone_flags proc s) (\<lambda>(_, s).
         let s = copy_thread syms proc stack tf s;
             (flag, s) = intr_save s;
             (pid, s) = get_pid s;
             s = upd_task proc (\<lambda>t. t\<lparr>t_pid := pid\<rparr>) s;
             s = hash_proc proc s
         in bindE (set_links proc s) (\<lambda>(_, s).
            let s = intr_restore flag s in
            bindE (wakeup_proc proc s) (\<lambda>(_, s).
            Inr (t_pid (tasks s proc), s))))))"

text \<open>
  The loop of \<^verbatim>\<open>do_exit\<close> that gives the children to init: moving the first child, and
  the loop around it.
\<close>

definition reparent_step :: "('h, 'a) sched_scheme \<Rightarrow> ('h, 'a) sched_scheme" where
  "reparent_step s =
     (let proc = t_cptr (tasks s (current s)); init = init_proc s;
          s = upd_task (current s) (\<lambda>t. t\<lparr>t_cptr := t_optr (tasks s proc)\<rparr>) s;
          s = upd_task proc (\<lambda>t. t\<lparr>t_yptr := 0\<rparr>) s;
          s = upd_task proc (\<lambda>t. t\<lparr>t_optr := t_cptr (tasks s init)\<rparr>) s;
          s = (if t_optr (tasks s proc) \<noteq> 0
               then upd_task (t_cptr (tasks s init)) (\<lambda>t. t\<lparr>t_yptr := proc\<rparr>) s else s);
          s = upd_task proc (\<lambda>t. t\<lparr>t_parent := init\<rparr>) s
      in upd_task init (\<lambda>t. t\<lparr>t_cptr := proc\<rparr>) s)"

partial_function (option) reparent_loop :: "('h, 'a) sched_scheme \<Rightarrow> (unit \<times> ('h, 'a) sched_scheme) res option" where
  "reparent_loop s =
     (let proc = t_cptr (tasks s (current s)) in
      if proc = 0 then Some (Inr ((), s))
      else
        let s = reparent_step s in
        if t_state (tasks s proc) = TASK_ZOMBIE \<and> t_wait_state (tasks s (init_proc s)) \<noteq> 0
        then (case wakeup_proc (init_proc s) s of Inl e \<Rightarrow> Some (Inl e) | Inr (_, s) \<Rightarrow> reparent_loop s)
        else reparent_loop s)"

text \<open>
  \<^verbatim>\<open>do_exit\<close> never returns: control goes to the process \<^verbatim>\<open>schedule\<close> switched to, or,
  when there was no switch, on to \<^verbatim>\<open>panic\<close>.
\<close>

definition do_exit :: "symbols \<Rightarrow> u32 \<Rightarrow> ('h, 'a) sched_scheme \<Rightarrow> (unit \<times> ('h, 'a) sched_scheme) res" where
  "do_exit syms error_code s =
     (let me = current s;
          s = upd_task me (\<lambda>t. t\<lparr>t_state := TASK_ZOMBIE\<rparr>) s;
          s = upd_task me (\<lambda>t. t\<lparr>t_exit_code := error_code\<rparr>) s;
          (flag, s) = intr_save s;
          parent = t_parent (tasks s me)
      in bindE (if parent \<noteq> 0 \<and> t_wait_state (tasks s parent) \<noteq> 0
                then wakeup_proc parent s else Inr ((), s)) (\<lambda>(_, s).
         bindE (if init_proc s \<noteq> 0
                then bindE (returns (reparent_loop s)) (\<lambda>r. r) else Inr ((), s)) (\<lambda>(_, s).
           let s = intr_restore flag s in
           bindE (schedule syms s) (\<lambda>(_, s).
             if current s = me then Inl Panicked else Inr ((), s)))))"

section \<open>Initialisation\<close>

definition idle_init :: "symbols \<Rightarrow> ('h, 'a) sched_scheme \<Rightarrow> (unit \<times> ('h, 'a) sched_scheme) res" where
  "idle_init syms s =
     bindE (alloc_proc s) (\<lambda>(proc, s).
       let s = s\<lparr>idle_proc := proc\<rparr> in
       if proc = 0 then Inl Null_Deref
       else
         let s = upd_task proc (\<lambda>t. t\<lparr>t_pid := 0\<rparr>) s;
             s = upd_task proc (\<lambda>t. t\<lparr>t_state := TASK_RUNNABLE\<rparr>) s;
             s = upd_task proc (\<lambda>t. t\<lparr>t_kstack := sym_user_stack syms\<rparr>) s;
             s = upd_task proc (\<lambda>t. t\<lparr>t_mm := InitMm\<rparr>) s;
             s = upd_task proc (\<lambda>t. t\<lparr>t_name := ''idle''\<rparr>) s;
             s = s\<lparr>nr_process := nr_process s + 1\<rparr>;
             s = s\<lparr>current := proc\<rparr>;
             s = hash_proc proc s
         in Inr ((), upd_links (list_add ProcHead (ListLink proc)) s))"

definition KERNEL_CS :: u16 where "KERNEL_CS = 8"

definition init_frame :: "symbols \<Rightarrow> trap_frame" where
  "init_frame syms =
     \<lparr>tf_regs = \<lparr>reg_edi = 0, reg_esi = 0, reg_ebp = 0, reg_unused = 0, reg_ebx = 0, reg_edx = 0,
        reg_ecx = 0, reg_eax = 0\<rparr>,
      tf_trapno = 0, tf_err = 0, tf_eip = sym_init_main syms, tf_cs = KERNEL_CS,
      tf_eflags = FL_IF, tf_esp = 0, tf_ss = 0\<rparr>"

definition init_proc_init :: "symbols \<Rightarrow> ('h, 'a) sched_scheme \<Rightarrow> (u32 \<times> ('h, 'a) sched_scheme) res" where
  "init_proc_init syms s =
     bindE (do_fork syms 0 0 (init_frame syms) s) (\<lambda>(ret, s).
     bindE (find_proc ret s) (\<lambda>proc.
       let s = s\<lparr>init_proc := proc\<rparr> in
       if proc = 0 then Inl Null_Deref
       else Inr (ret, upd_task proc (\<lambda>t. t\<lparr>t_name := ''init''\<rparr>) s)))"

fun hash_init :: "nat \<Rightarrow> nat \<Rightarrow> 'a pmm_scheme \<Rightarrow> 'a pmm_scheme" where
  "hash_init i 0 s = s"
| "hash_init i (Suc k) s = hash_init (Suc i) k (upd_links (list_init (HashHead i)) s)"

definition sched_init :: "symbols \<Rightarrow> ('h, 'a) sched_scheme \<Rightarrow> (unit \<times> ('h, 'a) sched_scheme) res" where
  "sched_init syms s =
     (let s = upd_links (list_init ProcHead) s;
          s = hash_init 0 HASH_LIST_SIZE s
      in bindE (idle_init syms s) (\<lambda>(_, s).
         bindE (init_proc_init syms s) (\<lambda>(_, s). Inr ((), s))))"

fun state_str :: "proc_state \<Rightarrow> string" where
  "state_str TASK_UNINIT = ''U''"
| "state_str TASK_SLEEPING = ''S''"
| "state_str TASK_RUNNABLE = ''R''"
| "state_str TASK_RUNNING = ''R+''"
| "state_str TASK_ZOMBIE = ''Z''"

end
