(* ===== verification/Sched_Inv.thy ===== *)
theory Sched_Inv
  imports Sched Mapping_Laws
begin

text \<open>
  The well-formedness of the process tables and that looking up, scheduling and waking up keep
  it. \<open>ps\<close> lists the processes in the order of \<^verbatim>\<open>proc_list\<close>, \<open>H\<close> the hash chains.
\<close>

section \<open>State components\<close>

named_theorems sched_simps \<open>updates of the scheduler state read back\<close>

lemma upd_task_simps [sched_simps]:
  "tasks (upd_task a f s) = (tasks s)(a := f (tasks s a))"
  "links (upd_task a f s) = links s" "pages (upd_task a f s) = pages s"
  "npage (upd_task a f s) = npage s" "nr_free (upd_task a f s) = nr_free s"
  "mem (upd_task a f s) = mem s" "cr2 (upd_task a f s) = cr2 s" "cr3 (upd_task a f s) = cr3 s"
  "if_flag (upd_task a f s) = if_flag s" "mm_pgdir (upd_task a f s) = mm_pgdir s"
  "current (upd_task a f s) = current s" "idle_proc (upd_task a f s) = idle_proc s"
  "init_proc (upd_task a f s) = init_proc s" "nr_process (upd_task a f s) = nr_process s"
  "next_pid (upd_task a f s) = next_pid s" "regs (upd_task a f s) = regs s"
  "tframes (upd_task a f s) = tframes s" "sched_flag (upd_task a f s) = sched_flag s"
  "run_flag (upd_task a f s) = run_flag s"
  by (simp_all add: upd_task_def)

lemma upd_links_sched [sched_simps]:
  "tasks (upd_links f s) = tasks s" "mm_pgdir (upd_links f s) = mm_pgdir s"
  "current (upd_links f s) = current s" "idle_proc (upd_links f s) = idle_proc s"
  "init_proc (upd_links f s) = init_proc s" "nr_process (upd_links f s) = nr_process s"
  "next_pid (upd_links f s) = next_pid s" "regs (upd_links f s) = regs s"
  "tframes (upd_links f s) = tframes s" "sched_flag (upd_links f s) = sched_flag s"
  "run_flag (upd_links f s) = run_flag s"
  by (simp_all add: upd_links_def)

lemma intr_sched [sched_simps]:
  "tasks (intr_restore b s) = tasks s" "mm_pgdir (intr_restore b s) = mm_pgdir s"
  "current (intr_restore b s) = current s" "idle_proc (intr_restore b s) = idle_proc s"
  "init_proc (intr_restore b s) = init_proc s" "nr_process (intr_restore b s) = nr_process s"
  "next_pid (intr_restore b s) = next_pid s" "regs (intr_restore b s) = regs s"
  "tframes (intr_restore b s) = tframes s" "sched_flag (intr_restore b s) = sched_flag s"
  "run_flag (intr_restore b s) = run_flag s" "cr3 (intr_restore b s) = cr3 s"
  "mem (intr_restore b s) = mem s" "if_flag (intr_restore b s) = (b \<or> if_flag s)"
  by (simp_all add: intr_restore_def intr_enable_def)

lemma intr_save_eq [sched_simps]: "intr_save s = (if_flag s, s\<lparr>if_flag := False\<rparr>)"
  by (simp add: intr_save_def intr_disable_def)

lemma ff_inv_task [simp]: "ff_inv (upd_task a f s) = ff_inv s"
  by (simp add: ff_inv_def block_ok_def fun_eq_iff upd_task_def)

lemma ff_task [simp]: "ff_ok (upd_task a f s) = ff_ok s" "ff_avail (upd_task a f s) = ff_avail s"
  by (simp_all only: ff_ok_def ff_avail_def ff_inv_task)

section \<open>The invariant\<close>

definition proc_lists :: "('h, 'a) sched_scheme \<Rightarrow> u32 list \<Rightarrow> (nat \<Rightarrow> u32 list) \<Rightarrow> bool" where
  "proc_lists s ps H \<longleftrightarrow>
     clist (links s) ProcHead (map ListLink ps) \<and>
     (\<forall>h < HASH_LIST_SIZE. clist (links s) (HashHead h) (map HashLink (H h)) \<and>
        set (H h) = {a \<in> set ps. pid_hashfn (t_pid (tasks s a)) = h})"

definition pids_ok :: "('h, 'a) sched_scheme \<Rightarrow> u32 list \<Rightarrow> bool" where
  "pids_ok s ps \<longleftrightarrow> inj_on (\<lambda>a. t_pid (tasks s a)) (set ps) \<and>
     (\<forall>a \<in> set ps. t_pid (tasks s a) < next_pid s) \<and> nr_process s = of_nat (length ps)"

text \<open>Every process has its descriptor in a frame of its own that is not free.\<close>

definition proc_frames :: "('h, 'a) sched_scheme \<Rightarrow> u32 list \<Rightarrow> bool" where
  "proc_frames s ps \<longleftrightarrow> ff_ok s \<and> unat (npage s) \<le> KFRAMES \<and>
     (\<forall>a \<in> set ps. \<exists>p < unat (npage s). a = page2kva p \<and> p \<notin> ff_avail s)"

definition procs_live :: "('h, 'a) sched_scheme \<Rightarrow> u32 list \<Rightarrow> bool" where
  "procs_live s ps \<longleftrightarrow> current s \<in> set ps \<and> idle_proc s \<in> set ps \<and> mm_pgdir s \<noteq> 0 \<and>
     (\<forall>a \<in> set ps. t_mm (tasks s a) = InitMm)"

definition only_current_runs :: "('h, 'a) sched_scheme \<Rightarrow> u32 list \<Rightarrow> bool" where
  "only_current_runs s ps \<longleftrightarrow>
     (\<forall>a \<in> set ps. t_state (tasks s a) = TASK_RUNNING \<longrightarrow> a = current s)"

definition sched_inv :: "('h, 'a) sched_scheme \<Rightarrow> u32 list \<Rightarrow> (nat \<Rightarrow> u32 list) \<Rightarrow> bool" where
  "sched_inv s ps H \<longleftrightarrow> proc_lists s ps H \<and> pids_ok s ps \<and> proc_frames s ps \<and>
     procs_live s ps \<and> only_current_runs s ps"

lemmas sched_inv_parts = proc_lists_def pids_ok_def proc_frames_def procs_live_def only_current_runs_def

lemma proc_nonzero:
  assumes "proc_frames s ps" "a \<in> set ps"
  shows "a \<noteq> 0"
proof -
  obtain p where "p < unat (npage s)" "a = page2kva p" "unat (npage s) \<le> KFRAMES"
    using assms by (auto simp: proc_frames_def)
  then show ?thesis using page2kva_nonzero [of p] by simp
qed

section \<open>Searching\<close>

lemma pid_hashfn_less: "pid_hashfn x < HASH_LIST_SIZE"
proof -
  have "unat (drop_bit 22 (x * 0x61C88647)) < 1024"
    using unat_u32_less [of "x * 0x61C88647"] by (simp add: drop_bit_eq_div unat_div div_less_iff_less_mult)
  then show ?thesis by (simp add: pid_hashfn_def hash32_def HASH_SHIFT_def HASH_LIST_SIZE_def)
qed

lemma find_map_ListLink:
  "List.find (\<lambda>le. P (le2proc_list le)) (map ListLink ps) = map_option ListLink (List.find P ps)"
  by (induction ps) simp_all

lemma find_map_HashLink:
  "List.find (\<lambda>le. P (le2proc_hash le)) (map HashLink ps) = map_option HashLink (List.find P ps)"
  by (induction ps) simp_all

lemma proc_scan:
  "clist (links s) ProcHead (map ListLink ps) \<Longrightarrow>
   list_scan (\<lambda>le. P (le2proc_list le)) (links s) ProcHead ProcHead =
     Some (map_option ListLink (List.find P ps))"
  by (simp add: list_scan_find find_map_ListLink)

lemma find_proc_eq:
  assumes "proc_lists s ps H" and "0 < sint pid"
  shows "find_proc pid s = Inr (case List.find (\<lambda>a. t_pid (tasks s a) = pid) (H (pid_hashfn pid)) of
    Some a \<Rightarrow> a | None \<Rightarrow> 0)"
proof -
  have "clist (links s) (HashHead (pid_hashfn pid)) (map HashLink (H (pid_hashfn pid)))"
    using assms(1) pid_hashfn_less by (simp add: proc_lists_def)
  then have "list_scan (\<lambda>le. t_pid (tasks s (le2proc_hash le)) = pid) (links s)
      (HashHead (pid_hashfn pid)) (HashHead (pid_hashfn pid)) =
    Some (map_option HashLink (List.find (\<lambda>a. t_pid (tasks s a) = pid) (H (pid_hashfn pid))))"
    by (simp add: list_scan_find find_map_HashLink [of "\<lambda>a. t_pid (tasks s a) = pid"])
  then show ?thesis using assms(2) by (simp add: find_proc_def Let_def split: option.splits)
qed

lemma find_proc_member:
  assumes "proc_lists s ps H" "inj_on (\<lambda>a. t_pid (tasks s a)) (set ps)"
    and "0 < sint pid" "a \<in> set ps" "t_pid (tasks s a) = pid"
  shows "find_proc pid s = Inr a"
proof -
  have "set (H (pid_hashfn pid)) = {b \<in> set ps. pid_hashfn (t_pid (tasks s b)) = pid_hashfn pid}"
    using assms(1) pid_hashfn_less by (simp add: proc_lists_def)
  then have in_chain: "a \<in> set (H (pid_hashfn pid))" and sub: "set (H (pid_hashfn pid)) \<subseteq> set ps"
    using assms(4,5) by auto
  then have "List.find (\<lambda>b. t_pid (tasks s b) = pid) (H (pid_hashfn pid)) \<noteq> None"
    using assms(5) by (auto simp: find_None_iff)
  then obtain b where b: "List.find (\<lambda>b. t_pid (tasks s b) = pid) (H (pid_hashfn pid)) = Some b"
    by auto
  then have "b \<in> set ps" "t_pid (tasks s b) = pid"
    using sub by (auto simp: find_Some_iff)
  then have "b = a" using assms(2,4,5) by (auto dest: inj_onD)
  then show ?thesis using find_proc_eq [OF assms(1,3)] b by simp
qed

lemma find_proc_none:
  assumes "proc_lists s ps H" "0 < sint pid" "\<forall>a \<in> set ps. t_pid (tasks s a) \<noteq> pid"
  shows "find_proc pid s = Inr 0"
proof -
  have "set (H (pid_hashfn pid)) = {b \<in> set ps. pid_hashfn (t_pid (tasks s b)) = pid_hashfn pid}"
    using assms(1) pid_hashfn_less by (simp add: proc_lists_def)
  then have "List.find (\<lambda>b. t_pid (tasks s b) = pid) (H (pid_hashfn pid)) = None"
    using assms(3) by (auto simp: find_None_iff)
  then show ?thesis using find_proc_eq [OF assms(1,2)] by simp
qed

section \<open>\<^verbatim>\<open>proc_run\<close>, \<^verbatim>\<open>schedule\<close> and \<^verbatim>\<open>resume\<close>\<close>

text \<open>The fields that scheduling leaves alone.\<close>

definition same_family :: "('h, 'a) sched_scheme \<Rightarrow> ('h, 'a) sched_scheme \<Rightarrow> bool" where
  "same_family s s' \<longleftrightarrow> (\<forall>a.
     t_parent (tasks s' a) = t_parent (tasks s a) \<and> t_cptr (tasks s' a) = t_cptr (tasks s a) \<and>
     t_optr (tasks s' a) = t_optr (tasks s a) \<and> t_yptr (tasks s' a) = t_yptr (tasks s a) \<and>
     t_exit_code (tasks s' a) = t_exit_code (tasks s a) \<and>
     t_wait_state (tasks s' a) = t_wait_state (tasks s a))"

text \<open>The process \<^verbatim>\<open>schedule\<close> picks: the first runnable one, the caller counted as such.\<close>

definition pick_next :: "('h, 'a) sched_scheme \<Rightarrow> u32 list \<Rightarrow> u32" where
  "pick_next s ps = (case List.find (\<lambda>a. t_state (tasks (demote s) a) = TASK_RUNNABLE) ps of
     Some a \<Rightarrow> a | None \<Rightarrow> idle_proc s)"

lemma proc_get_cr3_live:
  "procs_live s ps \<Longrightarrow> a \<in> set ps \<Longrightarrow> proc_get_cr3 a s = Inr (P_ADDR (mm_pgdir s))"
  by (simp add: proc_get_cr3_def procs_live_def)

text \<open>The state a switch from \<open>prev\<close> to \<open>next\<close> leaves, as all processes share one directory.\<close>

definition switched :: "symbols \<Rightarrow> u32 \<Rightarrow> u32 \<Rightarrow> ('h, 'a) sched_scheme \<Rightarrow> ('h, 'a) sched_scheme" where
  "switched syms prev next s =
     switch_to syms prev next
       ((upd_task next (\<lambda>t. t\<lparr>t_state := TASK_RUNNING\<rparr>)
         (s\<lparr>if_flag := False, current := next\<rparr>))\<lparr>run_flag := (run_flag s)(prev := if_flag s)\<rparr>)"

lemma proc_run_switches:
  assumes live: "procs_live s ps" and a: "a \<in> set ps" "a \<noteq> 0" "a \<noteq> current s"
  shows "proc_run syms a s = Inr ((), switched syms (current s) a s)"
proof -
  let ?s = "upd_task a (\<lambda>t. t\<lparr>t_state := TASK_RUNNING\<rparr>) (s\<lparr>if_flag := False, current := a\<rparr>)"
  have "procs_live ?s ps" using live a by (auto simp: procs_live_def sched_simps)
  moreover have "current s \<in> set ps" using live by (simp add: procs_live_def)
  ultimately have "proc_get_cr3 a ?s = Inr (P_ADDR (mm_pgdir s))"
    "proc_get_cr3 (current s) ?s = Inr (P_ADDR (mm_pgdir s))"
    using proc_get_cr3_live [of ?s ps] a by (simp_all add: sched_simps)
  then show ?thesis
    using a by (simp add: proc_run_def sched_simps Let_def switched_def)
qed

lemma demote_simps [sched_simps]:
  "links (demote s) = links s" "pages (demote s) = pages s" "npage (demote s) = npage s"
  "nr_free (demote s) = nr_free s" "mem (demote s) = mem s" "cr3 (demote s) = cr3 s"
  "if_flag (demote s) = if_flag s" "mm_pgdir (demote s) = mm_pgdir s"
  "current (demote s) = current s" "idle_proc (demote s) = idle_proc s"
  "init_proc (demote s) = init_proc s" "nr_process (demote s) = nr_process s"
  "next_pid (demote s) = next_pid s" "regs (demote s) = regs s" "tframes (demote s) = tframes s"
  "sched_flag (demote s) = sched_flag s" "run_flag (demote s) = run_flag s"
  by (simp_all add: demote_def sched_simps)

lemma demote_task [sched_simps]:
  "t_pid (tasks (demote s) a) = t_pid (tasks s a)" "t_mm (tasks (demote s) a) = t_mm (tasks s a)"
  "t_context (tasks (demote s) a) = t_context (tasks s a)"
  "t_state (tasks (demote s) a) =
     (if a = current s \<and> t_state (tasks s a) = TASK_RUNNING then TASK_RUNNABLE
      else t_state (tasks s a))"
  by (auto simp: demote_def sched_simps)

lemma switched_simps [sched_simps]:
  "links (switched y p n s) = links s" "pages (switched y p n s) = pages s"
  "npage (switched y p n s) = npage s" "nr_free (switched y p n s) = nr_free s"
  "mem (switched y p n s) = mem s" "cr3 (switched y p n s) = cr3 s"
  "\<not> if_flag (switched y p n s)" "mm_pgdir (switched y p n s) = mm_pgdir s"
  "current (switched y p n s) = n" "idle_proc (switched y p n s) = idle_proc s"
  "init_proc (switched y p n s) = init_proc s" "nr_process (switched y p n s) = nr_process s"
  "next_pid (switched y p n s) = next_pid s" "tframes (switched y p n s) = tframes s"
  "sched_flag (switched y p n s) = sched_flag s"
  "run_flag (switched y p n s) = (run_flag s)(p := if_flag s)"
  by (simp_all add: switched_def switch_to_def sched_simps Let_def)

lemma switched_task [sched_simps]:
  "t_pid (tasks (switched y p n s) a) = t_pid (tasks s a)"
  "t_mm (tasks (switched y p n s) a) = t_mm (tasks s a)"
  "t_state (tasks (switched y p n s) a) = (if a = n then TASK_RUNNING else t_state (tasks s a))"
  "t_context (tasks (switched y p n s) a) =
     (if a = p then (regs s)\<lparr>ctx_eip := sym_switch_ret y\<rparr> else t_context (tasks s a))"
  by (simp_all add: switched_def switch_to_def sched_simps Let_def)

lemma switched_regs [sched_simps]:
  "p \<noteq> n \<Longrightarrow> regs (switched y p n s) = t_context (tasks s n)"
  by (simp add: switched_def switch_to_def sched_simps Let_def)

text \<open>What keeps the invariant: the same lists and frames, the same pids and directories.\<close>

lemma sched_inv_same:
  assumes inv: "sched_inv s ps H"
    and eq: "links s' = links s" "pages s' = pages s" "npage s' = npage s" "nr_free s' = nr_free s"
    "mm_pgdir s' = mm_pgdir s" "idle_proc s' = idle_proc s" "nr_process s' = nr_process s"
    "next_pid s' = next_pid s"
    and t: "\<And>a. a \<in> set ps \<Longrightarrow> t_pid (tasks s' a) = t_pid (tasks s a)"
    "\<And>a. a \<in> set ps \<Longrightarrow> t_mm (tasks s' a) = t_mm (tasks s a)"
    and cur: "current s' \<in> set ps" "only_current_runs s' ps"
  shows "sched_inv s' ps H"
proof -
  have ff: "ff_ok s' = ff_ok s" "ff_avail s' = ff_avail s"
    using ff_inv_same [OF eq(1-4)] by (simp_all add: ff_ok_def ff_avail_def)
  have "{a \<in> set ps. pid_hashfn (t_pid (tasks s' a)) = h} = {a \<in> set ps. pid_hashfn (t_pid (tasks s a)) = h}" for h
    using t(1) by auto
  then have "proc_lists s' ps H" using inv eq(1) by (simp add: sched_inv_def proc_lists_def)
  moreover have "pids_ok s' ps"
    using inv eq t(1) by (simp add: sched_inv_def pids_ok_def inj_on_def)
  moreover have "proc_frames s' ps" using inv eq ff by (simp add: sched_inv_def proc_frames_def)
  moreover have "procs_live s' ps" using inv eq t(2) cur(1) by (simp add: sched_inv_def procs_live_def)
  ultimately show ?thesis using cur(2) by (simp add: sched_inv_def)
qed

lemma pick_next_in:
  assumes "sched_inv s ps H"
  shows "pick_next s ps \<in> set ps"
  using assms
  by (auto simp: pick_next_def sched_inv_def procs_live_def find_Some_iff split: option.splits)

lemma intr_restore_cleared: "intr_restore (if_flag s) (s\<lparr>if_flag := False\<rparr>) = s"
  by (cases s) (simp add: intr_restore_def intr_enable_def)

lemma demote_flag: "demote (s\<lparr>if_flag := b\<rparr>) = (demote s)\<lparr>if_flag := b\<rparr>"
  by (simp add: demote_def upd_task_def)

lemma schedule_eq:
  assumes inv: "sched_inv s ps H"
  shows "schedule syms s =
    (if pick_next s ps = current s then Inr ((), demote s)
     else Inr ((), switched syms (current s) (pick_next s ps)
       ((demote s)\<lparr>if_flag := False, sched_flag := (sched_flag s)(current s := if_flag s)\<rparr>)))"
proof -
  let ?d = "(demote s)\<lparr>if_flag := False\<rparr>"
  let ?n = "pick_next s ps"
  have parts: "proc_lists s ps H" "procs_live s ps" "proc_frames s ps"
    using inv by (simp_all add: sched_inv_def)
  have cur: "current s \<noteq> 0" using parts proc_nonzero by (auto simp: procs_live_def)
  have n: "?n \<in> set ps" "?n \<noteq> 0" using pick_next_in [OF inv] proc_nonzero [OF parts(3)] by auto
  have "clist (links ?d) ProcHead (map ListLink ps)"
    using parts(1) by (simp add: proc_lists_def sched_simps)
  note sc = proc_scan [OF this, of "\<lambda>a. t_state (tasks ?d a) = TASK_RUNNABLE"]
  have un: "schedule syms s =
    bindE (returns (list_scan (\<lambda>le. t_state (tasks ?d (le2proc_list le)) = TASK_RUNNABLE)
      (links ?d) ProcHead ProcHead)) (\<lambda>r.
    let next = (case r of Some le \<Rightarrow> le2proc_list le | None \<Rightarrow> idle_proc ?d) in
    if next \<noteq> current ?d
    then proc_run syms next (?d\<lparr>sched_flag := (sched_flag ?d)(current ?d := if_flag s)\<rparr>)
    else Inr ((), intr_restore (if_flag s) ?d))"
    unfolding schedule_def intr_save_eq demote_flag [symmetric] Let_def prod.case
    using cur by simp
  have nx: "(case map_option ListLink (List.find (\<lambda>a. t_state (tasks ?d a) = TASK_RUNNABLE) ps) of
      Some le \<Rightarrow> le2proc_list le | None \<Rightarrow> idle_proc ?d) = ?n"
    by (cases "List.find (\<lambda>a. t_state (tasks (demote s) a) = TASK_RUNNABLE) ps")
      (simp_all add: pick_next_def demote_simps del: demote_task)
  have sch: "schedule syms s =
    (if ?n \<noteq> current s
     then proc_run syms ?n (?d\<lparr>sched_flag := (sched_flag s)(current s := if_flag s)\<rparr>)
     else Inr ((), intr_restore (if_flag s) ?d))"
    unfolding un sc returns_simps bindE_Inr Let_def nx by (simp add: demote_simps)
  have "intr_restore (if_flag s) ?d = demote s"
    using intr_restore_cleared [of "demote s"] by (simp add: demote_simps)
  moreover have "procs_live (?d\<lparr>sched_flag := (sched_flag s)(current s := if_flag s)\<rparr>) ps"
    using parts(2) by (simp add: procs_live_def sched_simps)
  ultimately show ?thesis
    using sch proc_run_switches [of "?d\<lparr>sched_flag := (sched_flag s)(current s := if_flag s)\<rparr>" ps ?n syms] n
    by (simp add: sched_simps)
qed

text \<open>Scheduling keeps the invariant, and exactly the chosen process is running afterwards.\<close>

lemma demote_inv:
  assumes "sched_inv s ps H"
  shows "sched_inv (demote s) ps H"
proof (rule sched_inv_same [OF assms])
  show "current (demote s) \<in> set ps"
    using assms by (simp add: sched_inv_def procs_live_def sched_simps)
  show "only_current_runs (demote s) ps"
    using assms by (auto simp: sched_inv_def only_current_runs_def sched_simps)
qed (simp_all add: sched_simps)

lemma demote_none_runs:
  "sched_inv s ps H \<Longrightarrow> a \<in> set ps \<Longrightarrow> t_state (tasks (demote s) a) \<noteq> TASK_RUNNING"
  by (auto simp: sched_inv_def only_current_runs_def sched_simps)

lemma demote_family: "same_family s (demote s)"
  by (simp add: same_family_def demote_def sched_simps)

lemma switched_family:
  "same_family s (switched y p n ((demote s)\<lparr>if_flag := b, sched_flag := f\<rparr>))"
  by (simp add: same_family_def switched_def switch_to_def sched_simps Let_def demote_def)

lemma schedule_inv:
  assumes inv: "sched_inv s ps H"
  obtains s' where "schedule syms s = Inr ((), s')" "sched_inv s' ps H"
    "current s' = pick_next s ps" "links s' = links s"
    "\<And>a. t_state (tasks s' a) =
       (if a = pick_next s ps \<and> a \<noteq> current s then TASK_RUNNING else t_state (tasks (demote s) a))"
    "same_family s s'" "init_proc s' = init_proc s"
proof -
  let ?n = "pick_next s ps"
  let ?e = "(demote s)\<lparr>if_flag := False, sched_flag := (sched_flag s)(current s := if_flag s)\<rparr>"
  note n = pick_next_in [OF inv]
  show ?thesis
  proof (cases "?n = current s")
    case True
    then show ?thesis
      using schedule_eq [OF inv] demote_inv [OF inv]
      by (intro that [of "demote s"]) (simp_all add: demote_simps demote_family)
  next
    case False
    have "sched_inv (switched syms (current s) ?n ?e) ps H"
    proof (rule sched_inv_same [OF inv])
      show "current (switched syms (current s) ?n ?e) \<in> set ps" using n by (simp add: sched_simps)
      show "only_current_runs (switched syms (current s) ?n ?e) ps"
        using demote_none_runs [OF inv] by (simp add: only_current_runs_def switched_simps switched_task)
    qed (simp_all add: sched_simps)
    then show ?thesis
      using schedule_eq [OF inv] False
      by (intro that [of "switched syms (current s) ?n ?e"])
        (simp_all add: switched_simps switched_task switched_family demote_simps)
  qed
qed

lemma resume_simps [sched_simps]:
  "links (resume y s) = links s" "pages (resume y s) = pages s" "npage (resume y s) = npage s"
  "nr_free (resume y s) = nr_free s" "mm_pgdir (resume y s) = mm_pgdir s"
  "idle_proc (resume y s) = idle_proc s" "init_proc (resume y s) = init_proc s"
  "nr_process (resume y s) = nr_process s" "next_pid (resume y s) = next_pid s"
  "tasks (resume y s) = tasks s" "current (resume y s) = current s"
  by (simp_all add: resume_def forkret_def Let_def sched_simps)

lemma resume_inv:
  assumes "sched_inv s ps H"
  shows "sched_inv (resume y s) ps H"
proof (rule sched_inv_same [OF assms])
  show "current (resume y s) \<in> set ps"
    using assms by (simp add: sched_inv_def procs_live_def sched_simps)
  show "only_current_runs (resume y s) ps"
    using assms by (simp add: sched_inv_def only_current_runs_def sched_simps)
qed (simp_all add: sched_simps)

lemma wakeup_inv:
  assumes "sched_inv s ps H" and "wakeup_proc a s = Inr ((), s')"
  shows "sched_inv s' ps H"
proof -
  have "s' = s \<or> s' = upd_task a (\<lambda>t. t\<lparr>t_state := TASK_RUNNABLE\<rparr>) s"
    using assms(2) by (auto simp: wakeup_proc_def split: if_splits)
  then show ?thesis
  proof
    assume s': "s' = upd_task a (\<lambda>t. t\<lparr>t_state := TASK_RUNNABLE\<rparr>) s"
    show ?thesis
      by (rule sched_inv_same [OF assms(1)])
        (use assms(1) in \<open>auto simp: s' sched_simps sched_inv_def procs_live_def only_current_runs_def\<close>)
  qed (use assms(1) in simp)
qed

end
