(* ===== verification/Sched_Fork.thy ===== *)
theory Sched_Fork
  imports Sched_Inv
begin

text \<open>
  \<^verbatim>\<open>do_fork\<close>: a new process gets a descriptor in a free frame, the next pid, a place at
  the head of the process list and of its hash chain, and becomes the youngest child of the
  caller.
\<close>

section \<open>Allocation keeps the process tables\<close>

lemma more_eq_sched:
  assumes "pmm.more s' = pmm.more (s :: ('h, 'a) sched_scheme)"
  shows "tasks s' = tasks s" "current s' = current s" "idle_proc s' = idle_proc s"
    "init_proc s' = init_proc s" "nr_process s' = nr_process s" "next_pid s' = next_pid s"
    "mm_pgdir s' = mm_pgdir s" "regs s' = regs s" "tframes s' = tframes s"
    "sched_flag s' = sched_flag s" "run_flag s' = run_flag s" "if_flag s' = if_flag s"
  using assms by (cases s; cases s'; simp)+

lemma ff_frame_links:
  "ff_frame F s s' \<Longrightarrow> x \<noteq> FreeHead \<Longrightarrow> (\<And>p. x \<noteq> PageLink p) \<Longrightarrow>
   nxt (links s') x = nxt (links s) x \<and> prv (links s') x = prv (links s) x"
proof -
  assume fr: "ff_frame F s s'" and x: "x \<noteq> FreeHead" "\<And>p. x \<noteq> PageLink p"
  have "x \<notin> insert FreeHead (PageLink ` F)" using x by blast
  then show ?thesis using fr unfolding ff_frame_def by blast
qed

lemma alloc_keeps_sched_inv:
  assumes inv: "sched_inv s ps H" and fr: "ff_frame (ff_avail s) s s'"
    and s': "ff_ok s'" "ff_avail s' \<subseteq> ff_avail s"
  shows "sched_inv s' ps H"
proof -
  note eq = more_eq_sched [of s' s]
  have m: "pmm.more s' = pmm.more s" and np: "npage s' = npage s"
    using fr by (simp_all add: ff_frame_def)
  have "clist (links s') ProcHead (map ListLink ps) = clist (links s) ProcHead (map ListLink ps)"
    by (rule clist_frame) (use ff_frame_links [OF fr] in auto)
  moreover have "clist (links s') (HashHead h) (map HashLink (H h)) =
      clist (links s) (HashHead h) (map HashLink (H h))" for h
    by (rule clist_frame) (use ff_frame_links [OF fr] in auto)
  ultimately have "proc_lists s' ps H"
    using inv eq(1) [OF m] by (simp add: sched_inv_def proc_lists_def)
  moreover have "proc_frames s' ps"
    using inv s' np by (auto simp: sched_inv_def proc_frames_def) blast
  ultimately show ?thesis
    using inv eq [OF m] by (simp add: sched_inv_def pids_ok_def procs_live_def only_current_runs_def)
qed

section \<open>The stages of a fork\<close>

definition fork_rest ::
  "symbols \<Rightarrow> u32 \<Rightarrow> u32 \<Rightarrow> trap_frame \<Rightarrow> ('h, 'a) sched_scheme \<Rightarrow> (u32 \<times> ('h, 'a) sched_scheme) res" where
  "fork_rest syms proc stack tf s =
     (let s = copy_thread syms proc stack tf s;
          (flag, s) = intr_save s;
          (pid, s) = get_pid s;
          s = upd_task proc (\<lambda>t. t\<lparr>t_pid := pid\<rparr>) s;
          s = hash_proc proc s
      in bindE (set_links proc s) (\<lambda>(_, s).
         let s = intr_restore flag s in
         bindE (wakeup_proc proc s) (\<lambda>(_, s).
         Inr (t_pid (tasks s proc), s))))"

lemma do_fork_stages:
  "do_fork syms cf stack tf s =
     bindE (alloc_proc s) (\<lambda>(proc, s).
     if proc = 0 then Inl Null_Deref
     else bindE (setup_kstack proc (upd_task proc (\<lambda>t. t\<lparr>t_parent := current s\<rparr>) s)) (\<lambda>(_, s).
       bindE (copy_mm cf proc s) (\<lambda>(_, s). fork_rest syms proc stack tf s)))"
  by (simp only: do_fork_def fork_rest_def Let_def)

lemma do_fork_no_memory:
  assumes "ff_ok s" "ff_avail s = {}"
  shows "do_fork syms cf stack tf s = Inl Null_Deref"
  using alloc_page_none [OF assms] by (simp add: do_fork_def alloc_proc_def kmalloc_def)

text \<open>After the descriptor and the stack: a fresh, unlinked descriptor at \<open>a\<close>.\<close>

definition forked :: "u32 \<Rightarrow> task \<Rightarrow> ('h, 'a) sched_scheme \<Rightarrow> ('h, 'a) sched_scheme \<Rightarrow> bool" where
  "forked a T s s' \<longleftrightarrow>
     tasks s' = (tasks s)(a := T) \<and> current s' = current s \<and> idle_proc s' = idle_proc s \<and>
     init_proc s' = init_proc s \<and> nr_process s' = nr_process s \<and> next_pid s' = next_pid s \<and>
     mm_pgdir s' = mm_pgdir s \<and> tframes s' = tframes s \<and> if_flag s' = if_flag s \<and>
     regs s' = regs s \<and> sched_flag s' = sched_flag s \<and> run_flag s' = run_flag s \<and>
     T = (init_task (tasks s a))\<lparr>t_parent := current s, t_kstack := t_kstack T\<rparr>"

lemma init_task_kstack:
  "(init_task t)\<lparr>t_parent := c\<rparr> = (init_task t)\<lparr>t_parent := c, t_kstack := 0\<rparr>"
  by (rule task.equality) (simp_all add: init_task_def)

text \<open>A descriptor outside the tables may be written.\<close>

lemma upd_task_outside_inv:
  assumes inv: "sched_inv s ps H" and a: "a \<notin> set ps"
  shows "sched_inv (upd_task a f s) ps H"
proof (rule sched_inv_same [OF inv])
  show "current (upd_task a f s) \<in> set ps" using inv by (simp add: sched_inv_def procs_live_def sched_simps)
  have "tasks (upd_task a f s) b = tasks s b" if "b \<in> set ps" for b using a that by (auto simp: sched_simps)
  then show "only_current_runs (upd_task a f s) ps" "\<And>b. b \<in> set ps \<Longrightarrow> t_pid (tasks (upd_task a f s) b) = t_pid (tasks s b)"
    "\<And>b. b \<in> set ps \<Longrightarrow> t_mm (tasks (upd_task a f s) b) = t_mm (tasks s b)"
    using inv by (simp_all add: sched_inv_def only_current_runs_def sched_simps)
qed (simp_all add: sched_simps)

lemma fork_alloc:
  assumes inv: "sched_inv s ps H" and av: "ff_avail s \<noteq> {}"
  obtains a T s1 where
    "\<And>syms cf stack tf. do_fork syms cf stack tf s =
       bindE (copy_mm cf a s1) (\<lambda>(_, s). fork_rest syms a stack tf s)"
    "forked a T s s1" "sched_inv s1 ps H" "a \<noteq> 0" "a \<notin> set ps" "proc_frames s1 (a # ps)"
    "t_kstack T = 0 \<longleftrightarrow> card (ff_avail s) = 1" "card (ff_avail s) \<le> card (ff_avail s1) + 2"
    "ff_avail s1 \<subseteq> ff_avail s"
proof -
  have ok: "ff_ok s" and np: "unat (npage s) \<le> KFRAMES" and pf: "proc_frames s ps"
    using inv by (simp_all add: sched_inv_def proc_frames_def)
  obtain p s1 where 1: "alloc_pages 1 s = Inr (Some p, s1)" "p \<in> ff_avail s" "ff_ok s1"
    "ff_avail s1 = ff_avail s - {p}" "ff_frame (ff_avail s) s s1"
    using alloc_page_some [OF ok av] by metis
  have p: "p < unat (npage s)" using 1(2) ff_avail_npage [OF ok] by auto
  then have pk: "p < KFRAMES" using np by simp
  let ?a = "page2kva p"
  have a0: "?a \<noteq> 0" by (rule page2kva_nonzero [OF pk])
  have kva_inj: "q = p" if "q < KFRAMES" "page2kva q = page2kva p" for q
    using kva2page_page2kva [of p] kva2page_page2kva [of q] that pk by simp
  have a1: "?a \<notin> set ps"
  proof
    assume "?a \<in> set ps"
    then obtain q where "q < unat (npage s)" "?a = page2kva q" "q \<notin> ff_avail s"
      using pf by (auto simp: proc_frames_def)
    then show False using kva_inj [of q] np 1(2) by simp
  qed
  have inv1: "sched_inv s1 ps H"
    by (rule alloc_keeps_sched_inv [OF inv 1(5) 1(3)]) (simp add: 1(4))
  have m1: "pmm.more s1 = pmm.more s" and np1: "npage s1 = npage s"
    using 1(5) by (simp_all add: ff_frame_def)
  note e1 = more_eq_sched [OF m1]
  let ?s2 = "upd_task ?a (\<lambda>t. t\<lparr>t_parent := current s\<rparr>) (upd_task ?a init_task s1)"
  have inv2: "sched_inv ?s2 ps H" by (intro upd_task_outside_inv inv1 a1)
  have df: "do_fork syms cf stack tf s = bindE (setup_kstack ?a ?s2)
      (\<lambda>(_, s). bindE (copy_mm cf ?a s) (\<lambda>(_, s). fork_rest syms ?a stack tf s))" for syms cf stack tf
    using 1(1) a0 e1(2) by (simp add: do_fork_stages alloc_proc_def kmalloc_def sched_simps)
  let ?T = "\<lambda>k. (init_task (tasks s ?a))\<lparr>t_parent := current s, t_kstack := k\<rparr>"
  have cnt: "card (ff_avail s) = Suc (card (ff_avail s1))"
    using card_Suc_Diff1 [OF ff.avail_finite [OF ok] 1(2)] 1(4) by simp
  show ?thesis
  proof (cases "ff_avail s1 = {}")
    case True
    have "alloc_pages 1 ?s2 = Inr (None, ?s2)" by (rule alloc_page_none) (simp_all add: 1(3) True)
    then have "setup_kstack ?a ?s2 = Inr (-1, ?s2)" by (simp add: setup_kstack_def)
    moreover have "forked ?a (?T 0) s ?s2"
      using e1 init_task_kstack [where t = "tasks s ?a" and c = "current s"] by (simp add: forked_def sched_simps)
    moreover have "proc_frames ?s2 (?a # ps)"
      using inv2 p np1 1(4) by (auto simp: sched_inv_def proc_frames_def sched_simps)
    ultimately show ?thesis
      using df inv2 a0 a1 cnt True by (intro that [of ?a ?s2 "?T 0"]) (simp_all)
  next
    case False
    obtain q s3 where 3: "alloc_pages 1 ?s2 = Inr (Some q, s3)" "q \<in> ff_avail s1" "ff_ok s3"
      "ff_avail s3 = ff_avail s1 - {q}" "ff_frame (ff_avail s1) ?s2 s3"
      using alloc_page_some [of ?s2] 1(3) False by (simp only: ff_task) metis
    have inv3: "sched_inv s3 ps H"
      by (rule alloc_keeps_sched_inv [OF inv2 _ 3(3)]) (simp_all add: 3(4,5))
    have m3: "pmm.more s3 = pmm.more ?s2" and np3: "npage s3 = npage s"
      using 3(5) np1 by (simp_all add: ff_frame_def sched_simps)
    note e3 = more_eq_sched [OF m3]
    let ?s4 = "upd_task ?a (\<lambda>t. t\<lparr>t_kstack := page2kva q\<rparr>) s3"
    have inv4: "sched_inv ?s4 ps H" by (rule upd_task_outside_inv [OF inv3 a1])
    have "q < KFRAMES" using 3(2) 1(4) ff_avail_npage [OF ok] np by auto
    then have k0: "page2kva q \<noteq> 0" by (rule page2kva_nonzero)
    have "card (ff_avail s1) \<noteq> 0" using False ff.avail_finite [OF 1(3)] by simp
    moreover have "setup_kstack ?a ?s2 = Inr (0, ?s4)" using 3(1) by (simp add: setup_kstack_def)
    moreover have "forked ?a (?T (page2kva q)) s ?s4"
      using e1 e3 by (simp add: forked_def sched_simps)
    moreover have "proc_frames ?s4 (?a # ps)"
      using inv4 p np3 1(4) 3(4) by (auto simp: sched_inv_def proc_frames_def sched_simps)
    moreover have "ff_avail s3 \<subseteq> ff_avail s" using 1(4) 3(4) by auto
    moreover have "card (ff_avail s1) = Suc (card (ff_avail s3))"
      using card_Suc_Diff1 [OF ff.avail_finite [OF 1(3)] 3(2)] 3(4) by simp
    ultimately show ?thesis
      using df inv4 a0 a1 cnt k0 by (intro that [of ?a ?s4 "?T (page2kva q)"]) (simp_all)
  qed
qed

section \<open>Entering the process into the tables\<close>

definition child_frame :: "u32 \<Rightarrow> trap_frame \<Rightarrow> trap_frame" where
  "child_frame stack tf =
     tf\<lparr>tf_regs := (tf_regs tf)\<lparr>reg_eax := 0\<rparr>, tf_esp := stack, tf_eflags := tf_eflags tf OR 0x200\<rparr>"

lemma set_links_effect:
  assumes c: "t_parent (tasks s a) = c" "c \<noteq> 0" "c \<noteq> a"
  shows "\<exists>s'. set_links a s = Inr ((), s') \<and> links s' = list_add ProcHead (ListLink a) (links s) \<and>
    pages s' = pages s \<and> npage s' = npage s \<and> nr_free s' = nr_free s \<and> mm_pgdir s' = mm_pgdir s \<and>
    idle_proc s' = idle_proc s \<and> init_proc s' = init_proc s \<and> current s' = current s \<and>
    nr_process s' = nr_process s + 1 \<and> next_pid s' = next_pid s \<and> if_flag s' = if_flag s \<and>
    regs s' = regs s \<and> tframes s' = tframes s \<and>
    (\<forall>b. tasks s' b = (tasks s b)
      \<lparr>t_cptr := if b = c then a else t_cptr (tasks s b),
       t_optr := if b = a then t_cptr (tasks s c) else t_optr (tasks s b),
       t_yptr := if t_cptr (tasks s c) \<noteq> 0 \<and> b = t_cptr (tasks s c) then a
         else if b = a then 0 else t_yptr (tasks s b)\<rparr>)"
proof -
  let ?y = "t_cptr (tasks s c)"
  obtain s1 where s1: "s1 = upd_task a (\<lambda>t. t\<lparr>t_yptr := 0\<rparr>) (upd_links (list_add ProcHead (ListLink a)) s)"
    by simp
  obtain s2 where s2: "s2 = upd_task a (\<lambda>t. t\<lparr>t_optr := ?y\<rparr>) s1" by simp
  obtain s3 where s3: "s3 = (if ?y \<noteq> 0 then upd_task ?y (\<lambda>t. t\<lparr>t_yptr := a\<rparr>) s2 else s2)" by simp
  have p1: "t_parent (tasks s1 a) = c" "t_cptr (tasks s1 c) = ?y" "t_optr (tasks s2 a) = ?y"
    using c by (simp_all add: s1 s2 sched_simps)
  have r: "set_links a s = Inr ((), upd_task c (\<lambda>t. t\<lparr>t_cptr := a\<rparr>) s3
      \<lparr>nr_process := nr_process (upd_task c (\<lambda>t. t\<lparr>t_cptr := a\<rparr>) s3) + 1\<rparr>)"
    unfolding set_links_def Let_def
    by (simp only: s1 [symmetric] p1 c(2) if_False s2 [symmetric] s3 [symmetric])
  have t: "tasks s3 b = (tasks s b)
      \<lparr>t_optr := if b = a then ?y else t_optr (tasks s b),
       t_yptr := if ?y \<noteq> 0 \<and> b = ?y then a else if b = a then 0 else t_yptr (tasks s b)\<rparr>" for b
    by (simp add: s3 s2 s1 sched_simps)
  have o: "links s3 = list_add ProcHead (ListLink a) (links s)" "pages s3 = pages s" "npage s3 = npage s"
    "nr_free s3 = nr_free s" "mm_pgdir s3 = mm_pgdir s" "idle_proc s3 = idle_proc s"
    "init_proc s3 = init_proc s" "current s3 = current s" "nr_process s3 = nr_process s"
    "next_pid s3 = next_pid s" "if_flag s3 = if_flag s" "regs s3 = regs s" "tframes s3 = tframes s"
    by (simp_all add: s3 s2 s1 sched_simps page_simps mem_simps)
  show ?thesis by (simp add: r t o sched_simps)
qed

text \<open>The new process before its links are set: its context, its pid and its place in the hash table.\<close>

definition fork_hashed ::
  "symbols \<Rightarrow> u32 \<Rightarrow> u32 \<Rightarrow> trap_frame \<Rightarrow> ('h, 'a) sched_scheme \<Rightarrow> ('h, 'a) sched_scheme" where
  "fork_hashed syms a stack tf s = hash_proc a (upd_task a (\<lambda>t. t\<lparr>t_pid := next_pid s\<rparr>)
     ((copy_thread syms a stack tf s)\<lparr>if_flag := False, next_pid := next_pid s + 1\<rparr>))"

lemma fork_hashed_state:
  "links (fork_hashed syms a stack tf s) =
     list_add (HashHead (pid_hashfn (next_pid s))) (HashLink a) (links s)"
  "pages (fork_hashed syms a stack tf s) = pages s" "npage (fork_hashed syms a stack tf s) = npage s"
  "nr_free (fork_hashed syms a stack tf s) = nr_free s" "mm_pgdir (fork_hashed syms a stack tf s) = mm_pgdir s"
  "idle_proc (fork_hashed syms a stack tf s) = idle_proc s"
  "init_proc (fork_hashed syms a stack tf s) = init_proc s" "current (fork_hashed syms a stack tf s) = current s"
  "nr_process (fork_hashed syms a stack tf s) = nr_process s"
  "next_pid (fork_hashed syms a stack tf s) = next_pid s + 1" "if_flag (fork_hashed syms a stack tf s) = False"
  "regs (fork_hashed syms a stack tf s) = regs s"
  "tframes (fork_hashed syms a stack tf s) =
     (tframes s)(t_kstack (tasks s a) + KSTACK_SIZE - TRAP_FRAME_SIZE := child_frame stack tf)"
  by (simp_all add: fork_hashed_def copy_thread_def hash_proc_def Let_def child_frame_def
      sched_simps page_simps mem_simps)

lemma fork_hashed_task:
  "t_pid (tasks (fork_hashed syms a stack tf s) b) = (if b = a then next_pid s else t_pid (tasks s b))"
  "t_state (tasks (fork_hashed syms a stack tf s) b) = t_state (tasks s b)"
  "t_mm (tasks (fork_hashed syms a stack tf s) b) = t_mm (tasks s b)"
  "t_kstack (tasks (fork_hashed syms a stack tf s) b) = t_kstack (tasks s b)"
  "t_parent (tasks (fork_hashed syms a stack tf s) b) = t_parent (tasks s b)"
  "t_wait_state (tasks (fork_hashed syms a stack tf s) b) = t_wait_state (tasks s b)"
  "t_context (tasks (fork_hashed syms a stack tf s) b) =
     (if b = a then (t_context (tasks s b))\<lparr>ctx_eip := sym_forkret syms,
        ctx_esp := t_kstack (tasks s a) + KSTACK_SIZE - TRAP_FRAME_SIZE\<rparr> else t_context (tasks s b))"
  "t_cptr (tasks (fork_hashed syms a stack tf s) b) = t_cptr (tasks s b)"
  "t_optr (tasks (fork_hashed syms a stack tf s) b) = t_optr (tasks s b)"
  "t_yptr (tasks (fork_hashed syms a stack tf s) b) = t_yptr (tasks s b)"
  by (simp_all add: fork_hashed_def copy_thread_def hash_proc_def Let_def sched_simps)

lemma fork_rest_stages:
  "fork_rest syms a stack tf s = bindE (set_links a (fork_hashed syms a stack tf s)) (\<lambda>(_, s').
     bindE (wakeup_proc a (intr_restore (if_flag s) s')) (\<lambda>(_, s'). Inr (t_pid (tasks s' a), s')))"
  by (simp add: fork_rest_def fork_hashed_def Let_def intr_save_eq get_pid_def copy_thread_def sched_simps)

text \<open>What entering the process \<open>a\<close>, a child of \<open>c\<close>, leaves behind.\<close>

definition fork_entered ::
  "symbols \<Rightarrow> u32 \<Rightarrow> u32 \<Rightarrow> u32 \<Rightarrow> trap_frame \<Rightarrow> ('h, 'a) sched_scheme \<Rightarrow> ('h, 'a) sched_scheme \<Rightarrow> bool" where
  "fork_entered syms a c stack tf s s' \<longleftrightarrow>
     links s' = list_add ProcHead (ListLink a)
      (list_add (HashHead (pid_hashfn (next_pid s))) (HashLink a) (links s)) \<and>
     pages s' = pages s \<and> npage s' = npage s \<and> nr_free s' = nr_free s \<and> mm_pgdir s' = mm_pgdir s \<and>
     idle_proc s' = idle_proc s \<and> init_proc s' = init_proc s \<and> current s' = current s \<and>
     nr_process s' = nr_process s + 1 \<and> next_pid s' = next_pid s + 1 \<and> if_flag s' = if_flag s \<and>
     regs s' = regs s \<and>
     tframes s' = (tframes s)(t_kstack (tasks s a) + KSTACK_SIZE - TRAP_FRAME_SIZE := child_frame stack tf) \<and>
     (\<forall>b. t_pid (tasks s' b) = (if b = a then next_pid s else t_pid (tasks s b)) \<and>
       t_state (tasks s' b) = (if b = a then TASK_RUNNABLE else t_state (tasks s b)) \<and>
       t_mm (tasks s' b) = t_mm (tasks s b) \<and> t_kstack (tasks s' b) = t_kstack (tasks s b) \<and>
       t_parent (tasks s' b) = t_parent (tasks s b) \<and>
       t_wait_state (tasks s' b) = t_wait_state (tasks s b) \<and>
       t_context (tasks s' b) = (if b = a then (t_context (tasks s b))\<lparr>ctx_eip := sym_forkret syms,
         ctx_esp := t_kstack (tasks s a) + KSTACK_SIZE - TRAP_FRAME_SIZE\<rparr> else t_context (tasks s b)) \<and>
       t_cptr (tasks s' b) = (if b = c then a else t_cptr (tasks s b)) \<and>
       t_optr (tasks s' b) = (if b = a then t_cptr (tasks s c) else t_optr (tasks s b)) \<and>
       t_yptr (tasks s' b) = (if t_cptr (tasks s c) \<noteq> 0 \<and> b = t_cptr (tasks s c) then a
         else if b = a then 0 else t_yptr (tasks s b)))"

lemma fork_enteredD:
  assumes "fork_entered syms a c stack tf s s'"
  shows "links s' = list_add ProcHead (ListLink a)
      (list_add (HashHead (pid_hashfn (next_pid s))) (HashLink a) (links s))"
    and "pages s' = pages s" "npage s' = npage s" "nr_free s' = nr_free s" "mm_pgdir s' = mm_pgdir s"
    "idle_proc s' = idle_proc s" "init_proc s' = init_proc s" "current s' = current s"
    "nr_process s' = nr_process s + 1" "next_pid s' = next_pid s + 1" "if_flag s' = if_flag s"
    "regs s' = regs s"
    "tframes s' = (tframes s)(t_kstack (tasks s a) + KSTACK_SIZE - TRAP_FRAME_SIZE := child_frame stack tf)"
    and "t_pid (tasks s' b) = (if b = a then next_pid s else t_pid (tasks s b))"
    "t_state (tasks s' b) = (if b = a then TASK_RUNNABLE else t_state (tasks s b))"
    "t_mm (tasks s' b) = t_mm (tasks s b)" "t_kstack (tasks s' b) = t_kstack (tasks s b)"
    "t_parent (tasks s' b) = t_parent (tasks s b)" "t_wait_state (tasks s' b) = t_wait_state (tasks s b)"
    "t_context (tasks s' b) = (if b = a then (t_context (tasks s b))\<lparr>ctx_eip := sym_forkret syms,
       ctx_esp := t_kstack (tasks s a) + KSTACK_SIZE - TRAP_FRAME_SIZE\<rparr> else t_context (tasks s b))"
    "t_cptr (tasks s' b) = (if b = c then a else t_cptr (tasks s b))"
    "t_optr (tasks s' b) = (if b = a then t_cptr (tasks s c) else t_optr (tasks s b))"
    "t_yptr (tasks s' b) = (if t_cptr (tasks s c) \<noteq> 0 \<and> b = t_cptr (tasks s c) then a
       else if b = a then 0 else t_yptr (tasks s b))"
  using assms unfolding fork_entered_def by blast+

lemma fork_rest_effect:
  assumes c: "t_parent (tasks s a) = c" "c \<noteq> 0" "c \<noteq> a" and st: "t_state (tasks s a) = TASK_UNINIT"
  obtains s' where "fork_rest syms a stack tf s = Inr (next_pid s, s')" "fork_entered syms a c stack tf s s'"
proof -
  let ?s1 = "fork_hashed syms a stack tf s"
  note F = fork_hashed_state fork_hashed_task
  have par: "t_parent (tasks ?s1 a) = c" using c by (simp add: F)
  obtain s2 where r: "set_links a ?s1 = Inr ((), s2)"
    and l: "links s2 = list_add ProcHead (ListLink a) (links ?s1)"
    "pages s2 = pages ?s1" "npage s2 = npage ?s1" "nr_free s2 = nr_free ?s1"
    and m: "mm_pgdir s2 = mm_pgdir ?s1"
    "idle_proc s2 = idle_proc ?s1" "init_proc s2 = init_proc ?s1" "current s2 = current ?s1"
    "nr_process s2 = nr_process ?s1 + 1" "next_pid s2 = next_pid ?s1" "if_flag s2 = if_flag ?s1"
    "regs s2 = regs ?s1" "tframes s2 = tframes ?s1"
    and t: "\<And>b. tasks s2 b = (tasks ?s1 b)
      \<lparr>t_cptr := if b = c then a else t_cptr (tasks ?s1 b),
       t_optr := if b = a then t_cptr (tasks ?s1 c) else t_optr (tasks ?s1 b),
       t_yptr := if t_cptr (tasks ?s1 c) \<noteq> 0 \<and> b = t_cptr (tasks ?s1 c) then a
         else if b = a then 0 else t_yptr (tasks ?s1 b)\<rparr>"
    using set_links_effect [OF par c(2,3)] by blast
  obtain s' where s': "s' = upd_task a (\<lambda>t. t\<lparr>t_state := TASK_RUNNABLE\<rparr>) (intr_restore (if_flag s) s2)"
    by simp
  have "wakeup_proc a (intr_restore (if_flag s) s2) = Inr ((), s')"
    using st by (simp add: s' wakeup_proc_def sched_simps t F)
  then have "fork_rest syms a stack tf s = Inr (t_pid (tasks s' a), s')"
    by (simp add: fork_rest_stages r)
  moreover have "fork_entered syms a c stack tf s s'"
    unfolding fork_entered_def
    by (intro conjI allI) (simp_all add: s' sched_simps page_simps mem_simps l m t F)
  moreover have "t_pid (tasks s' a) = next_pid s" by (simp add: s' sched_simps t F)
  ultimately show ?thesis using that by simp
qed

text \<open>The lists after the new process is entered.\<close>

lemma fork_links:
  assumes pl: "proc_lists s ps H" and a: "a \<notin> set ps" and h: "h < HASH_LIST_SIZE"
    and L: "L = list_add ProcHead (ListLink a) (list_add (HashHead h) (HashLink a) (links s))"
  shows "clist L ProcHead (map ListLink (a # ps))"
    and "k < HASH_LIST_SIZE \<Longrightarrow> clist L (HashHead k) (map HashLink ((H(h := a # H h)) k))"
proof -
  let ?M = "list_add (HashHead h) (HashLink a) (links s)"
  have cp: "clist (links s) ProcHead (map ListLink ps)"
    and ch: "\<And>k. k < HASH_LIST_SIZE \<Longrightarrow> clist (links s) (HashHead k) (map HashLink (H k)) \<and> a \<notin> set (H k)"
    using pl a by (auto simp: proc_lists_def)
  have hh: "HashHead h \<in> set (HashHead h # map HashLink (H h))" by simp
  note un = list_add_unchanged [OF conjunct1 [OF ch [OF h]] hh]
  have m: "clist ?M (HashHead k) (map HashLink ((H(h := a # H h)) k))" if k: "k < HASH_LIST_SIZE" for k
  proof (cases "k = h")
    case True
    then show ?thesis
      using clist_add_head [of "links s" "HashHead h" "map HashLink (H h)" "HashLink a"] ch [OF h]
      by auto
  next
    case False
    have "y \<notin> insert (HashLink a) (set (HashHead h # map HashLink (H h)))"
      if "y \<in> set (HashHead k # map HashLink (H k))" for y
    proof -
      have "set (H k) \<inter> set (H h) = {}"
        using pl k h False by (auto simp: proc_lists_def)
      then show ?thesis using that False ch [OF k] by auto
    qed
    from clist_frame [of "HashHead k" "map HashLink (H k)" ?M "links s", OF un(1) [OF this] un(2) [OF this]]
    show ?thesis using False ch [OF k] by simp
  qed
  have "y \<notin> insert (HashLink a) (set (HashHead h # map HashLink (H h)))"
    if "y \<in> set (ProcHead # map ListLink ps)" for y using that by auto
  from clist_frame [of ProcHead "map ListLink ps" ?M "links s", OF un(1) [OF this] un(2) [OF this]]
  have mp: "clist ?M ProcHead (map ListLink ps)" using cp by simp
  have "ListLink a \<notin> set (ProcHead # map ListLink ps)" using a by auto
  from clist_add_head [OF mp this] show "clist L ProcHead (map ListLink (a # ps))"
    by (simp add: L)
  have pp: "ProcHead \<in> set (ProcHead # map ListLink ps)" by simp
  note up = list_add_unchanged [OF mp pp]
  assume k: "k < HASH_LIST_SIZE"
  let ?K = "map HashLink ((H(h := a # H h)) k)"
  have "y \<notin> insert (ListLink a) (set (ProcHead # map ListLink ps))" if "y \<in> set (HashHead k # ?K)" for y
    using that by auto
  from clist_frame [of "HashHead k" ?K L ?M, unfolded L, OF up(1) [OF this] up(2) [OF this]]
  show "clist L (HashHead k) ?K" using m [OF k] by (simp add: L)
qed

lemma fork_free_list:
  assumes pl: "proc_lists s ps H" and h: "h < HASH_LIST_SIZE"
    and L: "L = list_add ProcHead (ListLink a) (list_add (HashHead h) (HashLink a) (links s))"
  shows "clist L FreeHead (map block_link bs) = clist (links s) FreeHead (map block_link bs)"
proof (rule clist_frame)
  let ?M = "list_add (HashHead h) (HashLink a) (links s)"
  have cp: "clist (links s) ProcHead (map ListLink ps)"
    and ch: "clist (links s) (HashHead h) (map HashLink (H h))"
    using pl h by (auto simp: proc_lists_def)
  have hh: "HashHead h \<in> set (HashHead h # map HashLink (H h))" by simp
  note un = list_add_unchanged [OF ch hh]
  have cp': "clist ?M ProcHead (map ListLink ps)"
    using cp un by (subst clist_frame [of _ _ _ "links s"]) auto
  have pp: "ProcHead \<in> set (ProcHead # map ListLink ps)" by simp
  note up = list_add_unchanged [OF cp' pp]
  fix y
  assume y: "y \<in> set (FreeHead # map block_link bs)"
  have 1: "y \<notin> insert (HashLink a) (set (HashHead h # map HashLink (H h)))"
    and 2: "y \<notin> insert (ListLink a) (set (ProcHead # map ListLink ps))" using y by auto
  show "nxt L y = nxt (links s) y" using up(1) [OF 2] un(1) [OF 1] by (simp add: L)
  show "prv L y = prv (links s) y" using up(2) [OF 2] un(2) [OF 1] by (simp add: L)
qed

text \<open>Entering a process with the next pid keeps the invariant.\<close>

lemma fork_tables:
  assumes inv: "sched_inv s ps H" and a: "a \<notin> set ps" and pf: "proc_frames s (a # ps)"
    and np: "unat (next_pid s) + 1 < 2 ^ 32"
    and fe: "fork_entered syms a c stack tf s s'" and mm: "t_mm (tasks s a) = InitMm"
  shows "sched_inv s' (a # ps) (H(pid_hashfn (next_pid s) := a # H (pid_hashfn (next_pid s)))) \<and>
    ff_avail s' = ff_avail s"
proof -
  let ?h = "pid_hashfn (next_pid s)"
  note E = fork_enteredD [OF fe]
  note L = E(1) and eq = E(2-5,6,8,9,10)
  have new: "t_pid (tasks s' a) = next_pid s" "t_state (tasks s' a) = TASK_RUNNABLE"
      "t_mm (tasks s' a) = InitMm"
    using mm E(14-16) by auto
  have old: "t_pid (tasks s' b) = t_pid (tasks s b) \<and> t_state (tasks s' b) = t_state (tasks s b) \<and>
      t_mm (tasks s' b) = t_mm (tasks s b)" if "b \<in> set ps" for b
    using that a E(14-16) by auto
  have pl: "proc_lists s ps H" and pids: "pids_ok s ps" and live: "procs_live s ps"
    and run: "only_current_runs s ps"
    using inv by (simp_all add: sched_inv_def)
  note fl = fork_links [OF pl a pid_hashfn_less L]
  have "set ((H(?h := a # H ?h)) k) = {b \<in> set (a # ps). pid_hashfn (t_pid (tasks s' b)) = k}"
    if k: "k < HASH_LIST_SIZE" for k
  proof -
    have "set (H k) = {b \<in> set ps. pid_hashfn (t_pid (tasks s b)) = k}"
      using pl k by (simp add: proc_lists_def)
    then show ?thesis using new old a by auto
  qed
  then have "proc_lists s' (a # ps) (H(?h := a # H ?h))"
    unfolding proc_lists_def using fl by blast
  moreover have "pids_ok s' (a # ps)"
    unfolding pids_ok_def
  proof (intro conjI)
    have "unat (next_pid s + 1) = unat (next_pid s) + 1"
      using np by (subst unat_add_small) simp_all
    then show "\<forall>b \<in> set (a # ps). t_pid (tasks s' b) < next_pid s'"
      using new old pids eq(8) by (auto simp: word_less_nat_alt pids_ok_def)
    have "inj_on (\<lambda>b. t_pid (tasks s' b)) (set ps)"
      using old pids by (simp add: inj_on_def pids_ok_def)
    moreover have "\<forall>b \<in> set ps. t_pid (tasks s' b) \<noteq> next_pid s"
      using old pids by (auto simp: pids_ok_def)
    ultimately show "inj_on (\<lambda>b. t_pid (tasks s' b)) (set (a # ps))"
      using new(1) by (auto simp: inj_on_insert)
    show "nr_process s' = of_nat (length (a # ps))" using eq(7) pids by (simp add: pids_ok_def)
  qed
  moreover have "ff_inv s' = ff_inv s"
    using fork_free_list [OF pl pid_hashfn_less L] eq(1-3)
    by (auto simp: ff_inv_def block_ok_def fun_eq_iff)
  then have "ff_ok s' = ff_ok s" "ff_avail s' = ff_avail s" by (simp_all add: ff_ok_def ff_avail_def)
  then have "proc_frames s' (a # ps)" using pf eq(2) by (simp add: proc_frames_def)
  moreover have "procs_live s' (a # ps)" using live new old eq by (simp add: procs_live_def)
  moreover have "only_current_runs s' (a # ps)"
    using run new old eq by (auto simp: only_current_runs_def)
  ultimately show ?thesis using \<open>ff_avail s' = ff_avail s\<close> by (simp add: sched_inv_def)
qed

definition fork_effect ::
  "symbols \<Rightarrow> u32 \<Rightarrow> u32 \<Rightarrow> trap_frame \<Rightarrow> ('h, 'a) sched_scheme \<Rightarrow> ('h, 'a) sched_scheme \<Rightarrow> bool" where
  "fork_effect syms a stack tf s s' \<longleftrightarrow>
     t_pid (tasks s' a) = next_pid s \<and> t_state (tasks s' a) = TASK_RUNNABLE \<and>
     t_parent (tasks s' a) = current s \<and> t_cptr (tasks s' (current s)) = a \<and>
     t_optr (tasks s' a) = t_cptr (tasks s (current s)) \<and> t_wait_state (tasks s' a) = 0 \<and>
     ctx_eip (t_context (tasks s' a)) = sym_forkret syms \<and>
     tframes s' (ctx_esp (t_context (tasks s' a))) = child_frame stack tf \<and>
     (t_kstack (tasks s' a) = 0 \<longleftrightarrow> card (ff_avail s) = 1) \<and>
     current s' = current s \<and> init_proc s' = init_proc s \<and> idle_proc s' = idle_proc s \<and>
     next_pid s' = next_pid s + 1 \<and> if_flag s' = if_flag s \<and> regs s' = regs s \<and>
     card (ff_avail s) \<le> card (ff_avail s') + 2 \<and> ff_avail s' \<subseteq> ff_avail s \<and> t_cptr (tasks s' a) = 0 \<and>
     (t_cptr (tasks s (current s)) \<noteq> a \<longrightarrow> t_yptr (tasks s' a) = 0)"

text \<open>Up to the point where the process is entered, which is all a caller of kernel memory needs.\<close>

lemma do_fork_start:
  assumes inv: "sched_inv s ps H" and av: "ff_avail s \<noteq> {}"
  obtains a k s1 where "\<And>syms cf stack tf. do_fork syms cf stack tf s = fork_rest syms a stack tf s1"
    "sched_inv s1 ps H" "a \<notin> set ps" "proc_frames s1 (a # ps)"
    "tasks s1 = (tasks s)(a := (init_task (tasks s a))
       \<lparr>t_parent := current s, t_kstack := k, t_mm := InitMm\<rparr>)"
    "current s1 = current s" "next_pid s1 = next_pid s" "if_flag s1 = if_flag s" "regs s1 = regs s"
    "init_proc s1 = init_proc s" "idle_proc s1 = idle_proc s"
    "k = 0 \<longleftrightarrow> card (ff_avail s) = 1" "card (ff_avail s) \<le> card (ff_avail s1) + 2"
    "ff_avail s1 \<subseteq> ff_avail s"
proof -
  obtain a T s1 where df: "\<And>syms cf stack tf. do_fork syms cf stack tf s =
       bindE (copy_mm cf a s1) (\<lambda>(_, s). fork_rest syms a stack tf s)"
    and fk: "forked a T s s1" and inv1: "sched_inv s1 ps H" and a: "a \<noteq> 0" "a \<notin> set ps"
    and pf: "proc_frames s1 (a # ps)" and ks: "t_kstack T = 0 \<longleftrightarrow> card (ff_avail s) = 1"
    and cd: "card (ff_avail s) \<le> card (ff_avail s1) + 2" "ff_avail s1 \<subseteq> ff_avail s"
    using fork_alloc [OF inv av] by metis
  have e1: "tasks s1 = (tasks s)(a := T)" "current s1 = current s" "next_pid s1 = next_pid s"
    "if_flag s1 = if_flag s" "regs s1 = regs s" "init_proc s1 = init_proc s" "idle_proc s1 = idle_proc s"
    "T = (init_task (tasks s a))\<lparr>t_parent := current s, t_kstack := t_kstack T\<rparr>"
    using fk by (simp_all add: forked_def)
  obtain s2 where s2: "s2 = upd_task a (\<lambda>t. t\<lparr>t_mm := InitMm\<rparr>) s1" by simp
  have c: "current s \<in> set ps" "current s \<noteq> 0"
    using inv proc_nonzero by (auto simp: sched_inv_def procs_live_def)
  then have "t_mm (tasks s1 (current s)) = InitMm" using inv1 by (simp add: sched_inv_def procs_live_def)
  then have "copy_mm cf a s1 = Inr (0, s2)" for cf using c(2) e1(2) by (simp add: copy_mm_def s2)
  then have start: "do_fork syms cf stack tf s = fork_rest syms a stack tf s2" for syms cf stack tf
    by (simp add: df)
  have "tasks s2 = (tasks s)(a := T\<lparr>t_mm := InitMm\<rparr>)" by (simp add: s2 sched_simps e1(1) fun_eq_iff)
  also have "T\<lparr>t_mm := InitMm\<rparr> =
      (init_task (tasks s a))\<lparr>t_parent := current s, t_kstack := t_kstack T, t_mm := InitMm\<rparr>"
    by (subst e1(8)) simp
  finally have "tasks s2 = (tasks s)(a := \<dots>)" .
  moreover have "sched_inv s2 ps H" "proc_frames s2 (a # ps)" "ff_avail s2 = ff_avail s1"
    using upd_task_outside_inv [OF inv1 a(2)] pf by (simp_all add: s2 proc_frames_def sched_simps)
  moreover have "current s2 = current s" "next_pid s2 = next_pid s" "if_flag s2 = if_flag s"
    "regs s2 = regs s" "init_proc s2 = init_proc s" "idle_proc s2 = idle_proc s"
    using e1 by (simp_all add: s2 sched_simps)
  ultimately show ?thesis using start a(2) ks cd by (intro that [of a s2 "t_kstack T"]) simp_all
qed

lemma do_fork_inv:
  assumes inv: "sched_inv s ps H" and av: "ff_avail s \<noteq> {}" and np: "unat (next_pid s) + 1 < 2 ^ 32"
  obtains a s' where "do_fork syms cf stack tf s = Inr (next_pid s, s')"
    "sched_inv s' (a # ps) (H(pid_hashfn (next_pid s) := a # H (pid_hashfn (next_pid s))))"
    "a \<notin> set ps" "fork_effect syms a stack tf s s'"
    "\<And>b. b \<in> set ps \<Longrightarrow> t_pid (tasks s' b) = t_pid (tasks s b) \<and>
      t_state (tasks s' b) = t_state (tasks s b) \<and> t_mm (tasks s' b) = t_mm (tasks s b) \<and>
      t_context (tasks s' b) = t_context (tasks s b) \<and>
      t_wait_state (tasks s' b) = t_wait_state (tasks s b) \<and>
      t_parent (tasks s' b) = t_parent (tasks s b) \<and>
      (b \<noteq> current s \<longrightarrow> t_cptr (tasks s' b) = t_cptr (tasks s b))"
proof -
  obtain a k s1 where df: "\<And>syms cf stack tf. do_fork syms cf stack tf s = fork_rest syms a stack tf s1"
    and inv1: "sched_inv s1 ps H" and a: "a \<notin> set ps" and pf: "proc_frames s1 (a # ps)"
    and ts: "tasks s1 = (tasks s)(a := (init_task (tasks s a))
       \<lparr>t_parent := current s, t_kstack := k, t_mm := InitMm\<rparr>)"
    and e: "current s1 = current s" "next_pid s1 = next_pid s" "if_flag s1 = if_flag s" "regs s1 = regs s"
    "init_proc s1 = init_proc s" "idle_proc s1 = idle_proc s"
    and k: "k = 0 \<longleftrightarrow> card (ff_avail s) = 1"
    and cd: "card (ff_avail s) \<le> card (ff_avail s1) + 2" "ff_avail s1 \<subseteq> ff_avail s"
    using do_fork_start [OF inv av] by metis
  have c: "current s \<in> set ps" "current s \<noteq> 0"
    using inv proc_nonzero by (auto simp: sched_inv_def procs_live_def)
  then have ca: "current s \<noteq> a" using a by auto
  have "t_parent (tasks s1 a) = current s" "t_state (tasks s1 a) = TASK_UNINIT"
    by (simp_all add: ts init_task_def)
  from fork_rest_effect [OF this(1) c(2) ca this(2), of syms stack tf] obtain s' where
    r: "fork_rest syms a stack tf s1 = Inr (next_pid s1, s')"
    and fe: "fork_entered syms a (current s) stack tf s1 s'" .
  note E = fork_enteredD [OF fe]
  have T: "sched_inv s' (a # ps) (H(pid_hashfn (next_pid s) := a # H (pid_hashfn (next_pid s))))"
    "ff_avail s' = ff_avail s1"
    using fork_tables [OF inv1 a pf _ fe] np by (simp_all add: ts e)
  have "fork_effect syms a stack tf s s'"
    unfolding fork_effect_def using ca k cd T(2)
    by (intro conjI) (simp_all add: E ts e init_task_def)
  moreover have "b \<noteq> a" if "b \<in> set ps" for b using that a by auto
  ultimately show ?thesis using df r T(1) a by (intro that [of s' a]) (simp_all add: E ts e)
qed

end
