(* ===== verification/Sched_Exit.thy ===== *)
theory Sched_Exit
  imports Sched_Fork
begin

text \<open>
  \<^verbatim>\<open>do_exit\<close>: the caller becomes a zombie, its children go to init, youngest last in the
  old list first in the new one, and another process runs. When init itself exits with a
  child, the loop that hands over the children never ends.
\<close>

section \<open>Children\<close>

text \<open>The list of siblings that starts at \<open>a\<close>, by the older-sibling links.\<close>

fun older :: "(u32 \<Rightarrow> task) \<Rightarrow> u32 \<Rightarrow> u32 list \<Rightarrow> bool" where
  "older t a [] \<longleftrightarrow> a = 0"
| "older t a (x # xs) \<longleftrightarrow> a = x \<and> x \<noteq> 0 \<and> older t (t_optr (t x)) xs"

text \<open>The same with the younger-sibling links pointing back.\<close>

fun siblings :: "(u32 \<Rightarrow> task) \<Rightarrow> u32 \<Rightarrow> u32 \<Rightarrow> u32 list \<Rightarrow> bool" where
  "siblings t y a [] \<longleftrightarrow> a = 0"
| "siblings t y a (x # xs) \<longleftrightarrow>
     a = x \<and> x \<noteq> 0 \<and> t_yptr (t x) = y \<and> siblings t x (t_optr (t x)) xs"

definition children :: "('h, 'a) sched_scheme \<Rightarrow> u32 \<Rightarrow> u32 list \<Rightarrow> bool" where
  "children s a cs \<longleftrightarrow> siblings (tasks s) 0 (t_cptr (tasks s a)) cs"

lemma siblings_older: "siblings t y a xs \<Longrightarrow> older t a xs"
  by (induction xs arbitrary: y a) auto

lemma older_cong:
  "(\<And>x. x \<in> set xs \<Longrightarrow> t_optr (t' x) = t_optr (t x)) \<Longrightarrow> older t' a xs = older t a xs"
  by (induction xs arbitrary: a) auto

lemma siblings_cong:
  "(\<And>x. x \<in> set xs \<Longrightarrow> t_optr (t' x) = t_optr (t x) \<and> t_yptr (t' x) = t_yptr (t x)) \<Longrightarrow>
   siblings t' y a xs = siblings t y a xs"
  by (induction xs arbitrary: a y) auto

section \<open>One round of the loop\<close>

text \<open>What changes of the family links only leave alone.\<close>

definition quiet :: "('h, 'a) sched_scheme \<Rightarrow> ('h, 'a) sched_scheme \<Rightarrow> bool" where
  "quiet s s' \<longleftrightarrow>
     links s' = links s \<and> pages s' = pages s \<and> npage s' = npage s \<and> nr_free s' = nr_free s \<and>
     mm_pgdir s' = mm_pgdir s \<and> current s' = current s \<and> idle_proc s' = idle_proc s \<and>
     init_proc s' = init_proc s \<and> nr_process s' = nr_process s \<and> next_pid s' = next_pid s \<and>
     if_flag s' = if_flag s \<and>
     (\<forall>a. t_pid (tasks s' a) = t_pid (tasks s a) \<and> t_state (tasks s' a) = t_state (tasks s a) \<and>
       t_mm (tasks s' a) = t_mm (tasks s a) \<and> t_wait_state (tasks s' a) = t_wait_state (tasks s a) \<and>
       t_exit_code (tasks s' a) = t_exit_code (tasks s a) \<and> t_context (tasks s' a) = t_context (tasks s a))"

lemma quiet_refl: "quiet s s"
  by (simp add: quiet_def)

lemma quiet_trans: "quiet s s' \<Longrightarrow> quiet s' s'' \<Longrightarrow> quiet s s''"
  by (simp add: quiet_def)

lemma quiet_upd:
  "quiet s s' \<Longrightarrow> quiet s (upd_task a (\<lambda>t. t\<lparr>t_cptr := v\<rparr>) s')"
  "quiet s s' \<Longrightarrow> quiet s (upd_task a (\<lambda>t. t\<lparr>t_optr := v\<rparr>) s')"
  "quiet s s' \<Longrightarrow> quiet s (upd_task a (\<lambda>t. t\<lparr>t_yptr := v\<rparr>) s')"
  "quiet s s' \<Longrightarrow> quiet s (upd_task a (\<lambda>t. t\<lparr>t_parent := v\<rparr>) s')"
  by (simp_all add: quiet_def sched_simps)

lemma quiet_if: "quiet s s1 \<Longrightarrow> quiet s s2 \<Longrightarrow> quiet s (if b then s1 else s2)"
  by simp

lemma reparent_step_quiet: "quiet s (reparent_step s)"
  unfolding reparent_step_def Let_def by (intro quiet_upd quiet_if quiet_refl)

lemma reparent_step_fields:
  assumes ci: "current s \<noteq> init_proc s" and p: "p = t_cptr (tasks s (current s))"
    "p \<noteq> current s" "p \<noteq> init_proc s" and y: "y = t_cptr (tasks s (init_proc s))" "y \<noteq> p"
  shows "t_cptr (tasks (reparent_step s) b) =
      (if b = init_proc s then p else if b = current s then t_optr (tasks s p) else t_cptr (tasks s b))"
    "t_optr (tasks (reparent_step s) b) = (if b = p then y else t_optr (tasks s b))"
    "t_yptr (tasks (reparent_step s) b) =
      (if y \<noteq> 0 \<and> b = y then p else if b = p then 0 else t_yptr (tasks s b))"
    "t_parent (tasks (reparent_step s) b) = (if b = p then init_proc s else t_parent (tasks s b))"
proof -
  obtain c i where c: "c = current s" and i: "i = init_proc s" by simp
  obtain s1 where s1: "s1 = upd_task c (\<lambda>t. t\<lparr>t_cptr := t_optr (tasks s p)\<rparr>) s" by simp
  obtain s2 where s2: "s2 = upd_task p (\<lambda>t. t\<lparr>t_yptr := 0\<rparr>) s1" by simp
  have y2: "t_cptr (tasks s2 i) = y"
    using ci p y by (simp add: s2 s1 c i sched_simps)
  obtain s3 where s3: "s3 = upd_task p (\<lambda>t. t\<lparr>t_optr := y\<rparr>) s2" by simp
  have y3: "t_cptr (tasks s3 i) = y" "t_optr (tasks s3 p) = y"
    using y2 p(3) i by (auto simp: s3 sched_simps)
  obtain s4 where s4: "s4 = (if y \<noteq> 0 then upd_task y (\<lambda>t. t\<lparr>t_yptr := p\<rparr>) s3 else s3)" by simp
  obtain s5 where s5: "s5 = upd_task p (\<lambda>t. t\<lparr>t_parent := i\<rparr>) s4" by simp
  have r: "reparent_step s = upd_task i (\<lambda>t. t\<lparr>t_cptr := p\<rparr>) s5"
    unfolding reparent_step_def Let_def
    by (simp only: c [symmetric] i [symmetric] p(1) [folded c, symmetric] s1 [symmetric] s2 [symmetric]
      y2 s3 [symmetric] y3 s4 [symmetric] s5 [symmetric])
  show "t_cptr (tasks (reparent_step s) b) =
      (if b = init_proc s then p else if b = current s then t_optr (tasks s p) else t_cptr (tasks s b))"
    using ci by (simp add: r s5 s4 s3 s2 s1 c i sched_simps)
  show "t_optr (tasks (reparent_step s) b) = (if b = p then y else t_optr (tasks s b))"
    by (simp add: r s5 s4 s3 s2 s1 c i sched_simps)
  show "t_yptr (tasks (reparent_step s) b) =
      (if y \<noteq> 0 \<and> b = y then p else if b = p then 0 else t_yptr (tasks s b))"
    using y(2) by (simp add: r s5 s4 s3 s2 s1 c i sched_simps)
  show "t_parent (tasks (reparent_step s) b) = (if b = p then init_proc s else t_parent (tasks s b))"
    by (simp add: r s5 s4 s3 s2 s1 c i sched_simps)
qed

lemma quiet_inv:
  assumes "sched_inv s ps H" "quiet s s'"
  shows "sched_inv s' ps H"
proof (rule sched_inv_same [OF assms(1)])
  show "current s' \<in> set ps" using assms by (simp add: sched_inv_def procs_live_def quiet_def)
  show "only_current_runs s' ps"
    using assms by (simp add: sched_inv_def only_current_runs_def quiet_def)
qed (use assms(2) in \<open>simp_all add: quiet_def\<close>)

text \<open>What every round and every wake-up keeps, the loop keeps.\<close>

lemma reparent_loop_keeps:
  assumes step: "\<And>s. P s \<Longrightarrow> P (reparent_step s)"
    and wake: "\<And>s a s'. P s \<Longrightarrow> wakeup_proc a s = Inr ((), s') \<Longrightarrow> P s'"
    and r: "reparent_loop s = Some r" "r = Inr ((), s')" "P s"
  shows "P s'"
proof -
  let ?P = "\<lambda>s r. \<forall>s'. r = Inr ((), s') \<longrightarrow> P s \<longrightarrow> P s'"
  have "?P s r"
  proof (rule reparent_loop.raw_induct [where P = ?P, OF _ r(1)], intro allI impI)
    fix loop s r s'
    assume IH: "\<And>x y. loop x = Some y \<Longrightarrow> ?P x y" and r: "r = Inr ((), s')" and p: "P s"
      and eq: "(let proc = t_cptr (tasks s (current s)) in
      if proc = 0 then Some (Inr ((), s))
      else
        let s = reparent_step s in
        if t_state (tasks s proc) = TASK_ZOMBIE \<and> t_wait_state (tasks s (init_proc s)) \<noteq> 0
        then (case wakeup_proc (init_proc s) s of Inl e \<Rightarrow> Some (Inl e) | Inr (_, s) \<Rightarrow> loop s)
        else loop s) = Some r"
    let ?p = "t_cptr (tasks s (current s))" and ?s1 = "reparent_step s"
    consider "?p = 0" | s2 where "P s2" "loop s2 = Some r"
    proof (cases "?p = 0")
      case False
      show ?thesis
      proof (cases "t_state (tasks ?s1 ?p) = TASK_ZOMBIE \<and> t_wait_state (tasks ?s1 (init_proc ?s1)) \<noteq> 0")
        case True
        then obtain s2 where "wakeup_proc (init_proc ?s1) ?s1 = Inr ((), s2)" "loop s2 = Some r"
          using eq False r by (cases "wakeup_proc (init_proc ?s1) ?s1") auto
        then show ?thesis using wake [OF step [OF p]] that(2) by blast
      next
        case cond: False
        then have "loop ?s1 = Some r" using eq False unfolding Let_def by (simp only: if_False if_not_P)
        then show ?thesis using step [OF p] that(2) by blast
      qed
    qed
    then show "P s'" using eq r p IH by cases auto
  qed
  then show ?thesis using r(2,3) by blast
qed

lemma reparent_loop_inv:
  assumes "reparent_loop s = Some (Inr ((), s'))" "sched_inv s ps H"
  shows "sched_inv s' ps H"
proof (rule reparent_loop_keeps [where P = "\<lambda>s. sched_inv s ps H", OF _ _ assms(1) refl assms(2)])
  show "sched_inv (reparent_step s) ps H" if "sched_inv s ps H" for s :: "('a, 'b) sched_scheme"
    by (rule quiet_inv [OF that reparent_step_quiet])
qed (rule wakeup_inv)

section \<open>The loop ends for every process but init\<close>

lemma reparent_loop_result:
  "older (tasks s) (t_cptr (tasks s (current s))) cs \<Longrightarrow>
   siblings (tasks s) 0 (t_cptr (tasks s (init_proc s))) is \<Longrightarrow>
   current s \<noteq> init_proc s \<Longrightarrow> t_wait_state (tasks s (init_proc s)) = 0 \<Longrightarrow>
   distinct (cs @ is) \<Longrightarrow> current s \<notin> set cs \<Longrightarrow> init_proc s \<notin> set cs \<Longrightarrow>
   \<exists>s'. reparent_loop s = Some (Inr ((), s')) \<and> quiet s s' \<and> t_cptr (tasks s' (current s)) = 0 \<and>
     siblings (tasks s') 0 (t_cptr (tasks s' (init_proc s))) (rev cs @ is) \<and>
     (\<forall>x. t_parent (tasks s' x) = (if x \<in> set cs then init_proc s else t_parent (tasks s x)))"
proof (induction cs arbitrary: s \<open>is\<close>)
  case Nil
  then show ?case by (subst reparent_loop.simps) (simp add: quiet_refl)
next
  case (Cons x xs)
  let ?s1 = "reparent_step s" and ?c = "current s" and ?i = "init_proc s"
  have x: "x = t_cptr (tasks s ?c)" "x \<noteq> 0" "older (tasks s) (t_optr (tasks s x)) xs"
    using Cons.prems(1) by simp_all
  have xc: "x \<noteq> ?c" "x \<noteq> ?i" "x \<notin> set xs" "x \<notin> set is" using Cons.prems(5-7) by auto
  obtain y where y: "y = t_cptr (tasks s ?i)" by simp
  have yx: "y \<noteq> x" using Cons.prems(2) xc(4) x(2) y by (cases "is") auto
  note f = reparent_step_fields [OF Cons.prems(3) x(1) xc(1,2) y yx]
  note q = reparent_step_quiet [of s]
  have e: "current ?s1 = ?c" "init_proc ?s1 = ?i" "t_wait_state (tasks ?s1 ?i) = 0"
    using q Cons.prems(4) by (simp_all add: quiet_def)
  have "older (tasks ?s1) (t_cptr (tasks ?s1 (current ?s1))) xs"
    using x(3) xc(3) Cons.prems(3) f(1,2) by (subst older_cong [of _ _ "tasks s"]) (auto simp: e)
  moreover have "siblings (tasks ?s1) 0 (t_cptr (tasks ?s1 (init_proc ?s1))) (x # is)"
  proof (cases "is")
    case Nil
    then have "y = 0" using Cons.prems(2) y by simp
    moreover have "t_cptr (tasks ?s1 ?i) = x" using f(1) [of ?i] by simp
    moreover have "t_optr (tasks ?s1 x) = y" "t_yptr (tasks ?s1 x) = 0"
      using f(2,3) [of x] yx by simp_all
    ultimately show ?thesis unfolding Nil e using x(2) by simp
  next
    case (Cons z zs)
    have z: "y = z" "z \<noteq> 0" "siblings (tasks s) z (t_optr (tasks s z)) zs"
      using Cons.prems(2) Cons y by auto
    have "z \<notin> set zs" "x \<noteq> z" "x \<notin> set zs" using Cons.prems(5) Cons by auto
    then have "siblings (tasks ?s1) z (t_optr (tasks ?s1 z)) zs"
      using z f(2,3) by (subst siblings_cong [of _ _ "tasks s"]) auto
    then show ?thesis using Cons z x(2) f \<open>x \<noteq> z\<close> by (simp add: e)
  qed
  ultimately obtain s' where s': "reparent_loop ?s1 = Some (Inr ((), s'))" "quiet ?s1 s'"
    "t_cptr (tasks s' ?c) = 0" "siblings (tasks s') 0 (t_cptr (tasks s' ?i)) (rev xs @ x # is)"
    "\<forall>z. t_parent (tasks s' z) = (if z \<in> set xs then ?i else t_parent (tasks ?s1 z))"
    using Cons.IH [of ?s1 "x # is"] Cons.prems xc by (auto simp: e)
  have "reparent_loop s = reparent_loop ?s1"
    using x e by (subst reparent_loop.simps) (simp add: Let_def)
  then show ?case
    using s' quiet_trans [OF q s'(2)] f(4) by auto
qed

section \<open>When init exits\<close>

text \<open>Init hands its first child to itself and finds it again in the next round.\<close>

lemma reparent_step_init:
  assumes "current s = init_proc s" and "t_cptr (tasks s (init_proc s)) \<noteq> 0"
  shows "t_cptr (tasks (reparent_step s) (init_proc s)) \<noteq> 0"
  using assms by (simp add: reparent_step_def Let_def upd_task_simps(1) del: upd_task_simps(2-))

lemma reparent_loop_init_diverges:
  assumes "current s = init_proc s" "t_cptr (tasks s (init_proc s)) \<noteq> 0"
    "t_wait_state (tasks s (init_proc s)) = 0"
  shows "reparent_loop s = None"
proof -
  let ?Q = "\<lambda>s. current s = init_proc s \<and> t_cptr (tasks s (init_proc s)) \<noteq> 0 \<and>
      t_wait_state (tasks s (init_proc s)) = 0"
  have "\<not> ?Q s" if "reparent_loop s = Some r" for r
  proof (rule reparent_loop.raw_induct [where P = "\<lambda>s r. \<not> ?Q s", OF _ that])
    fix loop s r
    assume IH: "\<And>x y. loop x = Some y \<Longrightarrow> \<not> ?Q x"
      and eq: "(let proc = t_cptr (tasks s (current s)) in
      if proc = 0 then Some (Inr ((), s))
      else
        let s = reparent_step s in
        if t_state (tasks s proc) = TASK_ZOMBIE \<and> t_wait_state (tasks s (init_proc s)) \<noteq> 0
        then (case wakeup_proc (init_proc s) s of Inl e \<Rightarrow> Some (Inl e) | Inr (_, s) \<Rightarrow> loop s)
        else loop s) = Some r"
    show "\<not> ?Q s"
    proof
      assume a: "?Q s"
      have q: "current (reparent_step s) = init_proc (reparent_step s)"
        "init_proc (reparent_step s) = init_proc s"
        "t_wait_state (tasks (reparent_step s) (init_proc s)) = 0"
        using reparent_step_quiet [of s] a by (simp_all add: quiet_def)
      have l: "loop (reparent_step s) = Some r" using eq a q by (simp add: Let_def)
      have "t_cptr (tasks (reparent_step s) (init_proc s)) \<noteq> 0"
        by (rule reparent_step_init) (use a in auto)
      then show False using IH [OF l] q by simp
    qed
  qed
  then show ?thesis using assms by (cases "reparent_loop s") auto
qed

section \<open>\<^verbatim>\<open>do_exit\<close>\<close>

text \<open>The state in which \<^verbatim>\<open>do_exit\<close> starts to look at the family: a zombie, interrupts off.\<close>

definition dying :: "u32 \<Rightarrow> ('h, 'a) sched_scheme \<Rightarrow> ('h, 'a) sched_scheme" where
  "dying code s =
     (upd_task (current s) (\<lambda>t. t\<lparr>t_exit_code := code\<rparr>)
       (upd_task (current s) (\<lambda>t. t\<lparr>t_state := TASK_ZOMBIE\<rparr>) s))\<lparr>if_flag := False\<rparr>"

definition wake_parent :: "u32 \<Rightarrow> ('h, 'a) sched_scheme \<Rightarrow> (unit \<times> ('h, 'a) sched_scheme) res" where
  "wake_parent code s =
     (if t_parent (tasks s (current s)) \<noteq> 0 \<and>
         t_wait_state (tasks s (t_parent (tasks s (current s)))) \<noteq> 0
      then wakeup_proc (t_parent (tasks s (current s))) (dying code s)
      else Inr ((), dying code s))"

definition adopt :: "('h, 'a) sched_scheme \<Rightarrow> (unit \<times> ('h, 'a) sched_scheme) res" where
  "adopt s = (if init_proc s \<noteq> 0 then bindE (returns (reparent_loop s)) (\<lambda>r. r) else Inr ((), s))"

lemma do_exit_stages:
  "do_exit syms code s =
     bindE (wake_parent code s) (\<lambda>(_, s1).
     bindE (adopt s1) (\<lambda>(_, s2).
     bindE (schedule syms (intr_restore (if_flag s) s2)) (\<lambda>(_, s3).
       if current s3 = current s then Inl Panicked else Inr ((), s3))))"
  by (simp add: do_exit_def dying_def wake_parent_def adopt_def Let_def intr_save_eq sched_simps)

lemma dying_inv:
  assumes inv: "sched_inv s ps H"
  shows "sched_inv (dying code s) ps H"
proof (rule sched_inv_same [OF inv])
  show "current (dying code s) \<in> set ps"
    using inv by (simp add: sched_inv_def procs_live_def dying_def sched_simps)
  show "only_current_runs (dying code s) ps"
    using inv by (simp add: sched_inv_def only_current_runs_def dying_def sched_simps)
qed (simp_all add: dying_def sched_simps)

lemma intr_restore_inv:
  assumes "sched_inv s ps H"
  shows "sched_inv (intr_restore b s) ps H"
proof (rule sched_inv_same [OF assms])
  show "current (intr_restore b s) \<in> set ps"
    using assms by (simp add: sched_inv_def procs_live_def sched_simps)
  show "only_current_runs (intr_restore b s) ps"
    using assms by (simp add: sched_inv_def only_current_runs_def sched_simps)
qed (simp_all add: sched_simps)

lemma do_exit_inv:
  assumes inv: "sched_inv s ps H" and r: "do_exit syms code s = Inr ((), s')"
  shows "sched_inv s' ps H"
proof -
  obtain s1 s2 where 1: "wake_parent code s = Inr ((), s1)" and 2: "adopt s1 = Inr ((), s2)"
    and 3: "schedule syms (intr_restore (if_flag s) s2) = Inr ((), s')"
    using r unfolding do_exit_stages by (auto simp: bindE_eq_Inr split: if_splits)
  have i1: "sched_inv s1 ps H"
    using 1 wakeup_inv [OF dying_inv [OF inv]] dying_inv [OF inv]
    by (auto simp: wake_parent_def split: if_splits)
  have i2: "sched_inv s2 ps H"
  proof (cases "init_proc s1 = 0")
    case False
    then have "reparent_loop s1 = Some (Inr ((), s2))"
      using 2 by (cases "reparent_loop s1") (auto simp: adopt_def)
    then show ?thesis using reparent_loop_inv [OF _ i1] by blast
  qed (use 2 i1 in \<open>simp add: adopt_def\<close>)
  show ?thesis
    using schedule_inv [OF intr_restore_inv [OF i2], of syms "if_flag s"] 3 by fastforce
qed

text \<open>What the exiting process may rely on: it is neither idle nor init, and nobody waits.\<close>

definition exit_ready :: "('h, 'a) sched_scheme \<Rightarrow> u32 list \<Rightarrow> u32 list \<Rightarrow> u32 list \<Rightarrow> bool" where
  "exit_ready s ps cs is \<longleftrightarrow>
     init_proc s \<in> set ps \<and> current s \<noteq> init_proc s \<and> current s \<noteq> idle_proc s \<and>
     t_parent (tasks s (current s)) \<in> insert 0 (set ps) \<and>
     (\<forall>a \<in> set ps. t_wait_state (tasks s a) = 0) \<and>
     children s (current s) cs \<and> children s (init_proc s) is \<and>
     distinct (cs @ is) \<and> current s \<notin> set cs \<and> init_proc s \<notin> set cs"

lemma do_exit_result:
  assumes inv: "sched_inv s ps H" and ready: "exit_ready s ps cs is"
  shows "\<exists>s'. do_exit syms code s = Inr ((), s') \<and> sched_inv s' ps H \<and>
    t_state (tasks s' (current s)) = TASK_ZOMBIE \<and> t_exit_code (tasks s' (current s)) = code \<and>
    current s' \<noteq> current s \<and> children s' (current s) [] \<and> children s' (init_proc s) (rev cs @ is) \<and>
    (\<forall>x \<in> set cs. t_parent (tasks s' x) = init_proc s)"
proof -
  let ?c = "current s" and ?i = "init_proc s" and ?d = "dying code s"
  have i0: "?i \<noteq> 0" using inv ready proc_nonzero by (auto simp: sched_inv_def exit_ready_def)
  have d: "current ?d = ?c" "init_proc ?d = ?i" "idle_proc ?d = idle_proc s"
    "t_state (tasks ?d ?c) = TASK_ZOMBIE" "t_exit_code (tasks ?d ?c) = code"
    by (simp_all add: dying_def sched_simps)
  have fam: "t_cptr (tasks ?d a) = t_cptr (tasks s a)" "t_optr (tasks ?d a) = t_optr (tasks s a)"
    "t_yptr (tasks ?d a) = t_yptr (tasks s a)" "t_wait_state (tasks ?d a) = t_wait_state (tasks s a)" for a
    by (simp_all add: dying_def sched_simps)
  have ch: "siblings (tasks ?d) y a xs = siblings (tasks s) y a xs" for y a xs
    by (rule siblings_cong) (simp add: fam)
  have "older (tasks ?d) (t_cptr (tasks ?d (current ?d))) cs"
    using ready ch siblings_older by (auto simp: exit_ready_def children_def d fam)
  moreover have "siblings (tasks ?d) 0 (t_cptr (tasks ?d (init_proc ?d))) is"
    using ready ch by (simp add: exit_ready_def children_def d fam)
  ultimately obtain s2 where s2: "reparent_loop ?d = Some (Inr ((), s2))" "quiet ?d s2"
    "t_cptr (tasks s2 ?c) = 0" "siblings (tasks s2) 0 (t_cptr (tasks s2 ?i)) (rev cs @ is)"
    "\<forall>x. t_parent (tasks s2 x) = (if x \<in> set cs then ?i else t_parent (tasks ?d x))"
    using reparent_loop_result [of ?d cs "is"] ready by (auto simp: exit_ready_def d fam)
  let ?s3 = "intr_restore (if_flag s) s2"
  have i3: "sched_inv ?s3 ps H"
    by (rule intr_restore_inv [OF quiet_inv [OF dying_inv [OF inv] s2(2)]])
  obtain s' where s': "schedule syms ?s3 = Inr ((), s')" "sched_inv s' ps H"
    "current s' = pick_next ?s3 ps" "links s' = links ?s3"
    "\<And>a. t_state (tasks s' a) =
       (if a = pick_next ?s3 ps \<and> a \<noteq> current ?s3 then TASK_RUNNING else t_state (tasks (demote ?s3) a))"
    "same_family ?s3 s'" "init_proc s' = init_proc ?s3"
    by (rule schedule_inv [OF i3, of syms]) blast
  have q: "current ?s3 = ?c" "idle_proc ?s3 = idle_proc s" "t_state (tasks ?s3 ?c) = TASK_ZOMBIE"
    "t_exit_code (tasks ?s3 ?c) = code"
    using s2(2) d by (simp_all add: quiet_def sched_simps)
  have z: "t_state (tasks (demote ?s3) ?c) = TASK_ZOMBIE" using q by (simp add: demote_task)
  have ne: "pick_next ?s3 ps \<noteq> ?c"
    using z ready q(2)
    by (auto simp: pick_next_def exit_ready_def find_Some_iff split: option.splits)
  have "wake_parent code s = Inr ((), ?d)"
    using ready by (auto simp: wake_parent_def exit_ready_def)
  moreover have "adopt ?d = Inr ((), s2)" using s2(1) i0 by (simp add: adopt_def d)
  ultimately have "do_exit syms code s = Inr ((), s')"
    using s'(1,3) ne by (simp add: do_exit_stages)
  moreover have "siblings (tasks s') y a xs = siblings (tasks s2) y a xs" for y a xs
    using s'(6) by (intro siblings_cong) (simp add: same_family_def sched_simps)
  ultimately show ?thesis
    using s' s2(3-5) ne z q
    by (simp add: children_def same_family_def sched_simps)
qed

end
