(* ===== verification/Sched_Boot.thy ===== *)
theory Sched_Boot
  imports Sched_Exit
begin

text \<open>
  \<^verbatim>\<open>sched_init\<close>: from empty tables it makes idle with pid 0 and forks init with pid 1,
  and the tables are well formed.
\<close>

section \<open>Empty tables\<close>

lemma hash_init_simps [sched_simps]:
  "pages (hash_init i k s) = pages s" "npage (hash_init i k s) = npage s"
  "nr_free (hash_init i k s) = nr_free s" "pmm.more (hash_init i k s) = pmm.more s"
  by (induction i k s rule: hash_init.induct) (simp_all add: page_simps)

lemma hash_init_links:
  "nxt (links (hash_init i k s)) x =
     (case x of HashHead h \<Rightarrow> if i \<le> h \<and> h < i + k then x else nxt (links s) x | _ \<Rightarrow> nxt (links s) x)"
  "prv (links (hash_init i k s)) x =
     (case x of HashHead h \<Rightarrow> if i \<le> h \<and> h < i + k then x else prv (links s) x | _ \<Rightarrow> prv (links s) x)"
  by (induction i k s rule: hash_init.induct)
    (auto simp: page_simps list_init_def Let_def split: lnode.splits)

definition empty_tables :: "('h, 'a) sched_scheme \<Rightarrow> ('h, 'a) sched_scheme" where
  "empty_tables s = hash_init 0 HASH_LIST_SIZE (upd_links (list_init ProcHead) s)"

lemma empty_tables_more: "pmm.more (empty_tables s) = pmm.more s"
  by (simp add: empty_tables_def sched_simps page_simps)

lemma empty_tables_lists: "proc_lists (empty_tables s) [] (\<lambda>_. [])"
proof -
  have "nxt (links (empty_tables s)) (HashHead h) = HashHead h"
    "prv (links (empty_tables s)) (HashHead h) = HashHead h" if "h < HASH_LIST_SIZE" for h
    using that by (simp_all add: empty_tables_def hash_init_links)
  moreover have "nxt (links (empty_tables s)) ProcHead = ProcHead"
    "prv (links (empty_tables s)) ProcHead = ProcHead"
    by (simp_all add: empty_tables_def hash_init_links page_simps list_init_def Let_def)
  ultimately show ?thesis by (simp add: proc_lists_def clist_def)
qed

lemma empty_tables_ff: "ff_inv (empty_tables s) = ff_inv s"
proof -
  have "nxt (links (empty_tables s)) x = nxt (links s) x \<and> prv (links (empty_tables s)) x = prv (links s) x"
    if "x = FreeHead \<or> (\<exists>p. x = PageLink p)" for x
    using that by (auto simp: empty_tables_def hash_init_links page_simps list_init_def Let_def)
  then have "clist (links (empty_tables s)) FreeHead (map block_link bs) = clist (links s) FreeHead (map block_link bs)" for bs
    by (intro clist_frame) auto
  then show ?thesis
    by (auto simp: ff_inv_def block_ok_def fun_eq_iff empty_tables_def sched_simps page_simps)
qed

section \<open>Idle\<close>

definition idle_task :: "symbols \<Rightarrow> task \<Rightarrow> task" where
  "idle_task syms t = (init_task t)\<lparr>t_pid := 0, t_state := TASK_RUNNABLE,
     t_kstack := sym_user_stack syms, t_mm := InitMm, t_name := ''idle''\<rparr>"

lemma idle_init_stages:
  assumes "alloc_proc s = Inr (a, upd_task a init_task s1)" "a \<noteq> 0"
  shows "\<exists>s'. idle_init syms s = Inr ((), s') \<and>
    links s' = list_add ProcHead (ListLink a) (list_add (HashHead (pid_hashfn 0)) (HashLink a) (links s1)) \<and>
    pages s' = pages s1 \<and> npage s' = npage s1 \<and> nr_free s' = nr_free s1 \<and> mm_pgdir s' = mm_pgdir s1 \<and>
    idle_proc s' = a \<and> init_proc s' = init_proc s1 \<and> current s' = a \<and>
    nr_process s' = nr_process s1 + 1 \<and> next_pid s' = next_pid s1 \<and> if_flag s' = if_flag s1 \<and>
    tasks s' = (tasks s1)(a := idle_task syms (tasks s1 a))"
  using assms
  by (simp add: idle_init_def Let_def hash_proc_def sched_simps page_simps mem_simps idle_task_def)

lemma idle_init_inv:
  assumes ok: "ff_ok s" "unat (npage s) \<le> KFRAMES" "ff_avail s \<noteq> {}"
    and pl: "proc_lists s [] (\<lambda>_. [])" and st: "next_pid s = 1" "nr_process s = 0" "mm_pgdir s \<noteq> 0"
  obtains a s' where "idle_init syms s = Inr ((), s')"
    "sched_inv s' [a] ((\<lambda>_. [])(pid_hashfn 0 := [a]))"
    "current s' = a" "idle_proc s' = a" "next_pid s' = 1" "if_flag s' = if_flag s"
    "tasks s' a = idle_task syms (tasks s a)" "card (ff_avail s) = Suc (card (ff_avail s'))"
    "ff_avail s' \<subseteq> ff_avail s"
proof -
  obtain p s1 where 1: "alloc_pages 1 s = Inr (Some p, s1)" "p \<in> ff_avail s" "ff_ok s1"
    "ff_avail s1 = ff_avail s - {p}" "ff_frame (ff_avail s) s s1"
    using alloc_page_some [OF ok(1,3)] by metis
  let ?a = "page2kva p"
  have p: "p < unat (npage s)" using 1(2) ff_avail_npage [OF ok(1)] by auto
  then have a0: "?a \<noteq> 0" using page2kva_nonzero ok(2) by simp
  have m1: "pmm.more s1 = pmm.more s" and np1: "npage s1 = npage s"
    using 1(5) by (simp_all add: ff_frame_def)
  note e1 = more_eq_sched [OF m1]
  have "alloc_proc s = Inr (?a, upd_task ?a init_task s1)"
    using 1(1) a0 by (simp add: alloc_proc_def kmalloc_def)
  from idle_init_stages [OF this a0, of syms] obtain s' where s': "idle_init syms s = Inr ((), s')"
    "links s' = list_add ProcHead (ListLink ?a) (list_add (HashHead (pid_hashfn 0)) (HashLink ?a) (links s1))"
    "pages s' = pages s1" "npage s' = npage s1" "nr_free s' = nr_free s1" "mm_pgdir s' = mm_pgdir s1"
    "idle_proc s' = ?a" "current s' = ?a" "nr_process s' = nr_process s1 + 1"
    "next_pid s' = next_pid s1" "if_flag s' = if_flag s1"
    "tasks s' = (tasks s1)(?a := idle_task syms (tasks s1 ?a))"
    by blast
  have pl1: "proc_lists s1 [] (\<lambda>_. [])"
    using pl ff_frame_links [OF 1(5)] by (simp add: proc_lists_def clist_def)
  have "?a \<notin> set []" by simp
  note fl = fork_links [OF pl1 this pid_hashfn_less s'(2)]
  have t: "t_pid (tasks s' ?a) = 0" "t_mm (tasks s' ?a) = InitMm" by (simp_all add: s'(12) idle_task_def)
  have "ff_inv s' = ff_inv s1"
    using fork_free_list [OF pl1 pid_hashfn_less s'(2)] s'(3-5)
    by (auto simp: ff_inv_def block_ok_def fun_eq_iff)
  then have ff: "ff_ok s' = ff_ok s1" "ff_avail s' = ff_avail s1" by (simp_all add: ff_ok_def ff_avail_def)
  let ?H = "(\<lambda>_. [])(pid_hashfn 0 := [?a])"
  have "proc_lists s' [?a] ?H" using fl t by (auto simp: proc_lists_def)
  moreover have "pids_ok s' [?a]" using s'(9,10) e1 st t by (simp add: pids_ok_def)
  moreover have "proc_frames s' [?a]"
    using ff s'(4) np1 ok(2) 1(3,4) p by (auto simp: proc_frames_def)
  moreover have "procs_live s' [?a]" using s'(6-8) e1 st t by (simp add: procs_live_def)
  moreover have "only_current_runs s' [?a]" using s'(8) by (simp add: only_current_runs_def)
  ultimately have "sched_inv s' [?a] ?H" by (simp add: sched_inv_def)
  moreover have "card (ff_avail s) = Suc (card (ff_avail s1))" "ff_avail s1 \<subseteq> ff_avail s"
    using card_Suc_Diff1 [OF ff.avail_finite [OF ok(1)] 1(2)] 1(4) by auto
  ultimately show ?thesis
    using s' e1 ff st by (intro that [of s' ?a]) simp_all
qed

section \<open>Init\<close>

lemma sched_init_result:
  assumes ok: "ff_ok s" "unat (npage s) \<le> KFRAMES" "2 \<le> card (ff_avail s)"
    and st: "next_pid s = 1" "nr_process s = 0" "mm_pgdir s \<noteq> 0"
  shows "\<exists>s' a b H. sched_init syms s = Inr ((), s') \<and> sched_inv s' [b, a] H \<and>
    current s' = a \<and> idle_proc s' = a \<and> init_proc s' = b \<and> a \<noteq> b \<and>
    t_pid (tasks s' a) = 0 \<and> t_pid (tasks s' b) = 1 \<and>
    t_state (tasks s' a) = TASK_RUNNABLE \<and> t_state (tasks s' b) = TASK_RUNNABLE \<and>
    t_parent (tasks s' b) = a \<and> t_cptr (tasks s' a) = b \<and> next_pid s' = 2 \<and> if_flag s' = if_flag s \<and>
    t_cptr (tasks s' b) = 0 \<and> t_wait_state (tasks s' a) = 0 \<and> t_wait_state (tasks s' b) = 0 \<and>
    card (ff_avail s) \<le> card (ff_avail s') + 3 \<and> ff_avail s' \<subseteq> ff_avail s \<and>
    ctx_eip (t_context (tasks s' b)) = sym_forkret syms \<and>
    tf_eip (tframes s' (ctx_esp (t_context (tasks s' b)))) = sym_init_main syms"
proof -
  let ?e = "empty_tables s"
  have ff: "ff_ok ?e = ff_ok s" "ff_avail ?e = ff_avail s"
    using empty_tables_ff [of s] by (simp_all add: ff_ok_def ff_avail_def)
  have np: "npage ?e = npage s" by (simp add: empty_tables_def sched_simps page_simps)
  note ee = more_eq_sched [OF empty_tables_more, of s]
  have ne: "ff_avail s \<noteq> {}" using ok(3) by auto
  obtain a s1 where 1: "idle_init syms ?e = Inr ((), s1)"
    "sched_inv s1 [a] ((\<lambda>_. [])(pid_hashfn 0 := [a]))"
    "current s1 = a" "idle_proc s1 = a" "next_pid s1 = 1" "if_flag s1 = if_flag ?e"
    "tasks s1 a = idle_task syms (tasks ?e a)" "card (ff_avail ?e) = Suc (card (ff_avail s1))"
    "ff_avail s1 \<subseteq> ff_avail ?e"
    using idle_init_inv [OF _ _ _ empty_tables_lists, of s syms] ok ne st ff np ee by metis
  have ne1: "ff_avail s1 \<noteq> {}" using 1(8) ok(3) ff by auto
  have np1: "unat (next_pid s1) + 1 < 2 ^ 32" using 1(5) by simp
  obtain b s2 where 2: "do_fork syms 0 0 (init_frame syms) s1 = Inr (next_pid s1, s2)"
    "sched_inv s2 [b, a] (((\<lambda>_. [])(pid_hashfn 0 := [a]))(pid_hashfn (next_pid s1) :=
       b # ((\<lambda>_. [])(pid_hashfn 0 := [a])) (pid_hashfn (next_pid s1))))"
    "b \<notin> set [a]" "fork_effect syms b 0 (init_frame syms) s1 s2"
    and old: "t_pid (tasks s2 a) = t_pid (tasks s1 a) \<and> t_state (tasks s2 a) = t_state (tasks s1 a) \<and>
      t_wait_state (tasks s2 a) = t_wait_state (tasks s1 a)"
    using do_fork_inv [OF 1(2) ne1 np1, of syms 0 0 "init_frame syms"] by (metis list.set_intros(1))
  let ?H = "((\<lambda>_. [])(pid_hashfn 0 := [a]))(pid_hashfn (next_pid s1) :=
       b # ((\<lambda>_. [])(pid_hashfn 0 := [a])) (pid_hashfn (next_pid s1)))"
  have fx: "t_pid (tasks s2 b) = 1" "t_state (tasks s2 b) = TASK_RUNNABLE" "t_parent (tasks s2 b) = a"
    "t_cptr (tasks s2 a) = b" "ctx_eip (t_context (tasks s2 b)) = sym_forkret syms"
    "tframes s2 (ctx_esp (t_context (tasks s2 b))) = child_frame 0 (init_frame syms)"
    "current s2 = a" "idle_proc s2 = a" "next_pid s2 = 2" "if_flag s2 = if_flag s1"
    "t_cptr (tasks s2 b) = 0" "t_wait_state (tasks s2 b) = 0"
    using 2(4) 1(3-5) by (simp_all add: fork_effect_def)
  have b0: "b \<noteq> 0" using 2(2) proc_nonzero [of s2 "[b, a]" b] by (simp add: sched_inv_def)
  have "find_proc 1 s2 = Inr b"
    using 2(2) fx(1) by (intro find_proc_member [of _ "[b, a]" ?H]) (simp_all add: sched_inv_def pids_ok_def)
  then have "sched_init syms s = Inr ((), upd_task b (\<lambda>t. t\<lparr>t_name := ''init''\<rparr>) (s2\<lparr>init_proc := b\<rparr>))"
    using 1(1) 2(1) 1(5) b0
    by (simp add: sched_init_def empty_tables_def init_proc_init_def Let_def)
  moreover have "sched_inv (upd_task b (\<lambda>t. t\<lparr>t_name := ''init''\<rparr>) (s2\<lparr>init_proc := b\<rparr>)) [b, a] ?H"
  proof (rule sched_inv_same [OF 2(2)])
    show "only_current_runs (upd_task b (\<lambda>t. t\<lparr>t_name := ''init''\<rparr>) (s2\<lparr>init_proc := b\<rparr>)) [b, a]"
      using 2(2) by (simp add: sched_inv_def only_current_runs_def sched_simps)
  qed (simp_all add: sched_simps fx)
  moreover have "t_pid (tasks s1 a) = 0" "t_state (tasks s1 a) = TASK_RUNNABLE"
    "t_wait_state (tasks s1 a) = 0"
    using 1(7) by (simp_all add: idle_task_def init_task_def)
  moreover have "card (ff_avail s) \<le> card (ff_avail s2) + 3" "ff_avail s2 \<subseteq> ff_avail s"
    using 1(8,9) ff(2) 2(4) by (auto simp: fork_effect_def)
  then have "card (ff_avail s) \<le> card (ff_avail (s2\<lparr>init_proc := b\<rparr>)) + 3"
    "ff_avail (s2\<lparr>init_proc := b\<rparr>) \<subseteq> ff_avail s"
    by (simp_all add: ff_avail_def ff_inv_def block_ok_def)
  moreover have "if_flag s1 = if_flag s" using 1(6) ee by simp
  ultimately show ?thesis
    using fx old 2(3)
    by (intro exI [of _ "upd_task b (\<lambda>t. t\<lparr>t_name := ''init''\<rparr>) (s2\<lparr>init_proc := b\<rparr>)"] exI [of _ a]
        exI [of _ b] exI [of _ ?H])
      (auto simp: sched_simps child_frame_def init_frame_def)
qed

end
