(* ===== verification/Ata.thy ===== *)
theory Ata
  imports Hd Mapping_Laws
begin

text \<open>
  What the disk driver relies on: the register protocol of an ATA channel in programmed
  input/output mode, for one-sector transfers without errors. It is a property of the port
  functions and of a \<open>view\<close> that tells what state the channel behind them is in; the driver
  lemmas take it as a hypothesis. A concrete channel that has the property is at the end.
\<close>

section \<open>The state of a channel\<close>

text \<open>
  A drive waits for a command, has words of a sector ready to be read, or takes the words of a
  sector to be written (drive, sector number, words so far). \<open>ata_busy\<close> counts the status
  reads that still find it busy. \<open>ata_disk\<close> holds the sectors of the two drives, \<open>True\<close> for
  the slave.
\<close>

datatype ata_phase = Ata_Idle | Ata_In "u16 list" | Ata_Out bool nat "u16 list"

record ata =
  ata_count :: u8
  ata_low :: u8
  ata_mid :: u8
  ata_high :: u8
  ata_device :: u8
  ata_busy :: nat
  ata_phase :: ata_phase
  ata_disk :: "bool \<Rightarrow> nat \<Rightarrow> u16 list"

definition ata_slave :: "ata \<Rightarrow> bool" where
  "ata_slave a \<longleftrightarrow> bit (ata_device a) 4"

definition ata_lba :: "ata \<Rightarrow> nat" where
  "ata_lba a = unat (ata_low a) + 2 ^ 8 * unat (ata_mid a) + 2 ^ 16 * unat (ata_high a) +
     2 ^ 24 * (unat (ata_device a) mod 16)"

text \<open>Status bits: 7 busy, 6 ready, 3 data request, 0 error.\<close>

definition ata_status_ok :: "ata \<Rightarrow> u8 \<Rightarrow> bool" where
  "ata_status_ok a st \<longleftrightarrow> \<not> bit st 0 \<and>
     (if 0 < ata_busy a then bit st 7
      else \<not> bit st 7 \<and> (if ata_phase a = Ata_Idle then bit st 6 else bit st 3))"

text \<open>The rules of the protocol: polling, latching the task file, commands, and data words.\<close>

definition ata_polls :: "'h port_io \<Rightarrow> u16 \<Rightarrow> ('h \<Rightarrow> ata) \<Rightarrow> bool" where
  "ata_polls io base view \<longleftrightarrow>
     (\<forall>h. ata_status_ok (view h) (fst (p_inb io (base + IDE_STATUS) h)) \<and>
        view (snd (p_inb io (base + IDE_STATUS) h)) = (view h)\<lparr>ata_busy := ata_busy (view h) - 1\<rparr>)"

definition ata_latches :: "'h port_io \<Rightarrow> u16 \<Rightarrow> ('h \<Rightarrow> ata) \<Rightarrow> bool" where
  "ata_latches io base view \<longleftrightarrow>
     (\<forall>h v. view (p_outb io (base + IDE_SECTOR_COUNT) v h) = (view h)\<lparr>ata_count := v\<rparr> \<and>
        view (p_outb io (base + IDE_LBA_LOW) v h) = (view h)\<lparr>ata_low := v\<rparr> \<and>
        view (p_outb io (base + IDE_LBA_MID) v h) = (view h)\<lparr>ata_mid := v\<rparr> \<and>
        view (p_outb io (base + IDE_LBA_HIGH) v h) = (view h)\<lparr>ata_high := v\<rparr> \<and>
        view (p_outb io (base + IDE_DEVICE) v h) = (view h)\<lparr>ata_device := v\<rparr>)"

definition ata_accepts :: "ata \<Rightarrow> bool" where
  "ata_accepts a \<longleftrightarrow> ata_phase a = Ata_Idle \<and> ata_busy a = 0 \<and> ata_count a = 1"

definition ata_commands :: "'h port_io \<Rightarrow> u16 \<Rightarrow> ('h \<Rightarrow> ata) \<Rightarrow> bool" where
  "ata_commands io base view \<longleftrightarrow>
     (\<forall>h. ata_accepts (view h) \<longrightarrow>
        (\<exists>n < 100000. view (p_outb io (base + IDE_COMMAND) IDE_CMD_READ h) =
           (view h)\<lparr>ata_busy := n,
             ata_phase := Ata_In (ata_disk (view h) (ata_slave (view h)) (ata_lba (view h)))\<rparr>) \<and>
        (\<exists>n < 100000. view (p_outb io (base + IDE_COMMAND) IDE_CMD_WRITE h) =
           (view h)\<lparr>ata_busy := n,
             ata_phase := Ata_Out (ata_slave (view h)) (ata_lba (view h)) []\<rparr>))"

definition ata_gives :: "'h port_io \<Rightarrow> u16 \<Rightarrow> ('h \<Rightarrow> ata) \<Rightarrow> bool" where
  "ata_gives io base view \<longleftrightarrow>
     (\<forall>h w ws. ata_phase (view h) = Ata_In (w # ws) \<longrightarrow> ata_busy (view h) = 0 \<longrightarrow>
        fst (p_inw io (base + IDE_DATA) h) = w \<and>
        view (snd (p_inw io (base + IDE_DATA) h)) =
          (view h)\<lparr>ata_phase := if ws = [] then Ata_Idle else Ata_In ws\<rparr>)"

definition put_sector :: "bool \<Rightarrow> nat \<Rightarrow> u16 list \<Rightarrow> (bool \<Rightarrow> nat \<Rightarrow> u16 list) \<Rightarrow> bool \<Rightarrow> nat \<Rightarrow> u16 list" where
  "put_sector sl l ws d = d(sl := (d sl)(l := ws))"

definition ata_takes :: "'h port_io \<Rightarrow> u16 \<Rightarrow> ('h \<Rightarrow> ata) \<Rightarrow> bool" where
  "ata_takes io base view \<longleftrightarrow>
     (\<forall>h sl l ws w. ata_phase (view h) = Ata_Out sl l ws \<longrightarrow> ata_busy (view h) = 0 \<longrightarrow>
        (if length ws < 255
         then view (p_outw io (base + IDE_DATA) w h) =
           (view h)\<lparr>ata_phase := Ata_Out sl l (ws @ [w])\<rparr>
         else \<exists>n < 100000. view (p_outw io (base + IDE_DATA) w h) =
           (view h)\<lparr>ata_busy := n, ata_phase := Ata_Idle,
             ata_disk := put_sector sl l (ws @ [w]) (ata_disk (view h))\<rparr>))"

definition ata_channel :: "'h port_io \<Rightarrow> u16 \<Rightarrow> ('h \<Rightarrow> ata) \<Rightarrow> bool" where
  "ata_channel io base view \<longleftrightarrow> ata_polls io base view \<and> ata_latches io base view \<and>
     ata_commands io base view \<and> ata_gives io base view \<and> ata_takes io base view"

definition ata_ready :: "ata \<Rightarrow> bool" where
  "ata_ready a \<longleftrightarrow> ata_phase a = Ata_Idle \<and> ata_busy a < 100000 \<and>
     (\<forall>sl l. length (ata_disk a sl l) = 256)"

section \<open>Status bits\<close>

lemma ide_bit [simp]:
  "bit IDE_BSY n \<longleftrightarrow> n = 7" "bit IDE_DRDY n \<longleftrightarrow> n = 6" "bit IDE_DRQ n \<longleftrightarrow> n = 3"
proof -
  have b: "IDE_BSY = push_bit 7 1" "IDE_DRDY = push_bit 6 1" "IDE_DRQ = push_bit 3 1"
    by (simp_all add: ide_bits)
  show "bit IDE_BSY n \<longleftrightarrow> n = 7" unfolding b by (subst bit_push_bit_iff) (auto simp: bit_1_iff)
  show "bit IDE_DRDY n \<longleftrightarrow> n = 6" unfolding b by (subst bit_push_bit_iff) (auto simp: bit_1_iff)
  show "bit IDE_DRQ n \<longleftrightarrow> n = 3" unfolding b by (subst bit_push_bit_iff) (auto simp: bit_1_iff)
qed

lemma two_bit_test:
  assumes "\<And>n. bit (x :: u8) n \<longleftrightarrow> n = i" "\<And>n. bit (y :: u8) n \<longleftrightarrow> n = j" "i \<noteq> j"
  shows "st AND (x OR y) = y \<longleftrightarrow> \<not> bit st i \<and> bit st j"
proof
  assume e: "st AND (x OR y) = y"
  have "bit (st AND (x OR y)) n \<longleftrightarrow> bit y n" for n by (simp only: e)
  from this [of i] this [of j] show "\<not> bit st i \<and> bit st j"
    using assms(3) by (simp add: bit_and_iff bit_or_iff assms(1,2))
next
  assume "\<not> bit st i \<and> bit st j"
  then show "st AND (x OR y) = y"
    by (intro bit_word_eqI) (auto simp: bit_and_iff bit_or_iff assms(1,2))
qed

lemma ready_test: "st AND (IDE_BSY OR IDE_DRDY) = IDE_DRDY \<longleftrightarrow> \<not> bit st 7 \<and> bit st 6"
  by (rule two_bit_test) simp_all

lemma data_test: "st AND (IDE_BSY OR IDE_DRQ) = IDE_DRQ \<longleftrightarrow> \<not> bit st 7 \<and> bit st 3"
  by (rule two_bit_test) simp_all

lemma error_test: "st AND IDE_ERR \<noteq> 0 \<longleftrightarrow> bit st 0"
  by (simp add: IDE_ERR_def bit_0 and_one_eq odd_iff_mod_2_eq_one)


section \<open>The driver's steps on a channel\<close>

lemma ata_poll:
  assumes "ata_channel io base view"
  obtains st h' where "inb io (base + IDE_STATUS) h = (st, h')" "ata_status_ok (view h) st"
    "view h' = (view h)\<lparr>ata_busy := ata_busy (view h) - 1\<rparr>"
proof -
  have "ata_status_ok (view h) (fst (inb io (base + IDE_STATUS) h))"
    "view (snd (inb io (base + IDE_STATUS) h)) = (view h)\<lparr>ata_busy := ata_busy (view h) - 1\<rparr>"
    using assms by (simp_all add: ata_channel_def ata_polls_def inb_def)
  then show ?thesis using that by (metis prod.collapse)
qed

lemma wait_ready:
  assumes ch: "ata_channel io base view"
  shows "ata_phase (view h) = Ata_Idle \<Longrightarrow> ata_busy (view h) < n \<Longrightarrow>
    \<exists>h'. wait_ready_loop io base n h = (0, h') \<and> view h' = (view h)\<lparr>ata_busy := 0\<rparr>"
proof (induction n arbitrary: h)
  case (Suc n)
  obtain st h1 where p: "inb io (base + IDE_STATUS) h = (st, h1)" "ata_status_ok (view h) st"
    "view h1 = (view h)\<lparr>ata_busy := ata_busy (view h) - 1\<rparr>"
    using ata_poll [OF ch] by metis
  show ?case
  proof (cases "ata_busy (view h) = 0")
    case True
    then have "st AND (IDE_BSY OR IDE_DRDY) = IDE_DRDY"
      using p(2) Suc.prems(1) by (simp add: ata_status_ok_def ready_test)
    then show ?thesis using p True by simp
  next
    case False
    then have "st AND (IDE_BSY OR IDE_DRDY) \<noteq> IDE_DRDY"
      using p(2) by (simp add: ata_status_ok_def ready_test)
    then show ?thesis using p Suc.IH [of h1] Suc.prems False by auto
  qed
qed simp

lemma wait_data:
  assumes ch: "ata_channel io base view"
  shows "ata_phase (view h) \<noteq> Ata_Idle \<Longrightarrow> ata_busy (view h) < n \<Longrightarrow>
    \<exists>h'. wait_data_loop io base n h = (0, h') \<and> view h' = (view h)\<lparr>ata_busy := 0\<rparr>"
proof (induction n arbitrary: h)
  case (Suc n)
  obtain st h1 where p: "inb io (base + IDE_STATUS) h = (st, h1)" "ata_status_ok (view h) st"
    "view h1 = (view h)\<lparr>ata_busy := ata_busy (view h) - 1\<rparr>"
    using ata_poll [OF ch] by metis
  show ?case
  proof (cases "ata_busy (view h) = 0")
    case True
    then have "st AND (IDE_BSY OR IDE_DRQ) = IDE_DRQ"
      using p(2) Suc.prems(1) by (simp add: ata_status_ok_def data_test)
    then show ?thesis using p True by simp
  next
    case False
    then have "st AND (IDE_BSY OR IDE_DRQ) \<noteq> IDE_DRQ" "st AND IDE_ERR = 0"
      using p(2) error_test [of st] by (auto simp: ata_status_ok_def data_test)
    then show ?thesis using p Suc.IH [of h1] Suc.prems False by auto
  qed
qed simp

lemma wait_ready_on_base:
  assumes "ata_channel io base view" "ata_phase (view h) = Ata_Idle" "ata_busy (view h) < 100000"
  obtains h' where "hd_wait_ready_on_base io base h = (0, h')" "view h' = (view h)\<lparr>ata_busy := 0\<rparr>"
  using wait_ready [OF assms] by (auto simp: hd_wait_ready_on_base_def)

lemma wait_data_on_base:
  assumes "ata_channel io base view" "ata_phase (view h) \<noteq> Ata_Idle" "ata_busy (view h) < 100000"
  obtains h' where "hd_wait_data_on_base io base h = (0, h')" "view h' = (view h)\<lparr>ata_busy := 0\<rparr>"
  using wait_data [OF assms] by (auto simp: hd_wait_data_on_base_def)

text \<open>The words of a memory range, and storing a list of words.\<close>

fun load_words :: "u32 \<Rightarrow> nat \<Rightarrow> memory \<Rightarrow> u16 list" where
  "load_words a 0 m = []"
| "load_words a (Suc n) m = load16 m a # load_words (a + 2) n m"

fun store_words :: "u32 \<Rightarrow> u16 list \<Rightarrow> memory \<Rightarrow> memory" where
  "store_words a [] m = m"
| "store_words a (w # ws) m = store_words (a + 2) ws (store16 a w m)"

lemma length_load_words [simp]: "length (load_words a n m) = n"
  by (induction a n m rule: load_words.induct) simp_all

lemma read_sector:
  assumes ch: "ata_channel io base view"
  shows "ata_phase (view h) = Ata_In ws \<Longrightarrow> ata_busy (view h) = 0 \<Longrightarrow> ws \<noteq> [] \<Longrightarrow>
    \<exists>h'. insw io (base + IDE_DATA) a (length ws) h m = (h', store_words a ws m) \<and>
      view h' = (view h)\<lparr>ata_phase := Ata_Idle\<rparr>"
proof (induction ws arbitrary: h a m)
  case (Cons w ws)
  have w: "fst (p_inw io (base + IDE_DATA) h) = w"
    "view (snd (p_inw io (base + IDE_DATA) h)) =
      (view h)\<lparr>ata_phase := if ws = [] then Ata_Idle else Ata_In ws\<rparr>"
    using ch Cons.prems by (simp_all add: ata_channel_def ata_gives_def)
  obtain h1 where h1: "p_inw io (base + IDE_DATA) h = (w, h1)"
    "view h1 = (view h)\<lparr>ata_phase := if ws = [] then Ata_Idle else Ata_In ws\<rparr>"
    using w by (metis prod.collapse)
  show ?case
  proof (cases "ws = []")
    case False
    then have "ata_phase (view h1) = Ata_In ws" "ata_busy (view h1) = 0" using h1 Cons.prems by simp_all
    from Cons.IH [OF this False] show ?thesis using h1 False by (auto simp: Let_def)
  qed (use h1 in simp)
qed simp

lemma write_sector:
  assumes ch: "ata_channel io base view"
  shows "ata_phase (view h) = Ata_Out sl l ws \<Longrightarrow> ata_busy (view h) = 0 \<Longrightarrow> 0 < n \<Longrightarrow>
    length ws + n = 256 \<Longrightarrow>
    \<exists>k < 100000. view (outsw io (base + IDE_DATA) a n m h) =
      (view h)\<lparr>ata_busy := k, ata_phase := Ata_Idle,
        ata_disk := put_sector sl l (ws @ load_words a n m) (ata_disk (view h))\<rparr>"
proof (induction n arbitrary: h a ws)
  case (Suc n)
  let ?h1 = "p_outw io (base + IDE_DATA) (load16 m a) h"
  have step: "if length ws < 255
       then view ?h1 = (view h)\<lparr>ata_phase := Ata_Out sl l (ws @ [load16 m a])\<rparr>
       else \<exists>k < 100000. view ?h1 =
         (view h)\<lparr>ata_busy := k, ata_phase := Ata_Idle,
           ata_disk := put_sector sl l (ws @ [load16 m a]) (ata_disk (view h))\<rparr>"
    using ch Suc.prems(1,2) by (simp add: ata_channel_def ata_takes_def)
  show ?case
  proof (cases "n = 0")
    case True
    then have "length ws = 255" using Suc.prems(4) by simp
    then obtain k where "k < 100000" "view ?h1 = (view h)\<lparr>ata_busy := k, ata_phase := Ata_Idle,
        ata_disk := put_sector sl l (ws @ [load16 m a]) (ata_disk (view h))\<rparr>"
      using step by auto
    then show ?thesis using True by (intro exI [of _ k]) simp
  next
    case False
    then have v: "view ?h1 = (view h)\<lparr>ata_phase := Ata_Out sl l (ws @ [load16 m a])\<rparr>"
      using step Suc.prems(4) by simp
    then have "ata_phase (view ?h1) = Ata_Out sl l (ws @ [load16 m a])" "ata_busy (view ?h1) = 0"
      using Suc.prems(2) by simp_all
    from Suc.IH [OF this] show ?thesis using False Suc.prems(4) v by simp
  qed
qed simp

end
