(* ===== verification/Hd_Laws.thy ===== *)
theory Hd_Laws
  imports Ata
begin

text \<open>
  What the driver does on a channel that follows the ATA protocol: a read copies the sectors
  into memory and changes nothing on the disk, a write stores the memory range in the sectors
  and changes no other sector.
\<close>

section \<open>The sector number in the task file\<close>

lemma unat_byte: "unat (ucast (x AND 0xFF) :: u8) = unat (x :: u32) mod 2 ^ 8"
proof -
  have "x AND 0xFF = x mod 256"
    by (simp add: take_bit_eq_mask [of 8 x, symmetric, unfolded mask_eq_exp_minus_1, simplified] take_bit_eq_mod)
  then show ?thesis by (simp add: unsigned_ucast_eq take_bit_eq_mod unat_mod_distrib)
qed

lemma unat_nibble: "unat (ucast (x AND 0x0F) :: u8) = unat (x :: u32) mod 2 ^ 4"
proof -
  have "x AND 0x0F = x mod 16"
    by (simp add: take_bit_eq_mask [of 4 x, symmetric, unfolded mask_eq_exp_minus_1, simplified] take_bit_eq_mod)
  then show ?thesis by (simp add: unsigned_ucast_eq take_bit_eq_mod unat_mod_distrib mod_mod_cancel)
qed

lemma unat_shifted: "unat (drop_bit n x :: u32) = unat x div 2 ^ n"
  unfolding unat_drop_bit_eq by (rule drop_bit_eq_div)

lemma split_bytes:
  assumes "a < 2 ^ 28"
  shows "a mod 2 ^ 8 + 2 ^ 8 * (a div 2 ^ 8 mod 2 ^ 8) + 2 ^ 16 * (a div 2 ^ 16 mod 2 ^ 8) +
    2 ^ 24 * (a div 2 ^ 24 mod 2 ^ 4) = (a :: nat)"
proof -
  have d: "a div 65536 = a div 256 div 256" "a div 16777216 = a div 256 div 256 div 256"
    by (simp_all add: div_mult2_eq [symmetric])
  have "a div 256 div 256 div 256 < 16" using assms by (simp add: div_mult2_eq [symmetric] less_mult_imp_div_less)
  then have m: "a div 256 div 256 div 256 mod 16 = a div 256 div 256 div 256" by simp
  have "a = 256 * (a div 256) + a mod 256"
    "a div 256 = 256 * (a div 256 div 256) + a div 256 mod 256"
    "a div 256 div 256 = 256 * (a div 256 div 256 div 256) + a div 256 div 256 mod 256"
    by simp_all
  moreover have "a mod 256 + 256 * (a div 256 mod 256) + 65536 * (a div 256 div 256 mod 256) +
      16777216 * (a div 256 div 256 div 256) = a"
    using calculation by linarith
  ultimately show ?thesis using m by (simp add: d)
qed

lemma drive_select_bits:
  assumes "unat (v :: u8) < 16"
  shows "bit (drive_select d OR v) 4 \<longleftrightarrow> d \<noteq> 0" and "unat (drive_select d OR v) mod 16 = unat v"
proof -
  have v: "take_bit 4 v = v"
    using assms by (simp add: take_bit_eq_mod word_unat_eq_iff unat_mod_distrib)
  have "\<not> bit v 4" using bit_take_bit_iff [of 4 v 4] v by simp
  moreover have "bit IDE_DEV_SLAVE 4" "\<not> bit IDE_DEV_MASTER 4"
    by (simp_all add: IDE_DEV_SLAVE_def IDE_DEV_MASTER_def bit_iff_odd_drop_bit)
  ultimately show "bit (drive_select d OR v) 4 \<longleftrightarrow> d \<noteq> 0"
    by (simp add: drive_select_def bit_or_iff)
  have "take_bit 4 (drive_select d) = 0"
    by (simp add: drive_select_def IDE_DEV_SLAVE_def IDE_DEV_MASTER_def)
  then have "take_bit 4 (drive_select d OR v) = v" using v by simp
  then have "unat (take_bit 4 (drive_select d OR v)) = unat v" by simp
  then show "unat (drive_select d OR v) mod 16 = unat v"
    by (simp add: unsigned_take_bit_eq take_bit_eq_mod unat_mod_distrib)
qed

section \<open>Commands\<close>

definition task_file :: "u8 \<Rightarrow> u32 \<Rightarrow> ata \<Rightarrow> ata" where
  "task_file drive lba a =
     a\<lparr>ata_count := 1, ata_low := ucast (lba AND 0xFF), ata_mid := ucast (drop_bit 8 lba AND 0xFF),
       ata_high := ucast (drop_bit 16 lba AND 0xFF),
       ata_device := drive_select drive OR ucast (drop_bit 24 lba AND 0x0F)\<rparr>"

lemma task_file_lba:
  assumes "unat lba < 2 ^ 28"
  shows "ata_lba (task_file drive lba a) = unat lba" "ata_slave (task_file drive lba a) \<longleftrightarrow> drive \<noteq> 0"
proof -
  have n: "unat (ucast (drop_bit 24 lba AND 0x0F) :: u8) = unat lba div 2 ^ 24 mod 2 ^ 4"
    by (simp only: unat_nibble unat_shifted)
  then have "unat (ucast (drop_bit 24 lba AND 0x0F) :: u8) < 16" by simp
  note b = drive_select_bits [OF this]
  show "ata_slave (task_file drive lba a) \<longleftrightarrow> drive \<noteq> 0"
    using b(1) by (simp add: ata_slave_def task_file_def)
  have f: "ata_low (task_file drive lba a) = ucast (lba AND 0xFF)"
    "ata_mid (task_file drive lba a) = ucast (drop_bit 8 lba AND 0xFF)"
    "ata_high (task_file drive lba a) = ucast (drop_bit 16 lba AND 0xFF)"
    "ata_device (task_file drive lba a) = drive_select drive OR ucast (drop_bit 24 lba AND 0x0F)"
    by (simp_all add: task_file_def)
  show "ata_lba (task_file drive lba a) = unat lba"
    using split_bytes [OF assms]
    by (simp only: ata_lba_def f unat_byte unat_shifted b(2) n)
qed

lemma task_file_simps [simp]:
  "ata_phase (task_file d l a) = ata_phase a" "ata_busy (task_file d l a) = ata_busy a"
  "ata_disk (task_file d l a) = ata_disk a" "ata_count (task_file d l a) = 1"
  by (simp_all add: task_file_def)

lemma send_command_view:
  assumes ch: "ata_channel io base view" and idle: "ata_phase (view h) = Ata_Idle" "ata_busy (view h) = 0"
    and lba: "unat lba < 2 ^ 28"
  shows "\<exists>n < 100000. view (send_command io base (drive_select d) lba IDE_CMD_READ h) =
      (task_file d lba (view h))\<lparr>ata_busy := n,
        ata_phase := Ata_In (ata_disk (view h) (d \<noteq> 0) (unat lba))\<rparr>"
    and "\<exists>n < 100000. view (send_command io base (drive_select d) lba IDE_CMD_WRITE h) =
      (task_file d lba (view h))\<lparr>ata_busy := n, ata_phase := Ata_Out (d \<noteq> 0) (unat lba) []\<rparr>"
proof -
  obtain h1 where h1: "h1 = outb io (base + IDE_DEVICE) (drive_select d OR ucast (drop_bit 24 lba AND 0x0F))
    (outb io (base + IDE_LBA_HIGH) (ucast (drop_bit 16 lba AND 0xFF))
    (outb io (base + IDE_LBA_MID) (ucast (drop_bit 8 lba AND 0xFF))
    (outb io (base + IDE_LBA_LOW) (ucast (lba AND 0xFF)) (outb io (base + IDE_SECTOR_COUNT) 1 h))))"
    by simp
  have "ata_latches io base view" using ch by (simp add: ata_channel_def)
  then have v: "view h1 = task_file d lba (view h)"
    unfolding h1 outb_def ata_latches_def task_file_def by (simp only: )
  have s: "send_command io base (drive_select d) lba cmd h = p_outb io (base + IDE_COMMAND) cmd h1" for cmd
    by (simp add: send_command_def h1 outb_def Let_def)
  have "ata_accepts (view h1)" using idle by (simp add: v ata_accepts_def)
  then have c: "(\<exists>n < 100000. view (p_outb io (base + IDE_COMMAND) IDE_CMD_READ h1) =
        (view h1)\<lparr>ata_busy := n,
          ata_phase := Ata_In (ata_disk (view h1) (ata_slave (view h1)) (ata_lba (view h1)))\<rparr>) \<and>
      (\<exists>n < 100000. view (p_outb io (base + IDE_COMMAND) IDE_CMD_WRITE h1) =
        (view h1)\<lparr>ata_busy := n, ata_phase := Ata_Out (ata_slave (view h1)) (ata_lba (view h1)) []\<rparr>)"
    using ch unfolding ata_channel_def ata_commands_def by blast
  show "\<exists>n < 100000. view (send_command io base (drive_select d) lba IDE_CMD_READ h) =
      (task_file d lba (view h))\<lparr>ata_busy := n,
        ata_phase := Ata_In (ata_disk (view h) (d \<noteq> 0) (unat lba))\<rparr>"
    using c [THEN conjunct1] by (simp only: s v task_file_lba [OF lba] task_file_simps)
  show "\<exists>n < 100000. view (send_command io base (drive_select d) lba IDE_CMD_WRITE h) =
      (task_file d lba (view h))\<lparr>ata_busy := n, ata_phase := Ata_Out (d \<noteq> 0) (unat lba) []\<rparr>"
    using c [THEN conjunct2] by (simp only: s v task_file_lba [OF lba] task_file_simps)
qed

section \<open>Words in memory\<close>

lemma load_words_append:
  "load_words a (m + n) M = load_words a m M @ load_words (a + 2 * of_nat m) n M"
  by (induction m arbitrary: a) (simp_all add: algebra_simps)

lemma store_words_append:
  "store_words a (xs @ ys) M = store_words (a + 2 * of_nat (length xs)) ys (store_words a xs M)"
  by (induction xs arbitrary: a M) (simp_all add: algebra_simps)

text \<open>The sectors from \<open>l\<close> on, as one list of words.\<close>

definition sector_words :: "(nat \<Rightarrow> u16 list) \<Rightarrow> nat \<Rightarrow> nat \<Rightarrow> u16 list" where
  "sector_words d l n = concat (map d [l..<l + n])"

lemma sector_words_Suc: "sector_words d l (Suc n) = d l @ sector_words d (Suc l) n"
  unfolding sector_words_def by (subst upt_conv_Cons) simp_all

section \<open>The transfer loops\<close>

lemma read_loop_result:
  assumes ch: "ata_channel io base view"
  shows "ata_ready (view h) \<Longrightarrow> unat secno + unat i + n \<le> 2 ^ 28 \<Longrightarrow>
    \<exists>h'. read_loop io base (drive_select d) secno dst i n h m =
        (0, h', store_words (dst + i * SECTOR_SIZE)
          (sector_words (ata_disk (view h) (d \<noteq> 0)) (unat secno + unat i) n) m) \<and>
      ata_ready (view h') \<and> ata_disk (view h') = ata_disk (view h)"
proof (induction n arbitrary: h i m)
  case 0
  then show ?case by (simp add: sector_words_def)
next
  case (Suc n)
  have rd: "ata_phase (view h) = Ata_Idle" "ata_busy (view h) < 100000"
    "\<And>sl l. length (ata_disk (view h) sl l) = 256"
    using Suc.prems(1) by (simp_all add: ata_ready_def)
  obtain h1 where h1: "hd_wait_ready_on_base io base h = (0, h1)" "view h1 = (view h)\<lparr>ata_busy := 0\<rparr>"
    using wait_ready_on_base [OF ch rd(1,2)] by metis
  have lba: "unat (secno + i) = unat secno + unat i" "unat (secno + i) < 2 ^ 28"
    using Suc.prems(2) unat_add_small [of secno i] by simp_all
  have idle: "ata_phase (view h1) = Ata_Idle" "ata_busy (view h1) = 0" using h1 rd by simp_all
  let ?h2 = "send_command io base (drive_select d) (secno + i) IDE_CMD_READ h1"
  let ?ws = "ata_disk (view h) (d \<noteq> 0) (unat secno + unat i)"
  obtain k where k: "k < 100000" "view ?h2 = (task_file d (secno + i) (view h1))\<lparr>ata_busy := k,
      ata_phase := Ata_In ?ws\<rparr>"
    using send_command_view(1) [OF ch idle lba(2), of d] h1(2) lba(1) by auto
  have "ata_phase (view ?h2) \<noteq> Ata_Idle" "ata_busy (view ?h2) < 100000" using k by simp_all
  then obtain h3 where h3: "hd_wait_data_on_base io base ?h2 = (0, h3)" "view h3 = (view ?h2)\<lparr>ata_busy := 0\<rparr>"
    using wait_data_on_base [OF ch] by metis
  have in3: "ata_phase (view h3) = Ata_In ?ws" "ata_busy (view h3) = 0" "?ws \<noteq> []" "length ?ws = 256"
    using h3(2) k(2) rd(3) [of "d \<noteq> 0" "unat secno + unat i"] by auto
  obtain h4 where h4: "insw io (base + IDE_DATA) (dst + i * SECTOR_SIZE) 256 h3 m =
      (h4, store_words (dst + i * SECTOR_SIZE) ?ws m)" "view h4 = (view h3)\<lparr>ata_phase := Ata_Idle\<rparr>"
    using read_sector [OF ch in3(1-3)] in3(4) by metis
  have dk: "ata_disk (view h4) = ata_disk (view h)" using h4(2) h3(2) k(2) h1(2) by simp
  have r4: "ata_ready (view h4)" using h4(2) in3(2) rd(3) dk by (simp add: ata_ready_def)
  have i1: "unat (i + 1) = unat i + 1" using Suc.prems(2) unat_add_small [of i 1] by simp
  obtain h' where h': "read_loop io base (drive_select d) secno dst (i + 1) n h4
      (store_words (dst + i * SECTOR_SIZE) ?ws m) =
      (0, h', store_words (dst + (i + 1) * SECTOR_SIZE)
        (sector_words (ata_disk (view h4) (d \<noteq> 0)) (unat secno + unat (i + 1)) n)
        (store_words (dst + i * SECTOR_SIZE) ?ws m))"
    "ata_ready (view h')" "ata_disk (view h') = ata_disk (view h4)"
    using Suc.IH [OF r4, of "i + 1" "store_words (dst + i * SECTOR_SIZE) ?ws m"] Suc.prems(2) i1 by auto
  have ad: "dst + (i + 1) * SECTOR_SIZE = dst + i * SECTOR_SIZE + 2 * of_nat (length ?ws)"
    using in3(4) by (simp add: SECTOR_SIZE_def algebra_simps)
  have "store_words (dst + (i + 1) * SECTOR_SIZE)
        (sector_words (ata_disk (view h4) (d \<noteq> 0)) (unat secno + unat (i + 1)) n)
        (store_words (dst + i * SECTOR_SIZE) ?ws m) =
      store_words (dst + i * SECTOR_SIZE)
        (sector_words (ata_disk (view h) (d \<noteq> 0)) (unat secno + unat i) (Suc n)) m"
    unfolding sector_words_Suc store_words_append ad dk i1 by simp
  then show ?case using h1(1) h3(1) h4(1) h'(1-3) dk by simp
qed

text \<open>Sectors \<open>l\<close> to \<open>l + n - 1\<close> of one drive take the memory from \<open>src\<close> on.\<close>

definition put_sectors ::
  "bool \<Rightarrow> nat \<Rightarrow> nat \<Rightarrow> u32 \<Rightarrow> memory \<Rightarrow> (bool \<Rightarrow> nat \<Rightarrow> u16 list) \<Rightarrow> bool \<Rightarrow> nat \<Rightarrow> u16 list" where
  "put_sectors sl l n src m d = (\<lambda>s k.
     if s = sl \<and> l \<le> k \<and> k < l + n then load_words (src + of_nat (k - l) * SECTOR_SIZE) 256 m
     else d s k)"

lemma put_sectors_Suc:
  "put_sectors sl (Suc l) n (src + SECTOR_SIZE) m (put_sector sl l (load_words src 256 m) d) =
   put_sectors sl l (Suc n) src m d"
proof (intro ext)
  fix s k
  consider "k = l" | "k < l" | "l < k" by linarith
  then show "put_sectors sl (Suc l) n (src + SECTOR_SIZE) m (put_sector sl l (load_words src 256 m) d) s k =
      put_sectors sl l (Suc n) src m d s k"
  proof cases
    case 3
    then have e: "src + SECTOR_SIZE + of_nat (k - Suc l) * SECTOR_SIZE = src + of_nat (k - l) * SECTOR_SIZE"
      by (simp add: of_nat_diff algebra_simps)
    show ?thesis using 3 unfolding put_sectors_def e put_sector_def by simp
  qed (simp_all add: put_sectors_def put_sector_def)
qed

lemma put_sectors_0: "put_sectors sl l 0 src m d = d"
  unfolding put_sectors_def by (intro ext) auto

lemma write_loop_result:
  assumes ch: "ata_channel io base view"
  shows "ata_ready (view h) \<Longrightarrow> unat secno + unat i + n \<le> 2 ^ 28 \<Longrightarrow>
    \<exists>h'. write_loop io base (drive_select d) secno src i n m h = (0, h') \<and> ata_ready (view h') \<and>
      ata_disk (view h') =
        put_sectors (d \<noteq> 0) (unat secno + unat i) n (src + i * SECTOR_SIZE) m (ata_disk (view h))"
proof (induction n arbitrary: h i)
  case 0
  then show ?case by (simp add: put_sectors_0)
next
  case (Suc n)
  have rd: "ata_phase (view h) = Ata_Idle" "ata_busy (view h) < 100000"
    "\<And>sl l. length (ata_disk (view h) sl l) = 256"
    using Suc.prems(1) by (simp_all add: ata_ready_def)
  obtain h1 where h1: "hd_wait_ready_on_base io base h = (0, h1)" "view h1 = (view h)\<lparr>ata_busy := 0\<rparr>"
    using wait_ready_on_base [OF ch rd(1,2)] by metis
  have lba: "unat (secno + i) = unat secno + unat i" "unat (secno + i) < 2 ^ 28"
    using Suc.prems(2) unat_add_small [of secno i] by simp_all
  have idle: "ata_phase (view h1) = Ata_Idle" "ata_busy (view h1) = 0" using h1 rd by simp_all
  let ?h2 = "send_command io base (drive_select d) (secno + i) IDE_CMD_WRITE h1"
  let ?l = "unat secno + unat i"
  let ?a = "src + i * SECTOR_SIZE"
  obtain k where k: "k < 100000" "view ?h2 = (task_file d (secno + i) (view h1))\<lparr>ata_busy := k,
      ata_phase := Ata_Out (d \<noteq> 0) ?l []\<rparr>"
    using send_command_view(2) [OF ch idle lba(2), of d] lba(1) by auto
  have "ata_phase (view ?h2) \<noteq> Ata_Idle" "ata_busy (view ?h2) < 100000" using k by simp_all
  then obtain h3 where h3: "hd_wait_data_on_base io base ?h2 = (0, h3)" "view h3 = (view ?h2)\<lparr>ata_busy := 0\<rparr>"
    using wait_data_on_base [OF ch] by metis
  have out3: "ata_phase (view h3) = Ata_Out (d \<noteq> 0) ?l []" "ata_busy (view h3) = 0"
    "ata_disk (view h3) = ata_disk (view h)"
    using h3(2) k(2) h1(2) by simp_all
  let ?h4 = "outsw io (base + IDE_DATA) ?a 256 m h3"
  obtain j where j: "j < 100000" "view ?h4 = (view h3)\<lparr>ata_busy := j, ata_phase := Ata_Idle,
      ata_disk := put_sector (d \<noteq> 0) ?l (load_words ?a 256 m) (ata_disk (view h))\<rparr>"
    using write_sector [OF ch out3(1,2), of 256 ?a m] out3(3) by auto
  have "ata_phase (view ?h4) = Ata_Idle" "ata_busy (view ?h4) < 100000" using j by simp_all
  then obtain h5 where h5: "hd_wait_ready_on_base io base ?h4 = (0, h5)" "view h5 = (view ?h4)\<lparr>ata_busy := 0\<rparr>"
    using wait_ready_on_base [OF ch] by metis
  have dk: "ata_disk (view h5) = put_sector (d \<noteq> 0) ?l (load_words ?a 256 m) (ata_disk (view h))"
    using h5(2) j(2) by simp
  have r5: "ata_ready (view h5)"
    using h5(2) j(2) rd(3) by (simp add: ata_ready_def put_sector_def)
  have i1: "unat (i + 1) = unat i + 1" using Suc.prems(2) unat_add_small [of i 1] by simp
  obtain h' where h': "write_loop io base (drive_select d) secno src (i + 1) n m h5 = (0, h')"
    "ata_ready (view h')" "ata_disk (view h') = put_sectors (d \<noteq> 0) (unat secno + unat (i + 1)) n
      (src + (i + 1) * SECTOR_SIZE) m (ata_disk (view h5))"
    using Suc.IH [OF r5, of "i + 1"] Suc.prems(2) i1 by auto
  have ad: "src + (i + 1) * SECTOR_SIZE = ?a + SECTOR_SIZE" by (simp add: algebra_simps)
  have "ata_disk (view h') = put_sectors (d \<noteq> 0) ?l (Suc n) ?a m (ata_disk (view h))"
    unfolding h'(3) dk i1 ad using put_sectors_Suc [of "d \<noteq> 0" ?l n ?a m "ata_disk (view h)"] by simp
  then show ?case using h1(1) h3(1) h5(1) h'(1,2) by simp
qed

text \<open>What was put in the sectors is what they hold; the others are untouched.\<close>

lemma sector_words_put:
  "sector_words (put_sectors sl l n src m d sl) l n = load_words src (256 * n) m"
proof (induction n arbitrary: l src d)
  case 0
  then show ?case by (simp add: sector_words_def)
next
  case (Suc n)
  have "sector_words (put_sectors sl l (Suc n) src m d sl) (Suc l) n = load_words (src + SECTOR_SIZE) (256 * n) m"
    using Suc.IH [of "Suc l" "src + SECTOR_SIZE" "put_sector sl l (load_words src 256 m) d"]
    by (simp only: put_sectors_Suc)
  moreover have "put_sectors sl l (Suc n) src m d sl l = load_words src 256 m"
    by (simp add: put_sectors_def)
  moreover have "load_words src (256 * Suc n) m = load_words src 256 m @ load_words (src + SECTOR_SIZE) (256 * n) m"
    using load_words_append [of src 256 "256 * n" m] by (simp add: SECTOR_SIZE_def)
  ultimately show ?case by (simp add: sector_words_Suc)
qed

lemma sector_words_put_other:
  assumes "s \<noteq> sl \<or> l' + n' \<le> l \<or> l + n \<le> l'"
  shows "sector_words (put_sectors sl l n src m d s) l' n' = sector_words (d s) l' n'"
  unfolding sector_words_def by (rule arg_cong [where f = concat], rule map_cong)
    (use assms in \<open>auto simp: put_sectors_def\<close>)

lemma length_sector_words:
  "(\<And>l. length (d l) = 256) \<Longrightarrow> length (sector_words d l n) = 256 * n"
  by (induction n arbitrary: l) (simp_all add: sector_words_Suc, simp add: sector_words_def)

text \<open>A stored range reads back, and the memory outside it is untouched.\<close>

lemma store16_other: "x \<noteq> a \<Longrightarrow> x \<noteq> a + 1 \<Longrightarrow> store16 a w m x = m x"
  by (simp add: store16_def)

lemma load16_store16: "load16 (store16 a w m) a = w"
proof (rule bit_word_eqI)
  fix n
  assume "n < LENGTH(16)"
  moreover have "store16 a w m a = ucast w" "store16 a w m (a + 1) = ucast (drop_bit 8 w)"
    by (simp_all add: store16_def)
  ultimately show "bit (load16 (store16 a w m) a) n = bit w n"
    by (auto simp: load16_def bit_or_iff bit_push_bit_iff bit_ucast_iff bit_drop_bit_eq)
qed

lemma store_words_other:
  "(\<And>i. i < 2 * length ws \<Longrightarrow> x \<noteq> a + of_nat i) \<Longrightarrow> store_words a ws m x = m x"
proof (induction ws arbitrary: a m)
  case (Cons w ws)
  have "x \<noteq> a + 2 + of_nat i" if "i < 2 * length ws" for i
    using Cons.prems [of "i + 2"] that by (simp add: add.assoc)
  then have "store_words (a + 2) ws (store16 a w m) x = store16 a w m x" by (rule Cons.IH)
  then show ?case using Cons.prems [of 0] Cons.prems [of 1] by (simp add: store16_other)
qed simp

lemma of_nat_u32_small: "n < 2 ^ 32 \<Longrightarrow> (of_nat n :: u32) = 0 \<longleftrightarrow> n = 0"
proof -
  assume "n < 2 ^ 32"
  then have "unat (of_nat n :: u32) = n" by (simp add: unat_of_nat)
  then show ?thesis by auto
qed

lemma load_store_words:
  "2 * length ws \<le> 2 ^ 32 \<Longrightarrow> load_words a (length ws) (store_words a ws m) = ws"
proof (induction ws arbitrary: a m)
  case (Cons w ws)
  let ?m = "store_words (a + 2) ws (store16 a w m)"
  have ne: "a \<noteq> a + 2 + of_nat i" "a + 1 \<noteq> a + 2 + of_nat i" if "i < 2 * length ws" for i
  proof -
    have "(of_nat (i + 2) :: u32) \<noteq> 0" "(of_nat (i + 1) :: u32) \<noteq> 0"
      by (subst of_nat_u32_small, use that Cons.prems in simp, simp)+
    then show "a \<noteq> a + 2 + of_nat i" "a + 1 \<noteq> a + 2 + of_nat i"
      by (auto simp: algebra_simps)
  qed
  have "?m a = store16 a w m a" "?m (a + 1) = store16 a w m (a + 1)"
    by (rule store_words_other, rule ne, assumption)+
  then have "load16 ?m a = load16 (store16 a w m) a" by (simp add: load16_def)
  then show ?case using Cons.IH [of "a + 2"] Cons.prems by (simp add: load16_store16)
qed simp

lemma load16_bytes:
  assumes "load16 m a = load16 m' b"
  shows "m a = m' b" "m (a + 1) = m' (b + 1)"
proof -
  have b: "bit (load16 M c) n \<longleftrightarrow> (if n < 8 then bit (M c) n else n < 16 \<and> bit (M (c + 1)) (n - 8))" for M c n
    by (auto simp: load16_def bit_or_iff bit_push_bit_iff bit_ucast_iff dest: bit_imp_le_length)
  have e: "(if n < 8 then bit (m a) n else n < 16 \<and> bit (m (a + 1)) (n - 8)) \<longleftrightarrow>
      (if n < 8 then bit (m' b) n else n < 16 \<and> bit (m' (b + 1)) (n - 8))" for n
    using b [of m a n] b [of m' b n] by (simp only: assms)
  show "m a = m' b"
  proof (rule bit_word_eqI)
    fix n assume "n < LENGTH(8)"
    then show "bit (m a) n = bit (m' b) n" using e [of n] by simp
  qed
  show "m (a + 1) = m' (b + 1)"
  proof (rule bit_word_eqI)
    fix n assume "n < LENGTH(8)"
    then show "bit (m (a + 1)) n = bit (m' (b + 1)) n" using e [of "n + 8"] by simp
  qed
qed

lemma load_words_bytes:
  "load_words a n m = load_words b n m' \<Longrightarrow> i < 2 * n \<Longrightarrow> m (a + of_nat i) = m' (b + of_nat i)"
proof (induction n arbitrary: a b i)
  case (Suc n)
  have w: "load16 m a = load16 m' b" "load_words (a + 2) n m = load_words (b + 2) n m'"
    using Suc.prems(1) by simp_all
  consider "i = 0" | "i = 1" | "2 \<le> i" by linarith
  then show ?case
  proof cases
    case 3
    then have "i - 2 < 2 * n" "i = i - 2 + 2" using Suc.prems(2) by simp_all
    then obtain j where "j < 2 * n" "i = j + 2" by metis
    then show ?thesis using Suc.IH [OF w(2), of j] by (simp add: add.assoc)
  qed (use load16_bytes [OF w(1)] in simp_all)
qed simp

lemma load_words_cong:
  "(\<And>i. i < 2 * n \<Longrightarrow> m (a + of_nat i) = m' (a + of_nat i)) \<Longrightarrow> load_words a n m = load_words a n m'"
proof (induction n arbitrary: a)
  case (Suc n)
  have "load_words (a + 2) n m = load_words (a + 2) n m'"
  proof (rule Suc.IH)
    fix i assume "i < 2 * n"
    then show "m (a + 2 + of_nat i) = m' (a + 2 + of_nat i)"
      using Suc.prems [of "i + 2"] by (simp add: add.assoc)
  qed
  then show ?case using Suc.prems [of 0] Suc.prems [of 1] by (simp add: load16_def)
qed simp

section \<open>Reading and writing a device\<close>

definition hd_ok :: "'h port_io \<Rightarrow> ('h \<Rightarrow> ata) \<Rightarrow> nat \<Rightarrow> ('h, 'a) hd_scheme \<Rightarrow> bool" where
  "hd_ok io view dev s \<longleftrightarrow>
     ide_present (ide_devices s dev) \<and> ata_channel io (ide_base (ide_devices s dev)) view \<and>
     ata_ready (view (hw s)) \<and> di_size (ide_info (ide_devices s dev)) \<le> 2 ^ 28"

definition hd_sector :: "('h \<Rightarrow> ata) \<Rightarrow> nat \<Rightarrow> ('h, 'a) hd_scheme \<Rightarrow> nat \<Rightarrow> u16 list" where
  "hd_sector view dev s = ata_disk (view (hw s)) (ide_drive (ide_devices s dev) \<noteq> 0)"

definition hd_in_range :: "nat \<Rightarrow> u32 \<Rightarrow> u32 \<Rightarrow> ('h, 'a) hd_scheme \<Rightarrow> bool" where
  "hd_in_range dev secno n s \<longleftrightarrow> unat secno + unat n \<le> unat (di_size (ide_info (ide_devices s dev)))"

lemma hd_in_range_test:
  assumes "hd_in_range dev secno n s"
  shows "\<not> secno + n > di_size (ide_info (ide_devices s dev))"
proof -
  have "unat secno + unat n < 2 ^ 32"
    using assms unat_u32_less [of "di_size (ide_info (ide_devices s dev))"]
    by (simp add: hd_in_range_def del: unat_u32_less)
  then have "unat (secno + n) = unat secno + unat n" using unat_add_small [of secno n] by simp
  then show ?thesis using assms by (simp add: hd_in_range_def word_less_nat_alt)
qed

lemma hd_small:
  assumes "hd_ok io view dev s" "hd_in_range dev secno n s"
  shows "unat secno + unat n \<le> 2 ^ 28"
proof -
  have "unat (di_size (ide_info (ide_devices s dev))) \<le> unat (2 ^ 28 :: u32)"
    using assms(1) by (simp add: hd_ok_def word_le_nat_alt)
  then show ?thesis using assms(2) by (simp add: hd_in_range_def)
qed

lemma hd_read_device_result:
  assumes ok: "hd_ok io view dev s" and rg: "hd_in_range dev secno n s"
  obtains h' where "hd_read_device io dev secno dst n s =
      (0, s\<lparr>hw := h', mem := store_words dst (sector_words (hd_sector view dev s) (unat secno) (unat n)) (mem s)\<rparr>)"
    "ata_ready (view h')" "ata_disk (view h') = ata_disk (view (hw s))"
proof -
  let ?d = "ide_devices s dev"
  have a: "ide_present ?d" "ata_channel io (ide_base ?d) view" "ata_ready (view (hw s))"
    using ok by (simp_all add: hd_ok_def)
  have "unat secno + unat (0 :: u32) + unat n \<le> 2 ^ 28" using hd_small [OF ok rg] by simp
  from read_loop_result [OF a(2,3) this, of "ide_drive ?d" dst "mem s"]
  obtain h' where "read_loop io (ide_base ?d) (drive_select (ide_drive ?d)) secno dst 0 (unat n) (hw s) (mem s) =
      (0, h', store_words dst (sector_words (hd_sector view dev s) (unat secno) (unat n)) (mem s))"
    "ata_ready (view h')" "ata_disk (view h') = ata_disk (view (hw s))"
    by (auto simp: hd_sector_def)
  then show ?thesis using a(1) hd_in_range_test [OF rg] that by (simp add: hd_read_device_def)
qed

lemma hd_write_device_result:
  assumes ok: "hd_ok io view dev s" and rg: "hd_in_range dev secno n s"
  obtains h' where "hd_write_device io dev secno src n s = (0, s\<lparr>hw := h'\<rparr>)"
    "ata_ready (view h')"
    "ata_disk (view h') = put_sectors (ide_drive (ide_devices s dev) \<noteq> 0) (unat secno) (unat n) src (mem s)
       (ata_disk (view (hw s)))"
proof -
  let ?d = "ide_devices s dev"
  have a: "ide_present ?d" "ata_channel io (ide_base ?d) view" "ata_ready (view (hw s))"
    using ok by (simp_all add: hd_ok_def)
  have "unat secno + unat (0 :: u32) + unat n \<le> 2 ^ 28" using hd_small [OF ok rg] by simp
  from write_loop_result [OF a(2,3) this, of "ide_drive ?d" src "mem s"]
  obtain h' where "write_loop io (ide_base ?d) (drive_select (ide_drive ?d)) secno src 0 (unat n) (mem s) (hw s) =
      (0, h')" "ata_ready (view h')"
    "ata_disk (view h') = put_sectors (ide_drive ?d \<noteq> 0) (unat secno) (unat n) src (mem s) (ata_disk (view (hw s)))"
    by auto
  then show ?thesis using a(1) hd_in_range_test [OF rg] that by (simp add: hd_write_device_def)
qed

end
