(* ===== verification/Ata_Sim.thy ===== *)
theory Ata_Sim
  imports Hd_Laws
begin

text \<open>
  A concrete primary channel that obeys the ATA protocol, so that the statements of the disk
  driver and of the swapping code apply to something: the hardware is the state of the channel
  itself, every command keeps it busy for three status reads, and both drives answer
  \<^verbatim>\<open>IDENTIFY\<close>. Other ports read as zero and ignore writes.
\<close>

definition sim_status :: "ata \<Rightarrow> u8" where
  "sim_status a = (if 0 < ata_busy a then 0x80 else if ata_phase a = Ata_Idle then 0x40 else 0x48)"

definition sim_inb :: "u16 \<Rightarrow> ata \<Rightarrow> u8 \<times> ata" where
  "sim_inb port a =
     (if port = IDE0_BASE + IDE_STATUS then (sim_status a, a\<lparr>ata_busy := ata_busy a - 1\<rparr>) else (0, a))"

definition sim_inw :: "u16 \<Rightarrow> ata \<Rightarrow> u16 \<times> ata" where
  "sim_inw port a =
     (case ata_phase a of
        Ata_In (w # ws) \<Rightarrow> (w, a\<lparr>ata_phase := if ws = [] then Ata_Idle else Ata_In ws\<rparr>)
      | _ \<Rightarrow> (0, a))"

text \<open>Both drives report 16384 sectors.\<close>

definition sim_identify :: "u16 list" where
  "sim_identify = (replicate 256 0)[60 := 0x4000]"

definition sim_command :: "u8 \<Rightarrow> ata \<Rightarrow> ata" where
  "sim_command c a =
     (if c = IDE_CMD_READ then a\<lparr>ata_busy := 3, ata_phase := Ata_In (ata_disk a (ata_slave a) (ata_lba a))\<rparr>
      else if c = IDE_CMD_WRITE then a\<lparr>ata_busy := 3, ata_phase := Ata_Out (ata_slave a) (ata_lba a) []\<rparr>
      else if c = IDE_CMD_IDENTIFY then a\<lparr>ata_busy := 3, ata_phase := Ata_In sim_identify\<rparr>
      else a)"

definition sim_outb :: "u16 \<Rightarrow> u8 \<Rightarrow> ata \<Rightarrow> ata" where
  "sim_outb port v a =
     (if port = IDE0_BASE + IDE_SECTOR_COUNT then a\<lparr>ata_count := v\<rparr>
      else if port = IDE0_BASE + IDE_LBA_LOW then a\<lparr>ata_low := v\<rparr>
      else if port = IDE0_BASE + IDE_LBA_MID then a\<lparr>ata_mid := v\<rparr>
      else if port = IDE0_BASE + IDE_LBA_HIGH then a\<lparr>ata_high := v\<rparr>
      else if port = IDE0_BASE + IDE_DEVICE then a\<lparr>ata_device := v\<rparr>
      else if port = IDE0_BASE + IDE_COMMAND then sim_command v a
      else a)"

definition sim_outw :: "u16 \<Rightarrow> u16 \<Rightarrow> ata \<Rightarrow> ata" where
  "sim_outw port w a =
     (case ata_phase a of
        Ata_Out sl l ws \<Rightarrow>
          if length ws < 255 then a\<lparr>ata_phase := Ata_Out sl l (ws @ [w])\<rparr>
          else a\<lparr>ata_busy := 3, ata_phase := Ata_Idle,
            ata_disk := put_sector sl l (ws @ [w]) (ata_disk a)\<rparr>
      | _ \<Rightarrow> a)"

text \<open>A 32-bit read takes two words, the lower half first.\<close>

definition sim_inl :: "u16 \<Rightarrow> ata \<Rightarrow> u32 \<times> ata" where
  "sim_inl port a =
     (let (lo, a) = sim_inw port a; (hi, a) = sim_inw port a
      in (push_bit 16 (ucast hi) OR ucast lo, a))"

definition sim_io :: "ata port_io" where
  "sim_io = \<lparr>p_inb = sim_inb, p_inw = sim_inw, p_inl = sim_inl, p_outb = sim_outb, p_outw = sim_outw\<rparr>"

lemma sim_status_ok: "ata_status_ok a (sim_status a)"
proof -
  have b: "(0x80 :: u8) = push_bit 7 1" "(0x40 :: u8) = push_bit 6 1"
    "(0x48 :: u8) = push_bit 6 1 OR push_bit 3 1"
    by simp_all
  show ?thesis
    unfolding ata_status_ok_def sim_status_def b by (auto simp: bit_or_iff bit_push_bit_iff bit_1_iff)
qed

lemma sim_channel: "ata_channel sim_io IDE0_BASE id"
proof -
  have "ata_polls sim_io IDE0_BASE id"
    by (simp add: ata_polls_def sim_io_def sim_inb_def sim_status_ok)
  moreover have "ata_latches sim_io IDE0_BASE id"
    by (simp add: ata_latches_def sim_io_def sim_outb_def ide_defs)
  moreover have "ata_commands sim_io IDE0_BASE id"
    by (auto simp: ata_commands_def sim_io_def sim_outb_def sim_command_def ide_defs IDE_CMD_READ_def
        IDE_CMD_WRITE_def intro!: exI [of _ "3 :: nat"])
  moreover have "ata_gives sim_io IDE0_BASE id"
    by (simp add: ata_gives_def sim_io_def sim_inw_def)
  moreover have "ata_takes sim_io IDE0_BASE id"
    by (auto simp: ata_takes_def sim_io_def sim_outw_def intro!: exI [of _ "3 :: nat"])
  ultimately show ?thesis by (simp add: ata_channel_def)
qed

definition sim_ata :: ata where
  "sim_ata = \<lparr>ata_count = 0, ata_low = 0, ata_mid = 0, ata_high = 0, ata_device = 0, ata_busy = 0,
     ata_phase = Ata_Idle, ata_disk = (\<lambda>_ _. replicate 256 0)\<rparr>"

lemma sim_ata_ready: "ata_ready sim_ata"
  by (simp add: ata_ready_def sim_ata_def)

text \<open>The first drive as the driver records it.\<close>

definition sim_hda :: ide_device where
  "sim_hda = identified 0 sim_identify"

lemma sim_hda [simp]:
  "ide_present sim_hda" "ide_base sim_hda = IDE0_BASE" "ide_drive sim_hda = 0"
  "di_size (ide_info sim_hda) = 0x4000" "ide_name sim_hda = ''hda''"
  by (simp_all add: sim_hda_def identified_def ide_configs_def sim_identify_def)

end
