(* ===== verification/Sched_Laws.thy ===== *)
theory Sched_Laws
  imports Sched_Boot Swap_Fifo_Laws Ata_Sim
begin

text \<open>
  The properties of the process component: what every operation does to well-formed tables,
  the safety invariant of all reachable scheduler states, and the behaviours a reader of the
  code may not expect (the first runnable process starves the others; init may not exit).
\<close>

section \<open>Reachable states\<close>

text \<open>
  The steps of the scheduler. A step that switches includes what the next process does first.
  A fork must not wrap the pid counter around.
\<close>

inductive sched_step :: "symbols \<Rightarrow> ('h, 'a) sched_scheme \<Rightarrow> ('h, 'a) sched_scheme \<Rightarrow> bool" for syms where
  sched_yield: "schedule syms s = Inr ((), s') \<Longrightarrow> sched_step syms s (resume syms s')"
| sched_fork: "do_fork syms cf stack tf s = Inr (pid, s') \<Longrightarrow> unat (next_pid s) + 1 < 2 ^ 31 \<Longrightarrow>
    sched_step syms s s'"
| sched_wake: "wakeup_proc a s = Inr ((), s') \<Longrightarrow> sched_step syms s s'"
| sched_exit: "do_exit syms code s = Inr ((), s') \<Longrightarrow> sched_step syms s (resume syms s')"

inductive sched_reach :: "symbols \<Rightarrow> ('h, 'a) sched_scheme \<Rightarrow> ('h, 'a) sched_scheme \<Rightarrow> bool" for syms s where
  reach_refl: "sched_reach syms s s"
| reach_step: "sched_reach syms s s' \<Longrightarrow> sched_step syms s' s'' \<Longrightarrow> sched_reach syms s s''"

lemma fork_step_inv:
  assumes inv: "sched_inv s ps H" and r: "do_fork syms cf stack tf s = Inr (pid, s')"
    and np: "unat (next_pid s) + 1 < 2 ^ 31"
  shows "\<exists>ps' H'. sched_inv s' ps' H'"
proof -
  have "ff_avail s \<noteq> {}"
    using do_fork_no_memory [of s syms cf stack tf] inv r
    by (auto simp: sched_inv_def proc_frames_def)
  moreover have "unat (next_pid s) + 1 < 2 ^ 32" using np by simp
  ultimately show ?thesis
    using do_fork_inv [OF inv, of syms cf stack tf] r by (metis Inr_inject prod.inject)
qed

lemma sched_step_inv:
  assumes st: "sched_step syms s s'" and inv: "sched_inv s ps H"
  shows "\<exists>ps' H'. sched_inv s' ps' H'"
  using st
proof cases
  case (sched_yield s1)
  obtain s2 where "schedule syms s = Inr ((), s2)" "sched_inv s2 ps H"
    using schedule_inv [OF inv] by metis
  then have "sched_inv s1 ps H" using sched_yield by simp
  then show ?thesis using sched_yield resume_inv by blast
next
  case sched_fork
  then show ?thesis using fork_step_inv [OF inv] by blast
next
  case sched_wake
  then show ?thesis using wakeup_inv [OF inv] by blast
next
  case sched_exit
  then show ?thesis using do_exit_inv [OF inv] resume_inv by blast
qed

lemma sched_reach_inv:
  "sched_reach syms s s' \<Longrightarrow> sched_inv s ps H \<Longrightarrow> \<exists>ps' H'. sched_inv s' ps' H'"
proof (induction arbitrary: ps H rule: sched_reach.induct)
  case (reach_step s' s'')
  then obtain ps' H' where "sched_inv s' ps' H'" by blast
  then show ?case using sched_step_inv [OF reach_step.hyps(2)] by blast
qed blast

section \<open>Starvation\<close>

fun sched_times :: "symbols \<Rightarrow> nat \<Rightarrow> ('h, 'a) sched_scheme \<Rightarrow> ('h, 'a) sched_scheme res" where
  "sched_times syms 0 s = Inr s"
| "sched_times syms (Suc n) s =
     bindE (schedule syms s) (\<lambda>(_, s). sched_times syms n (resume syms s))"

definition may_run :: "('h, 'a) sched_scheme \<Rightarrow> u32 \<Rightarrow> bool" where
  "may_run s a \<longleftrightarrow> t_state (tasks s a) = TASK_RUNNABLE \<or>
     (a = current s \<and> t_state (tasks s a) = TASK_RUNNING)"

lemma schedule_head:
  assumes inv: "sched_inv s (a # ps) H" and run: "may_run s a"
  obtains s' where "schedule syms s = Inr ((), s')" "sched_inv s' (a # ps) H" "current s' = a"
    "may_run s' a"
proof -
  have n: "pick_next s (a # ps) = a"
    using run by (auto simp: pick_next_def may_run_def demote_task)
  obtain s' where s': "schedule syms s = Inr ((), s')" "sched_inv s' (a # ps) H" "current s' = a"
    "t_state (tasks s' a) =
       (if a = pick_next s (a # ps) \<and> a \<noteq> current s then TASK_RUNNING else t_state (tasks (demote s) a))"
    using schedule_inv [OF inv, of syms] n by metis
  moreover have "may_run s' a"
    using s'(3,4) n run by (auto simp: may_run_def demote_task)
  ultimately show ?thesis using that by blast
qed

lemma sched_times_head:
  "sched_inv s (a # ps) H \<Longrightarrow> may_run s a \<Longrightarrow>
   \<exists>s'. sched_times syms (Suc n) s = Inr s' \<and> current s' = a"
proof (induction n arbitrary: s)
  case 0
  obtain s' where "schedule syms s = Inr ((), s')" "current s' = a"
    using schedule_head [OF 0(1,2)] by metis
  then show ?case by (simp add: sched_simps)
next
  case (Suc n)
  obtain s' where s': "schedule syms s = Inr ((), s')" "sched_inv s' (a # ps) H" "current s' = a"
    "may_run s' a"
    using schedule_head [OF Suc.prems] by metis
  have "may_run (resume syms s') a" using s'(4) by (simp add: may_run_def sched_simps)
  from Suc.IH [OF resume_inv [OF s'(2)] this] show ?case using s'(1) by simp
qed

section \<open>A concrete boot state for the witnesses\<close>

definition bss_task :: task where
  "bss_task = \<lparr>t_state = TASK_UNINIT, t_pid = 0, t_kstack = 0, t_parent = 0, t_mm = MmNull,
     t_context = zero_context, t_tf = 0, t_flags = 0, t_name = '''', t_exit_code = 0,
     t_wait_state = 0, t_cptr = 0, t_yptr = 0, t_optr = 0\<rparr>"

definition demo_syms :: symbols where
  "demo_syms = \<lparr>sym_forkret = 0xC0101000, sym_switch_ret = 0xC0102000,
     sym_init_main = 0xC0103000, sym_user_stack = 0xC0110000\<rparr>"

definition demo_boot_sched :: "ata sched" where
  "demo_boot_sched = vmm.extend demo_vmm \<lparr>hw = sim_ata, irq_mask = 0xFFFF, ticks = 0,
     ide_devices = (\<lambda>_. sim_hda), hd_num_devices = 0, block_devices = (\<lambda>_. None), num_devices = 0,
     disk_devs = (\<lambda>_. disk_of 0 sim_hda), swap_mgr = Mgr_Null, max_swap_offset = 0, swap_device = None,
     swap_offset = 1, crt_pos = 0, tests_passed = 0, tests_failed = 0, cmd_buffer = (\<lambda>_. CHR 0x00), cmd_pos = 0, tasks = (\<lambda>_. bss_task),
     tframes = (\<lambda>_. init_frame demo_syms), idle_proc = 0, init_proc = 0, current = 0,
     nr_process = 0, next_pid = 1, regs = zero_context, sched_flag = (\<lambda>_. False), run_flag = (\<lambda>_. False)\<rparr>"

lemma demo_boot_sched_simps [simp]:
  "links demo_boot_sched = links demo_vmm" "pages demo_boot_sched = pages demo_vmm"
  "npage demo_boot_sched = npage demo_vmm" "nr_free demo_boot_sched = nr_free demo_vmm"
  "mm_pgdir demo_boot_sched = mm_pgdir demo_vmm" "next_pid demo_boot_sched = 1"
  "nr_process demo_boot_sched = 0" "if_flag demo_boot_sched = if_flag demo_vmm"
  by (simp_all add: demo_boot_sched_def vmm.defs sched.defs)

lemma demo_boot_sched_ok:
  "ff_ok demo_boot_sched" "unat (npage demo_boot_sched) \<le> KFRAMES" "8 \<le> card (ff_avail demo_boot_sched)"
  "next_pid demo_boot_sched = 1" "nr_process demo_boot_sched = 0" "mm_pgdir demo_boot_sched \<noteq> 0"
proof -
  have inv: "ff_inv demo_boot_sched [(4, 8)]"
    using demo_vmm_inv by (simp add: ff_inv_def block_ok_def)
  then show "ff_ok demo_boot_sched" by auto
  have "ff_avail demo_boot_sched = set [4..<12]"
    using ff_avail_frames [OF inv] by (simp add: frames_def)
  moreover have "card (set [4..<12 :: nat]) = length [4..<12 :: nat]" by (rule distinct_card) simp
  ultimately show "8 \<le> card (ff_avail demo_boot_sched)" by simp
  have "npage demo_vmm = 64"
    by (simp add: demo_vmm_def swap_fifo_init_mm_def Let_def page_simps demo_mach_def demo_pmm_npage)
  then show "unat (npage demo_boot_sched) \<le> KFRAMES" by (simp add: KFRAMES_def)
  have "mm_pgdir demo_vmm = page2kva 1" by (simp add: demo_vmm_def swap_fifo_init_mm_def Let_def)
  then show "mm_pgdir demo_boot_sched \<noteq> 0" using page2kva_nonzero [of 1] by (simp add: KFRAMES_def)
qed simp_all

text \<open>The state after \<^verbatim>\<open>sched_init\<close>: init (pid 1) and idle (pid 0), idle current.\<close>

definition demo_sched :: "ata sched" where
  "demo_sched = snd (projr (sched_init demo_syms demo_boot_sched))"

definition demo_idle :: u32 where "demo_idle = current demo_sched"
definition demo_init :: u32 where "demo_init = init_proc demo_sched"

lemma demo_sched_facts:
  "\<exists>H. sched_inv demo_sched [demo_init, demo_idle] H"
  "idle_proc demo_sched = demo_idle" "demo_idle \<noteq> demo_init"
  "t_pid (tasks demo_sched demo_idle) = 0" "t_pid (tasks demo_sched demo_init) = 1"
  "t_state (tasks demo_sched demo_idle) = TASK_RUNNABLE"
  "t_state (tasks demo_sched demo_init) = TASK_RUNNABLE"
  "t_parent (tasks demo_sched demo_init) = demo_idle" "next_pid demo_sched = 2"
  "t_cptr (tasks demo_sched demo_init) = 0" "t_wait_state (tasks demo_sched demo_init) = 0"
  "t_wait_state (tasks demo_sched demo_idle) = 0" "5 \<le> card (ff_avail demo_sched)"
  "t_cptr (tasks demo_sched demo_idle) = demo_init" "init_proc demo_sched = demo_init"
  using sched_init_result [OF demo_boot_sched_ok(1,2) _ demo_boot_sched_ok(4-), of demo_syms] demo_boot_sched_ok(3)
  by (auto simp: demo_sched_def demo_idle_def demo_init_def)

text \<open>
  A state some steps later: idle has forked a process, which was scheduled and has forked a
  child of its own.
\<close>

lemma sched_nonzero: "sched_inv s ps H \<Longrightarrow> a \<in> set ps \<Longrightarrow> a \<noteq> 0"
  using proc_nonzero by (auto simp: sched_inv_def)

lemma schedule_frame:
  assumes inv: "sched_inv s ps H" and r: "schedule syms s = Inr ((), s')"
  shows "links s' = links s" "pages s' = pages s" "npage s' = npage s" "nr_free s' = nr_free s"
    "idle_proc s' = idle_proc s" "init_proc s' = init_proc s" "next_pid s' = next_pid s"
    "same_family s s'" "sched_inv s' ps H" "current s' = pick_next s ps"
    "ff_avail s' = ff_avail s"
proof -
  show eq: "links s' = links s" "pages s' = pages s" "npage s' = npage s" "nr_free s' = nr_free s"
    and "idle_proc s' = idle_proc s" "init_proc s' = init_proc s" "next_pid s' = next_pid s"
    using schedule_eq [OF inv, of syms] r by (auto simp: sched_simps split: if_splits)
  show "same_family s s'" "sched_inv s' ps H" "current s' = pick_next s ps"
    using schedule_inv [OF inv, of syms] r by (metis Inr_inject prod.inject)+
  show "ff_avail s' = ff_avail s" using ff_inv_same [OF eq] by (simp add: ff_avail_def)
qed

lemma demo_family:
  "\<exists>s ps H b. sched_reach demo_syms demo_sched s \<and> sched_inv s ps H \<and> exit_ready s ps [b] []"
proof -
  obtain H where inv: "sched_inv demo_sched [demo_init, demo_idle] H" using demo_sched_facts(1) by blast
  note df = demo_sched_facts(2-)
  have cur: "current demo_sched = demo_idle" by (simp add: demo_idle_def)
  have av: "ff_avail demo_sched \<noteq> {}" using df(12) by auto
  have np: "unat (next_pid demo_sched) + 1 < 2 ^ 32" using df(8) by simp
  obtain a s1 where 1: "do_fork demo_syms 0 0 (init_frame demo_syms) demo_sched = Inr (2, s1)"
    "sched_inv s1 [a, demo_init, demo_idle] (H(pid_hashfn 2 := a # H (pid_hashfn 2)))"
    "a \<noteq> demo_init" "a \<noteq> demo_idle" "fork_effect demo_syms a 0 (init_frame demo_syms) demo_sched s1"
    and old1: "t_wait_state (tasks s1 demo_init) = 0" "t_wait_state (tasks s1 demo_idle) = 0"
      "t_cptr (tasks s1 demo_init) = 0"
    using do_fork_inv [OF inv av np, of demo_syms 0 0 "init_frame demo_syms"] df cur
    by (metis insertCI list.set(2))
  have fx1: "t_state (tasks s1 a) = TASK_RUNNABLE" "t_parent (tasks s1 a) = demo_idle"
    "t_wait_state (tasks s1 a) = 0" "current s1 = demo_idle" "init_proc s1 = demo_init"
    "idle_proc s1 = demo_idle" "next_pid s1 = 3" "3 \<le> card (ff_avail s1)" "t_cptr (tasks s1 a) = 0"
    using 1(5) df cur by (simp_all add: fork_effect_def)
  have "sched_step demo_syms demo_sched s1"
    using 1(1) df(8) by (intro sched_step.sched_fork) simp_all
  then have reach1: "sched_reach demo_syms demo_sched s1" by (blast intro: sched_reach.intros)
  have n: "pick_next s1 [a, demo_init, demo_idle] = a"
    using fx1(1) by (simp add: pick_next_def demote_task)
  obtain s2 where s2: "schedule demo_syms s1 = Inr ((), s2)" using schedule_inv [OF 1(2)] by metis
  note f2 = schedule_frame [OF 1(2) s2]
  let ?s2 = "resume demo_syms s2"
  have reach2: "sched_reach demo_syms demo_sched ?s2"
    by (rule sched_reach.reach_step [OF reach1 sched_step.sched_yield [OF s2]])
  have inv2: "sched_inv ?s2 [a, demo_init, demo_idle] (H(pid_hashfn 2 := a # H (pid_hashfn 2)))"
    by (rule resume_inv [OF f2(9)])
  have "ff_inv ?s2 = ff_inv s2" by (rule ff_inv_same) (simp_all add: sched_simps)
  then have "ff_avail ?s2 = ff_avail s1" using f2(11) by (simp add: ff_avail_def)
  then have av2: "ff_avail ?s2 \<noteq> {}" using fx1(8) by auto
  have fx2: "current ?s2 = a" "init_proc ?s2 = demo_init" "idle_proc ?s2 = demo_idle" "next_pid ?s2 = 3"
    "t_wait_state (tasks ?s2 x) = t_wait_state (tasks s1 x)" "t_cptr (tasks ?s2 x) = t_cptr (tasks s1 x)"
    "t_parent (tasks ?s2 x) = t_parent (tasks s1 x)" for x
    using f2 n fx1 by (simp_all add: sched_simps same_family_def)
  have np2: "unat (next_pid ?s2) + 1 < 2 ^ 32" using fx2(4) by simp
  obtain b s3 H3 where 3: "do_fork demo_syms 0 0 (init_frame demo_syms) ?s2 = Inr (3, s3)"
    "sched_inv s3 [b, a, demo_init, demo_idle] H3" "b \<notin> set [a, demo_init, demo_idle]"
    "fork_effect demo_syms b 0 (init_frame demo_syms) ?s2 s3"
    and old3: "\<forall>x \<in> set [a, demo_init, demo_idle]. t_wait_state (tasks s3 x) = t_wait_state (tasks ?s2 x) \<and>
      t_parent (tasks s3 x) = t_parent (tasks ?s2 x) \<and>
      (x \<noteq> current ?s2 \<longrightarrow> t_cptr (tasks s3 x) = t_cptr (tasks ?s2 x))"
    using do_fork_inv [OF inv2 av2 np2, of demo_syms 0 0 "init_frame demo_syms"] fx2(4) by metis
  have b0: "b \<noteq> 0" using sched_nonzero [OF 3(2)] by simp
  have fx3: "current s3 = a" "init_proc s3 = demo_init" "idle_proc s3 = demo_idle"
    "t_cptr (tasks s3 a) = b" "t_optr (tasks s3 b) = 0" "t_yptr (tasks s3 b) = 0" "t_wait_state (tasks s3 b) = 0"
    using 3(4) fx2 fx1(9) b0 by (simp_all add: fork_effect_def)
  have "sched_step demo_syms ?s2 s3"
    using 3(1) fx2(4) by (intro sched_step.sched_fork) simp_all
  then have reach3: "sched_reach demo_syms demo_sched s3" by (rule sched_reach.reach_step [OF reach2])
  have "children s3 a [b]" "children s3 demo_init []"
    using fx3 b0 old3 old1(3) fx2 1(3) by (simp_all add: children_def)
  then have "exit_ready s3 [b, a, demo_init, demo_idle] [b] []"
    using fx3 fx2 old3 old1 fx1 1(3,4) 3(3) by (auto simp: exit_ready_def)
  then show ?thesis using reach3 3(2) by blast
qed

lemma drained:
  "sched_inv (s :: ('h, 'a) sched_scheme) ps H \<Longrightarrow> card (ff_avail s) = Suc n \<Longrightarrow>
   \<exists>s' :: ('h, 'a) sched_scheme. sched_inv s' ps H \<and> card (ff_avail s') = 1 \<and> next_pid s' = next_pid s"
proof (induction n arbitrary: s)
  case 0
  then show ?case by (intro exI [of _ s]) simp
next
  case (Suc n)
  have ok: "ff_ok s" using Suc.prems(1) by (simp add: sched_inv_def proc_frames_def)
  have "ff_avail s \<noteq> {}" using Suc.prems(2) by auto
  then obtain p s1 where 1: "p \<in> ff_avail s" "ff_ok s1" "ff_avail s1 = ff_avail s - {p}"
    "ff_frame (ff_avail s) s s1"
    using alloc_page_some [OF ok] by metis
  have "sched_inv s1 ps H"
    by (rule alloc_keeps_sched_inv [OF Suc.prems(1) 1(4,2)]) (simp add: 1(3))
  moreover have "card (ff_avail s1) = Suc n" using 1(1,3) Suc.prems(2) by simp
  moreover have "next_pid s1 = next_pid s" using more_eq_sched(6) [of s1 s] 1(4) by (simp add: ff_frame_def)
  ultimately show ?case using Suc.IH by metis
qed

section \<open>Properties\<close>

text \<open>
  \<^verbatim>\<open>find_proc\<close> on well-formed tables returns the process with the given pid when
  there is one and \<^verbatim>\<open>NULL\<close> otherwise: the hash chains miss nobody and keep nobody twice.
\<close>

theorem find_proc_correct:
  assumes "sched_inv s ps H" and "0 < sint pid"
  shows "\<exists>a. find_proc pid s = Inr a \<and>
    (if \<exists>b \<in> set ps. t_pid (tasks s b) = pid then a \<in> set ps \<and> t_pid (tasks s a) = pid else a = 0)"
proof (cases "\<exists>b \<in> set ps. t_pid (tasks s b) = pid")
  case True
  then obtain b where b: "b \<in> set ps" "t_pid (tasks s b) = pid" by blast
  then have "find_proc pid s = Inr b"
    using assms by (intro find_proc_member) (auto simp: sched_inv_def pids_ok_def)
  then show ?thesis using True b by auto
next
  case False
  then have "find_proc pid s = Inr 0"
    using assms by (intro find_proc_none) (auto simp: sched_inv_def)
  then show ?thesis using False by auto
qed

theorem find_proc_correct_witness:
  "\<exists>a. find_proc 1 demo_sched = Inr a \<and> a \<in> {demo_init, demo_idle} \<and> t_pid (tasks demo_sched a) = 1"
proof -
  obtain H where H: "sched_inv demo_sched [demo_init, demo_idle] H" using demo_sched_facts(1) by blast
  show ?thesis using find_proc_correct [OF H, of 1] demo_sched_facts(5) by auto
qed



text \<open>
  C21. A process that gives up the CPU in \<^verbatim>\<open>schedule\<close> gets it back as it left it: when a
  later \<^verbatim>\<open>schedule\<close> of another process picks it again, it continues with the registers
  and the interrupt flag it had, provided nobody touched its saved context.
\<close>

theorem schedule_resume_roundtrip:
  assumes inv: "sched_inv s ps H" and out: "schedule syms s = Inr ((), s1)" "current s1 \<noteq> current s"
    and inv2: "sched_inv t ps' H'" and cur: "current t \<noteq> current s"
    and same: "t_context (tasks t (current s)) = t_context (tasks s1 (current s))"
      "sched_flag t (current s) = sched_flag s1 (current s)" "run_flag t (current s) = run_flag s1 (current s)"
    and again: "schedule syms t = Inr ((), t1)" "current t1 = current s"
  shows "regs (resume syms t1) = (regs s)\<lparr>ctx_eip := sym_switch_ret syms\<rparr> \<and>
    if_flag (resume syms t1) = if_flag s"
proof -
  have n: "pick_next s ps \<noteq> current s"
    using out schedule_inv [OF inv, of syms] by (metis Inr_inject prod.inject)
  have s1: "t_context (tasks s1 (current s)) = (regs s)\<lparr>ctx_eip := sym_switch_ret syms\<rparr>"
    "sched_flag s1 (current s) = if_flag s" "\<not> run_flag s1 (current s)"
    using schedule_eq [OF inv, of syms] out(1) n by (auto simp: switched_simps switched_task demote_simps)
  have m: "pick_next t ps' = current s" "pick_next t ps' \<noteq> current t"
    using again cur schedule_inv [OF inv2, of syms] by (metis Inr_inject prod.inject)+
  have "regs t1 = t_context (tasks t (current s))" "sched_flag t1 (current s) = sched_flag t (current s)"
    "run_flag t1 (current s) = run_flag t (current s)" "\<not> if_flag t1"
    using schedule_eq [OF inv2, of syms] again(1) m cur
    by (auto simp: switched_simps switched_task switched_regs demote_simps demote_task)
  then show ?thesis using s1 same again(2) by (simp add: resume_def sched_simps)
qed

theorem schedule_resume_roundtrip_witness:
  "\<exists>s1 t1. schedule demo_syms demo_sched = Inr ((), s1) \<and> current s1 \<noteq> demo_idle \<and>
     schedule demo_syms (upd_task demo_init (\<lambda>t. t\<lparr>t_state := TASK_SLEEPING\<rparr>) s1) = Inr ((), t1) \<and>
     current t1 = demo_idle \<and>
     regs (resume demo_syms t1) = (regs demo_sched)\<lparr>ctx_eip := sym_switch_ret demo_syms\<rparr>"
proof -
  obtain H where inv: "sched_inv demo_sched [demo_init, demo_idle] H" using demo_sched_facts(1) by blast
  note df = demo_sched_facts(2-)
  have cur: "current demo_sched = demo_idle" by (simp add: demo_idle_def)
  have n: "pick_next demo_sched [demo_init, demo_idle] = demo_init"
    using df(6) by (simp add: pick_next_def demote_task)
  obtain s1 where s1: "schedule demo_syms demo_sched = Inr ((), s1)"
    "\<And>a. t_state (tasks s1 a) = (if a = pick_next demo_sched [demo_init, demo_idle] \<and> a \<noteq> current demo_sched
       then TASK_RUNNING else t_state (tasks (demote demo_sched) a))"
    using schedule_inv [OF inv, of demo_syms] by metis
  note f1 = schedule_frame [OF inv s1(1)]
  have c1: "current s1 = demo_init" "idle_proc s1 = demo_idle" using f1 n df(1) by simp_all
  have st: "t_state (tasks s1 demo_idle) = TASK_RUNNABLE"
    using s1(2) [of demo_idle] n df(2,5) by (simp add: demote_task)
  let ?t = "upd_task demo_init (\<lambda>t. t\<lparr>t_state := TASK_SLEEPING\<rparr>) s1"
  have inv2: "sched_inv ?t [demo_init, demo_idle] H"
    by (rule sched_inv_same [OF f1(9)])
      (use f1(9) c1 df(2) in \<open>auto simp: sched_simps sched_inv_def procs_live_def only_current_runs_def\<close>)
  have "pick_next ?t [demo_init, demo_idle] = demo_idle"
    using st df(2) by (simp add: pick_next_def demote_task sched_simps)
  then obtain t1 where t1: "schedule demo_syms ?t = Inr ((), t1)" "current t1 = demo_idle"
    using schedule_inv [OF inv2] by metis
  have "regs (resume demo_syms t1) = (regs demo_sched)\<lparr>ctx_eip := sym_switch_ret demo_syms\<rparr>"
    using schedule_resume_roundtrip [OF inv s1(1) _ inv2 _ _ _ _ t1(1)] cur c1 df(2) t1(2)
    by (simp add: sched_simps)
  then show ?thesis using s1(1) c1 df(2) t1 by (intro exI [of _ s1] exI [of _ t1]) simp
qed

text \<open>
  C22. A fork with a free frame succeeds: it returns the next pid; a new runnable process with
  that pid, whose descriptor is no other process's, is at the head of the process list and
  the youngest child of the caller; the lookup by pid finds it; it will start at
  \<^verbatim>\<open>forkret\<close> on a trap frame that is the caller's with \<^verbatim>\<open>eax\<close> zero.
\<close>

theorem do_fork_correct:
  assumes inv: "sched_inv s ps H" and av: "ff_avail s \<noteq> {}"
    and np: "0 < sint (next_pid s)" "unat (next_pid s) + 1 < 2 ^ 31"
  shows "\<exists>a s'. do_fork syms cf stack tf s = Inr (next_pid s, s') \<and> (\<exists>H'. sched_inv s' (a # ps) H') \<and>
    a \<notin> set ps \<and> find_proc (next_pid s) s' = Inr a \<and> t_state (tasks s' a) = TASK_RUNNABLE \<and>
    t_parent (tasks s' a) = current s \<and> t_cptr (tasks s' (current s)) = a \<and>
    t_optr (tasks s' a) = t_cptr (tasks s (current s)) \<and>
    ctx_eip (t_context (tasks s' a)) = sym_forkret syms \<and>
    (let f = tframes s' (ctx_esp (t_context (tasks s' a))) in
       tf_eip f = tf_eip tf \<and> tf_cs f = tf_cs tf \<and> reg_eax (tf_regs f) = 0 \<and> tf_esp f = stack) \<and>
    current s' = current s \<and> next_pid s' = next_pid s + 1 \<and> if_flag s' = if_flag s"
proof -
  have np': "unat (next_pid s) + 1 < 2 ^ 32" using np(2) by simp
  let ?H = "\<lambda>a. H(pid_hashfn (next_pid s) := a # H (pid_hashfn (next_pid s)))"
  obtain a s' where r: "do_fork syms cf stack tf s = Inr (next_pid s, s')"
    "sched_inv s' (a # ps) (?H a)" "a \<notin> set ps" "fork_effect syms a stack tf s s'"
    using do_fork_inv [OF inv av np', of syms cf stack tf] by metis
  have "find_proc (next_pid s) s' = Inr a"
    using r(2,4) np(1)
    by (intro find_proc_member [of _ "a # ps" "?H a"])
      (auto simp: sched_inv_def pids_ok_def fork_effect_def)
  then show ?thesis using r by (auto simp: fork_effect_def child_frame_def Let_def)
qed

theorem do_fork_correct_witness:
  "\<exists>a s'. do_fork demo_syms 0 0 (init_frame demo_syms) demo_sched = Inr (2, s') \<and>
     find_proc 2 s' = Inr a \<and> t_parent (tasks s' a) = demo_idle"
proof -
  obtain H where H: "sched_inv demo_sched [demo_init, demo_idle] H" using demo_sched_facts(1) by blast
  have "ff_avail demo_sched \<noteq> {}" using demo_sched_facts(13) by auto
  then show ?thesis
    using do_fork_correct [OF H, of demo_syms 0 0 "init_frame demo_syms"] demo_sched_facts(9)
    by (auto simp: demo_idle_def)
qed

text \<open>
  C23. Whatever sequence of switches, forks, wake-ups and exits runs from well-formed tables
  (before the pid counter wraps), the process list stays a well-formed circular list of
  processes with distinct pids, the current process and idle are on it, and no process but
  the current one is in state \<^verbatim>\<open>TASK_RUNNING\<close>.
\<close>

theorem scheduler_safe:
  assumes "sched_reach syms s s'" and "sched_inv s ps H"
  shows "\<exists>ps'. clist (links s') ProcHead (map ListLink ps') \<and>
    inj_on (\<lambda>a. t_pid (tasks s' a)) (set ps') \<and> current s' \<in> set ps' \<and> idle_proc s' \<in> set ps' \<and>
    nr_process s' = of_nat (length ps') \<and>
    (\<forall>a \<in> set ps'. t_state (tasks s' a) = TASK_RUNNING \<longrightarrow> a = current s')"
proof -
  obtain ps' H' where "sched_inv s' ps' H'" using sched_reach_inv [OF assms] by blast
  then show ?thesis by (auto simp: sched_inv_def sched_inv_parts)
qed

theorem scheduler_safe_witness:
  "\<exists>s' ps'. sched_reach demo_syms demo_sched s' \<and> s' \<noteq> demo_sched \<and>
    clist (links s') ProcHead (map ListLink ps') \<and> current s' \<in> set ps'"
proof -
  obtain H where H: "sched_inv demo_sched [demo_init, demo_idle] H" using demo_sched_facts(1) by blast
  obtain s ps Hs b where s: "sched_reach demo_syms demo_sched s" "exit_ready s ps [b] []"
    using demo_family by blast
  have "current demo_sched = idle_proc demo_sched" using demo_sched_facts(2) by (simp add: demo_idle_def)
  then have "s \<noteq> demo_sched" using s(2) by (auto simp: exit_ready_def)
  then show ?thesis using scheduler_safe [OF s(1) H] s(1) by blast
qed

text \<open>
  C24. An exiting process (neither init nor idle) becomes a zombie with its exit code, another
  process runs, and its children, in reverse order, come before init's own children on init's
  list, with init as parent.
\<close>

theorem do_exit_reparents:
  assumes "sched_inv s ps H" and "exit_ready s ps cs is"
  shows "\<exists>s'. do_exit syms code s = Inr ((), s') \<and> sched_inv s' ps H \<and>
    t_state (tasks s' (current s)) = TASK_ZOMBIE \<and> t_exit_code (tasks s' (current s)) = code \<and>
    current s' \<noteq> current s \<and> children s' (current s) [] \<and> children s' (init_proc s) (rev cs @ is) \<and>
    (\<forall>x \<in> set cs. t_parent (tasks s' x) = init_proc s)"
  by (rule do_exit_result [OF assms])

theorem do_exit_reparents_witness:
  "\<exists>s s' b. sched_reach demo_syms demo_sched s \<and> children s (current s) [b] \<and>
     do_exit demo_syms 7 s = Inr ((), s') \<and> t_exit_code (tasks s' (current s)) = 7 \<and>
     children s' (init_proc s) [b] \<and> t_parent (tasks s' b) = init_proc s"
proof -
  obtain s ps H b where s: "sched_reach demo_syms demo_sched s" "sched_inv s ps H"
    "exit_ready s ps [b] []"
    using demo_family by blast
  have "children s (current s) [b]" using s(3) by (simp add: exit_ready_def)
  then show ?thesis using do_exit_reparents [OF s(2,3), of demo_syms 7] s(1) by auto
qed

text \<open>
  C25. When init itself exits and has a child (and nobody is waiting), the loop that hands
  the children over takes the first child from init and gives it back to init forever:
  \<^verbatim>\<open>do_exit\<close> does not return and never reaches the scheduler.
\<close>

theorem do_exit_init_diverges:
  assumes "current s = init_proc s" "init_proc s \<noteq> 0" "t_cptr (tasks s (init_proc s)) \<noteq> 0"
    and "t_wait_state (tasks s (init_proc s)) = 0"
    and "t_parent (tasks s (init_proc s)) = 0 \<or> t_wait_state (tasks s (t_parent (tasks s (init_proc s)))) = 0"
  shows "do_exit syms code s = Inl Diverges"
proof -
  let ?d = "dying code s"
  have "wake_parent code s = Inr ((), ?d)" using assms by (auto simp: wake_parent_def)
  moreover have "reparent_loop ?d = None"
    using assms by (intro reparent_loop_init_diverges) (simp_all add: dying_def sched_simps)
  then have "adopt ?d = Inl Diverges"
    using assms(2) by (simp add: adopt_def dying_def sched_simps)
  ultimately show ?thesis by (simp add: do_exit_stages)
qed

theorem do_exit_init_diverges_witness:
  "do_exit demo_syms 0 (upd_task demo_init (\<lambda>t. t\<lparr>t_cptr := demo_idle\<rparr>)
     (demo_sched\<lparr>current := demo_init\<rparr>)) = Inl Diverges"
proof -
  obtain H where H: "sched_inv demo_sched [demo_init, demo_idle] H" using demo_sched_facts(1) by blast
  have "demo_init \<noteq> 0" "demo_idle \<noteq> 0"
    using sched_nonzero [OF H] by simp_all
  then show ?thesis
    by (intro do_exit_init_diverges) (use demo_sched_facts in \<open>simp_all add: sched_simps\<close>)
qed

text \<open>
  C26. The policy is not round-robin: as long as the process at the head of the list may run,
  every call of \<^verbatim>\<open>schedule\<close>, however many follow each other, gives it the CPU (again), so
  all other processes starve.
\<close>

theorem schedule_starves:
  assumes "sched_inv s (a # ps) H" and "t_state (tasks s a) = TASK_RUNNABLE"
  shows "\<exists>s'. sched_times syms (Suc n) s = Inr s' \<and> current s' = a"
  using sched_times_head [OF assms(1)] assms(2) by (simp add: may_run_def)

theorem schedule_starves_witness:
  "\<exists>s'. sched_times demo_syms 1000 demo_sched = Inr s' \<and> current s' = demo_init"
proof -
  obtain H where H: "sched_inv demo_sched [demo_init, demo_idle] H" using demo_sched_facts(1) by blast
  show ?thesis using schedule_starves [OF H demo_sched_facts(7), of demo_syms 999] by simp
qed



text \<open>
  C28. Boot: with two free frames and a kernel page directory, \<^verbatim>\<open>sched_init\<close> returns with
  well-formed tables of exactly two processes, idle (pid 0, current) and init (pid 1, a child
  of idle, to start in \<^verbatim>\<open>init_main\<close>).
\<close>

theorem sched_init_correct:
  assumes "ff_ok s" "unat (npage s) \<le> KFRAMES" "2 \<le> card (ff_avail s)"
    and "next_pid s = 1" "nr_process s = 0" "mm_pgdir s \<noteq> 0"
  shows "\<exists>s' a b H. sched_init syms s = Inr ((), s') \<and> sched_inv s' [b, a] H \<and>
    current s' = a \<and> idle_proc s' = a \<and> init_proc s' = b \<and> a \<noteq> b \<and>
    t_pid (tasks s' a) = 0 \<and> t_pid (tasks s' b) = 1 \<and> t_parent (tasks s' b) = a \<and>
    t_state (tasks s' a) = TASK_RUNNABLE \<and> t_state (tasks s' b) = TASK_RUNNABLE \<and>
    ctx_eip (t_context (tasks s' b)) = sym_forkret syms \<and>
    tf_eip (tframes s' (ctx_esp (t_context (tasks s' b)))) = sym_init_main syms"
  using sched_init_result [OF assms, of syms] by blast

theorem sched_init_correct_witness:
  "\<exists>s' b. sched_init demo_syms demo_boot_sched = Inr ((), s') \<and> init_proc s' = b \<and>
     t_pid (tasks s' b) = 1"
  using sched_init_correct [OF demo_boot_sched_ok(1,2) _ demo_boot_sched_ok(4-), of demo_syms]
    demo_boot_sched_ok(3) by auto

end
