(* ===== verification/Disk_Laws.thy ===== *)
theory Disk_Laws
  imports Ata_Sim Blk Swap_Fifo_Laws
begin

text \<open>
  The properties of the disk driver and the block layer: what a write followed by a read does,
  what happens on a drive that hangs, where the bounds check fails, and which devices are
  registered at boot.
\<close>

section \<open>A drive that stays busy\<close>

definition poll_status :: "'h port_io \<Rightarrow> u16 \<Rightarrow> 'h \<Rightarrow> 'h" where
  "poll_status io base h = snd (inb io (base + IDE_STATUS) h)"

definition always_busy :: "'h port_io \<Rightarrow> u16 \<Rightarrow> bool" where
  "always_busy io base \<longleftrightarrow> (\<forall>h. bit (fst (inb io (base + IDE_STATUS) h)) 7)"

lemma wait_ready_busy:
  assumes "always_busy io base"
  shows "wait_ready_loop io base n h = (-1, (poll_status io base ^^ n) h)"
proof (induction n arbitrary: h)
  case (Suc n)
  obtain st where st: "inb io (base + IDE_STATUS) h = (st, poll_status io base h)"
    by (cases "inb io (base + IDE_STATUS) h") (simp add: poll_status_def)
  then have "st AND (IDE_BSY OR IDE_DRDY) \<noteq> IDE_DRDY"
    using assms unfolding always_busy_def ready_test by (metis fst_conv)
  then show ?case using Suc.IH st by (simp add: funpow_swap1)
qed simp

section \<open>Sector numbers beyond 28 bits\<close>

lemma and_low: "x AND 0xFF = take_bit 8 (x :: u32)" "x AND 0x0F = take_bit 4 (x :: u32)"
  by (simp_all add: take_bit_eq_mask mask_eq_exp_minus_1)

lemma send_command_28: "send_command io base sel lba c h = send_command io base sel (take_bit 28 lba) c h"
proof -
  have a: "take_bit 28 lba AND 0xFF = lba AND 0xFF" for lba :: u32
    unfolding and_low by (rule bit_word_eqI) (auto simp: bit_take_bit_iff)
  have b: "drop_bit k (take_bit 28 lba) AND 0xFF = drop_bit k lba AND 0xFF" if "k + 8 \<le> 28" for lba :: u32 and k
    unfolding and_low using that by (intro bit_word_eqI) (auto simp: bit_take_bit_iff bit_drop_bit_eq)
  have c: "drop_bit 24 (take_bit 28 lba) AND 0x0F = drop_bit 24 lba AND 0x0F" for lba :: u32
    unfolding and_low by (rule bit_word_eqI) (auto simp: bit_take_bit_iff bit_drop_bit_eq)
  show ?thesis by (simp add: send_command_def a b c)
qed

lemma one_sector_28:
  "read_loop io base sel secno dst 0 (Suc 0) h m = read_loop io base sel (take_bit 28 secno) dst 0 (Suc 0) h m"
  "write_loop io base sel secno dst 0 (Suc 0) m h = write_loop io base sel (take_bit 28 secno) dst 0 (Suc 0) m h"
  by (simp_all add: send_command_28 [of _ _ _ secno] case_prod_unfold Let_def)

section \<open>Detection and registration\<close>

lemma hd_detect_cases:
  obtains h where "hd_detect_device io i s = (-1, s\<lparr>hw := h\<rparr>)"
  | h buf where "hd_detect_device io i s =
      (0, s\<lparr>hw := h, ide_devices := (ide_devices s)(i := identified i buf)\<rparr>)"
  by (cases "hd_detect_device io i s") (auto simp: hd_detect_device_def Let_def split: prod.splits if_splits)

lemma identified_present [simp]: "ide_present (identified i buf)"
  by (simp add: identified_def case_prod_unfold Let_def)

definition present_in :: "('h, 'a) hd_scheme \<Rightarrow> nat \<Rightarrow> bool" where
  "present_in s i = ide_present (ide_devices s i)"

lemma detect_loop_counts:
  "\<forall>j \<ge> i. j < i + n \<longrightarrow> \<not> present_in s j \<Longrightarrow> s' = detect_loop io i n s \<Longrightarrow>
   hd_num_devices s' = hd_num_devices s + length (filter (present_in s') [i..<i + n]) \<and>
   (\<forall>j < i. ide_devices s' j = ide_devices s j)"
proof (induction n arbitrary: i s)
  case (Suc n)
  obtain r s1 where d: "hd_detect_device io i s = (r, s1)" by fastforce
  let ?s2 = "if r = 0 then s1\<lparr>hd_num_devices := hd_num_devices s1 + 1\<rparr> else s1"
  have s1: "hd_num_devices s1 = hd_num_devices s" "r = 0 \<longleftrightarrow> present_in s1 i"
    "j \<noteq> i \<Longrightarrow> ide_devices s1 j = ide_devices s j" for j
    using Suc.prems(1) by (cases rule: hd_detect_cases [of io i s]; simp add: d present_in_def)+
  have "\<forall>j \<ge> i + 1. j < i + 1 + n \<longrightarrow> \<not> present_in ?s2 j"
    using Suc.prems(1) s1(3) by (auto simp: present_in_def)
  moreover have "s' = detect_loop io (i + 1) n ?s2" using Suc.prems(2) d by simp
  ultimately have IH: "hd_num_devices s' = hd_num_devices ?s2 + length (filter (present_in s') [i + 1..<i + 1 + n])"
    "\<forall>j < i + 1. ide_devices s' j = ide_devices ?s2 j"
    using Suc.IH by blast+
  have "present_in s' i \<longleftrightarrow> r = 0" using IH(2) s1(2) by (simp add: present_in_def)
  moreover have "[i..<i + Suc n] = i # [i + 1..<i + 1 + n]" by (simp add: upt_conv_Cons)
  ultimately show ?case using IH s1 by auto
qed simp

definition registered :: "('h, 'a) blk_scheme \<Rightarrow> nat option list" where
  "registered s = map (block_devices s) [0..<num_devices s]"

lemma blk_register_registered:
  "num_devices s < MAX_BLK_DEV \<Longrightarrow> registered (snd (blk_register d s)) = registered s @ [Some d]"
  by (simp add: blk_register_def registered_def)

lemma register_loop_registered:
  "num_devices s + n \<le> MAX_BLK_DEV \<Longrightarrow> s' = register_loop i n s \<Longrightarrow>
   registered s' = registered s @ map Some (filter (present_in s) [i..<i + n]) \<and>
   ide_devices s' = ide_devices s \<and> hd_num_devices s' = hd_num_devices s \<and>
   (\<forall>j. disk_devs s' j = (if i \<le> j \<and> j < i + n \<and> present_in s j then disk_of j (ide_devices s j) else disk_devs s j))"
proof (induction n arbitrary: i s)
  case (Suc n)
  let ?s1 = "if present_in s i
    then snd (blk_register i (s\<lparr>disk_devs := (disk_devs s)(i := disk_of i (ide_devices s i))\<rparr>)) else s"
  have e: "s' = register_loop (i + 1) n ?s1"
    using Suc.prems(2) by (simp add: hd_get_device_def present_in_def Let_def)
  have s1: "registered ?s1 = registered s @ map Some (filter (present_in s) [i])"
    "num_devices ?s1 + n \<le> MAX_BLK_DEV" "ide_devices ?s1 = ide_devices s" "hd_num_devices ?s1 = hd_num_devices s"
    "disk_devs ?s1 j = (if j = i \<and> present_in s i then disk_of i (ide_devices s i) else disk_devs s j)" for j
    using Suc.prems(1) by (auto simp: blk_register_def registered_def)
  have "present_in ?s1 = present_in s" using s1(3) by (simp add: present_in_def fun_eq_iff)
  then have IH: "registered s' = registered ?s1 @ map Some (filter (present_in s) [i + 1..<i + 1 + n])"
    "ide_devices s' = ide_devices ?s1" "hd_num_devices s' = hd_num_devices ?s1"
    "\<forall>j. disk_devs s' j = (if i + 1 \<le> j \<and> j < i + 1 + n \<and> present_in s j then disk_of j (ide_devices ?s1 j) else disk_devs ?s1 j)"
    using Suc.IH [OF s1(2) e] by simp_all
  have u: "[i..<i + Suc n] = [i] @ [i + 1..<i + 1 + n]" by (simp add: upt_conv_Cons)
  have "registered s' = registered s @ map Some (filter (present_in s) [i..<i + Suc n])"
    using IH(1) s1(1) unfolding u by simp
  moreover have "disk_devs s' j = (if i \<le> j \<and> j < i + Suc n \<and> present_in s j then disk_of j (ide_devices s j) else disk_devs s j)" for j
    using IH(4) s1(3) s1(5) [of j] by (cases "j = i") auto
  ultimately show ?case using IH(2,3) s1(3,4) by simp
qed (auto simp: registered_def)

lemma find_device_first:
  "map (block_devices s) [i..<i + n] = map Some ds \<Longrightarrow> \<forall>d \<in> set ds. bd_type (disk_devs s d) = t \<Longrightarrow>
   find_device t i n s = (case ds of [] \<Rightarrow> None | d # _ \<Rightarrow> Some d)"
proof (induction n arbitrary: i ds)
  case (Suc n)
  have "[i..<i + Suc n] = i # [i + 1..<i + 1 + n]" by (simp add: upt_conv_Cons)
  then show ?case using Suc.prems by (cases ds) auto
qed simp

lemma clear_devices_apply:
  "clear_devices i n d j = (if i \<le> j \<and> j < i + n
     then (d j)\<lparr>ide_present := False, ide_info := (ide_info (d j))\<lparr>di_valid := False\<rparr>\<rparr> else d j)"
  by (induction n arbitrary: i d) auto

lemma detect_loop_more: "hd.more (detect_loop io i n s) = hd.more s"
proof (induction n arbitrary: i s)
  case (Suc n)
  have "hd.more (snd (hd_detect_device io i s)) = hd.more s"
    by (cases rule: hd_detect_cases [of io i s]) simp_all
  then show ?case by (simp add: Suc.IH case_prod_unfold Let_def)
qed simp

lemma pic_enable_more: "devs.more (pic_enable io k s) = devs.more s"
  by (simp add: pic_enable_def pic_setmask_def Let_def)

lemma hd_init_counts:
  "hd_num_devices (hd_init io s) = length (filter (present_in (hd_init io s)) [0..<4])"
proof -
  obtain s0 where s0: "s0 = (pic_enable io IRQ_IDE2 (pic_enable io IRQ_IDE1 s))\<lparr>ide_devices :=
      clear_devices 0 MAX_IDE_DEVICES (ide_devices (pic_enable io IRQ_IDE2 (pic_enable io IRQ_IDE1 s))),
      hd_num_devices := 0\<rparr>" by simp
  have e: "hd_init io s = detect_loop io 0 4 s0" by (simp add: hd_init_def Let_def s0 MAX_IDE_DEVICES_def)
  have "\<forall>j \<ge> 0. j < 0 + 4 \<longrightarrow> \<not> present_in s0 j"
    by (simp add: s0 present_in_def clear_devices_apply MAX_IDE_DEVICES_def)
  from detect_loop_counts [OF this e] show ?thesis by (simp add: s0)
qed

lemma hd_init_more:
  fixes io :: "'h port_io" and s :: "('h, 'a) hd_scheme"
  shows "hd.more (hd_init io s) = hd.more s"
proof -
  have "hd.more (pic_enable io k s) = hd.more s" for k and s :: "('h, 'a) hd_scheme"
    using pic_enable_more [of io k s] by (cases s; cases "pic_enable io k s") simp
  then show ?thesis by (simp add: hd_init_def Let_def detect_loop_more)
qed

lemma hd_init_blk: "num_devices (hd_init io s) = num_devices s"
  using hd_init_more [of io s] by (cases s; cases "hd_init io s") simp

lemma find_filter: "List.find P xs = (case filter P xs of [] \<Rightarrow> None | x # _ \<Rightarrow> Some x)"
  by (induction xs) auto

section \<open>Properties\<close>

text \<open>
  C29. What is written to a drive is read back: on a drive that obeys the ATA protocol, writing
  sectors that lie on it and reading them again puts the same bytes at the destination; the
  write changes no memory, and no sector outside the range changes.
\<close>

theorem hd_write_read_roundtrip:
  assumes ok: "hd_ok io view dev s" and rg: "hd_in_range dev secno n s" and n: "unat n \<le> 2 ^ 23"
  shows "\<exists>s1 s2. hd_write_device io dev secno src n s = (0, s1) \<and> mem s1 = mem s \<and>
    hd_read_device io dev secno dst n s1 = (0, s2) \<and>
    (\<forall>i < 512 * unat n. mem s2 (dst + of_nat i) = mem s (src + of_nat i)) \<and>
    (\<forall>l. l < unat secno \<or> unat secno + unat n \<le> l \<longrightarrow> hd_sector view dev s2 l = hd_sector view dev s l)"
proof -
  let ?sl = "ide_drive (ide_devices s dev) \<noteq> 0"
  obtain h1 where w: "hd_write_device io dev secno src n s = (0, s\<lparr>hw := h1\<rparr>)" "ata_ready (view h1)"
    "ata_disk (view h1) = put_sectors ?sl (unat secno) (unat n) src (mem s) (ata_disk (view (hw s)))"
    using hd_write_device_result [OF ok rg] by metis
  let ?s1 = "s\<lparr>hw := h1\<rparr>"
  have "hd_ok io view dev ?s1" "hd_in_range dev secno n ?s1" using ok rg w(2) by (simp_all add: hd_ok_def hd_in_range_def)
  from hd_read_device_result [OF this, of dst] obtain h2 where
    r: "hd_read_device io dev secno dst n ?s1 = (0, ?s1\<lparr>hw := h2,
        mem := store_words dst (sector_words (hd_sector view dev ?s1) (unat secno) (unat n)) (mem s)\<rparr>)"
    "ata_disk (view h2) = ata_disk (view h1)" by auto
  let ?ws = "sector_words (hd_sector view dev ?s1) (unat secno) (unat n)"
  let ?s2 = "?s1\<lparr>hw := h2, mem := store_words dst ?ws (mem s)\<rparr>"
  have ws: "?ws = load_words src (256 * unat n) (mem s)"
    using sector_words_put [of ?sl] by (simp add: hd_sector_def w(3))
  then have "load_words dst (256 * unat n) (mem ?s2) = load_words src (256 * unat n) (mem s)"
    using load_store_words [of ?ws dst "mem s"] n by simp
  from load_words_bytes [OF this] have "\<forall>i < 512 * unat n. mem ?s2 (dst + of_nat i) = mem s (src + of_nat i)"
    by simp
  moreover have "hd_sector view dev ?s2 l = hd_sector view dev s l"
    if "l < unat secno \<or> unat secno + unat n \<le> l" for l
    using that by (auto simp: hd_sector_def r(2) w(3) put_sectors_def)
  ultimately show ?thesis using w(1) r(1)
    by (intro exI [of _ ?s1] exI [of _ ?s2]) simp
qed

definition demo_hd :: "ata hd" where
  "demo_hd = vmm.extend demo_vmm
     \<lparr>hw = sim_ata, irq_mask = 0, ticks = 0, ide_devices = (\<lambda>_. sim_hda), hd_num_devices = 1\<rparr>"

lemma demo_hd_simps [simp]:
  "hw demo_hd = sim_ata" "ide_devices demo_hd = (\<lambda>_. sim_hda)"
  by (simp_all add: demo_hd_def vmm.defs)

lemma demo_hd_ok: "hd_ok sim_io id 0 demo_hd"
  using sim_channel sim_ata_ready by (simp add: hd_ok_def)

theorem hd_write_read_roundtrip_witness:
  "\<exists>s1 s2. hd_write_device sim_io 0 100 0xC0200000 2 demo_hd = (0, s1) \<and>
     hd_read_device sim_io 0 100 0xC0300000 2 s1 = (0, s2) \<and>
     (\<forall>i < 1024. mem s2 (0xC0300000 + of_nat i) = mem demo_hd (0xC0200000 + of_nat i))"
proof -
  have "hd_in_range 0 100 2 demo_hd" by (simp add: hd_in_range_def)
  from hd_write_read_roundtrip [OF demo_hd_ok this, of "0xC0200000" "0xC0300000"]
  show ?thesis by simp blast
qed

text \<open>
  The driver never hangs: on a drive that stays busy, a transfer of any number of sectors
  returns \<open>-1\<close> after exactly 100000 reads of the status register, with the memory unchanged and
  no command sent.
\<close>

theorem hd_timeout:
  assumes "always_busy io (ide_base (ide_devices s dev))" and "ide_present (ide_devices s dev)"
    and "hd_in_range dev secno n s" and "n \<noteq> 0"
  shows "let h = (poll_status io (ide_base (ide_devices s dev)) ^^ 100000) (hw s) in
    hd_read_device io dev secno buf n s = (-1, s\<lparr>hw := h\<rparr>) \<and>
    hd_write_device io dev secno buf n s = (-1, s\<lparr>hw := h\<rparr>)"
proof -
  obtain k where "unat n = Suc k" using assms(4) by (cases "unat n") (auto simp: unat_eq_zero)
  then show ?thesis
    using assms(2) hd_in_range_test [OF assms(3)] wait_ready_busy [OF assms(1)]
    by (simp_all add: hd_read_device_def hd_write_device_def hd_wait_ready_on_base_def Let_def)
qed

text \<open>The hardware of this witness counts the reads of its ports.\<close>

definition dead_io :: "nat port_io" where
  "dead_io = \<lparr>p_inb = (\<lambda>_ n. (0x80, n + 1)), p_inw = (\<lambda>_ n. (0, n)), p_inl = (\<lambda>_ n. (0, n)), p_outb = (\<lambda>_ _ n. n), p_outw = (\<lambda>_ _ n. n)\<rparr>"

definition dead_hd :: "nat hd" where
  "dead_hd = vmm.extend demo_vmm
     \<lparr>hw = 0, irq_mask = 0, ticks = 0, ide_devices = (\<lambda>_. sim_hda), hd_num_devices = 1\<rparr>"

theorem hd_timeout_witness:
  "hd_read_device dead_io 0 100 0xC0200000 8 dead_hd = (-1, dead_hd\<lparr>hw := 100000\<rparr>)"
proof -
  have b: "(0x80 :: u8) = push_bit 7 1" by simp
  have "bit (0x80 :: u8) 7" unfolding b by (simp add: bit_push_bit_iff)
  then have "always_busy dead_io IDE0_BASE" by (simp add: always_busy_def dead_io_def inb_def)
  moreover have "poll_status dead_io IDE0_BASE = Suc" by (simp add: poll_status_def inb_def dead_io_def fun_eq_iff)
  moreover have "(Suc ^^ n) 0 = n" for n by (induction n) simp_all
  moreover have "hw dead_hd = 0" "ide_devices dead_hd = (\<lambda>_. sim_hda)" by (simp_all add: dead_hd_def vmm.defs)
  ultimately show ?thesis
    using hd_timeout [of dead_io dead_hd 0 100 8 "0xC0200000"] by (simp add: hd_in_range_def)
qed

text \<open>
  The bounds check can be passed with a sector that is not on the drive: \<open>secno + nsecs\<close>
  wraps around, so a transfer of one sector at 0xFFFFFFFF is accepted on every drive, and goes to
  it as sector 0xFFFFFFF.
\<close>

theorem hd_bounds_check_wraps:
  assumes ok: "hd_ok io view dev s"
  shows "(\<exists>h. hd_read_device io dev 0xFFFFFFFF buf 1 s =
      (0, s\<lparr>hw := h, mem := store_words buf (hd_sector view dev s 0xFFFFFFF) (mem s)\<rparr>)) \<and>
    (\<exists>h. hd_write_device io dev 0xFFFFFFFF buf 1 s = (0, s\<lparr>hw := h\<rparr>) \<and>
      hd_sector view dev (s\<lparr>hw := h\<rparr>) 0xFFFFFFF = load_words buf 256 (mem s))"
proof (rule conjI)
  let ?d = "ide_devices s dev"
  have a: "ide_present ?d" "ata_channel io (ide_base ?d) view" "ata_ready (view (hw s))"
    using ok by (simp_all add: hd_ok_def)
  have t: "take_bit 28 (0xFFFFFFFF :: u32) = 0xFFFFFFF" by (simp add: take_bit_eq_mod)
  have l: "unat (0xFFFFFFF :: u32) + unat (0 :: u32) + 1 \<le> 2 ^ 28" by simp
  have z: "(4294967296 :: u32) = 0" by simp
  then have g: "\<not> di_size (ide_info ?d) < 4294967296" by (simp only: z not_less_zero) simp
  obtain h where "read_loop io (ide_base ?d) (drive_select (ide_drive ?d)) 0xFFFFFFF buf 0 1 (hw s) (mem s) =
      (0, h, store_words buf (sector_words (ata_disk (view (hw s)) (ide_drive ?d \<noteq> 0)) 0xFFFFFFF 1) (mem s))"
    using read_loop_result [OF a(2,3) l, of "ide_drive ?d" buf "mem s"] by auto
  then show "\<exists>h. hd_read_device io dev 0xFFFFFFFF buf 1 s =
      (0, s\<lparr>hw := h, mem := store_words buf (hd_sector view dev s 0xFFFFFFF) (mem s)\<rparr>)"
    using a(1) g one_sector_28(1) [of io _ _ "0xFFFFFFFF" buf] unfolding t
    by (auto simp: hd_read_device_def Let_def hd_sector_def sector_words_def simp del: read_loop.simps)
  obtain h where "write_loop io (ide_base ?d) (drive_select (ide_drive ?d)) 0xFFFFFFF buf 0 1 (mem s) (hw s) = (0, h)"
    "ata_disk (view h) = put_sectors (ide_drive ?d \<noteq> 0) 0xFFFFFFF 1 buf (mem s) (ata_disk (view (hw s)))"
    using write_loop_result [OF a(2,3) l, of "ide_drive ?d" buf "mem s"] by auto
  then show "\<exists>h. hd_write_device io dev 0xFFFFFFFF buf 1 s = (0, s\<lparr>hw := h\<rparr>) \<and>
      hd_sector view dev (s\<lparr>hw := h\<rparr>) 0xFFFFFFF = load_words buf 256 (mem s)"
    using a(1) g one_sector_28(2) [of io _ _ "0xFFFFFFFF" buf] unfolding t
    by (auto simp: hd_write_device_def Let_def hd_sector_def put_sectors_def simp del: write_loop.simps)
qed

theorem hd_bounds_check_wraps_witness:
  "\<exists>h. hd_read_device sim_io 0 0xFFFFFFFF 0xC0200000 1 demo_hd =
     (0, demo_hd\<lparr>hw := h, mem := store_words 0xC0200000 (replicate 256 0) (mem demo_hd)\<rparr>)"
  using hd_bounds_check_wraps [OF demo_hd_ok, of "0xC0200000"] by (simp add: hd_sector_def sim_ata_def)

text \<open>
  After \<^verbatim>\<open>blk_init\<close>, whatever the ports answer, the disk driver counts exactly the
  drives it detected, but the block layer has registered only those whose number is below that
  count, in order, and the disk it hands out is the first of them: a drive that is the only one
  and not the first is never registered.
\<close>

theorem blk_init_registers:
  "let s' = blk_init io s in
    hd_num_devices s' = length (filter (present_in s') [0..<4]) \<and>
    registered s' = map Some (filter (present_in s') [0..<hd_num_devices s']) \<and>
    (\<forall>i < hd_num_devices s'. present_in s' i \<longrightarrow> disk_devs s' i = disk_of i (ide_devices s' i)) \<and>
    blk_get_device BLK_TYPE_DISK s' = List.find (present_in s') [0..<hd_num_devices s']"
proof -
  obtain s1 where s1: "s1 = hd_init io (s\<lparr>block_devices := (\<lambda>i. if i < MAX_BLK_DEV then None else block_devices s i), num_devices := 0\<rparr>)"
    by simp
  obtain n where n: "n = hd_num_devices s1" by simp
  have c: "hd_num_devices s1 = length (filter (present_in s1) [0..<4])"
    unfolding s1 by (rule hd_init_counts)
  have n4: "n \<le> 4" using c length_filter_le [of "present_in s1" "[0..<4]"] n by simp
  have "num_devices s1 = 0" by (simp add: s1 hd_init_blk)
  then have r0: "registered s1 = []" "num_devices s1 + n \<le> MAX_BLK_DEV"
    using n4 by (simp_all add: registered_def MAX_BLK_DEV_def)
  obtain s' where s': "s' = register_loop 0 n s1" by simp
  have e: "blk_init io s = s'"
    using n4 by (simp add: blk_init_def s' n s1 hd_get_device_count_def MAX_BLK_DEV_def Let_def)
  note R = register_loop_registered [OF r0(2) s']
  have p: "present_in s' = present_in s1" using R by (simp add: present_in_def fun_eq_iff)
  have reg: "registered s' = map Some (filter (present_in s') [0..<n])" using R r0(1) p by simp
  then have "map (block_devices s') [0..<0 + num_devices s'] = map Some (filter (present_in s') [0..<n])"
    by (simp add: registered_def)
  moreover have "bd_type (disk_devs s' d) = BLK_TYPE_DISK" if "d \<in> set (filter (present_in s') [0..<n])" for d
    using that R p by (auto simp: disk_of_def)
  ultimately have "blk_get_device BLK_TYPE_DISK s' =
      (case filter (present_in s') [0..<n] of [] \<Rightarrow> None | d # _ \<Rightarrow> Some d)"
    unfolding blk_get_device_def by (intro find_device_first) blast+
  then have "blk_get_device BLK_TYPE_DISK s' = List.find (present_in s') [0..<n]"
    by (simp add: find_filter)
  moreover have "hd_num_devices s' = n" using R n by simp
  moreover have "n = length (filter (present_in s') [0..<4])" using c n p by simp
  ultimately show ?thesis using reg R p e by (simp add: Let_def)
qed

definition demo_blk :: "ata blk" where
  "demo_blk = hd.extend (hd.truncate demo_hd)
     \<lparr>block_devices = (\<lambda>_. None), num_devices = 0, disk_devs = (\<lambda>_. disk_of 0 sim_hda)\<rparr>"

theorem blk_init_registers_witness:
  "let s' = blk_init sim_io demo_blk in
    hd_num_devices s' \<le> 4 \<and> registered s' = map Some (filter (present_in s') [0..<hd_num_devices s'])"
proof -
  have "length (filter P [0..<4 :: nat]) \<le> 4" for P using length_filter_le [of P "[0..<4]"] by simp
  then show ?thesis using blk_init_registers [of sim_io demo_blk] by (simp add: Let_def)
qed

end
