(* ===== verification/Vmm.thy ===== *)
theory Vmm
  imports Swap
begin

text \<open>
  \<^verbatim>\<open>kern/mm/vmm.c\<close>: the page-fault handler, the kernel's own mappings set up at boot, and
  the walk that lists runs of page-table entries with equal permissions.
\<close>

section \<open>Listing the page directory\<close>

definition perm2str :: "u32 \<Rightarrow> string" where
  "perm2str perm =
     [if perm AND PTE_U \<noteq> 0 then CHR ''u'' else CHR ''-'',
      if perm AND PTE_P \<noteq> 0 then CHR ''r'' else CHR ''-'',
      if perm AND PTE_W \<noteq> 0 then CHR ''w'' else CHR ''-'']"

text \<open>The two loops of \<^verbatim>\<open>get_pgtable_items\<close>, over the contents of a table.\<close>

fun skip_absent :: "(nat \<Rightarrow> u32) \<Rightarrow> nat \<Rightarrow> nat \<Rightarrow> nat" where
  "skip_absent table start 0 = start"
| "skip_absent table start (Suc n) =
     (if table start AND PTE_P = 0 then skip_absent table (start + 1) n else start)"

fun same_perm :: "(nat \<Rightarrow> u32) \<Rightarrow> u32 \<Rightarrow> nat \<Rightarrow> nat \<Rightarrow> nat" where
  "same_perm table perm start 0 = start"
| "same_perm table perm start (Suc n) =
     (if table start AND PTE_USER = perm then same_perm table perm (start + 1) n else start)"

text \<open>The permission and, when a run is found, its bounds \<open>left\<close> and \<open>right\<close>.\<close>

definition get_pgtable_items :: "nat \<Rightarrow> nat \<Rightarrow> (nat \<Rightarrow> u32) \<Rightarrow> u32 \<times> (nat \<times> nat) option" where
  "get_pgtable_items start limit table =
     (if start \<ge> limit then (0, None)
      else
        let start = skip_absent table start (limit - start)
        in if start < limit then
             let left = start;
                 perm = table start AND PTE_USER;
                 start = same_perm table perm (start + 1) (limit - (start + 1))
             in (perm, Some (left, start))
           else (0, None))"

text \<open>The loops stop at the first entry that differs, or at the limit.\<close>

lemma skip_absent_spec:
  "start \<le> skip_absent table start n \<and> skip_absent table start n \<le> start + n \<and>
   (\<forall>i. start \<le> i \<and> i < skip_absent table start n \<longrightarrow> table i AND PTE_P = 0) \<and>
   (skip_absent table start n < start + n \<longrightarrow> table (skip_absent table start n) AND PTE_P \<noteq> 0)"
proof (induction n arbitrary: start)
  case (Suc n)
  show ?case
  proof (cases "table start AND PTE_P = 0")
    case True
    have "table i AND PTE_P = 0" if "start \<le> i" "i < skip_absent table (start + 1) n" for i
      using that True Suc.IH [of "start + 1"] by (cases "i = start") auto
    then show ?thesis using True Suc.IH [of "start + 1"] by simp
  qed auto
qed auto

lemma same_perm_spec:
  "start \<le> same_perm table perm start n \<and> same_perm table perm start n \<le> start + n \<and>
   (\<forall>i. start \<le> i \<and> i < same_perm table perm start n \<longrightarrow> table i AND PTE_USER = perm) \<and>
   (same_perm table perm start n < start + n \<longrightarrow> table (same_perm table perm start n) AND PTE_USER \<noteq> perm)"
proof (induction n arbitrary: start)
  case (Suc n)
  show ?case
  proof (cases "table start AND PTE_USER = perm")
    case True
    have "table i AND PTE_USER = perm" if "start \<le> i" "i < same_perm table perm (start + 1) n" for i
      using that True Suc.IH [of "start + 1"] by (cases "i = start") auto
    then show ?thesis using True Suc.IH [of "start + 1"] by simp
  qed auto
qed auto

lemma get_pgtable_items_none:
  assumes "get_pgtable_items start limit table = (perm, None)"
  shows "perm = 0 \<and> (\<forall>i. start \<le> i \<and> i < limit \<longrightarrow> table i AND PTE_P = 0)"
proof (cases "start < limit")
  case True
  then have "start + (limit - start) = limit" by simp
  then show ?thesis
    using assms skip_absent_spec [of start table "limit - start"] True
    by (auto simp: get_pgtable_items_def Let_def split: if_splits)
qed (use assms in \<open>auto simp: get_pgtable_items_def\<close>)

lemma get_pgtable_items_some:
  assumes "get_pgtable_items start limit table = (perm, Some (l, r))"
  shows "start \<le> l \<and> l < r \<and> r \<le> limit \<and> (\<forall>i. start \<le> i \<and> i < l \<longrightarrow> table i AND PTE_P = 0) \<and>
    table l AND PTE_P \<noteq> 0 \<and> (\<forall>i. l \<le> i \<and> i < r \<longrightarrow> table i AND PTE_USER = perm) \<and>
    (r < limit \<longrightarrow> table r AND PTE_USER \<noteq> perm)"
proof -
  have lt: "start < limit" using assms by (auto simp: get_pgtable_items_def split: if_splits)
  then have lim: "start + (limit - start) = limit" by simp
  obtain k where k: "k = skip_absent table start (limit - start)" by simp
  have kl: "k < limit" "l = k" "perm = table k AND PTE_USER" "r = same_perm table perm (k + 1) (limit - (k + 1))"
    using assms lt by (auto simp: get_pgtable_items_def Let_def k split: if_splits)
  have "k + 1 + (limit - (k + 1)) = limit" using kl(1) by simp
  then have r: "k + 1 \<le> r" "r \<le> limit" "r < limit \<longrightarrow> table r AND PTE_USER \<noteq> perm"
    "\<forall>i. k + 1 \<le> i \<and> i < r \<longrightarrow> table i AND PTE_USER = perm"
    using same_perm_spec [of "k + 1" table perm "limit - (k + 1)"] kl(4) by simp_all
  have "table i AND PTE_USER = perm" if "k \<le> i" "i < r" for i
    using that r(4) kl(3) by (cases "i = k") auto
  then show ?thesis
    using skip_absent_spec [of start table "limit - start"] k kl(1,2) r lim by auto
qed

lemma get_pgtable_items_step:
  "get_pgtable_items start limit table = (perm, Some (l, r)) \<Longrightarrow> start < r \<and> r \<le> limit"
  using get_pgtable_items_some by fastforce

text \<open>
  What \<^verbatim>\<open>vpd\<close> and \<^verbatim>\<open>vpt\<close> show: the directory's slot for \<^verbatim>\<open>VPT\<close> points back at the
  directory, so the addresses from there on are translated to the entries of the directory and
  of its tables.
\<close>

definition vpd :: "memory \<Rightarrow> u32 \<Rightarrow> nat \<Rightarrow> u32" where
  "vpd m pgdir i = load32 m (pgdir + 4 * of_nat i)"

definition vpt :: "memory \<Rightarrow> u32 \<Rightarrow> nat \<Rightarrow> u32" where
  "vpt m pgdir i =
     load32 m (K_ADDR (PDE_ADDR (vpd m pgdir (i div 1024))) + 4 * of_nat (i mod 1024))"

section \<open>Page faults\<close>

definition vmm_pg_fault ::
  "'h port_io \<Rightarrow> u32 \<Rightarrow> u32 \<Rightarrow> ('h, 'a) swap_scheme \<Rightarrow> (int \<times> ('h, 'a) swap_scheme) res" where
  "vmm_pg_fault io error_code addr s =
     (let perm = PTE_U;
          addr = ROUND_DOWN addr PG_SIZE
      in bindE (get_pte (mm_pgdir s) addr True s) (\<lambda>(ptep, s).
         if ptep = 0 then Inl Null_Deref
         else if load32 (mem s) ptep = 0 then
           bindE (pgdir_alloc_page (mm_pgdir s) addr perm s) (\<lambda>(page, s). Inr (0, s))
         else bindE (swap_in io addr s) (\<lambda>(_, _, s). Inr (0, s))))"

section \<open>Boot\<close>

text \<open>\<^verbatim>\<open>mm_init\<close> leaves \<^verbatim>\<open>swap_list\<close> as it is: null in the static \<^verbatim>\<open>init_mm\<close>.\<close>

definition mm_init :: "'a vmm_scheme \<Rightarrow> 'a vmm_scheme" where
  "mm_init s = (upd_links (list_init MmapHead) s)\<lparr>mm_pgdir := 0, mm_map_count := 0\<rparr>"

fun pgdir_init_loop :: "u32 \<Rightarrow> u32 \<Rightarrow> u32 \<Rightarrow> u32 \<Rightarrow> nat \<Rightarrow> 'a mach_scheme \<Rightarrow> (unit \<times> 'a mach_scheme) res" where
  "pgdir_init_loop pgdir la pa perm 0 s = Inr ((), s)"
| "pgdir_init_loop pgdir la pa perm (Suc n) s =
     bindE (get_pte pgdir la True s) (\<lambda>(ptep, s).
     if ptep = 0 then Inl Null_Deref
     else
       let s = upd_mem (store32 ptep (pa OR PTE_P OR perm)) s
       in pgdir_init_loop pgdir (la + PG_SIZE) (pa + PG_SIZE) perm n s)"

definition pgdir_init ::
  "u32 \<Rightarrow> u32 \<Rightarrow> u32 \<Rightarrow> u32 \<Rightarrow> u32 \<Rightarrow> 'a mach_scheme \<Rightarrow> (unit \<times> 'a mach_scheme) res" where
  "pgdir_init pgdir la sz pa perm s =
     (let n = ROUND_UP sz PG_SIZE div PG_SIZE;
          la = ROUND_DOWN la PG_SIZE;
          pa = ROUND_DOWN pa PG_SIZE
      in pgdir_init_loop pgdir la pa perm (unat n) s)"

definition vmm_init :: "u32 \<Rightarrow> 'a vmm_scheme \<Rightarrow> (unit \<times> 'a vmm_scheme) res" where
  "vmm_init boot_pgdir s =
     (let s = upd_mem (store32 (boot_pgdir + 4 * PDX VPT) (P_ADDR boot_pgdir OR PTE_P OR PTE_W)) s
      in bindE (pgdir_init boot_pgdir KERNEL_BASE KERNEL_MEM_SIZE 0 PTE_W s) (\<lambda>(_, s).
         let s = mm_init s
         in Inr ((), s\<lparr>mm_pgdir := boot_pgdir\<rparr>)))"

end
