(* ===== verification/Swap_Search.thy ===== *)
theory Swap_Search
  imports Vmm Mapping_Laws
begin

text \<open>
  The reverse lookup \<^verbatim>\<open>find_vaddr_for_page\<close>: the two loops find the lowest slot, in the
  order of the directory and then of the table, whose entry is present and names the frame.
\<close>

definition names_frame :: "u32 \<Rightarrow> nat \<Rightarrow> bool" where
  "names_frame e p \<longleftrightarrow> e AND PTE_P \<noteq> 0 \<and> PTE_ADDR e = page2pa p"

lemma find_pte_first:
  "\<forall>j. i \<le> j \<and> j < t \<longrightarrow> \<not> names_frame (load32 m (pt + 4 * of_nat j)) p \<Longrightarrow>
   names_frame (load32 m (pt + 4 * of_nat t)) p \<Longrightarrow> i \<le> t \<Longrightarrow> t < i + n \<Longrightarrow>
   find_pte m pt (page2pa p) i n = Some t"
proof (induction n arbitrary: i)
  case (Suc n)
  show ?case
  proof (cases "i = t")
    case True
    then show ?thesis using Suc.prems(2) by (simp add: names_frame_def)
  next
    case False
    then have "\<not> names_frame (load32 m (pt + 4 * of_nat i)) p" "i + 1 \<le> t"
      using Suc.prems by auto
    then show ?thesis using Suc.IH [of "i + 1"] Suc.prems by (auto simp: names_frame_def)
  qed
qed simp

lemma find_pte_none:
  "\<forall>j. i \<le> j \<and> j < i + n \<longrightarrow> \<not> names_frame (load32 m (pt + 4 * of_nat j)) p \<Longrightarrow>
   find_pte m pt (page2pa p) i n = None"
proof (induction n arbitrary: i)
  case (Suc n)
  have "\<not> names_frame (load32 m (pt + 4 * of_nat i)) p" using Suc.prems by simp
  moreover have "find_pte m pt (page2pa p) (i + 1) n = None" by (rule Suc.IH) (use Suc.prems in simp)
  ultimately show ?case by (auto simp: names_frame_def Let_def)
qed simp

lemma table_addr: "K_ADDR (PDE_ADDR e) + 4 * of_nat t = entry_addr (pa2page e) t"
  by (simp add: entry_addr_def PDE_ADDR_def page2kva_K_ADDR page2pa_pa2page)

lemma load_table: "load32 m (K_ADDR (PDE_ADDR (entry m pg d)) + 4 * of_nat t) = entry m (table_of m pg d) t"
  by (simp add: table_addr entry_def table_of_def)

lemma load_directory: "load32 m (page2kva pg + 4 * of_nat d) = entry m pg d"
  by (simp add: entry_def entry_addr_def)

text \<open>No slot of directory entry \<open>d\<close> names the frame, and none before the \<open>t\<close>-th does.\<close>

definition no_slot :: "memory \<Rightarrow> nat \<Rightarrow> nat \<Rightarrow> nat \<Rightarrow> nat \<Rightarrow> bool" where
  "no_slot m pg p d t \<longleftrightarrow> (\<forall>j < t. \<not> names_frame (vm_entry m pg d j) p)"

lemma names_frame_zero [simp]: "\<not> names_frame 0 p"
  by (simp add: names_frame_def)

lemma find_pde_first:
  "\<forall>e. i \<le> e \<and> e < d \<longrightarrow> no_slot m pg p e 1024 \<Longrightarrow> no_slot m pg p d t \<Longrightarrow>
   names_frame (vm_entry m pg d t) p \<Longrightarrow> i \<le> d \<Longrightarrow> d < i + n \<Longrightarrow> t < 1024 \<Longrightarrow>
   find_pde m (page2kva pg) (page2pa p) i n = push_bit 22 (of_nat d) OR push_bit 12 (of_nat t)"
proof (induction n arbitrary: i)
  case (Suc n)
  show ?case
  proof (cases "i = d")
    case True
    have pr: "pde_present m pg d" using Suc.prems(3) by (auto simp: vm_entry_def split: if_splits)
    have "find_pte m (K_ADDR (PDE_ADDR (entry m pg d))) (page2pa p) 0 1024 = Some t"
      by (rule find_pte_first) (use Suc.prems pr in \<open>auto simp: load_table no_slot_def vm_entry_def\<close>)
    then show ?thesis using True pr by (simp add: load_directory pde_present_def)
  next
    case False
    then have no: "no_slot m pg p i 1024" "i + 1 \<le> d" using Suc.prems by auto
    have IH: "find_pde m (page2kva pg) (page2pa p) (i + 1) n = push_bit 22 (of_nat d) OR push_bit 12 (of_nat t)"
      by (rule Suc.IH) (use Suc.prems no(2) in auto)
    show ?thesis
    proof (cases "pde_present m pg i")
      case True
      have "find_pte m (K_ADDR (PDE_ADDR (entry m pg i))) (page2pa p) 0 1024 = None"
        by (rule find_pte_none) (use no(1) True in \<open>auto simp: load_table no_slot_def vm_entry_def\<close>)
      then show ?thesis using IH True by (simp add: load_directory pde_present_def)
    next
      case False
      then show ?thesis using IH by (simp add: load_directory pde_present_def)
    qed
  qed
qed simp

text \<open>
  \<open>la\<close> is the first address, page aligned and below the virtual page table, whose entry
  names the frame.
\<close>

definition first_mapped :: "memory \<Rightarrow> nat \<Rightarrow> nat \<Rightarrow> u32 \<Rightarrow> bool" where
  "first_mapped m pg p la \<longleftrightarrow> la \<noteq> 0 \<and> la AND 0xFFF = 0 \<and> unat (PDX la) < VPT_IDX \<and>
     names_frame (translate m pg la) p \<and>
     no_slot m pg p (unat (PDX la)) (unat (PTX la)) \<and>
     (\<forall>d < unat (PDX la). no_slot m pg p d 1024)"

lemma address_of_slots:
  assumes "la AND 0xFFF = (0 :: u32)"
  shows "push_bit 22 (PDX la) OR push_bit 12 (PTX la) = la"
proof (rule bit_word_eqI)
  fix n assume n: "n < LENGTH(32)"
  have "bit (la AND 0xFFF) n \<longleftrightarrow> bit la n \<and> n < 12"
  proof -
    have "la AND 0xFFF = take_bit 12 la" by (simp add: take_bit_eq_mask mask_eq_exp_minus_1)
    then show ?thesis by (simp add: bit_take_bit_iff) blast
  qed
  then have low: "n < 12 \<Longrightarrow> \<not> bit la n" using assms by simp
  show "bit (push_bit 22 (PDX la) OR push_bit 12 (PTX la)) n \<longleftrightarrow> bit la n"
    using n low
    by (cases "n < 12"; cases "n < 22")
      (auto simp: PDX_bits PTX_bits bit_or_iff bit_push_bit_iff bit_take_bit_iff bit_drop_bit_eq)
qed

lemma find_vaddr_first:
  assumes "first_mapped (mem s) pg p la" "mm_pgdir s = page2kva pg"
  shows "find_vaddr_for_page p s = la"
proof -
  have "find_pde (mem s) (page2kva pg) (page2pa p) 0 1024 =
      push_bit 22 (of_nat (unat (PDX la))) OR push_bit 12 (of_nat (unat (PTX la)))"
    by (rule find_pde_first) (use assms(1) PDX_less [of la] PTX_less [of la] in
      \<open>auto simp: first_mapped_def translate_def\<close>)
  then show ?thesis
    using assms address_of_slots [of la] by (simp add: find_vaddr_for_page_def first_mapped_def)
qed

lemma first_mapped_present:
  assumes "first_mapped m pg p la"
  shows "pde_present m pg (unat (PDX la))" "unat (PDX la) \<in> user_slots" "in_user la"
  using assms PDX_less [of la]
  by (auto simp: first_mapped_def translate_def vm_entry_def user_slots_def in_user_def split: if_splits)

text \<open>Taking one address away from another page leaves the first address of this one.\<close>

lemma first_mapped_maps_one:
  assumes f: "first_mapped m pg p la" and o: "maps_one pg lb v m m'" "\<not> names_frame v p"
    and ne: "PDX lb \<noteq> PDX la \<or> PTX lb \<noteq> PTX la"
  shows "first_mapped m' pg p la"
proof -
  have v: "d \<in> user_slots \<Longrightarrow> t < 1024 \<Longrightarrow> vm_entry m' pg d t =
      (if d = unat (PDX lb) \<and> t = unat (PTX lb) then v else vm_entry m pg d t)" for d t
    using o(1) by (simp add: maps_one_def)
  have below: "d \<in> user_slots" if "d \<le> unat (PDX la)" for d
    using that f by (auto simp: first_mapped_def user_slots_def VPT_IDX_1003)
  have no: "no_slot m' pg p d t" if "no_slot m pg p d t" "d \<le> unat (PDX la)" "t \<le> 1024" for d t
    using that v [OF below [OF that(2)]] o(2) by (auto simp: no_slot_def)
  have "translate m' pg la = translate m pg la"
    using v [OF below [OF order_refl] PTX_less] ne by (auto simp: translate_def word_unat_eq_iff)
  then show ?thesis
    using f no PTX_less [of la] by (auto simp: first_mapped_def less_imp_le)
qed

end
