(* ===== verification/Store_Interface.thy ===== *)
theory Store_Interface
  imports Prelude
begin

text \<open>
  What the swapping code relies on when it moves pages to and from the swap file: a store of
  numbered slots, one page each. A write puts a frame into a slot and a read puts a slot into
  a frame; nothing else changes. The client's consequences are proved from these laws alone.
\<close>

text \<open>Writing several frames, each to a slot of its own; the first failure ends it.\<close>

fun write_all :: "('e \<Rightarrow> nat \<Rightarrow> 's \<Rightarrow> int \<times> 's) \<Rightarrow> ('e \<times> nat) list \<Rightarrow> 's \<Rightarrow> int \<times> 's" where
  "write_all wr [] s = (0, s)"
| "write_all wr ((e, p) # xs) s =
     (let (r, s) = wr e p s in if r \<noteq> 0 then (r, s) else write_all wr xs s)"

locale page_store =
  fixes ok :: "'s \<Rightarrow> bool" and limit :: "'s \<Rightarrow> nat" and slot :: "'s \<Rightarrow> nat \<Rightarrow> 'w"
    and frame :: "'s \<Rightarrow> nat \<Rightarrow> 'w" and frames :: "nat set" and slot_of :: "'e \<Rightarrow> nat"
    and rd :: "'e \<Rightarrow> nat \<Rightarrow> 's \<Rightarrow> int \<times> 's" and wr :: "'e \<Rightarrow> nat \<Rightarrow> 's \<Rightarrow> int \<times> 's"
  assumes write_law: "ok s \<Longrightarrow> slot_of e < limit s \<Longrightarrow> p \<in> frames \<Longrightarrow>
      \<exists>s'. wr e p s = (0, s') \<and> ok s' \<and> limit s' = limit s \<and> (\<forall>q \<in> frames. frame s' q = frame s q) \<and>
        (\<forall>i < limit s. slot s' i = (if i = slot_of e then frame s p else slot s i))"
    and read_law: "ok s \<Longrightarrow> slot_of e < limit s \<Longrightarrow> p \<in> frames \<Longrightarrow>
      \<exists>s'. rd e p s = (0, s') \<and> ok s' \<and> limit s' = limit s \<and> (\<forall>i < limit s. slot s' i = slot s i) \<and>
        (\<forall>q \<in> frames. frame s' q = (if q = p then slot s (slot_of e) else frame s q))"
begin

lemma write_read:
  assumes "ok s" "slot_of e < limit s" "p \<in> frames" "q \<in> frames"
  obtains s1 s2 where "wr e p s = (0, s1)" "rd e q s1 = (0, s2)" "ok s2" "frame s2 q = frame s p"
proof -
  obtain s1 where 1: "wr e p s = (0, s1)" "ok s1" "limit s1 = limit s" "slot s1 (slot_of e) = frame s p"
    using write_law [OF assms(1-3)] assms(2) by auto
  obtain s2 where "rd e q s1 = (0, s2)" "ok s2" "frame s2 q = slot s1 (slot_of e)"
    using read_law [of s1 e q] 1 assms by auto
  then show ?thesis using 1 that by simp
qed

lemma write_all_slots:
  "ok s \<Longrightarrow> \<forall>(e, p) \<in> set xs. slot_of e < limit s \<and> p \<in> frames \<Longrightarrow>
   distinct (map (slot_of \<circ> fst) xs) \<Longrightarrow>
   \<exists>s'. write_all wr xs s = (0, s') \<and> ok s' \<and> limit s' = limit s \<and>
     (\<forall>q \<in> frames. frame s' q = frame s q) \<and>
     (\<forall>(e, p) \<in> set xs. slot s' (slot_of e) = frame s p) \<and>
     (\<forall>i < limit s. i \<notin> (slot_of \<circ> fst) ` set xs \<longrightarrow> slot s' i = slot s i)"
proof (induction xs arbitrary: s)
  case (Cons x xs)
  obtain e p where x: "x = (e, p)" by (cases x)
  obtain s1 where 1: "wr e p s = (0, s1)" "ok s1" "limit s1 = limit s"
    "\<forall>q \<in> frames. frame s1 q = frame s q"
    "\<forall>i < limit s. slot s1 i = (if i = slot_of e then frame s p else slot s i)"
    using write_law [of s e p] Cons.prems x by auto
  obtain s' where 2: "write_all wr xs s1 = (0, s')" "ok s'" "limit s' = limit s1"
    "\<forall>q \<in> frames. frame s' q = frame s1 q"
    "\<forall>(e, p) \<in> set xs. slot s' (slot_of e) = frame s1 p"
    "\<forall>i < limit s1. i \<notin> (slot_of \<circ> fst) ` set xs \<longrightarrow> slot s' i = slot s1 i"
    using Cons.IH [of s1] Cons.prems 1(2,3) by auto
  have "slot s' (slot_of e) = frame s p"
    using 2(6) 1(3,5) Cons.prems(2,3) x by (auto simp: image_iff)
  moreover have "slot s' (slot_of e') = frame s p'" if "(e', p') \<in> set xs" for e' p'
    using that 2(5) 1(4) Cons.prems(2) by fastforce
  ultimately show ?case using 1 2 x Cons.prems(2) by (intro exI [of _ s']) auto
qed simp

lemma write_all_read:
  assumes "ok s" "\<forall>(e, p) \<in> set xs. slot_of e < limit s \<and> p \<in> frames"
    "distinct (map (slot_of \<circ> fst) xs)" "(e, p) \<in> set xs" "q \<in> frames"
  obtains s1 s2 where "write_all wr xs s = (0, s1)" "rd e q s1 = (0, s2)" "frame s2 q = frame s p"
proof -
  obtain s1 where 1: "write_all wr xs s = (0, s1)" "ok s1" "limit s1 = limit s"
    "slot s1 (slot_of e) = frame s p"
    using write_all_slots [OF assms(1-3)] assms(4) by auto
  have "slot_of e < limit s1" using assms(2,4) 1(3) by auto
  then obtain s2 where "rd e q s1 = (0, s2)" "frame s2 q = slot s1 (slot_of e)"
    using read_law [of s1 e q] 1(2) assms(5) by auto
  then show ?thesis using 1 that by simp
qed

end

end
