(* ===== verification/Swap_Store.thy ===== *)
theory Swap_Store
  imports Swap Hd_Laws Store_Interface
begin

text \<open>
  The swap file, \<^verbatim>\<open>swapfs_read\<close> and \<^verbatim>\<open>swapfs_write\<close> over the block layer and the disk
  driver, as a store of pages: the interpretation of the interface, with the laws proved down to
  the ports. A state is fit when the swap device is a registered disk that is long enough
  for \<open>max_swap_offset\<close> pages behind the first 1000 sectors.
\<close>

section \<open>Entries and sectors\<close>

definition swap_slot :: "u32 \<Rightarrow> nat" where
  "swap_slot e = unat (drop_bit 8 e AND 0xFFFFFF)"

lemma and_24: "x AND 0xFFFFFF = take_bit 24 (x :: u32)"
  by (simp add: take_bit_eq_mask mask_eq_exp_minus_1)

lemma swap_slot_less: "swap_slot e < 2 ^ 24"
proof -
  have "unat (take_bit 24 (drop_bit 8 e)) = take_bit 24 (unat (drop_bit 8 e))"
    by (rule unsigned_take_bit_eq)
  then show ?thesis by (simp add: swap_slot_def and_24 take_bit_eq_mod)
qed

lemma swap_slot_push: "unat k < 2 ^ 24 \<Longrightarrow> swap_slot (push_bit 8 k) = unat k"
proof -
  assume k: "unat k < 2 ^ 24"
  have "unat (take_bit 24 k) = unat k" using k by (simp only: unsigned_take_bit_eq) (simp add: take_bit_eq_mod)
  moreover have "drop_bit 8 (push_bit 8 k) AND 0xFFFFFF = take_bit 24 k"
    unfolding and_24 by (rule bit_word_eqI) (auto simp: bit_take_bit_iff bit_drop_bit_eq bit_push_bit_iff)
  ultimately show ?thesis by (simp only: swap_slot_def)
qed

lemma unat_swap_sector: "unat (swap_sector e) = 1000 + 8 * swap_slot e"
proof -
  have "unat ((drop_bit 8 e AND 0xFFFFFF) * 8 :: u32) = swap_slot e * 8"
    using swap_slot_less [of e] by (subst unat_mult_lem [THEN iffD1]) (simp_all add: swap_slot_def)
  then show ?thesis
    using swap_slot_less [of e]
    by (simp add: swap_sector_def SWAP_START_SECTOR_def SECTORS_PER_PAGE_def PG_SIZE_def unat_add_small)
qed

section \<open>The state of the store\<close>

definition swap_dev :: "('h, 'a) swap_scheme \<Rightarrow> nat" where
  "swap_dev s = bd_private_data (disk_devs s (the (swap_device s)))"

definition swap_ok :: "'h port_io \<Rightarrow> ('h \<Rightarrow> ata) \<Rightarrow> ('h, 'a) swap_scheme \<Rightarrow> bool" where
  "swap_ok io view s \<longleftrightarrow> swap_device s \<noteq> None \<and>
     bd_read (disk_devs s (the (swap_device s))) = Disk_Read_Wrapper \<and>
     bd_write (disk_devs s (the (swap_device s))) = Disk_Write_Wrapper \<and>
     hd_ok io view (swap_dev s) s \<and>
     1000 + 8 * unat (max_swap_offset s) \<le> unat (di_size (ide_info (ide_devices s (swap_dev s))))"

definition swap_limit :: "('h, 'a) swap_scheme \<Rightarrow> nat" where
  "swap_limit s = unat (max_swap_offset s)"

definition slot_words :: "('h \<Rightarrow> ata) \<Rightarrow> ('h, 'a) swap_scheme \<Rightarrow> nat \<Rightarrow> u16 list" where
  "slot_words view s i = sector_words (hd_sector view (swap_dev s) s) (1000 + 8 * i) 8"

definition frame_words :: "('h, 'a) swap_scheme \<Rightarrow> nat \<Rightarrow> u16 list" where
  "frame_words s p = load_words (page2kva p) 2048 (mem s)"

lemma sectors_per_page: "unat SECTORS_PER_PAGE = 8"
  by (simp add: SECTORS_PER_PAGE_def PG_SIZE_def)

lemma swap_in_range:
  assumes "swap_ok io view s" "swap_slot e < swap_limit s"
  shows "hd_in_range (swap_dev s) (swap_sector e) SECTORS_PER_PAGE s"
  using assms by (simp add: hd_in_range_def swap_ok_def swap_limit_def unat_swap_sector sectors_per_page)

lemma frame_byte:
  assumes "p < KFRAMES" "i < 4096"
  shows "kva2page (page2kva p + of_nat i) = p"
proof -
  have "unat (page2kva p + of_nat i - page2kva p) < 4096" using assms(2) by (simp add: unat_of_nat)
  then show ?thesis using in_frame_iff [of p "page2kva p + of_nat i"] assms(1) by (simp only: KFRAMES_less)
qed

lemma store_frame_other:
  assumes "p < KFRAMES" "length ws = 2048" "kva2page a \<noteq> p"
  shows "store_words (page2kva p) ws m a = m a"
  by (rule store_words_other) (use frame_byte [OF assms(1)] assms(2,3) in auto)

lemma load_frame_store:
  assumes "p < KFRAMES" "q < KFRAMES" "length ws = 2048"
  shows "load_words (page2kva q) 2048 (store_words (page2kva p) ws m) =
    (if q = p then ws else load_words (page2kva q) 2048 m)"
proof (cases "q = p")
  case True
  then show ?thesis using load_store_words [of ws "page2kva p" m] assms(3) by simp
next
  case False
  have "load_words (page2kva q) 2048 (store_words (page2kva p) ws m) = load_words (page2kva q) 2048 m"
    by (rule load_words_cong, rule store_frame_other [OF assms(1,3)])
      (use frame_byte [OF assms(2)] False in simp)
  then show ?thesis using False by simp
qed

section \<open>Reading and writing a slot\<close>

lemma swapfs_write_result:
  assumes ok: "swap_ok io view s" and e: "swap_slot e < swap_limit s"
  obtains h' where "swapfs_write io e p s = (0, s\<lparr>hw := h'\<rparr>)" "swap_ok io view (s\<lparr>hw := h'\<rparr>)"
    "\<And>i. slot_words view (s\<lparr>hw := h'\<rparr>) i = (if i = swap_slot e then frame_words s p else slot_words view s i)"
    "\<And>l. l < 1000 \<Longrightarrow> hd_sector view (swap_dev s) (s\<lparr>hw := h'\<rparr>) l = hd_sector view (swap_dev s) s l"
proof -
  let ?sl = "ide_drive (ide_devices s (swap_dev s)) \<noteq> 0"
  let ?l = "1000 + 8 * swap_slot e"
  obtain d where o: "swap_device s = Some d" "bd_write (disk_devs s d) = Disk_Write_Wrapper"
    "hd_ok io view (swap_dev s) s" "swap_dev s = bd_private_data (disk_devs s d)"
    using ok by (auto simp: swap_ok_def swap_dev_def)
  obtain h' where h': "hd_write_device io (swap_dev s) (swap_sector e) (page2kva p) SECTORS_PER_PAGE s = (0, s\<lparr>hw := h'\<rparr>)"
    "ata_ready (view h')"
    "ata_disk (view h') = put_sectors ?sl ?l 8 (page2kva p) (mem s) (ata_disk (view (hw s)))"
    by (rule hd_write_device_result [OF o(3) swap_in_range [OF ok e], of "page2kva p"])
      (simp add: unat_swap_sector sectors_per_page)
  let ?s' = "s\<lparr>hw := h'\<rparr>"
  have "blk_write io (swap_device s) (swap_sector e) (page2kva p) SECTORS_PER_PAGE s = (0, ?s')"
    using o(1,2,4) h'(1) by (simp add: blk_write_def disk_write_wrapper_def)
  then have "swapfs_write io e p s = (0, ?s')" by (simp add: swapfs_write_def)
  moreover have "swap_ok io view ?s'"
    using ok h'(2) by (simp add: swap_ok_def hd_ok_def swap_dev_def)
  moreover have "slot_words view ?s' i = (if i = swap_slot e then frame_words s p else slot_words view s i)" for i
  proof (cases "i = swap_slot e")
    case True
    then show ?thesis
      using sector_words_put [of ?sl ?l 8 "page2kva p" "mem s"]
      by (simp add: slot_words_def hd_sector_def swap_dev_def h'(3) [unfolded swap_dev_def] frame_words_def)
  next
    case False
    then have "1000 + 8 * i + 8 \<le> ?l \<or> ?l + 8 \<le> 1000 + 8 * i" by linarith
    then have "sector_words (put_sectors ?sl ?l 8 (page2kva p) (mem s) (ata_disk (view (hw s))) ?sl) (1000 + 8 * i) 8 =
        sector_words (ata_disk (view (hw s)) ?sl) (1000 + 8 * i) 8"
      by (intro sector_words_put_other) auto
    then show ?thesis using False
      by (simp add: slot_words_def hd_sector_def swap_dev_def h'(3) [unfolded swap_dev_def])
  qed
  moreover have "hd_sector view (swap_dev s) ?s' l = hd_sector view (swap_dev s) s l" if "l < 1000" for l
    using that by (simp add: hd_sector_def h'(3) put_sectors_def)
  ultimately show ?thesis using that by blast
qed

lemma swapfs_read_result:
  assumes ok: "swap_ok io view s" and e: "swap_slot e < swap_limit s"
  obtains h' where
    "swapfs_read io e p s = (0, s\<lparr>hw := h', mem := store_words (page2kva p) (slot_words view s (swap_slot e)) (mem s)\<rparr>)"
    "ata_ready (view h')" "ata_disk (view h') = ata_disk (view (hw s))"
    "length (slot_words view s (swap_slot e)) = 2048"
proof -
  obtain d where o: "swap_device s = Some d" "bd_read (disk_devs s d) = Disk_Read_Wrapper"
    "hd_ok io view (swap_dev s) s" "swap_dev s = bd_private_data (disk_devs s d)"
    using ok by (auto simp: swap_ok_def swap_dev_def)
  obtain h' where h': "hd_read_device io (swap_dev s) (swap_sector e) (page2kva p) SECTORS_PER_PAGE s =
      (0, s\<lparr>hw := h', mem := store_words (page2kva p) (slot_words view s (swap_slot e)) (mem s)\<rparr>)"
    "ata_ready (view h')" "ata_disk (view h') = ata_disk (view (hw s))"
    by (rule hd_read_device_result [OF o(3) swap_in_range [OF ok e], of "page2kva p"])
      (simp add: unat_swap_sector sectors_per_page slot_words_def)
  have rd: "swapfs_read io e p s =
      (0, s\<lparr>hw := h', mem := store_words (page2kva p) (slot_words view s (swap_slot e)) (mem s)\<rparr>)"
    using o(1,2,4) h'(1) by (simp add: swapfs_read_def blk_read_def disk_read_wrapper_def)
  have "length (hd_sector view (swap_dev s) s l) = 256" for l
    using o(3) by (simp add: hd_sector_def hd_ok_def ata_ready_def)
  then have len: "length (slot_words view s (swap_slot e)) = 2048"
    by (simp add: slot_words_def length_sector_words)
  show ?thesis by (rule that [OF rd h'(2,3) len])
qed

lemma swap_ok_io:
  assumes "swap_ok io view s" "ata_ready (view h)"
  shows "swap_ok io view (s\<lparr>hw := h, mem := m\<rparr>)"
  using assms by (simp add: swap_ok_def hd_ok_def swap_dev_def)

section \<open>The swap file is a page store\<close>

interpretation swapfs: page_store "swap_ok io view" swap_limit "slot_words view" frame_words "{..<KFRAMES}"
  swap_slot "swapfs_read io" "swapfs_write io" for io view
proof
  fix s :: "('a, 'b) swap_scheme" and e p
  assume ok: "swap_ok io view s" and e: "swap_slot e < swap_limit s" and p: "p \<in> {..<KFRAMES}"
  obtain h' where h': "swapfs_write io e p s = (0, s\<lparr>hw := h'\<rparr>)" "swap_ok io view (s\<lparr>hw := h'\<rparr>)"
    "\<And>i. slot_words view (s\<lparr>hw := h'\<rparr>) i = (if i = swap_slot e then frame_words s p else slot_words view s i)"
    using swapfs_write_result [OF ok e] by metis
  then show "\<exists>s'. swapfs_write io e p s = (0, s') \<and> swap_ok io view s' \<and> swap_limit s' = swap_limit s \<and>
      (\<forall>q \<in> {..<KFRAMES}. frame_words s' q = frame_words s q) \<and>
      (\<forall>i < swap_limit s. slot_words view s' i = (if i = swap_slot e then frame_words s p else slot_words view s i))"
    by (intro exI [of _ "s\<lparr>hw := h'\<rparr>"]) (simp add: swap_limit_def frame_words_def)
next
  fix s :: "('a, 'b) swap_scheme" and e p
  assume ok: "swap_ok io view s" and e: "swap_slot e < swap_limit s" and p: "p \<in> {..<KFRAMES}"
  let ?ws = "slot_words view s (swap_slot e)"
  obtain h' where h': "swapfs_read io e p s = (0, s\<lparr>hw := h', mem := store_words (page2kva p) ?ws (mem s)\<rparr>)"
    "ata_ready (view h')" "ata_disk (view h') = ata_disk (view (hw s))" "length ?ws = 2048"
    using swapfs_read_result [OF ok e] by metis
  let ?s' = "s\<lparr>hw := h', mem := store_words (page2kva p) ?ws (mem s)\<rparr>"
  have "frame_words ?s' q = (if q = p then ?ws else frame_words s q)" if "q < KFRAMES" for q
    using load_frame_store [of p q ?ws "mem s"] p that h'(4) by (simp add: frame_words_def)
  moreover have "slot_words view ?s' i = slot_words view s i" for i
    by (simp add: slot_words_def hd_sector_def swap_dev_def h'(3))
  ultimately show "\<exists>s'. swapfs_read io e p s = (0, s') \<and> swap_ok io view s' \<and> swap_limit s' = swap_limit s \<and>
      (\<forall>i < swap_limit s. slot_words view s' i = slot_words view s i) \<and>
      (\<forall>q \<in> {..<KFRAMES}. frame_words s' q = (if q = p then slot_words view s (swap_slot e) else frame_words s q))"
    using h'(1) swap_ok_io [OF ok h'(2)] by (intro exI [of _ ?s']) (simp add: swap_limit_def)
qed

end
