(* ===== verification/Swap_State.thy ===== *)
theory Swap_State
  imports Swap_Search Swap_Store Swap_Fifo_Laws
begin

text \<open>
  The state in which the kernel swaps: the invariant \<open>swap_state\<close> (directory, free frames,
  disk, slot counter and the queue of swappable pages), and one lemma per step the swapping code
  takes, each of which keeps it: a frame is taken or given back, a page enters or leaves the queue,
  a page-table entry or a whole frame is written, the disk moves, the counter advances.
\<close>

section \<open>Fields outside the machine\<close>

lemma mach_more_swap:
  assumes "mach.more s' = mach.more (s :: ('h, 'a) swap_scheme)"
  shows "mm_pgdir s' = mm_pgdir s" "mm_swap_list s' = mm_swap_list s" "hw s' = hw s"
    "ide_devices s' = ide_devices s" "disk_devs s' = disk_devs s" "swap_mgr s' = swap_mgr s"
    "max_swap_offset s' = max_swap_offset s" "swap_device s' = swap_device s"
    "swap_offset s' = swap_offset s" "swap.more s' = swap.more s"
  using assms by (cases s; cases s'; simp)+

lemma store_more:
  assumes "mach.more s' = mach.more (s :: ('h, 'a) swap_scheme)"
  shows "swap_ok io view s' = swap_ok io view s" "slot_words view s' = slot_words view s"
  using mach_more_swap [OF assms]
  by (simp_all add: swap_ok_def hd_ok_def swap_dev_def slot_words_def hd_sector_def fun_eq_iff)

lemma more_links: "mach.more (upd_links f s) = mach.more s"
  and more_page: "mach.more (upd_page p g s) = mach.more s"
  and more_mem: "mach.more (upd_mem k s) = mach.more s"
  and more_tlb: "mach.more (tlb_invl pd la s) = mach.more s"
  by (simp_all add: upd_links_def upd_page_def upd_mem_def tlb_invl_def)

lemma ff_dev [simp]:
  "ff_ok (s\<lparr>hw := h\<rparr>) = ff_ok s" "ff_avail (s\<lparr>hw := h\<rparr>) = ff_avail s"
  "ff_ok (s\<lparr>mem := m\<rparr>) = ff_ok s" "ff_avail (s\<lparr>mem := m\<rparr>) = ff_avail s"
  by (rule ff_ok_avail_same; simp)+

lemma ff_offset [simp]:
  "ff_ok (s\<lparr>swap_offset := k\<rparr>) = ff_ok s" "ff_avail (s\<lparr>swap_offset := k\<rparr>) = ff_avail s"
  by (rule ff_ok_avail_same; simp)+

lemma upd_mem_pgdir [simp]: "mm_pgdir (upd_mem f s) = mm_pgdir s"
  by (simp add: upd_mem_def)

section \<open>Well-formed states\<close>

definition swappable :: "'a mach_scheme \<Rightarrow> nat \<Rightarrow> nat \<Rightarrow> bool" where
  "swappable s pg p \<longleftrightarrow> p < unat (npage s) \<and> p \<notin> ff_avail s \<and> p \<noteq> pg \<and>
     (\<forall>d \<in> user_slots. pde_present (mem s) pg d \<longrightarrow> table_of (mem s) pg d \<noteq> p)"

text \<open>The counter of the next slot stays between one and the size of the swap file.\<close>

definition offset_ok :: "('h, 'a) swap_scheme \<Rightarrow> bool" where
  "offset_ok s \<longleftrightarrow> 0 < unat (swap_offset s) \<and> unat (swap_offset s) < unat (max_swap_offset s) \<and>
     unat (max_swap_offset s) \<le> 2 ^ 24"

definition swap_state ::
  "'h port_io \<Rightarrow> ('h \<Rightarrow> ata) \<Rightarrow> nat \<Rightarrow> ('h, 'a) swap_scheme \<Rightarrow> nat list \<Rightarrow> bool" where
  "swap_state io view pg s ps \<longleftrightarrow> pgdir_ok s pg \<and> mm_pgdir s = page2kva pg \<and>
     swap_mgr s = Swap_Mgr_Fifo \<and> swap_ok io view s \<and> offset_ok s \<and> pra_queue s ps \<and>
     (\<forall>p \<in> set ps. swappable s pg p)"

lemma swap_stateD:
  assumes "swap_state io view pg s ps"
  shows "pgdir_ok s pg" "mm_pgdir s = page2kva pg" "swap_mgr s = Swap_Mgr_Fifo"
    "swap_ok io view s" "offset_ok s" "pra_queue s ps" "p \<in> set ps \<Longrightarrow> swappable s pg p"
  using assms by (simp_all add: swap_state_def)

lemma swappable_mono:
  assumes "swappable s pg p" "npage s' = npage s" "p \<notin> ff_avail s'"
    "\<And>d. d \<in> user_slots \<Longrightarrow> pde_present (mem s') pg d = pde_present (mem s) pg d \<and>
       table_of (mem s') pg d = table_of (mem s) pg d"
  shows "swappable s' pg p"
  using assms by (auto simp: swappable_def)

lemma pra_queue_frame:
  assumes q: "pra_queue s ps" and fr: "ff_frame F s s'" and d: "set ps \<inter> F = {}"
    and sl: "mm_swap_list s' = mm_swap_list s"
  shows "pra_queue s' ps"
proof -
  have "clist (links s') PraHead (map PageLink ps)"
    by (rule ff_frame_other_list [OF fr]) (use q d in \<open>auto simp: pra_queue_def\<close>)
  then show ?thesis using q sl by (simp add: pra_queue_def)
qed

lemma pra_queue_cong: "links s' = links s \<Longrightarrow> mm_swap_list s' = mm_swap_list s \<Longrightarrow> pra_queue s' ps = pra_queue s ps"
  by (simp add: pra_queue_def)

lemma frame_words_store_entry:
  assumes "T < 2 ^ 20" "t < 1024" "q < KFRAMES" "q \<noteq> T"
  shows "load_words (page2kva q) 2048 (store32 (entry_addr T t) v m) = load_words (page2kva q) 2048 m"
proof (rule load_words_cong)
  fix i :: nat assume "i < 2 * 2048"
  then have "kva2page (page2kva q + of_nat i) = q" using frame_byte [OF assms(3)] by simp
  then show "store32 (entry_addr T t) v m (page2kva q + of_nat i) = m (page2kva q + of_nat i)"
    using entry_addr_frame [OF assms(1,2)] assms(4) by (intro store32_other) metis
qed

lemma entry_store_words:
  assumes "p < KFRAMES" "length ws = 2048" "q < 2 ^ 20" "q \<noteq> p" "j < 1024"
  shows "entry (store_words (page2kva p) ws m) q j = entry m q j"
  unfolding entry_def
proof (rule load32_cong)
  fix i :: nat assume "i < 4"
  then have "kva2page (entry_addr q j + of_nat i) = q" using assms by (simp add: entry_addr_frame)
  then show "store_words (page2kva p) ws m (entry_addr q j + of_nat i) = m (entry_addr q j + of_nat i)"
    using store_frame_other [OF assms(1,2)] assms(4) by metis
qed

lemma more_eq_swap_state:
  assumes "pmm.more s' = pmm.more (s :: ('h, 'a) swap_scheme)"
  shows "mm_pgdir s' = mm_pgdir s" "mm_swap_list s' = mm_swap_list s" "swap_mgr s' = swap_mgr s"
    "max_swap_offset s' = max_swap_offset s" "swap_offset s' = swap_offset s"
    "swap_ok io view s' = swap_ok io view s" "slot_words view s' = slot_words view s" "mem s' = mem s"
    "swap.more s' = swap.more s"
  using mach_more_swap [OF more_eq_mach(6) [OF assms]] store_more [OF more_eq_mach(6) [OF assms]]
    more_eq_mach [OF assms] by simp_all

lemma store_words_table:
  assumes ok: "pgdir_ok s pg" and p: "p < KFRAMES" "p \<noteq> pg" and l: "length ws = 2048"
    and m': "m' = store_words (page2kva p) ws (mem s)"
    and np: "\<forall>d \<in> user_slots. pde_present (mem s) pg d \<longrightarrow> table_of (mem s) pg d \<noteq> p"
  shows "d < 1024 \<Longrightarrow> entry m' pg d = entry (mem s) pg d"
    and "d < 1024 \<Longrightarrow> pde_present m' pg d = pde_present (mem s) pg d"
    and "d < 1024 \<Longrightarrow> table_of m' pg d = table_of (mem s) pg d"
    and "d \<in> user_slots \<Longrightarrow> t < 1024 \<Longrightarrow> vm_entry m' pg d t = vm_entry (mem s) pg d t"
proof -
  show e: "entry m' pg d = entry (mem s) pg d" if "d < 1024" for d
    unfolding m' by (rule entry_store_words [OF p(1) l pgdir_ok_pg [OF ok] p(2) [symmetric] that])
  then show P: "pde_present m' pg d = pde_present (mem s) pg d"
    and Q: "table_of m' pg d = table_of (mem s) pg d" if "d < 1024" for d
    using that by (simp_all add: pde_present_def table_of_def)
  show "vm_entry m' pg d t = vm_entry (mem s) pg d t" if "d \<in> user_slots" "t < 1024"
  proof (cases "pde_present (mem s) pg d")
    case True
    have "entry m' (table_of (mem s) pg d) t = entry (mem s) (table_of (mem s) pg d) t"
      unfolding m' using entry_store_words [OF p(1) l table_of_less _ that(2)] np that(1) True by blast
    then show ?thesis using P Q user_slots_less [OF that(1)] by (simp add: vm_entry_def)
  next
    case False
    then show ?thesis using P user_slots_less [OF that(1)] by (simp add: vm_entry_def)
  qed
qed

section \<open>What a mapping operation leaves alone\<close>

definition outside :: "nat set \<Rightarrow> 'a mach_scheme \<Rightarrow> 'a mach_scheme \<Rightarrow> bool" where
  "outside F s s' \<longleftrightarrow> mach.more s' = mach.more s \<and>
     (\<forall>x. x \<notin> insert FreeHead (PageLink ` F) \<longrightarrow>
        nxt (links s') x = nxt (links s) x \<and> prv (links s') x = prv (links s) x)"

lemma outside_trans: "outside F s t \<Longrightarrow> outside G t u \<Longrightarrow> G \<subseteq> F \<Longrightarrow> outside F s u"
  by (fastforce simp: outside_def)

lemma outside_frame: "ff_frame F s s' \<Longrightarrow> outside F s s'"
  using more_eq_mach(6) [of s' s] by (simp add: ff_frame_def outside_def)

lemma outside_alloc:
  assumes ok: "ff_ok s" and a: "alloc_pages 1 s = Inr (r, s')"
  shows "outside (ff_avail s) s s'"
proof (cases "ff_avail s = {}")
  case True
  then show ?thesis using alloc_page_none [OF ok] a by (simp add: outside_def)
next
  case False
  then show ?thesis using alloc_page_some [OF ok False] a outside_frame by (metis Inr_inject Pair_inject)
qed

lemma swap_state_outside:
  assumes st: "swap_state io view pg s ps" and ok: "pgdir_ok s' pg" and o: "outside (ff_avail s) s s'"
    and sw: "\<And>p. p \<in> set ps \<Longrightarrow> swappable s' pg p"
  shows "swap_state io view pg s' ps"
proof -
  note D = swap_stateD [OF st]
  have m: "mach.more s' = mach.more s" using o by (simp add: outside_def)
  note x = mach_more_swap [OF m] store_more [OF m]
  have "set ps \<inter> ff_avail s = {}" using D(7) by (auto simp: swappable_def)
  then have "clist (links s') PraHead (map PageLink ps)"
    using D(6) o by (subst clist_frame [of _ _ _ "links s"]) (auto simp: pra_queue_def outside_def)
  then have "pra_queue s' ps" using D(6) x by (simp add: pra_queue_def)
  then show ?thesis using D ok sw x by (simp add: swap_state_def offset_ok_def)
qed

section \<open>The steps of the swapping code\<close>

lemma store_pte_swappable:
  assumes ok: "pgdir_ok s pg" and d: "d \<in> user_slots" "pde_present (mem s) pg d" and t: "t < 1024"
    and s': "mem s' = store32 (entry_addr (table_of (mem s) pg d) t) v (mem s)"
    "ff_avail s' = ff_avail s" "npage s' = npage s"
    and p: "swappable s pg p"
  shows "swappable s' pg p"
  using p by (rule swappable_mono)
    (use s' store_pte(2,3) [OF ok d t s'(1) user_slots_less] p in \<open>auto simp: swappable_def\<close>)

lemma next_offset:
  assumes "offset_ok s"
  shows "unat (swap_offset s + 1) = unat (swap_offset s) + 1"
    and "swap_slot (push_bit 8 (swap_offset s)) = unat (swap_offset s)"
  using assms by (simp_all add: offset_ok_def unat_add_small swap_slot_push)

definition bump :: "('h, 'a) swap_scheme \<Rightarrow> ('h, 'a) swap_scheme" where
  "bump s = (let s = s\<lparr>swap_offset := swap_offset s + 1\<rparr>
     in if swap_offset s \<ge> max_swap_offset s then s\<lparr>swap_offset := 1\<rparr> else s)"

lemma bump_simps [simp]:
  "mem (bump s) = mem s" "npage (bump s) = npage s" "links (bump s) = links s" "hw (bump s) = hw s"
  "ff_ok (bump s) = ff_ok s" "ff_avail (bump s) = ff_avail s" "mm_pgdir (bump s) = mm_pgdir s"
  "mm_swap_list (bump s) = mm_swap_list s" "swap_mgr (bump s) = swap_mgr s"
  "max_swap_offset (bump s) = max_swap_offset s" "swap_ok io view (bump s) = swap_ok io view s"
  "slot_words view (bump s) = slot_words view s" "pd_ref (pages (bump s) q) = pd_ref (pages s q)"
  by (simp_all add: bump_def Let_def swap_ok_def hd_ok_def swap_dev_def slot_words_def hd_sector_def fun_eq_iff)

lemma bump_offset:
  assumes "offset_ok s"
  shows "offset_ok (bump s)"
    and "unat (swap_offset (bump s)) =
      (if unat (swap_offset s) + 1 < unat (max_swap_offset s) then unat (swap_offset s) + 1 else 1)"
  using assms next_offset(1) [OF assms]
  by (auto simp: bump_def Let_def offset_ok_def word_le_nat_alt)

text \<open>Everything but the queue and the swappable pages survives a step inside the machine.\<close>

lemma swap_state_machine:
  assumes st: "swap_state io view pg s ps" and m: "mach.more s' = mach.more s" and ok: "pgdir_ok s' pg"
    and q: "pra_queue s' qs" and sw: "\<And>p. p \<in> set qs \<Longrightarrow> swappable s' pg p"
  shows "swap_state io view pg s' qs"
  using swap_stateD [OF st] mach_more_swap [OF m] store_more [OF m] ok q sw
  by (simp add: swap_state_def offset_ok_def)

lemma swap_state_queue:
  assumes "swap_state io view pg s ps"
  shows "distinct ps" "set ps \<inter> ff_avail s = {}"
proof -
  have "clist (links s) PraHead (map PageLink ps)" using swap_stateD(6) [OF assms] by (simp add: pra_queue_def)
  then show "distinct ps" using clist_distinct by (fastforce simp: distinct_map)
  show "set ps \<inter> ff_avail s = {}" using swap_stateD(7) [OF assms] by (auto simp: swappable_def)
qed

lemma swappable_less: "pgdir_ok s pg \<Longrightarrow> swappable s pg p \<Longrightarrow> p < KFRAMES"
  by (auto simp: swappable_def pgdir_ok_def)

text \<open>A step that moves queue links only.\<close>

lemma swap_state_links:
  assumes st: "swap_state io view pg s ps"
    and inv: "\<And>bs. ff_inv s bs \<Longrightarrow> ff_inv (upd_links f s) bs"
    and q: "pra_queue (upd_links f s) qs" and sw: "\<And>p. p \<in> set qs \<Longrightarrow> swappable s pg p"
  shows "swap_state io view pg (upd_links f s) qs" "ff_avail (upd_links f s) = ff_avail s"
proof -
  note D = swap_stateD [OF st]
  obtain bs where bs: "ff_inv s bs" using pgdir_ok_ff [OF D(1)] by (auto simp: ff_ok_def)
  have ff: "ff_ok (upd_links f s)" using ff_ok_intro [OF inv [OF bs]] by simp
  show av: "ff_avail (upd_links f s) = ff_avail s"
    using ff_avail_frames [OF bs] ff_avail_frames [OF inv [OF bs]] by simp
  have "pgdir_ok (upd_links f s) pg"
    by (rule pgdir_ok_transfer [OF D(1) ff])
      (use av pgdir_ok_free [OF D(1)] pgdir_ok_table(3) [OF D(1)] in \<open>auto simp: page_simps mem_simps\<close>)
  then show "swap_state io view pg (upd_links f s) qs"
    by (rule swap_state_machine [OF st more_links _ q])
      (use sw av in \<open>simp add: swappable_def page_simps mem_simps\<close>)
qed

lemma swap_state_pop:
  assumes st: "swap_state io view pg s (v # ps)"
  obtains s' where "mgr_swap_out_victim tick s = Inr (0, Some v, s')" "swap_state io view pg s' ps"
    "ff_avail s' = ff_avail s" "mem s' = mem s" "npage s' = npage s" "mach.more s' = mach.more s"
proof -
  let ?s = "upd_links (list_del (PageLink v)) s"
  note D = swap_stateD [OF st]
  have vic: "mgr_swap_out_victim tick s = Inr (0, Some v, ?s)"
    using D(3,6) pra_queue_next [OF D(6)]
    by (simp add: mgr_swap_out_victim_def swap_fifo_swap_out_victim_def Let_def pra_queue_def)
  note L = swap_state_links [OF st, where f = "list_del (PageLink v)" and qs = ps,
      OF pra_pop_keeps_free_list [OF D(6) _ swap_state_queue(2) [OF st]] pra_queue_pop [OF D(6)] D(7)]
  show ?thesis by (rule that [OF vic]) (use L in \<open>simp_all add: page_simps mem_simps more_links\<close>)
qed

lemma swap_state_push:
  assumes st: "swap_state io view pg s ps" and p: "swappable s pg p" "p \<notin> set ps"
  obtains s' where "mgr_map_swappable la p True s = Inr (0, s')" "swap_state io view pg s' (ps @ [p])"
    "ff_avail s' = ff_avail s" "mem s' = mem s" "npage s' = npage s" "mach.more s' = mach.more s"
proof -
  let ?f = "list_add_before PraHead (PageLink p)"
  note D = swap_stateD [OF st]
  have m: "mgr_map_swappable la p True s = Inr (0, upd_links ?f s)"
    using D(3,6) by (simp add: mgr_map_swappable_def swap_fifo_map_swappable_def pra_queue_def)
  have pa: "p \<notin> ff_avail s" using p(1) by (simp add: swappable_def)
  have sw: "swappable s pg q" if "q \<in> set (ps @ [p])" for q using that D(7) p(1) by auto
  note L = swap_state_links [OF st, where f = ?f and qs = "ps @ [p]",
      OF pra_push_keeps_free_list [OF D(6) _ pa swap_state_queue(2) [OF st]] pra_queue_push [OF D(6) p(2)] sw]
  show ?thesis by (rule that [OF m]) (use L in \<open>simp_all add: page_simps mem_simps more_links\<close>)
qed

lemma swap_state_alloc:
  assumes st: "swap_state io view pg s ps" and av: "ff_avail s \<noteq> {}"
  obtains p s' where "alloc_pages 1 s = Inr (Some p, s')" "swap_state io view pg s' ps" "swappable s' pg p"
    "p \<in> ff_avail s" "ff_avail s' = ff_avail s - {p}" "pmm.more s' = pmm.more s" "npage s' = npage s"
proof -
  note D = swap_stateD [OF st]
  note ff = pgdir_ok_ff [OF D(1)]
  obtain p s1 where a: "alloc_pages 1 s = Inr (Some p, s1)" "p \<in> ff_avail s" "ff_ok s1"
    "ff_avail s1 = ff_avail s - {p}" "ff_frame (ff_avail s) s s1"
    using alloc_page_some [OF ff av] by metis
  have m: "pmm.more s1 = pmm.more s" "npage s1 = npage s" using a(5) by (simp_all add: ff_frame_def)
  have ms: "mem s1 = mem s" using more_eq_mach(1) [OF m(1)] .
  have ok: "pgdir_ok s1 pg" by (rule alloc_page_pgdir_ok [OF D(1) a(5,3)]) (use a(4) in simp)
  have "swappable s1 pg q" if "q \<in> set ps" for q
    using D(7) [OF that] by (rule swappable_mono) (use m ms a(4) D(7) [OF that] in \<open>auto simp: swappable_def\<close>)
  from swap_state_outside [OF st ok outside_frame [OF a(5)] this]
  have "swap_state io view pg s1 ps" .
  moreover have "swappable s1 pg p"
    using a(2,4) m ms ff_avail_npage [OF ff] pgdir_ok_free [OF D(1)] pgdir_ok_table(3) [OF D(1)]
    by (auto simp: swappable_def)
  ultimately show ?thesis using that a m by blast
qed

lemma swap_state_free:
  assumes st: "swap_state io view pg s ps" and v: "swappable s pg v" "v \<notin> set ps"
  obtains s' where "pages_free v 1 s = Inr ((), s')" "swap_state io view pg s' ps"
    "ff_avail s' = insert v (ff_avail s)" "pmm.more s' = pmm.more s" "npage s' = npage s"
proof -
  note D = swap_stateD [OF st]
  have "{v..<v + unat (1 :: u32)} \<subseteq> {..<unat (npage s)} - ff_avail s" using v(1) by (auto simp: swappable_def)
  then obtain s1 where a: "pages_free v 1 s = Inr ((), s1)" "ff_ok s1"
    "ff_avail s1 = ff_avail s \<union> {v..<v + unat (1 :: u32)}"
    "ff_frame (ff_avail s \<union> {v..<v + unat (1 :: u32)}) s s1"
    using pages_free_range [OF pgdir_ok_ff [OF D(1)], of 1 v] by auto
  have av: "ff_avail s1 = insert v (ff_avail s)" using a(3) by auto
  have fr: "ff_frame (insert v (ff_avail s)) s s1" using a(4) by (simp add: Un_commute)
  then have m: "pmm.more s1 = pmm.more s" "npage s1 = npage s" by (simp_all add: ff_frame_def)
  note mm = more_eq_mach [OF m(1)]
  have ok: "pgdir_ok s1 pg"
    by (rule pgdir_ok_transfer [OF D(1) a(2)])
      (use m mm av v(1) pgdir_ok_free [OF D(1)] pgdir_ok_table(3) [OF D(1)] in \<open>auto simp: swappable_def\<close>)
  have "set ps \<inter> insert v (ff_avail s) = {}" using swap_state_queue(2) [OF st] v(2) by auto
  then have q: "pra_queue s1 ps"
    by (rule pra_queue_frame [OF D(6) fr]) (rule mach_more_swap(2) [OF mm(6)])
  have "swappable s1 pg q" if "q \<in> set ps" for q
    using D(7) [OF that]
    by (rule swappable_mono) (use that m mm av v(2) D(7) [OF that] in \<open>auto simp: swappable_def\<close>)
  from swap_state_machine [OF st mm(6) ok q this] show ?thesis using that a(1) av m by blast
qed

lemma swap_state_pte:
  assumes st: "swap_state io view pg s ps"
    and d: "d \<in> user_slots" "pde_present (mem s) pg d" and t: "t < 1024"
    and m: "mem s' = store32 (entry_addr (table_of (mem s) pg d) t) v (mem s)"
    and s': "ff_ok s' = ff_ok s" "ff_avail s' = ff_avail s" "npage s' = npage s" "links s' = links s"
    "mach.more s' = mach.more s"
  shows "swap_state io view pg s' ps"
proof (rule swap_state_machine [OF st s'(5)])
  note D = swap_stateD [OF st]
  show "pgdir_ok s' pg" by (rule store_pte_ok [OF D(1) d t m s'(1-3)])
  show "pra_queue s' ps" using D(6) s'(4) mach_more_swap(2) [OF s'(5)] by (simp add: pra_queue_def)
  show "swappable s' pg p" if "p \<in> set ps" for p
    by (rule store_pte_swappable [OF D(1) d t m s'(2,3) D(7) [OF that]])
qed

lemma swap_state_insert:
  assumes st: "swap_state io view pg s ps" and la: "in_user la" "pde_present (mem s) pg (unat (PDX la))"
  obtains s' where "page_insert (page2kva pg) p la perm s = Inr (True, s')" "swap_state io view pg s' ps"
    "\<And>q. swappable s pg q \<Longrightarrow> swappable s' pg q"
    "mem s' = store32 (entry_addr (table_of (mem s) pg (unat (PDX la))) (unat (PTX la)))
       (page2pa p OR perm OR PTE_P) (mem s)"
    "ff_avail s' = ff_avail s" "npage s' = npage s" "mach.more s' = mach.more s"
proof -
  note D = swap_stateD [OF st]
  note du = in_user_slot [OF la(1)]
  let ?e = "entry_addr (table_of (mem s) pg (unat (PDX la))) (unat (PTX la))"
  have ea: "?e \<noteq> 0" by (rule entry_addr_nonzero [OF pgdir_ok_table(1) [OF D(1) du la(2)] PTX_less])
  obtain s1 where s1: "s1 = tlb_invl (page2kva pg) la (upd_mem (store32 ?e (page2pa p OR perm OR PTE_P))
      (upd_page p (\<lambda>d. d\<lparr>pd_ref := pd_ref d + 1\<rparr>) s))" by simp
  have m: "mem s1 = store32 ?e (page2pa p OR perm OR PTE_P) (mem s)" "ff_ok s1 = ff_ok s"
    "ff_avail s1 = ff_avail s" "npage s1 = npage s" "links s1 = links s" "mach.more s1 = mach.more s"
    by (simp_all add: s1 mem_simps page_simps more_tlb more_mem more_page)
  have ins: "page_insert (page2kva pg) p la perm s = Inr (True, s1)"
    using page_insert_present [OF la(2) ea] by (simp add: s1)
  show ?thesis
    by (rule that [OF ins swap_state_pte [OF st du la(2) PTX_less m]
          store_pte_swappable [OF D(1) du la(2) PTX_less m(1,3,4)] m(1,3,4,6)])
qed

lemma swap_state_fill:
  assumes st: "swap_state io view pg s ps" and p: "swappable s pg p" and l: "length ws = 2048"
    and m: "m' = store_words (page2kva p) ws (mem s)"
  shows "swap_state io view pg (s\<lparr>mem := m'\<rparr>) ps" "swappable s pg q \<Longrightarrow> swappable (s\<lparr>mem := m'\<rparr>) pg q"
proof -
  note D = swap_stateD [OF st]
  have pp: "p < KFRAMES" "p \<noteq> pg" using p swappable_less [OF D(1)] by (auto simp: swappable_def)
  have "\<forall>d \<in> user_slots. pde_present (mem s) pg d \<longrightarrow> table_of (mem s) pg d \<noteq> p"
    using p by (auto simp: swappable_def)
  note tb = store_words_table [OF D(1) pp l m this]
  have ok: "pgdir_ok (s\<lparr>mem := m'\<rparr>) pg"
    by (rule pgdir_ok_transfer [OF D(1)])
      (use tb(1) pgdir_ok_ff [OF D(1)] pgdir_ok_free [OF D(1)] pgdir_ok_table(3) [OF D(1)] in auto)
  show sw: "swappable (s\<lparr>mem := m'\<rparr>) pg q" if "swappable s pg q" for q
    using that by (rule swappable_mono) (use that tb(2,3) user_slots_less in \<open>auto simp: swappable_def\<close>)
  show "swap_state io view pg (s\<lparr>mem := m'\<rparr>) ps"
    by (rule swap_state_machine [OF st _ ok]) (use D(6) sw D(7) in \<open>simp_all add: pra_queue_def\<close>)
qed

lemma swap_state_dev:
  assumes "swap_state io view pg s ps" "swap_ok io view (s\<lparr>hw := h\<rparr>)"
  shows "swap_state io view pg (s\<lparr>hw := h\<rparr>) ps"
  using assms by (simp add: swap_state_def pgdir_ok_def offset_ok_def pra_queue_def swappable_def)

lemma swap_state_bump: "swap_state io view pg s ps \<Longrightarrow> swap_state io view pg (bump s) ps"
  using bump_offset(1) [of s]
  by (simp add: swap_state_def pgdir_ok_def pra_queue_def swappable_def)

end
