(* ===== verification/Swap_Out.thy ===== *)
theory Swap_Out
  imports Swap_State
begin

text \<open>
  \<^verbatim>\<open>swap_out\<close> on a well-formed state: each round takes the page that was made swappable
  first, puts its contents into the next slot, leaves the slot in its page-table entry and frees
  the frame; nothing else is mapped differently and no other slot changes.
\<close>

section \<open>One round\<close>

text \<open>What one round leaves behind, when it moves page \<open>v\<close> away from address \<open>la\<close>.\<close>

definition swapped_out ::
  "('h \<Rightarrow> ata) \<Rightarrow> nat \<Rightarrow> nat \<Rightarrow> u32 \<Rightarrow> ('h, 'a) swap_scheme \<Rightarrow> ('h, 'a) swap_scheme \<Rightarrow> bool" where
  "swapped_out view pg v la s s' \<longleftrightarrow>
     maps_one pg la (push_bit 8 (swap_offset s)) (mem s) (mem s') \<and>
     (\<forall>d < 1024. pde_present (mem s') pg d = pde_present (mem s) pg d \<and>
        table_of (mem s') pg d = table_of (mem s) pg d) \<and>
     (\<forall>i. slot_words view s' i = (if i = unat (swap_offset s) then frame_words s v else slot_words view s i)) \<and>
     (\<forall>q < KFRAMES. q \<noteq> table_of (mem s) pg (unat (PDX la)) \<longrightarrow> frame_words s' q = frame_words s q) \<and>
     ff_avail s' = insert v (ff_avail s) \<and> npage s' = npage s \<and> max_swap_offset s' = max_swap_offset s \<and>
     unat (swap_offset s') =
       (if unat (swap_offset s) + 1 < unat (max_swap_offset s) then unat (swap_offset s) + 1 else 1)"

lemma swap_out_step_result:
  assumes st: "swap_state io view pg s (v # ps)" and f: "first_mapped (mem s) pg v la"
  obtains s' where "swap_out_step io tick s = Inr (True, s')" "swap_state io view pg s' ps"
    "swapped_out view pg v la s s'"
proof -
  note D = swap_stateD [OF st]
  let ?d = "unat (PDX la)" and ?t = "unat (PTX la)" and ?e = "push_bit 8 (swap_offset s)"
  let ?T = "table_of (mem s) pg ?d"
  note fp = first_mapped_present [OF f]
  note T = pgdir_ok_table [OF D(1) fp(2,1)]
  have v: "swappable s pg v" "v \<notin> set ps" using D(7) swap_state_queue(1) [OF st] by simp_all
  obtain s1 where r: "mgr_swap_out_victim tick s = Inr (0, Some v, s1)" "swap_state io view pg s1 ps"
    "ff_avail s1 = ff_avail s" "mem s1 = mem s" "npage s1 = npage s" "mach.more s1 = mach.more s"
    using swap_state_pop [OF st] .
  note x1 = mach_more_swap [OF r(6)] store_more [OF r(6)]
  have va: "find_vaddr_for_page v s1 = la" "la \<noteq> 0"
    using find_vaddr_first [of s1 pg v la] f r(4) x1 D(2) by (simp_all add: first_mapped_def)
  have gp: "get_pte (mm_pgdir s1) la False s1 = Inr (entry_addr ?T ?t, s1)" "entry_addr ?T ?t \<noteq> 0"
    using get_pte_present [of s1 pg la False] fp(1) r(4) x1 D(2) entry_addr_nonzero [OF T(1) PTX_less]
    by simp_all
  have sl: "swap_slot ?e = unat (swap_offset s)" "swap_slot ?e < swap_limit s1"
    using next_offset(2) [OF D(5)] D(5) x1 by (simp_all add: offset_ok_def swap_limit_def)
  obtain h where w: "swapfs_write io ?e v s1 = (0, s1\<lparr>hw := h\<rparr>)" "swap_ok io view (s1\<lparr>hw := h\<rparr>)"
    "\<And>i. slot_words view (s1\<lparr>hw := h\<rparr>) i = (if i = unat (swap_offset s) then frame_words s1 v else slot_words view s1 i)"
    using swapfs_write_result [OF swap_stateD(4) [OF r(2)] sl(2)] sl(1) by metis
  note st2 = swap_state_dev [OF r(2) w(2)]
  obtain s3 where s3: "s3 = tlb_invl (page2kva pg) la (upd_mem (store32 (entry_addr ?T ?t) ?e) (s1\<lparr>hw := h\<rparr>))" by simp
  have m3: "mem s3 = store32 (entry_addr ?T ?t) ?e (mem s)" "ff_avail s3 = ff_avail s" "npage s3 = npage s"
    "mach.more s3 = mach.more (s1\<lparr>hw := h\<rparr>)"
    using r by (simp_all add: s3 mem_simps more_tlb more_mem)
  note x3 = mach_more_swap [OF m3(4)] store_more [OF m3(4)]
  have st3: "swap_state io view pg s3 ps"
    by (rule swap_state_pte [OF st2 fp(2) _ PTX_less [of la]])
      (use fp(1) r(4) m3(4) in \<open>simp_all add: s3 mem_simps\<close>)
  have "swappable s3 pg v" by (rule store_pte_swappable [OF D(1) fp(2,1) PTX_less m3(1-3) v(1)])
  then obtain s4 where g: "pages_free v 1 s3 = Inr ((), s4)" "swap_state io view pg s4 ps"
    "ff_avail s4 = insert v (ff_avail s3)" "pmm.more s4 = pmm.more s3" "npage s4 = npage s3"
    using swap_state_free [OF st3 _ v(2)] by metis
  note x4 = more_eq_swap_state [OF g(4)]
  note sp = store_pte [OF D(1) fp(2,1) PTX_less m3(1)]
  have res: "swap_out_step io tick s = Inr (True, bump s4)"
    using r(1) va gp w(1) g(1) x1 D(2) by (simp add: swap_out_step_def bump_def Let_def s3)
  have o4: "offset_ok s4" using swap_stateD(5) [OF g(2)] .
  have "swapped_out view pg v la s (bump s4)"
    unfolding swapped_out_def
  proof (intro conjI allI impI)
    show "maps_one pg la ?e (mem s) (mem (bump s4))" using sp(1) x4 by (simp add: maps_one_def)
    show "slot_words view (bump s4) i = (if i = unat (swap_offset s) then frame_words s v else slot_words view s i)" for i
      using w(3) x1 x3 x4 r(4) by (simp add: frame_words_def)
    show "frame_words (bump s4) q = frame_words s q" if "q < KFRAMES" "q \<noteq> ?T" for q
      using frame_words_store_entry [OF KFRAMES_less [OF T(1)] PTX_less that] x4
      by (simp add: frame_words_def m3(1))
    show "unat (swap_offset (bump s4)) = (if unat (swap_offset s) + 1 < unat (max_swap_offset s) then unat (swap_offset s) + 1 else 1)"
      using bump_offset(2) [OF o4] x4 x3 x1 by simp
  qed (use sp g m3 x4 x3 x1 in simp_all)
  then show ?thesis using res swap_state_bump [OF g(2)] that by blast
qed

end
