(* ===== verification/Swap_In.thy ===== *)
theory Swap_In
  imports Swap_Out
begin

text \<open>
  Moving a page back in: \<^verbatim>\<open>swap_in\<close>, which fills a free frame from the slot and then maps it,
  and the page-fault handler that calls it.
\<close>

section \<open>\<^verbatim>\<open>swap_in\<close>\<close>

definition swapped_in ::
  "('h \<Rightarrow> ata) \<Rightarrow> nat \<Rightarrow> nat \<Rightarrow> u32 \<Rightarrow> u32 \<Rightarrow> ('h, 'a) swap_scheme \<Rightarrow> ('h, 'a) swap_scheme \<Rightarrow> bool" where
  "swapped_in view pg p la ent s s' \<longleftrightarrow>
     p \<in> ff_avail s \<and> ff_avail s' = ff_avail s - {p} \<and>
     maps_one pg la (page2pa p OR (PTE_P OR PTE_W OR PTE_U) OR PTE_P) (mem s) (mem s') \<and>
     frame_words s' p = slot_words view s (swap_slot ent) \<and>
     (\<forall>q < KFRAMES. q \<noteq> p \<longrightarrow> q \<noteq> table_of (mem s) pg (unat (PDX la)) \<longrightarrow> frame_words s' q = frame_words s q) \<and>
     slot_words view s' = slot_words view s \<and> swap_offset s' = swap_offset s \<and> swap.more s' = swap.more s"

text \<open>First half: a frame is taken and filled from the slot.\<close>

lemma swap_in_read:
  assumes st: "swap_state io view pg s ps" and lim: "swap_slot ent < swap_limit s" and av: "ff_avail s \<noteq> {}"
  obtains p s1 s2 where "alloc_pages 1 s = Inr (Some p, s1)" "pmm.more s1 = pmm.more s"
    "swapfs_read io ent p s1 = (0, s2)" "swap_state io view pg s2 ps" "swappable s2 pg p"
    "p \<in> ff_avail s" "ff_avail s2 = ff_avail s - {p}" "npage s2 = npage s"
    "mem s2 = store_words (page2kva p) (slot_words view s (swap_slot ent)) (mem s)"
    "length (slot_words view s (swap_slot ent)) = 2048" "slot_words view s2 = slot_words view s"
    "swap_offset s2 = swap_offset s" "swap.more s2 = swap.more s"
proof -
  obtain p s1 where a: "alloc_pages 1 s = Inr (Some p, s1)" "swap_state io view pg s1 ps" "swappable s1 pg p"
    "p \<in> ff_avail s" "ff_avail s1 = ff_avail s - {p}" "pmm.more s1 = pmm.more s" "npage s1 = npage s"
    using swap_state_alloc [OF st av] .
  note x = more_eq_swap_state [OF a(6)]
  note D = swap_stateD [OF a(2)]
  let ?W = "slot_words view s (swap_slot ent)"
  have "swap_slot ent < swap_limit s1" using lim x by (simp add: swap_limit_def)
  from swapfs_read_result [OF D(4) this, of p] obtain h' where
    r: "swapfs_read io ent p s1 = (0, s1\<lparr>hw := h', mem := store_words (page2kva p) ?W (mem s)\<rparr>)"
    "ata_ready (view h')" "ata_disk (view h') = ata_disk (view (hw s1))" and l: "length ?W = 2048"
    using x by metis
  let ?h = "s1\<lparr>hw := h'\<rparr>"
  have "swap_ok io view ?h" using D(4) r(2) by (simp add: swap_ok_def hd_ok_def swap_dev_def)
  from swap_state_dev [OF a(2) this] have h: "swap_state io view pg ?h ps" "swappable ?h pg p"
    using a(3) by (simp_all add: swappable_def)
  have m: "store_words (page2kva p) ?W (mem s) = store_words (page2kva p) ?W (mem ?h)" using x by simp
  have "slot_words view (?h\<lparr>mem := store_words (page2kva p) ?W (mem s)\<rparr>) = slot_words view s1"
    by (rule ext) (simp add: slot_words_def hd_sector_def swap_dev_def r(3))
  then show ?thesis
    using swap_state_fill(1) [OF h l m] swap_state_fill(2) [OF h l m h(2)] a r(1) l x
    by (intro that [of p s1 "?h\<lparr>mem := store_words (page2kva p) ?W (mem s)\<rparr>"]) simp_all
qed

text \<open>Second half: the entry of the address gets the frame, and the page joins the queue.\<close>

lemma map_swappable_result:
  assumes st: "swap_state io view pg s ps" and la: "in_user la" "pde_present (mem s) pg (unat (PDX la))"
    and p: "swappable s pg p" "p \<notin> set ps"
  obtains s1 s' where "page_insert (page2kva pg) p la perm s = Inr (True, s1)"
    "mgr_map_swappable la p True s1 = Inr (0, s')" "swap_state io view pg s' (ps @ [p])"
    "mem s' = store32 (entry_addr (table_of (mem s) pg (unat (PDX la))) (unat (PTX la)))
       (page2pa p OR perm OR PTE_P) (mem s)"
    "ff_avail s' = ff_avail s" "npage s' = npage s" "mach.more s' = mach.more s"
proof -
  obtain s1 where i: "page_insert (page2kva pg) p la perm s = Inr (True, s1)" "swap_state io view pg s1 ps"
    "swappable s1 pg p" "mem s1 = store32 (entry_addr (table_of (mem s) pg (unat (PDX la))) (unat (PTX la)))
       (page2pa p OR perm OR PTE_P) (mem s)"
    "ff_avail s1 = ff_avail s" "npage s1 = npage s" "mach.more s1 = mach.more s"
    using swap_state_insert [OF st la] p(1) by metis
  from swap_state_push [OF i(2,3) p(2)] show ?thesis using i that by (metis (no_types))
qed

lemma swap_in_result:
  assumes st: "swap_state io view pg s ps" and la: "in_user la"
    and pr: "pde_present (mem s) pg (unat (PDX la))" and ent: "translate (mem s) pg la = ent"
    and lim: "swap_slot ent < swap_limit s" and av: "ff_avail s \<noteq> {}"
  obtains p s' where "swap_in io la s = Inr (0, Some p, s')" "swap_state io view pg s' (ps @ [p])"
    "swapped_in view pg p la ent s s'"
proof -
  note D = swap_stateD [OF st]
  let ?d = "unat (PDX la)" and ?t = "unat (PTX la)"
  let ?T = "table_of (mem s) pg ?d"
  note du = in_user_slot [OF la]
  note T = pgdir_ok_table [OF D(1) du pr]
  obtain p s1 s2 where r: "alloc_pages 1 s = Inr (Some p, s1)" "pmm.more s1 = pmm.more s"
    "swapfs_read io ent p s1 = (0, s2)" "swap_state io view pg s2 ps" "swappable s2 pg p"
    "p \<in> ff_avail s" "ff_avail s2 = ff_avail s - {p}" "npage s2 = npage s"
    "mem s2 = store_words (page2kva p) (slot_words view s (swap_slot ent)) (mem s)"
    "length (slot_words view s (swap_slot ent)) = 2048" "slot_words view s2 = slot_words view s"
    "swap_offset s2 = swap_offset s" "swap.more s2 = swap.more s"
    using swap_in_read [OF st lim av] .
  note x = more_eq_swap_state [OF r(2)]
  have p: "p < KFRAMES" "p \<noteq> pg" "p \<notin> set ps"
    using r(5,6) swappable_less [OF swap_stateD(1) [OF r(4)]] swap_state_queue(2) [OF st]
    by (auto simp: swappable_def)
  have np: "\<forall>e \<in> user_slots. pde_present (mem s) pg e \<longrightarrow> table_of (mem s) pg e \<noteq> p"
    using pgdir_ok_table(3) [OF D(1)] r(6) by blast
  note tb = store_words_table [OF D(1) p(1,2) r(10,9) np]
  have pr2: "pde_present (mem s2) pg ?d" and T2: "table_of (mem s2) pg ?d = ?T"
    using tb(2,3) [OF PDX_less] pr by simp_all
  obtain s3 s' where i: "page_insert (page2kva pg) p la (PTE_P OR PTE_W OR PTE_U) s2 = Inr (True, s3)"
    "mgr_map_swappable la p True s3 = Inr (0, s')" "swap_state io view pg s' (ps @ [p])"
    "mem s' = store32 (entry_addr ?T ?t) (page2pa p OR (PTE_P OR PTE_W OR PTE_U) OR PTE_P) (mem s2)"
    "ff_avail s' = ff_avail s2" "npage s' = npage s2" "mach.more s' = mach.more s2"
    using map_swappable_result [OF r(4) la pr2 r(5) p(3)] unfolding T2 .
  note y = mach_more_swap [OF i(7)] store_more [OF i(7)]
  have "get_pte (mm_pgdir s1) la False s1 = Inr (entry_addr ?T ?t, s1)"
    using get_pte_present [of s1 pg la False] pr x D(2) by simp
  moreover have "entry_addr ?T ?t \<noteq> 0" by (rule entry_addr_nonzero [OF T(1) PTX_less])
  moreover have "load32 (mem s1) (entry_addr ?T ?t) = ent"
    using ent pr x by (simp add: translate_def vm_entry_def flip: entry_def)
  ultimately have res: "swap_in io la s = Inr (0, Some p, s')"
    using r(1,3) i(1,2) swap_stateD(2) [OF r(4)] by (simp add: swap_in_def Let_def)
  have "swapped_in view pg p la ent s s'"
    unfolding swapped_in_def
  proof (intro conjI allI impI)
    show "maps_one pg la (page2pa p OR (PTE_P OR PTE_W OR PTE_U) OR PTE_P) (mem s) (mem s')"
      using store_pte(1) [OF swap_stateD(1) [OF r(4)] du pr2 PTX_less i(4) [folded T2]] tb(4)
      by (simp add: maps_one_def)
    have fw: "frame_words s' q = (if q = p then slot_words view s (swap_slot ent) else frame_words s q)"
      if "q < KFRAMES" "q \<noteq> ?T" for q
      using frame_words_store_entry [OF KFRAMES_less [OF T(1)] PTX_less that] load_frame_store [OF p(1) that(1) r(10)]
      by (simp add: frame_words_def i(4) r(9))
    then show "frame_words s' p = slot_words view s (swap_slot ent)" using p(1) np du pr by auto
    show "frame_words s' q = frame_words s q" if "q < KFRAMES" "q \<noteq> p" "q \<noteq> ?T" for q
      using fw that by simp
  qed (use r i y in simp_all)
  then show ?thesis using res i(3) that by blast
qed

lemma page_fault_swapped:
  assumes st: "swap_state io view pg s ps" and la: "in_user la" "la = ROUND_DOWN addr PG_SIZE"
    and pr: "pde_present (mem s) pg (unat (PDX la))" and ent: "translate (mem s) pg la = ent" "ent \<noteq> 0"
    and lim: "swap_slot ent < swap_limit s" and av: "ff_avail s \<noteq> {}"
  obtains p s' where "vmm_pg_fault io ec addr s = Inr (0, s')" "swap_state io view pg s' (ps @ [p])"
    "swapped_in view pg p la ent s s'"
proof -
  note D = swap_stateD [OF st]
  let ?T = "table_of (mem s) pg (unat (PDX la))"
  obtain p s' where i: "swap_in io la s = Inr (0, Some p, s')" "swap_state io view pg s' (ps @ [p])"
    "swapped_in view pg p la ent s s'" by (rule swap_in_result [OF st la(1) pr ent(1) lim av])
  have gp: "get_pte (mm_pgdir s) la True s = Inr (entry_addr ?T (unat (PTX la)), s)"
    using get_pte_present [OF pr, of True] D(2) by simp
  have ea: "entry_addr ?T (unat (PTX la)) \<noteq> 0"
    by (rule entry_addr_nonzero [OF pgdir_ok_table(1) [OF D(1) in_user_slot [OF la(1)] pr] PTX_less])
  have "load32 (mem s) (entry_addr ?T (unat (PTX la))) = ent"
    using ent(1) pr by (simp add: translate_def vm_entry_def flip: entry_def)
  then have "vmm_pg_fault io ec addr s = Inr (0, s')"
    using gp ea ent(2) i(1) la(2) by (simp add: vmm_pg_fault_def Let_def)
  then show ?thesis using i(2,3) that by blast
qed

end
