(* ===== verification/Swap_Fault.thy ===== *)
theory Swap_Fault
  imports Swap_In
begin

text \<open>
  Page faults at addresses without an entry: what mapping a fresh page leaves of the swapping
  state.
\<close>

section \<open>What a mapping operation leaves alone\<close>

lemma outside_get_pte:
  assumes ok: "ff_ok s" and g: "get_pte pd la c s = Inr (r, s')"
  shows "outside (ff_avail s) s s'"
proof (cases "load32 (mem s) (pd + 4 * PDX la) AND PTE_P = 0 \<and> c")
  case True
  then obtain q s1 where q: "alloc_pages 1 s = Inr (q, s1)" using g by (auto simp: get_pte_def Let_def bindE_eq_Inr)
  note o1 = outside_alloc [OF ok q]
  show ?thesis
  proof (cases q)
    case None
    then show ?thesis using g q True o1 by (auto simp: get_pte_def)
  next
    case (Some p)
    then show ?thesis using g q True o1
      by (auto simp: get_pte_def Let_def outside_def more_mem more_page mem_simps page_simps)
  qed
next
  case False
  then show ?thesis using g by (auto simp: get_pte_def Let_def outside_def split: if_splits)
qed

lemma outside_page_insert:
  assumes ok: "ff_ok s" and g: "page_insert pd p la perm s = Inr (r, s')"
  shows "outside (ff_avail s) s s'"
proof -
  obtain e s1 where e: "get_pte pd la True s = Inr (e, s1)"
    using g by (auto simp: page_insert_def bindE_eq_Inr)
  note o1 = outside_get_pte [OF ok e]
  show ?thesis
    using g e o1
    by (auto simp: page_insert_def Let_def outside_def more_mem more_page more_tlb mem_simps page_simps split: if_splits)
qed

lemma outside_pgdir_alloc_page:
  assumes ok: "ff_ok s" and g: "pgdir_alloc_page pd la perm s = Inr (r, s')"
  shows "outside (ff_avail s) s s'"
proof -
  obtain q s1 where q: "alloc_pages 1 s = Inr (q, s1)"
    using g by (auto simp: pgdir_alloc_page_def bindE_eq_Inr)
  note o1 = outside_alloc [OF ok q]
  show ?thesis
  proof (cases q)
    case None
    then show ?thesis using g q o1 by (auto simp: pgdir_alloc_page_def)
  next
    case (Some p)
    obtain b where b: "page_insert pd p la perm s1 = Inr (b, s')"
      using g q Some by (auto simp: pgdir_alloc_page_def bindE_eq_Inr)
    have "ff_avail s \<noteq> {}" using q Some alloc_page_none [OF ok] by force
    then have s1: "ff_ok s1" "ff_avail s1 \<subseteq> ff_avail s"
      using alloc_page_some [OF ok] q Some by (metis Diff_subset Inr_inject Pair_inject)+
    show ?thesis by (rule outside_trans [OF o1 outside_page_insert [OF s1(1) b] s1(2)])
  qed
qed

section \<open>A fault at an address without an entry\<close>

lemma new_table_swappable:
  assumes ok: "pgdir_ok s pg" and la: "in_user la" and g: "get_pte (page2kva pg) la True s = Inr (e, s')"
    and p: "swappable s pg p"
  shows "swappable s' pg p"
proof (cases "pde_present (mem s) pg (unat (PDX la))")
  case True
  then show ?thesis using g p by (simp add: get_pte_present)
next
  case no: False
  show ?thesis
  proof (cases "ff_avail s = {}")
    case True
    then show ?thesis using g p get_pte_no_memory [OF no pgdir_ok_ff [OF ok]] by simp
  next
    case False
    obtain f s1 where f: "get_pte (page2kva pg) la True s = Inr (entry_addr f (unat (PTX la)), s1)"
      "f \<in> ff_avail s" "ff_avail s1 = ff_avail s - {f}" "npage s1 = npage s"
      "mem s1 = new_table pg (unat (PDX la)) f (mem s)"
      using get_pte_creates [OF ok no False] by metis
    have fr: "f < 2 ^ 20" "f \<noteq> pg"
      using ok f(2) ff_avail_npage [of s] by (auto simp: pgdir_ok_def KFRAMES_def)
    note pde = new_table_pde [OF pgdir_ok_pg [OF ok] fr PDX_less [of la] user_slots_less]
    show ?thesis using p g f pde by (auto simp: swappable_def)
  qed
qed

lemma fresh_fault:
  assumes st: "swap_state io view pg s ps" and la: "in_user la" "la = ROUND_DOWN addr PG_SIZE"
    and no: "translate (mem s) pg la = 0" and av: "1 < card (ff_avail s)"
  obtains p s' where "vmm_pg_fault io ec addr s = Inr (0, s')" "swap_state io view pg s' ps"
    "p \<in> ff_avail s" "p \<notin> ff_avail s'" "p < KFRAMES" "card (ff_avail s) \<le> card (ff_avail s') + 2"
    "maps_one pg la (page2pa p OR PTE_U OR PTE_P) (mem s) (mem s')"
    "pde_present (mem s') pg (unat (PDX la))" "slot_words view s' = slot_words view s"
    "swap_limit s' = swap_limit s"
proof -
  note D = swap_stateD [OF st]
  let ?d = "unat (PDX la)" and ?t = "unat (PTX la)"
  note du = in_user_slot [OF la(1)]
  note fin = ff.avail_finite [OF pgdir_ok_ff]
  have "can_map s pg la" using av by (auto simp: can_map_def)
  from get_pte_succeeds [OF D(1) la(1) this] obtain s1 where g:
    "get_pte (page2kva pg) la True s = Inr (entry_addr (table_of (mem s1) pg ?d) ?t, s1)"
    "pgdir_ok s1 pg" "pde_present (mem s1) pg ?d" "same_map pg (mem s) (mem s1)"
    "ff_avail s1 \<subseteq> ff_avail s" "npage s1 = npage s" "card (ff_avail s) \<le> Suc (card (ff_avail s1))" by metis
  have o1: "outside (ff_avail s) s s1" by (rule outside_get_pte [OF pgdir_ok_ff [OF D(1)] g(1)])
  have st1: "swap_state io view pg s1 ps"
    by (rule swap_state_outside [OF st g(2) o1 new_table_swappable [OF D(1) la(1) g(1) D(7)]])
  have ea: "entry_addr (table_of (mem s1) pg ?d) ?t \<noteq> 0"
    by (rule entry_addr_nonzero [OF pgdir_ok_table(1) [OF g(2) du g(3)] PTX_less])
  have "vm_entry (mem s1) pg ?d ?t = 0"
    using no g(4) du PTX_less [of la] by (simp add: same_map_def translate_def)
  then have z: "load32 (mem s1) (entry_addr (table_of (mem s1) pg ?d) ?t) = 0"
    using g(3) by (simp add: vm_entry_def flip: entry_def)
  have "ff_avail s1 \<noteq> {}" using g(7) av by auto
  from swap_state_alloc [OF st1 this] obtain p s2 where a: "alloc_pages 1 s1 = Inr (Some p, s2)"
    "swap_state io view pg s2 ps" "swappable s2 pg p" "p \<in> ff_avail s1" "ff_avail s2 = ff_avail s1 - {p}"
    "pmm.more s2 = pmm.more s1" "npage s2 = npage s1" .
  note x2 = more_eq_swap_state [OF a(6)]
  note pr2 = g(3) [folded x2(8)]
  let ?v = "page2pa p OR PTE_U OR PTE_P"
  obtain s3 where i: "page_insert (page2kva pg) p la PTE_U s2 = Inr (True, s3)" "swap_state io view pg s3 ps"
    "mem s3 = store32 (entry_addr (table_of (mem s2) pg ?d) ?t) ?v (mem s2)" "ff_avail s3 = ff_avail s2"
    "npage s3 = npage s2" "mach.more s3 = mach.more s2"
    using swap_state_insert [OF a(2) la(1) pr2] by metis
  have al: "pgdir_alloc_page (page2kva pg) la PTE_U s1 = Inr (Some p, s3)"
    by (simp add: pgdir_alloc_page_def a(1) i(1))
  note sp = store_pte [OF swap_stateD(1) [OF a(2)] du pr2 PTX_less i(3)]
  have mr: "mach.more s3 = mach.more s" using o1 i(6) more_eq_mach(6) [OF a(6)] by (simp add: outside_def)
  have "p < KFRAMES" using swappable_less [OF swap_stateD(1) [OF a(2)] a(3)] .
  moreover have "maps_one pg la ?v (mem s) (mem s3)"
    using sp(1) g(4) by (simp add: maps_one_def same_map_def x2)
  moreover have "card (ff_avail s) \<le> card (ff_avail s3) + 2"
    using g(7) a(4,5) i(4) card_Suc_Diff1 [OF fin [OF g(2)] a(4)] by simp
  moreover have "vmm_pg_fault io ec addr s = Inr (0, s3)"
    using g(1) ea z al D(2) la(2) swap_stateD(2) [OF st1] by (simp add: vmm_pg_fault_def Let_def)
  moreover have "pde_present (mem s3) pg ?d" using sp(2) [OF PDX_less] pr2 by simp
  ultimately show ?thesis
    using i(2) a(4,5) i(4) g(5) store_more(2) [OF mr] mach_more_swap [OF mr]
    by (intro that [of s3 p]) (auto simp: swap_limit_def)
qed

end
