(* ===== verification/Swap_Demo.thy ===== *)
theory Swap_Demo
  imports Swap_Fault Ata_Sim
begin

text \<open>
  A concrete machine with a disk, a page table and two swappable pages, which the statements
  about swapping are applied to.
\<close>

text \<open>
  The frames of \<open>demo_mach\<close> with a table in frame 2 that maps 0x400000 to frame 20 and
  0x401000 to frame 21; both pages are swappable, and the first simulated drive holds the swap
  file.
\<close>

definition demo_mem :: memory where
  "demo_mem = store32 (entry_addr 2 1) (page2pa 21 OR 6 OR PTE_P)
     (store32 (entry_addr 2 0) (page2pa 20 OR 6 OR PTE_P)
       (store32 (entry_addr 1 1) (page2pa 2 OR 6 OR PTE_P) (\<lambda>_. 0)))"

definition demo_base :: "ata swap" where
  "demo_base = vmm.extend demo_vmm
     \<lparr>hw = sim_ata, irq_mask = 0, ticks = 0, ide_devices = (\<lambda>_. sim_hda), hd_num_devices = 1,
      block_devices = (\<lambda>_. None)(0 := Some 0), num_devices = 1, disk_devs = (\<lambda>_. disk_of 0 sim_hda),
      swap_mgr = Swap_Mgr_Fifo, max_swap_offset = 1923, swap_device = Some 0, swap_offset = 1\<rparr>"

definition demo_swap :: "ata swap" where
  "demo_swap = upd_links (list_add_before PraHead (PageLink 21))
     (upd_links (list_add_before PraHead (PageLink 20)) (demo_base\<lparr>mem := demo_mem\<rparr>))"


lemma demo_vmm_simps:
  "pages demo_vmm = pages demo_mach" "npage demo_vmm = npage demo_mach" "nr_free demo_vmm = nr_free demo_mach"
  "mm_pgdir demo_vmm = page2kva 1" "mm_swap_list demo_vmm = PraHead"
  by (simp_all add: demo_vmm_def swap_fifo_init_mm_def Let_def page_simps)

lemma demo_base_simps [simp]:
  "links demo_base = links demo_vmm" "pages demo_base = pages demo_mach" "npage demo_base = npage demo_mach"
  "nr_free demo_base = nr_free demo_mach" "mm_pgdir demo_base = page2kva 1" "mm_swap_list demo_base = PraHead"
  "hw demo_base = sim_ata" "ide_devices demo_base = (\<lambda>_. sim_hda)" "disk_devs demo_base = (\<lambda>_. disk_of 0 sim_hda)"
  "swap_mgr demo_base = Swap_Mgr_Fifo" "max_swap_offset demo_base = 1923" "swap_device demo_base = Some 0"
  "swap_offset demo_base = 1" "block_devices demo_base = (\<lambda>_. None)(0 := Some 0)" "num_devices demo_base = 1"
  using demo_vmm_simps by (simp_all add: demo_base_def vmm.defs)

lemma demo_mach_npage: "npage demo_mach = 64"
  by (simp add: demo_mach_def demo_pmm_npage)

lemma demo_base_inv: "ff_inv (demo_base\<lparr>mem := m\<rparr>) [(4, 8)]"
  using demo_vmm_inv by (simp add: ff_inv_def block_ok_def demo_vmm_simps)

lemma demo_entries:
  assumes "q < 2 ^ 20" "j < 1024"
  shows "entry demo_mem q j =
    (if q = 2 \<and> j = 1 then page2pa 21 OR 6 OR PTE_P else if q = 2 \<and> j = 0 then page2pa 20 OR 6 OR PTE_P
     else if q = 1 \<and> j = 1 then page2pa 2 OR 6 OR PTE_P else 0)"
  using assms by (simp add: demo_mem_def mem_simps)

lemma demo_table: "d < 1024 \<Longrightarrow> pde_present demo_mem 1 d \<longleftrightarrow> d = 1" "table_of demo_mem 1 1 = 2"
  using entry_present [of 2 6] pa2page_entry [of 2 "6 OR PTE_P"]
  by (auto simp: pde_present_def table_of_def demo_entries or.assoc PTE_P_def)

lemma demo_frames: "set (frames [(4, 8)]) = {4..<12}"
  using ff_avail_frames [OF demo_mach_inv] demo_mach_avail by simp

text \<open>The queue is filled; the free frames are still 4 to 11.\<close>

lemma demo_swap_queue: "pra_queue demo_swap [20, 21]" and demo_swap_inv: "ff_inv demo_swap [(4, 8)]"
proof -
  let ?s0 = "demo_base\<lparr>mem := demo_mem\<rparr>"
  let ?s1 = "upd_links (list_add_before PraHead (PageLink 20)) ?s0"
  have q0: "pra_queue ?s0 []" using demo_vmm_queue by (simp add: pra_queue_def)
  have q1: "pra_queue ?s1 [20]" using pra_queue_push [OF q0, of 20] by simp
  then show "pra_queue demo_swap [20, 21]" using pra_queue_push [OF q1, of 21] by (simp add: demo_swap_def)
  have a: "ff_avail s = {4..<12}" if "ff_inv s [(4, 8)]" for s :: "ata swap"
    using ff_avail_frames [OF that] by (simp only: demo_frames)
  note i0 = demo_base_inv [of demo_mem]
  have i1: "ff_inv ?s1 [(4, 8)]"
    by (rule pra_push_keeps_free_list [OF q0 i0]) (use a [OF i0] in simp_all)
  show "ff_inv demo_swap [(4, 8)]"
    unfolding demo_swap_def by (rule pra_push_keeps_free_list [OF q1 i1]) (use a [OF i1] in simp_all)
qed

lemma demo_swap_avail: "ff_avail demo_swap = {4..<12}"
  using ff_avail_frames [OF demo_swap_inv] by (simp only: demo_frames)

lemma demo_swap_simps [simp]:
  "mem demo_swap = demo_mem" "npage demo_swap = 64" "mm_pgdir demo_swap = page2kva 1"
  "swap_mgr demo_swap = Swap_Mgr_Fifo" "max_swap_offset demo_swap = 1923" "swap_offset demo_swap = 1"
  "swap_device demo_swap = Some 0" "hw demo_swap = sim_ata" "ide_devices demo_swap = (\<lambda>_. sim_hda)"
  "disk_devs demo_swap = (\<lambda>_. disk_of 0 sim_hda)"
  by (simp_all add: demo_swap_def upd_links_def demo_mach_npage)

lemma demo_swap_limit: "swap_limit demo_swap = 1923"
  by (simp add: swap_limit_def)

lemma demo_swap_ok: "swap_ok sim_io id demo_swap"
  using sim_channel sim_ata_ready by (simp add: swap_ok_def swap_dev_def disk_of_def hd_ok_def)

lemma demo_swap_state: "swap_state sim_io id 1 demo_swap [20, 21]"
proof -
  have tb: "table_of demo_mem 1 d = 2" if "d \<in> user_slots" "pde_present demo_mem 1 d" for d
    using demo_table(1) [OF user_slots_less [OF that(1)]] demo_table(2) that(2) by simp
  have "pgdir_ok demo_swap 1"
    using ff_ok_intro [OF demo_swap_inv] tb demo_table user_slots_less
    by (auto simp: pgdir_ok_def demo_swap_avail KFRAMES_def)
  moreover have "swappable demo_swap 1 p" if "p \<in> {20, 21}" for p
    using that tb by (auto simp: swappable_def demo_swap_avail)
  ultimately show ?thesis
    using demo_swap_queue demo_swap_ok by (simp add: swap_state_def offset_ok_def)
qed

lemma demo_vm_entry:
  assumes "d < 1024" "t < 1024"
  shows "vm_entry demo_mem 1 d t =
    (if d = 1 \<and> t = 0 then page2pa 20 OR 6 OR PTE_P else if d = 1 \<and> t = 1 then page2pa 21 OR 6 OR PTE_P else 0)"
  using assms demo_table(1) [OF assms(1)] demo_table(2) by (auto simp: vm_entry_def demo_entries simp del: One_nat_def)

lemma demo_slots: "unat (PDX 0x400000) = 1" "unat (PTX 0x400000) = 0" "unat (PDX 0x401000) = 1" "unat (PTX 0x401000) = 1"
  "unat (PDX 0x800000) = 2" "unat (PTX 0x800000) = 0"
  by (simp_all add: PDX_bits PTX_bits take_bit_eq_mod drop_bit_eq_div)

lemma demo_first_mapped: "first_mapped demo_mem 1 20 0x400000" "first_mapped demo_mem 1 21 0x401000"
proof -
  have nf: "names_frame (page2pa q OR 6 OR PTE_P) p \<longleftrightarrow> q = p" if "q < 2 ^ 20" "p < 2 ^ 20" for p q
    using entry_present [of q 6] PTE_ADDR_entry [of "6 OR PTE_P" q] page2pa_inj that
    by (auto simp: names_frame_def or.assoc PTE_P_def)
  show "first_mapped demo_mem 1 20 0x400000" "first_mapped demo_mem 1 21 0x401000"
    using nf [of 20 20] nf [of 21 21] nf [of 20 21]
    by (auto simp: first_mapped_def demo_slots VPT_IDX_1003 translate_def demo_vm_entry no_slot_def simp del: One_nat_def)
qed

end
