(* ===== verification/Swap_Laws.thy ===== *)
theory Swap_Laws
  imports Swap_Demo
begin

text \<open>
  The properties of swapping: the swap file as a store of pages, \<^verbatim>\<open>swap_out\<close> over several
  pages, the page fault that brings a page back, and where the code goes wrong.
\<close>

section \<open>Several rounds\<close>

lemma entry_not_frame: "\<not> names_frame (push_bit 8 k) p"
proof -
  have "push_bit 8 k AND (1 :: u32) = 0" by (rule bit_word_eqI) (auto simp: bit_and_iff bit_push_bit_iff bit_1_iff)
  then show ?thesis by (simp add: names_frame_def PTE_P_def)
qed

lemma first_mapped_distinct:
  assumes "first_mapped m pg v la" "first_mapped m pg w lb" "v \<noteq> w" "v < KFRAMES" "w < KFRAMES"
  shows "PDX la \<noteq> PDX lb \<or> PTX la \<noteq> PTX lb"
proof (rule ccontr)
  assume "\<not> ?thesis"
  then have "translate m pg la = translate m pg lb" by (simp add: translate_def)
  then have "page2pa v = page2pa w" using assms(1,2) by (auto simp: first_mapped_def names_frame_def)
  then show False using page2pa_inj assms(3-5) KFRAMES_less by blast
qed

text \<open>
  The effect of moving the pages \<open>xs\<close>, pairs of an address and a frame, to the slots from the
  current one on.
\<close>

definition all_out ::
  "('h \<Rightarrow> ata) \<Rightarrow> nat \<Rightarrow> (u32 \<times> nat) list \<Rightarrow> ('h, 'a) swap_scheme \<Rightarrow> ('h, 'a) swap_scheme \<Rightarrow> bool" where
  "all_out view pg xs s s' \<longleftrightarrow>
     (\<forall>j < length xs. translate (mem s') pg (fst (xs ! j)) = push_bit 8 (swap_offset s + of_nat j) \<and>
        slot_words view s' (unat (swap_offset s) + j) = frame_words s (snd (xs ! j))) \<and>
     (\<forall>d \<in> user_slots. \<forall>t < 1024. (\<forall>x \<in> set xs. d \<noteq> unat (PDX (fst x)) \<or> t \<noteq> unat (PTX (fst x))) \<longrightarrow>
        vm_entry (mem s') pg d t = vm_entry (mem s) pg d t) \<and>
     (\<forall>d < 1024. pde_present (mem s') pg d = pde_present (mem s) pg d) \<and>
     (\<forall>i. i < unat (swap_offset s) \<or> unat (swap_offset s) + length xs \<le> i \<longrightarrow>
        slot_words view s' i = slot_words view s i) \<and>
     ff_avail s' = snd ` set xs \<union> ff_avail s \<and> swap_limit s' = swap_limit s"

lemma all_out_cons:
  assumes s1: "swapped_out view pg v la s s1" and rest: "all_out view pg xs s1 s'"
    and f: "first_mapped (mem s) pg v la" and ne: "\<forall>x \<in> set xs. PDX la \<noteq> PDX (fst x) \<or> PTX la \<noteq> PTX (fst x)"
    and off: "xs \<noteq> [] \<Longrightarrow> swap_offset s1 = swap_offset s + 1"
    and u: "xs \<noteq> [] \<Longrightarrow> unat (swap_offset s1) = unat (swap_offset s) + 1"
    and fw: "\<forall>x \<in> set xs. frame_words s1 (snd x) = frame_words s (snd x)"
    and nil: "xs = [] \<Longrightarrow> s' = s1"
  shows "all_out view pg ((la, v) # xs) s s'"
proof -
  note fp = first_mapped_present [OF f]
  have mo: "d \<in> user_slots \<Longrightarrow> t < 1024 \<Longrightarrow> vm_entry (mem s1) pg d t =
      (if d = unat (PDX la) \<and> t = unat (PTX la) then push_bit 8 (swap_offset s) else vm_entry (mem s) pg d t)" for d t
    using s1 by (simp add: swapped_out_def maps_one_def)
  have sl: "slot_words view s1 i = (if i = unat (swap_offset s) then frame_words s v else slot_words view s i)" for i
    using s1 by (simp add: swapped_out_def)
  have r: "\<And>j. j < length xs \<Longrightarrow> translate (mem s') pg (fst (xs ! j)) = push_bit 8 (swap_offset s1 + of_nat j) \<and>
        slot_words view s' (unat (swap_offset s1) + j) = frame_words s1 (snd (xs ! j))"
    "\<And>d t. d \<in> user_slots \<Longrightarrow> t < 1024 \<Longrightarrow>
       (\<forall>x \<in> set xs. d \<noteq> unat (PDX (fst x)) \<or> t \<noteq> unat (PTX (fst x))) \<Longrightarrow>
       vm_entry (mem s') pg d t = vm_entry (mem s1) pg d t"
    "\<And>d. d < 1024 \<Longrightarrow> pde_present (mem s') pg d = pde_present (mem s1) pg d"
    "\<And>i. i < unat (swap_offset s1) \<or> unat (swap_offset s1) + length xs \<le> i \<Longrightarrow>
        slot_words view s' i = slot_words view s1 i"
    "ff_avail s' = snd ` set xs \<union> ff_avail s1" "swap_limit s' = swap_limit s1"
    using rest by (simp_all add: all_out_def) blast
  have lan: "\<forall>x \<in> set xs. unat (PDX la) \<noteq> unat (PDX (fst x)) \<or> unat (PTX la) \<noteq> unat (PTX (fst x))"
    using ne by (auto simp: word_unat_eq_iff)
  have "translate (mem s') pg la = push_bit 8 (swap_offset s)"
    using r(2) [OF fp(2) PTX_less lan] mo [OF fp(2) PTX_less] by (simp add: translate_def)
  moreover have "slot_words view s' (unat (swap_offset s)) = frame_words s v"
    using r(4) [of "unat (swap_offset s)"] u sl nil by (cases "xs = []") auto
  moreover have "slot_words view s' i = slot_words view s i"
    if "i < unat (swap_offset s) \<or> unat (swap_offset s) + Suc (length xs) \<le> i" for i
    using r(4) [of i] u sl [of i] that nil by (cases "xs = []") auto
  moreover have "translate (mem s') pg (fst (xs ! j)) = push_bit 8 (swap_offset s + of_nat (Suc j)) \<and>
        slot_words view s' (unat (swap_offset s) + Suc j) = frame_words s (snd (xs ! j))" if "j < length xs" for j
    using r(1) [OF that] off u fw that nth_mem [OF that] by (cases "xs = []") (auto simp: add_ac)
  then have "translate (mem s') pg (fst (((la, v) # xs) ! j)) = push_bit 8 (swap_offset s + of_nat j) \<and>
        slot_words view s' (unat (swap_offset s) + j) = frame_words s (snd (((la, v) # xs) ! j))"
    if "j < length ((la, v) # xs)" for j
    using that calculation(1,2) by (cases j) auto
  moreover have "vm_entry (mem s') pg d t = vm_entry (mem s) pg d t"
    if "d \<in> user_slots" "t < 1024" "\<forall>x \<in> set ((la, v) # xs). d \<noteq> unat (PDX (fst x)) \<or> t \<noteq> unat (PTX (fst x))" for d t
    using r(2) [OF that(1,2)] mo [OF that(1,2)] that(3) by auto
  moreover have "pde_present (mem s') pg d = pde_present (mem s) pg d" if "d < 1024" for d
    using r(3) [OF that] s1 that by (simp add: swapped_out_def)
  moreover have "ff_avail s' = snd ` set ((la, v) # xs) \<union> ff_avail s" "swap_limit s' = swap_limit s"
    using r(5,6) s1 by (auto simp: swapped_out_def swap_limit_def)
  ultimately show ?thesis unfolding all_out_def by simp
qed

lemma swap_out_loop_result:
  "swap_state io view pg s (map snd xs @ ps) \<Longrightarrow> \<forall>x \<in> set xs. first_mapped (mem s) pg (snd x) (fst x) \<Longrightarrow>
   unat (swap_offset s) + length xs \<le> swap_limit s \<Longrightarrow>
   \<exists>s'. swap_out_loop io tick i (length xs) s = Inr (i + length xs, s') \<and>
     swap_state io view pg s' ps \<and> all_out view pg xs s s'"
proof (induction xs arbitrary: s i)
  case Nil
  then show ?case by (simp add: all_out_def)
next
  case (Cons x xs)
  obtain la v where x: "x = (la, v)" by (cases x)
  have f: "first_mapped (mem s) pg v la" using Cons.prems(2) x by simp
  obtain s1 where s1: "swap_out_step io tick s = Inr (True, s1)" "swap_state io view pg s1 (map snd xs @ ps)"
    "swapped_out view pg v la s s1"
    by (rule swap_out_step_result [OF _ f, of io view "map snd xs @ ps" tick]) (use Cons.prems(1) x in simp)
  note D = swap_stateD [OF Cons.prems(1)]
  have sw: "swappable s pg (snd y)" if "y \<in> set xs" for y using D(7) [of "snd y"] that x by auto
  have K: "p < KFRAMES" if "swappable s pg p" for p using that D(1) by (auto simp: swappable_def pgdir_ok_def)
  have q: "pra_queue s (v # map snd xs @ ps)" using D(6) x by simp
  have "distinct (map PageLink (v # map snd xs @ ps))"
    using q clist_distinct [of "links s" PraHead "map PageLink (v # map snd xs @ ps)"] by (simp add: pra_queue_def)
  then have "v \<notin> snd ` set xs" unfolding distinct_map by simp
  then have vn: "v \<noteq> snd y" if "y \<in> set xs" for y using that by auto
  have vK: "v < KFRAMES" using K D(7) [of v] x by simp
  have ne: "\<forall>y \<in> set xs. PDX la \<noteq> PDX (fst y) \<or> PTX la \<noteq> PTX (fst y)"
  proof
    fix y assume y: "y \<in> set xs"
    show "PDX la \<noteq> PDX (fst y) \<or> PTX la \<noteq> PTX (fst y)"
      by (rule first_mapped_distinct [OF f _ vn [OF y] vK K [OF sw [OF y]]]) (use Cons.prems(2) y in simp)
  qed
  have mo: "maps_one pg la (push_bit 8 (swap_offset s)) (mem s) (mem s1)"
    using s1(3) by (simp add: swapped_out_def)
  have f1: "\<forall>y \<in> set xs. first_mapped (mem s1) pg (snd y) (fst y)"
    using Cons.prems(2) ne first_mapped_maps_one [OF _ mo entry_not_frame] by auto
  have u: "unat (swap_offset s1) = unat (swap_offset s) + 1" if "xs \<noteq> []"
    using s1(3) Cons.prems(3) that by (cases xs) (auto simp: swapped_out_def swap_limit_def)
  then have off: "swap_offset s1 = swap_offset s + 1" if "xs \<noteq> []"
    using that next_offset(1) [OF D(5)] by (simp add: word_unat_eq_iff)
  have "offset_ok s1" using s1(2) by (simp add: swap_state_def)
  then have l1: "unat (swap_offset s1) + length xs \<le> swap_limit s1"
    using u Cons.prems(3) s1(3) by (cases "xs = []") (auto simp: swapped_out_def swap_limit_def offset_ok_def)
  obtain s' where s': "swap_out_loop io tick (i + 1) (length xs) s1 = Inr (i + 1 + length xs, s')"
    "swap_state io view pg s' ps" "all_out view pg xs s1 s'"
    using Cons.IH [OF s1(2) f1 l1] by blast
  have fw: "\<forall>y \<in> set xs. frame_words s1 (snd y) = frame_words s (snd y)"
  proof
    fix y assume y: "y \<in> set xs"
    have "snd y \<noteq> table_of (mem s) pg (unat (PDX la))"
      using sw [OF y] first_mapped_present [OF f] by (auto simp: swappable_def)
    then show "frame_words s1 (snd y) = frame_words s (snd y)"
      using s1(3) K [OF sw [OF y]] by (simp add: swapped_out_def)
  qed
  have "all_out view pg ((la, v) # xs) s s'"
    by (rule all_out_cons [OF s1(3) s'(3) f ne off u fw]) (use s'(1) in auto)
  then show ?case using s1(1) s'(1,2) x by auto
qed

section \<open>Slots outside the swap file\<close>

text \<open>The size of the swap file as \<^verbatim>\<open>swap_init\<close> computes it from a large enough disk.\<close>

definition swap_fits :: "('h, 'a) swap_scheme \<Rightarrow> bool" where
  "swap_fits s \<longleftrightarrow> 1000 \<le> unat (di_size (ide_info (ide_devices s (swap_dev s)))) \<and>
     swap_limit s = (unat (di_size (ide_info (ide_devices s (swap_dev s)))) - 1000) div 8"

lemma swapfs_refuses:
  assumes ok: "swap_ok io view s" and f: "swap_fits s" and e: "swap_limit s \<le> swap_slot e"
  shows "swapfs_read io e p s = (-1, s)" "swapfs_write io e p s = (-1, s)"
proof -
  let ?size = "di_size (ide_info (ide_devices s (swap_dev s)))"
  obtain d where o: "swap_device s = Some d" "bd_read (disk_devs s d) = Disk_Read_Wrapper"
    "bd_write (disk_devs s d) = Disk_Write_Wrapper" "swap_dev s = bd_private_data (disk_devs s d)"
    using ok by (auto simp: swap_ok_def swap_dev_def)
  have "unat (swap_sector e + SECTORS_PER_PAGE) = 1000 + 8 * swap_slot e + 8"
    using swap_slot_less [of e] by (subst unat_add_small) (simp_all add: unat_swap_sector sectors_per_page)
  moreover have "(unat ?size - 1000) div 8 \<le> swap_slot e" "1000 \<le> unat ?size"
    using f e by (simp_all add: swap_fits_def)
  ultimately have "?size < swap_sector e + SECTORS_PER_PAGE" unfolding word_less_nat_alt by linarith
  then show "swapfs_read io e p s = (-1, s)" "swapfs_write io e p s = (-1, s)"
    using o by (simp_all add: swapfs_read_def swapfs_write_def blk_read_def blk_write_def
        disk_read_wrapper_def disk_write_wrapper_def hd_read_device_def hd_write_device_def Let_def)
qed

text \<open>A present entry read as a swap entry names the slot of the frame's 256-byte units.\<close>

lemma frame_slot:
  assumes "p < KFRAMES"
  shows "swap_slot (page2pa p OR PTE_U OR PTE_P) = 16 * p"
proof -
  let ?e = "page2pa p OR PTE_U OR PTE_P"
  have f: "unat (PTE_U OR PTE_P) < 4096" by (simp add: PTE_U_def PTE_P_def)
  have "drop_bit 8 ?e AND 0xFFFFFF = drop_bit 8 (page2pa p)"
    unfolding and_24
    by (rule bit_word_eqI) (auto simp: bit_take_bit_iff bit_drop_bit_eq bit_or_iff PTE_U_def PTE_P_def dest: bit_imp_le_length)
  moreover have "unat (drop_bit 8 (page2pa p)) = 16 * p"
    using unat_page2pa [OF KFRAMES_less [OF assms]] unfolding unat_shifted by simp
  ultimately show ?thesis by (simp add: swap_slot_def)
qed

lemma find_device_cong:
  "block_devices s' = block_devices s \<Longrightarrow> disk_devs s' = disk_devs s \<Longrightarrow>
   find_device type i n s' = find_device type i n s"
  by (induction n arbitrary: i) (auto split: option.splits)

section \<open>Properties\<close>

text \<open>The swap file as an abstract store: the pages that can be kept, by slot.\<close>

definition swap_abs :: "('h \<Rightarrow> ata) \<Rightarrow> ('h, 'a) swap_scheme \<Rightarrow> nat \<Rightarrow> u16 list option" where
  "swap_abs view s i = (if i < swap_limit s then Some (slot_words view s i) else None)"

text \<open>
  C31. The swap file refines a finite map from slots to pages. Writing frame \<open>p\<close> to an entry
  updates the map at the entry's slot and nothing else: no frame changes, and no sector below
  the swap file does. Reading puts the page of the slot into the frame, changing neither the map
  nor another frame. An entry beyond the file is refused and leaves the state as it was.
\<close>

theorem swapfs_refines_map:
  assumes "swap_ok io view s" and "swap_fits s" and "p < KFRAMES"
  shows "case swap_abs view s (swap_slot e) of
      None \<Rightarrow> swapfs_write io e p s = (-1, s) \<and> swapfs_read io e p s = (-1, s)
    | Some ws \<Rightarrow> (\<exists>s1 s2.
        swapfs_write io e p s = (0, s1) \<and> swap_ok io view s1 \<and>
        swap_abs view s1 = (swap_abs view s)(swap_slot e \<mapsto> frame_words s p) \<and>
        (\<forall>q < KFRAMES. frame_words s1 q = frame_words s q) \<and>
        (\<forall>l < 1000. hd_sector view (swap_dev s) s1 l = hd_sector view (swap_dev s) s l) \<and>
        swapfs_read io e p s = (0, s2) \<and> swap_ok io view s2 \<and> swap_abs view s2 = swap_abs view s \<and>
        (\<forall>q < KFRAMES. frame_words s2 q = (if q = p then ws else frame_words s q)))"
proof (cases "swap_slot e < swap_limit s")
  case False
  then show ?thesis using swapfs_refuses [OF assms(1,2)] by (simp add: swap_abs_def)
next
  case True
  obtain h' where w: "swapfs_write io e p s = (0, s\<lparr>hw := h'\<rparr>)" "swap_ok io view (s\<lparr>hw := h'\<rparr>)"
    "\<And>i. slot_words view (s\<lparr>hw := h'\<rparr>) i = (if i = swap_slot e then frame_words s p else slot_words view s i)"
    "\<And>l. l < 1000 \<Longrightarrow> hd_sector view (swap_dev s) (s\<lparr>hw := h'\<rparr>) l = hd_sector view (swap_dev s) s l"
    using swapfs_write_result [OF assms(1) True, of p] by metis
  have "swap_abs view (s\<lparr>hw := h'\<rparr>) = (swap_abs view s)(swap_slot e \<mapsto> frame_words s p)"
    using w(3) True by (auto simp: swap_abs_def swap_limit_def)
  moreover have "frame_words (s\<lparr>hw := h'\<rparr>) q = frame_words s q" for q by (simp add: frame_words_def)
  moreover obtain s2 where r: "swapfs_read io e p s = (0, s2)" "swap_ok io view s2" "swap_limit s2 = swap_limit s"
    "\<forall>i < swap_limit s. slot_words view s2 i = slot_words view s i"
    "\<forall>q \<in> {..<KFRAMES}. frame_words s2 q = (if q = p then slot_words view s (swap_slot e) else frame_words s q)"
    using swapfs.read_law [OF assms(1) True, of p] assms(3) by auto
  moreover have "swap_abs view s2 = swap_abs view s" using r(3,4) by (auto simp: swap_abs_def)
  moreover have "swap_abs view s (swap_slot e) = Some (slot_words view s (swap_slot e))"
    using True by (simp add: swap_abs_def)
  ultimately show ?thesis using w by simp
qed

theorem swapfs_refines_map_witness:
  "\<exists>s1. swapfs_write sim_io 0x500 20 demo_swap = (0, s1) \<and>
     swap_abs id s1 = (swap_abs id demo_swap)(5 \<mapsto> frame_words demo_swap 20)"
proof -
  have "swap_slot 0x500 = 5" by (simp add: swap_slot_def)
  moreover have "swap_fits demo_swap" by (simp add: swap_fits_def swap_dev_def disk_of_def swap_limit_def)
  moreover have "(20 :: nat) < KFRAMES" by (simp add: KFRAMES_def)
  moreover have "swap_abs id demo_swap 5 \<noteq> None" by (simp add: swap_abs_def swap_limit_def)
  ultimately show ?thesis
    using swapfs_refines_map [OF demo_swap_ok, of 20 "0x500"] by (auto split: option.splits)
qed

text \<open>
  C32. \<^verbatim>\<open>swap_init\<close> takes the first registered disk and reserves whole pages behind sector
  1000: the file fits on the disk. On a disk of fewer than 1000 sectors the subtraction wraps
  around and the file seems to hold more than 500 million pages; with no disk at all the null
  pointer is followed.
\<close>

theorem swap_init_bounds:
  "case blk_get_device BLK_TYPE_DISK s of
     None \<Rightarrow> swap_init s = Inl Null_Deref
   | Some d \<Rightarrow> (\<exists>s'. swap_init s = Inr (0, s') \<and> swap_device s' = Some d \<and>
       swap_mgr s' = Swap_Mgr_Fifo \<and>
       (if 1000 \<le> unat (bd_size (disk_devs s d))
        then unat (max_swap_offset s') = (unat (bd_size (disk_devs s d)) - 1000) div 8
        else 500000000 < unat (max_swap_offset s')))"
proof -
  let ?s = "s\<lparr>swap_mgr := Swap_Mgr_Fifo\<rparr>"
  have g: "blk_get_device BLK_TYPE_DISK ?s = blk_get_device BLK_TYPE_DISK s"
    using find_device_cong [of ?s s] by (simp add: blk_get_device_def)
  show ?thesis
  proof (cases "blk_get_device BLK_TYPE_DISK s")
    case None
    then show ?thesis using g by (simp add: swap_init_def swapfs_init_def swap_fifo_init_def Let_def)
  next
    case (Some d)
    let ?n = "bd_size (disk_devs s d)"
    have "unat ((?n - SWAP_START_SECTOR) div SECTORS_PER_PAGE) = unat (?n - SWAP_START_SECTOR) div 8"
      by (simp add: unat_div sectors_per_page)
    moreover have "unat (?n - SWAP_START_SECTOR) =
        (if 1000 \<le> unat ?n then unat ?n - 1000 else unat ?n + 4294966296)"
      using unat_sub_if' [of ?n SWAP_START_SECTOR]
      by (simp add: SWAP_START_SECTOR_def)
    moreover have "500000000 < (unat ?n + 4294966296) div 8" by simp
    ultimately show ?thesis
      using g Some by (simp add: swap_init_def swapfs_init_def swap_fifo_init_def Let_def)
  qed
qed

text \<open>
  C33. Swapping out several pages: they go in the order they were made swappable, to
  consecutive slots that hold their contents, and each page-table entry names the slot of its
  page. No other translation and no other slot changes, and the frames are free again.
\<close>

theorem swap_out_saves_pages:
  assumes "swap_state io view pg s (map snd xs @ ps)"
    and "\<forall>x \<in> set xs. first_mapped (mem s) pg (snd x) (fst x)"
    and "unat (swap_offset s) + length xs \<le> swap_limit s"
  shows "\<exists>s'. swap_out io (int (length xs)) tick s = Inr (length xs, s') \<and>
    swap_state io view pg s' ps \<and> all_out view pg xs s s'"
  using swap_out_loop_result [OF assms, of tick 0] by (simp add: swap_out_def)

theorem swap_out_saves_pages_witness:
  "\<exists>s'. swap_out sim_io 2 False demo_swap = Inr (2, s') \<and> swap_state sim_io id 1 s' [] \<and>
     all_out id 1 [(0x400000, 20), (0x401000, 21)] demo_swap s'"
  using swap_out_saves_pages [of sim_io id 1 demo_swap "[(0x400000, 20), (0x401000, 21)]" "[]" False]
    demo_swap_state demo_first_mapped
  by (simp add: demo_swap_limit numeral_2_eq_2)

text \<open>
  C34. A page that was swapped out comes back: after any number of pages went out, a fault at the
  address of one of them maps a free frame there that holds what the page held, and puts it at
  the end of the queue. The permissions of the old entry are lost: the page comes back writable.
\<close>

theorem swap_roundtrip:
  assumes st: "swap_state io view pg s (map snd xs @ ps)"
    and f: "\<forall>x \<in> set xs. first_mapped (mem s) pg (snd x) (fst x)"
    and l: "unat (swap_offset s) + length xs \<le> swap_limit s"
    and x: "(la, v) \<in> set xs" and a: "ROUND_DOWN addr PG_SIZE = la"
  shows "\<exists>s1 s2 p. swap_out io (int (length xs)) tick s = Inr (length xs, s1) \<and>
    vmm_pg_fault io ec addr s1 = Inr (0, s2) \<and> swap_state io view pg s2 (ps @ [p]) \<and>
    translate (mem s2) pg la = page2pa p OR (PTE_P OR PTE_W OR PTE_U) OR PTE_P \<and>
    frame_words s2 p = frame_words s v"
proof -
  obtain s1 where s1: "swap_out io (int (length xs)) tick s = Inr (length xs, s1)"
    "swap_state io view pg s1 ps" "all_out view pg xs s s1"
    using swap_out_loop_result [OF st f l, of tick 0] by (auto simp: swap_out_def)
  obtain j where j: "j < length xs" "xs ! j = (la, v)" using x by (auto simp: in_set_conv_nth)
  let ?k = "swap_offset s + of_nat j"
  have fm: "first_mapped (mem s) pg v la" using f x by auto
  note fp = first_mapped_present [OF fm]
  have off: "offset_ok s" by (rule swap_stateD(5) [OF st])
  have k: "unat ?k = unat (swap_offset s) + j"
    using off l j(1) by (subst unat_add_small) (auto simp: offset_ok_def swap_limit_def unat_of_nat)
  have sl: "swap_slot (push_bit 8 ?k) = unat (swap_offset s) + j"
    using off l j(1) k by (subst swap_slot_push) (auto simp: offset_ok_def swap_limit_def)
  have A: "translate (mem s1) pg la = push_bit 8 ?k" "pde_present (mem s1) pg (unat (PDX la))"
    "slot_words view s1 (unat (swap_offset s) + j) = frame_words s v"
    "ff_avail s1 = snd ` set xs \<union> ff_avail s" "swap_limit s1 = swap_limit s"
    using s1(3) j fp PDX_less [of la] by (auto simp: all_out_def)
  have nz: "push_bit 8 ?k \<noteq> 0"
  proof
    assume "push_bit 8 ?k = 0"
    then have "swap_slot (push_bit 8 ?k) = 0" by (simp add: swap_slot_def)
    then show False using sl off by (simp add: offset_ok_def)
  qed
  have "swap_slot (push_bit 8 ?k) < swap_limit s1" using sl A(5) l j(1) by simp
  moreover have "ff_avail s1 \<noteq> {}" using A(4) x by auto
  ultimately obtain p s2 where "vmm_pg_fault io ec addr s1 = Inr (0, s2)" "swap_state io view pg s2 (ps @ [p])"
    "swapped_in view pg p la (push_bit 8 ?k) s1 s2"
    using page_fault_swapped [OF s1(2) fp(3) a [symmetric] A(2,1) nz] by metis
  moreover from this(3) have "frame_words s2 p = frame_words s v"
    "translate (mem s2) pg la = page2pa p OR (PTE_P OR PTE_W OR PTE_U) OR PTE_P"
    using sl A(3) fp(2) PTX_less [of la] by (simp_all add: swapped_in_def maps_one_def translate_def)
  ultimately show ?thesis using s1(1) by blast
qed

theorem swap_roundtrip_witness:
  "\<exists>s1 s2 p. swap_out sim_io 2 False demo_swap = Inr (2, s1) \<and>
     vmm_pg_fault sim_io 0 0x401234 s1 = Inr (0, s2) \<and> swap_state sim_io id 1 s2 [p] \<and>
     frame_words s2 p = frame_words demo_swap 21"
proof -
  have "ROUND_DOWN 0x401234 PG_SIZE = 0x401000" by (simp add: ROUND_DOWN_def PG_SIZE_def)
  from swap_roundtrip [OF _ _ _ _ this, of sim_io id 1 demo_swap "[(0x400000, 20), (0x401000, 21)]" "[]" 21 False 0]
  show ?thesis using demo_swap_state demo_first_mapped by (simp add: demo_swap_limit numeral_2_eq_2) blast
qed

text \<open>
  C35. A write to an address without an entry loses its page. The first fault maps a free frame
  with user permission but not writable, so the retried write faults again; the handler now
  takes the present entry for a swap entry and maps a second frame, filled from a slot nobody
  wrote the page to. Its number is sixteen times the number of the first frame.
\<close>

theorem write_fault_maps_junk:
  assumes st: "swap_state io view pg s ps" and la: "in_user addr" "ROUND_DOWN addr PG_SIZE = addr"
    and no: "translate (mem s) pg addr = 0" and av: "2 < card (ff_avail s)"
    and lim: "\<forall>p \<in> ff_avail s. 16 * p < swap_limit s"
  shows "\<exists>p s1 q s2. vmm_pg_fault io ec addr s = Inr (0, s1) \<and>
    translate (mem s1) pg addr = page2pa p OR PTE_U OR PTE_P \<and>
    vmm_pg_fault io ec addr s1 = Inr (0, s2) \<and> q \<noteq> p \<and>
    translate (mem s2) pg addr = page2pa q OR (PTE_P OR PTE_W OR PTE_U) OR PTE_P \<and>
    frame_words s2 q = slot_words view s (16 * p)"
proof -
  have "1 < card (ff_avail s)" using av by simp
  from fresh_fault [OF st la(1) la(2) [symmetric] no this, where ec = ec] obtain p s1 where
    a: "vmm_pg_fault io ec addr s = Inr (0, s1)" "swap_state io view pg s1 ps" "p \<in> ff_avail s"
    "p \<notin> ff_avail s1" "p < KFRAMES" "card (ff_avail s) \<le> card (ff_avail s1) + 2"
    "maps_one pg addr (page2pa p OR PTE_U OR PTE_P) (mem s) (mem s1)"
    "pde_present (mem s1) pg (unat (PDX addr))" "slot_words view s1 = slot_words view s"
    "swap_limit s1 = swap_limit s" by metis
  note du = in_user_slot [OF la(1)]
  have t: "translate (mem s1) pg addr = page2pa p OR PTE_U OR PTE_P"
    using a(7) du PTX_less [of addr] by (simp add: maps_one_def translate_def)
  have nz: "page2pa p OR PTE_U OR PTE_P \<noteq> 0" using entry_present [of p PTE_U] by auto
  have sl: "swap_slot (page2pa p OR PTE_U OR PTE_P) = 16 * p" by (rule frame_slot [OF a(5)])
  have "ff_avail s1 \<noteq> {}" using a(6) av by auto
  moreover have "swap_slot (page2pa p OR PTE_U OR PTE_P) < swap_limit s1"
    using sl lim a(3,10) by simp
  ultimately obtain q s2 where b: "vmm_pg_fault io ec addr s1 = Inr (0, s2)"
    "swapped_in view pg q addr (page2pa p OR PTE_U OR PTE_P) s1 s2"
    using page_fault_swapped [OF a(2) la(1) la(2) [symmetric] a(8) t nz] by metis
  have "q \<noteq> p" using b(2) a(4) by (auto simp: swapped_in_def)
  moreover have "translate (mem s2) pg addr = page2pa q OR (PTE_P OR PTE_W OR PTE_U) OR PTE_P"
    "frame_words s2 q = slot_words view s (16 * p)"
    using b(2) du PTX_less [of addr] sl a(9) by (simp_all add: swapped_in_def maps_one_def translate_def)
  ultimately show ?thesis using a(1) t b(1) by blast
qed

theorem write_fault_maps_junk_witness:
  "\<exists>p s1 q s2. vmm_pg_fault sim_io 2 0x800000 demo_swap = Inr (0, s1) \<and>
     vmm_pg_fault sim_io 2 0x800000 s1 = Inr (0, s2) \<and> q \<noteq> p \<and>
     translate (mem s2) 1 0x800000 = page2pa q OR (PTE_P OR PTE_W OR PTE_U) OR PTE_P \<and>
     frame_words s2 q = slot_words id demo_swap (16 * p)"
proof -
  have "in_user 0x800000" by (simp add: in_user_def VPT_IDX_1003 demo_slots)
  moreover have "ROUND_DOWN 0x800000 PG_SIZE = 0x800000" by (simp add: ROUND_DOWN_def PG_SIZE_def)
  moreover have "translate (mem demo_swap) 1 0x800000 = 0"
    by (simp add: translate_def demo_slots demo_vm_entry del: One_nat_def)
  moreover have "2 < card (ff_avail demo_swap)" "\<forall>p \<in> ff_avail demo_swap. 16 * p < swap_limit demo_swap"
    by (simp_all add: demo_swap_avail swap_limit_def)
  ultimately show ?thesis
    using write_fault_maps_junk [OF demo_swap_state, of "0x800000" 2] by blast
qed

end
