(* ===== verification/Stdio_Laws.thy ===== *)
theory Stdio_Laws
  imports Stdio
begin

text \<open>
  Formatted output returns, and prints what it should: the two-step division is the division of
  64-bit numbers, and the digits printed are those of the number, padded to the width.
\<close>

section \<open>Division\<close>

lemma unat_ucast_64: "unat (ucast (b :: u32) :: u64) = unat b"
proof -
  have "unat b < 18446744073709551616" by (rule less_trans [OF unat_u32_less]) simp
  then show ?thesis by (simp add: unsigned_ucast_eq take_bit_eq_mod)
qed

lemma unat_join: "unat (push_bit 32 (ucast hi) OR ucast lo :: u64) = unat (hi :: u32) * 2 ^ 32 + unat (lo :: u32)"
proof -
  have "push_bit 32 (ucast hi) OR ucast lo = (push_bit 32 (ucast hi) + ucast lo :: u64)"
    by (rule disjunctive_add [symmetric]) (auto simp: bit_push_bit_iff bit_ucast_iff dest: bit_imp_le_length)
  moreover have l: "unat hi \<le> 4294967295" "unat lo \<le> 4294967295"
    using unat_u32_less [of hi] unat_u32_less [of lo] by (simp_all del: unat_u32_less)
  then have s: "unat hi * 4294967296 < 18446744073709551616" by linarith
  have "unat (push_bit 32 (ucast hi) :: u64) = unat hi * 4294967296"
    using s by (simp add: push_bit_eq_mult unat_word_ariths unat_ucast_64)
  moreover have "unat hi * 4294967296 + unat lo < 2 ^ 64" using l by simp
  ultimately show ?thesis by (simp add: unat_add_small unat_ucast_64)
qed

lemma unat_split: "unat (n :: u64) = unat (ucast (drop_bit 32 n) :: u32) * 2 ^ 32 + unat (ucast n :: u32)"
proof -
  have d: "unat (drop_bit 32 n) = unat n div 2 ^ 32" unfolding unat_drop_bit_eq by (rule drop_bit_eq_div)
  have "unat n < 2 ^ 64" using unsigned_less [of n, where ?'a = nat] by simp
  then have "unat n div 2 ^ 32 < 2 ^ 32" by simp
  moreover have "unat (ucast (drop_bit 32 n) :: u32) = unat n div 2 ^ 32 mod 2 ^ 32"
    by (simp only: unsigned_ucast_eq d take_bit_eq_mod len_num1 len_bit0) simp
  moreover have "unat (ucast n :: u32) = unat n mod 2 ^ 32"
    by (simp add: unsigned_ucast_eq take_bit_eq_mod)
  ultimately show ?thesis by (simp add: div_mult_mod_eq)
qed

lemma two_step_division:
  assumes "0 < (b :: nat)" "L < M"
  shows "(H * M + L) div b = (H div b) * M + ((H mod b) * M + L) div b"
    and "(H * M + L) mod b = ((H mod b) * M + L) mod b" and "((H mod b) * M + L) div b < M"
proof -
  let ?D = "(H mod b) * M + L"
  have "H * M = (H div b * b + H mod b) * M" by (simp only: div_mult_mod_eq)
  also have "\<dots> = (H div b * M) * b + (H mod b) * M"
    by (simp only: add_mult_distrib mult.assoc mult.commute [of b M])
  finally have h: "H * M = (H div b * M) * b + (H mod b) * M" .
  have e: "H * M + L = (H div b * M) * b + ?D" unfolding h by (simp only: add.assoc)
  show "(H * M + L) div b = (H div b) * M + ?D div b" unfolding e using assms(1) by simp
  show "(H * M + L) mod b = ?D mod b" unfolding e by simp
  have "H mod b + 1 \<le> b" using assms(1) by (simp add: Suc_leI)
  then have "(H mod b + 1) * M \<le> b * M" by (rule mult_le_mono1)
  then have "?D < M * b" using assms(2) by (simp add: algebra_simps)
  then show "?D div b < M" by (simp add: less_mult_imp_div_less)
qed

lemma unat_ucast_32: "unat (ucast (x :: u64) :: u32) = unat x mod 2 ^ 32"
  by (simp add: unsigned_ucast_eq take_bit_eq_mod)

lemma divl_correct:
  assumes "b \<noteq> 0" "(unat d * 2 ^ 32 + unat a) div unat b < 2 ^ 32"
  shows "unat (fst (divl d a b)) = (unat d * 2 ^ 32 + unat a) div unat b"
    and "unat (snd (divl d a b)) = (unat d * 2 ^ 32 + unat a) mod unat b"
proof -
  have "(unat d * 2 ^ 32 + unat a) mod unat b < unat b" using assms(1) by (simp add: unat_gt_0)
  also have "unat b < 2 ^ 32" using unsigned_less [of b, where ?'a = nat] by simp
  finally show "unat (fst (divl d a b)) = (unat d * 2 ^ 32 + unat a) div unat b"
    "unat (snd (divl d a b)) = (unat d * 2 ^ 32 + unat a) mod unat b"
    using assms(2)
    by (simp_all add: divl_def Let_def unat_ucast_32 unat_div unat_mod unat_join unat_ucast_64)
qed

lemma do_div_correct:
  assumes "b \<noteq> 0"
  shows "unat (fst (do_div n b)) = unat n div unat b" and "unat (snd (do_div n b)) = unat n mod unat b"
proof -
  let ?low = "ucast n :: u32" and ?high = "ucast (drop_bit 32 n) :: u32"
  let ?up = "if ?high \<noteq> 0 then ?high mod b else ?high" and ?hi = "if ?high \<noteq> 0 then ?high div b else ?high"
  have b: "0 < unat b" using assms by (simp add: unat_gt_0)
  have u: "unat ?up = unat ?high mod unat b" "unat ?hi = unat ?high div unat b"
    by (simp_all add: unat_mod unat_div)
  have lt: "unat ?low < 2 ^ 32" using unsigned_less [of ?low, where ?'a = nat] by simp
  note t = two_step_division [OF b lt, of "unat ?high", folded unat_split u]
  have "(unat ?up * 2 ^ 32 + unat ?low) div unat b < 2 ^ 32" by (rule t(3))
  note d = divl_correct [OF assms this]
  have e: "do_div n b = (push_bit 32 (ucast ?hi) OR ucast (fst (divl ?up ?low b)), snd (divl ?up ?low b))"
    by (simp add: do_div_def Let_def case_prod_unfold)
  show "unat (fst (do_div n b)) = unat n div unat b"
    unfolding e fst_conv unat_join d(1) t(1) by (rule refl)
  show "unat (snd (do_div n b)) = unat n mod unat b"
    unfolding e snd_conv d(2) t(2) by (rule refl)
qed

section \<open>Digits\<close>

text \<open>The digits of a number in base \<open>b\<close>, first one first, and the number they stand for.\<close>

fun digits :: "nat \<Rightarrow> nat \<Rightarrow> nat list" where
  "digits b n = (if b < 2 \<or> n < b then [n] else digits b (n div b) @ [n mod b])"

declare digits.simps [simp del]

definition value_of :: "nat \<Rightarrow> nat list \<Rightarrow> nat" where
  "value_of b ds = foldl (\<lambda>v d. v * b + d) 0 ds"

lemma digits_value: "value_of b (digits b n) = n"
proof (induction b n rule: digits.induct)
  case (1 b n)
  then show ?case by (subst digits.simps) (auto simp: value_of_def)
qed

lemma digits_less: "2 \<le> b \<Longrightarrow> \<forall>d \<in> set (digits b n). d < b"
proof (induction b n rule: digits.induct)
  case (1 b n)
  then show ?case by (subst digits.simps) auto
qed

lemma digits_nonempty [simp]: "digits b n \<noteq> []"
  by (subst digits.simps) simp

lemma digits_no_leading_zero: "2 \<le> b \<Longrightarrow> 0 < n \<Longrightarrow> hd (digits b n) \<noteq> 0"
proof (induction b n rule: digits.induct)
  case (1 b n)
  show ?case
  proof (cases "n < b")
    case True
    then show ?thesis using 1(3) by (subst digits.simps) simp
  next
    case False
    then have "0 < n div b" using 1(2) by (simp add: div_greater_zero_iff)
    then have "hd (digits b (n div b)) \<noteq> 0" using 1 False by simp
    then show ?thesis using False 1(2) by (subst digits.simps) simp
  qed
qed

definition shown :: "nat list \<Rightarrow> u32 list" where
  "shown ds = map (\<lambda>d. digit_char (of_nat d)) ds"

lemma ge_ucast_iff: "num \<ge> ucast b \<longleftrightarrow> unat b \<le> unat (num :: u64)" for b :: u32
  by (simp add: word_le_nat_alt unat_ucast_64)

lemma digit_of_last:
  assumes "b \<noteq> 0"
  shows "digit_char (snd (do_div num b)) = digit_char (of_nat (unat num mod unat b))"
  using word_of_unat [OF do_div_correct(2) [OF assms, of num]] by simp

lemma print_digit_no_pad_correct:
  assumes "2 \<le> unat b"
  shows "print_digit_no_pad num b = Some (shown (digits (unat b) (unat num)))"
proof (induction "unat num" arbitrary: num rule: less_induct)
  case less
  have b: "b \<noteq> 0" using assms by auto
  show ?case
  proof (cases "unat b \<le> unat num")
    case False
    then show ?thesis
      by (subst print_digit_no_pad.simps, subst digits.simps) (simp add: ge_ucast_iff shown_def)
  next
    case True
    have "unat num div unat b < unat num" using True assms by (intro div_less_dividend) simp_all
    then have "unat (fst (do_div num b)) < unat num" by (simp add: do_div_correct(1) [OF b])
    from less [OF this] have "print_digit_no_pad (fst (do_div num b)) b =
        Some (shown (digits (unat b) (unat num div unat b)))" by (simp add: do_div_correct(1) [OF b])
    moreover have "digits (unat b) (unat num) = digits (unat b) (unat num div unat b) @ [unat num mod unat b]"
      using True assms by (subst digits.simps) simp
    ultimately show ?thesis
      using True by (subst print_digit_no_pad.simps) (simp add: ge_ucast_iff shown_def digit_of_last [OF b])
  qed
qed

lemma print_digit_correct:
  assumes "2 \<le> unat b"
  shows "print_digit num b width c =
    Some (pad c (width - int (length (digits (unat b) (unat num)))) @ shown (digits (unat b) (unat num)))"
proof (induction "unat num" arbitrary: num width rule: less_induct)
  case less
  have b: "b \<noteq> 0" using assms by auto
  show ?case
  proof (cases "unat b \<le> unat num")
    case False
    then show ?thesis
      by (subst print_digit.simps, subst (1 2) digits.simps) (simp add: ge_ucast_iff shown_def)
  next
    case True
    have "unat num div unat b < unat num" using True assms by (intro div_less_dividend) simp_all
    then have "unat (fst (do_div num b)) < unat num" by (simp add: do_div_correct(1) [OF b])
    from less [OF this, of "width - 1"] have "print_digit (fst (do_div num b)) b (width - 1) c =
        Some (pad c (width - 1 - int (length (digits (unat b) (unat num div unat b)))) @
          shown (digits (unat b) (unat num div unat b)))" by (simp add: do_div_correct(1) [OF b])
    moreover have "digits (unat b) (unat num) = digits (unat b) (unat num div unat b) @ [unat num mod unat b]"
      using True assms by (subst digits.simps) simp
    ultimately show ?thesis
      using True by (subst print_digit.simps)
        (simp add: ge_ucast_iff shown_def digit_of_last [OF b] diff_diff_eq add.commute)
  qed
qed

lemma num_digits_loop:
  assumes "2 \<le> unat b"
  shows "0 < unat num \<Longrightarrow>
    get_num_digits_loop num b k = Some (k + int (length (digits (unat b) (unat num))))"
proof (induction "unat num" arbitrary: num k rule: less_induct)
  case less
  have b: "b \<noteq> 0" using assms by auto
  have pos: "num > 0" using less.prems by (simp add: word_greater_zero_iff unat_gt_0)
  note q = do_div_correct(1) [OF b, of num]
  have z: "get_num_digits_loop m b j = Some j" if "unat m = 0" for m j
    using that by (subst get_num_digits_loop.simps) (simp add: unat_eq_zero)
  show ?case
  proof (cases "unat b \<le> unat num")
    case False
    then have "unat (fst (do_div num b)) = 0" using q by simp
    then show ?thesis
      using z pos False by (subst get_num_digits_loop.simps, subst digits.simps) simp
  next
    case True
    have "unat num div unat b < unat num" "0 < unat num div unat b"
      using True assms by (simp_all add: div_greater_zero_iff)
    then have "get_num_digits_loop (fst (do_div num b)) b (k + 1) =
        Some (k + 1 + int (length (digits (unat b) (unat num div unat b))))"
      using less(1) [of "fst (do_div num b)" "k + 1"] q by simp
    moreover have "digits (unat b) (unat num) = digits (unat b) (unat num div unat b) @ [unat num mod unat b]"
      using True assms by (subst digits.simps) simp
    ultimately show ?thesis using pos by (subst get_num_digits_loop.simps) simp
  qed
qed

lemma get_num_digits_correct:
  assumes "2 \<le> unat b"
  shows "get_num_digits num b = Some (int (length (digits (unat b) (unat num))))"
proof (cases "num = 0")
  case True
  then show ?thesis using assms by (subst digits.simps) (simp add: get_num_digits_def)
next
  case False
  then show ?thesis using num_digits_loop [OF assms, of num 0] by (simp add: get_num_digits_def unat_gt_0)
qed

section \<open>Conversions\<close>

text \<open>What a conversion prints: sign, padding and digits in a field.\<close>

definition digit_field :: "nat \<Rightarrow> nat \<Rightarrow> u32 list" where
  "digit_field b n = shown (digits b n)"

lemma unat_10_16 [simp]: "unat (10 :: u32) = 10" "unat (16 :: u32) = 16"
  by simp_all

lemma print_num_correct:
  assumes "2 \<le> unat b" "va_num l args = Some (num, rest)"
  shows "print_num b l w c left args = Some
    (let ds = digit_field (unat b) (unat num); fill = w - int (length ds)
     in if left then ds @ pad (putc_of CHR '' '') fill else pad c fill @ ds, rest)"
  using assms
  by (simp add: print_num_def get_num_digits_correct print_digit_no_pad_correct print_digit_correct
      digit_field_def shown_def Let_def)

lemma unat_magnitude: "unat (if n <s 0 then - n else n) = nat \<bar>sint n\<bar>" for n :: u64
proof -
  have "take_bit 64 (uint n) = uint n" using uint_bounded [of n] by (intro take_bit_int_eq_self) simp_all
  then have s: "sint n = uint n - (if bit n 63 then 2 ^ 64 else 0)"
    by (simp add: sint_uint signed_take_bit_eq_take_bit_minus bit_uint_iff)
  have m: "n <s 0 \<longleftrightarrow> bit n 63" using bit_last_iff [of n] by (simp add: word_sless_alt)
  have u: "0 \<le> uint n" "uint n < 2 ^ 64" using uint_bounded [of n] by simp_all
  show ?thesis
  proof (cases "bit n 63")
    case True
    then have "uint n \<noteq> 0" by (metis bit_0_eq bot_apply bot_bool_def uint_0_iff)
    then have "(- uint n) mod 2 ^ 64 = 2 ^ 64 - uint n" using u by (simp add: zmod_zminus1_eq_if)
    then have "uint (- n) = 2 ^ 64 - uint n" by (simp add: uint_word_ariths)
    then show ?thesis using s m True u unfolding unat_eq_nat_uint by simp
  next
    case False
    then show ?thesis using s m u unfolding unat_eq_nat_uint by simp
  qed
qed

lemma print_signed_num_correct:
  assumes "2 \<le> unat b" "va_signed l args = Some (n, rest)"
  shows "print_signed_num b l w c left args = Some
    (let ds = digit_field (unat b) (nat \<bar>sint n\<bar>); sign = (if n <s 0 then [putc_of CHR ''-''] else []);
         fill = w - int (length (sign @ ds))
     in if left then sign @ ds @ pad (putc_of CHR '' '') fill
        else if c = putc_of CHR ''0'' \<and> n <s 0 then sign @ pad c fill @ ds
        else pad c fill @ sign @ ds, rest)"
proof -
  have "unat (if n <s 0 then - n else n) = nat \<bar>sint n\<bar>" by (rule unat_magnitude)
  then show ?thesis
    using assms
    by (cases "n <s 0") (simp_all add: print_signed_num_def get_num_digits_correct print_digit_no_pad_correct digit_field_def
        shown_def Let_def add.commute)
qed

text \<open>
  A zero inside a width is taken for the padding flag: \<^verbatim>\<open>%-10s\<close>, which the help listing uses,
  is the width 1, so nothing is ever padded.
\<close>

lemma cprintf_width_ten: "cprintf ''%-10s'' [Str s] = Some (if s = [] then [putc_of CHR '' ''] else map putc_of s)"
proof -
  have "(of_char CHR ''1'' :: int) - of_char CHR ''0'' = 1" by simp
  then show ?thesis
    by (cases s) (simp_all add: cprintf_def fmt_start_def fmt_step_def digits19_def converted_def print_str_def
        pad_def Let_def)
qed



end
