(* ===== verification/Cons_Laws.thy ===== *)
theory Cons_Laws
  imports Cons Stdio_Laws Swap_Fifo_Laws Ata_Sim
begin

text \<open>
  The console: a call of \<^verbatim>\<open>cprintf\<close> whose arguments fit its format returns, and it changes
  nothing but the screen memory, the devices and the cursor; where the cursor goes.
\<close>

section \<open>Formats and their arguments\<close>

text \<open>
  The arguments fit the format from here on: \<open>t\<close> says that a conversion is being read,
  \<open>l\<close> that it has the flag for 64 bits.
\<close>

fun takes :: "char \<Rightarrow> bool \<Rightarrow> vararg list \<Rightarrow> vararg list option" where
  "takes c l args =
     (if c \<in> {CHR ''x'', CHR ''p'', CHR ''d'', CHR ''u''} then
        (case args of
           Word _ # rest \<Rightarrow> if l then (case rest of Word _ # rest' \<Rightarrow> Some rest' | _ \<Rightarrow> None) else Some rest
         | _ \<Rightarrow> None)
      else if c = CHR ''s'' then (case args of Str _ # rest \<Rightarrow> Some rest | _ \<Rightarrow> None)
      else (case args of Word _ # rest \<Rightarrow> Some rest | _ \<Rightarrow> None))"

definition is_conversion :: "char \<Rightarrow> bool" where
  "is_conversion c \<longleftrightarrow> c \<in> {CHR ''x'', CHR ''p'', CHR ''d'', CHR ''u'', CHR ''s'', CHR ''c''}"

primrec fits :: "string \<Rightarrow> bool \<Rightarrow> bool \<Rightarrow> vararg list \<Rightarrow> bool" where
  "fits [] t l args \<longleftrightarrow> True"
| "fits (c # cs) t l args \<longleftrightarrow>
     (if \<not> t then fits cs (c = CHR ''%'') False args
      else if is_conversion c then
        (case takes c l args of Some rest \<Rightarrow> fits cs False l rest | None \<Rightarrow> False)
      else fits cs True (l \<or> c = CHR ''l'') args)"

lemma va_num_takes:
  assumes "takes c l args = Some rest" "c \<in> {CHR ''x'', CHR ''p'', CHR ''d'', CHR ''u''}"
  shows "\<exists>n. va_num l args = Some (n, rest)" and "\<exists>n. va_signed l args = Some (n, rest)"
  using assms
  by (auto simp: va_num_def va_signed_def split: list.splits vararg.splits if_splits)

lemma fmt_step_text: "\<not> transfer f \<Longrightarrow>
  fmt_step c f args = Some (if c = CHR ''%'' then [] else [putc_of c], fmt_start (c = CHR ''%''), args)"
  by (simp add: fmt_step_def)

lemma fmt_step_conversion:
  assumes "transfer f" "is_conversion c" "takes c (lflag f) args = Some rest"
  shows "\<exists>out. fmt_step c f args = Some (out, f\<lparr>transfer := False\<rparr>, rest)"
proof -
  consider (num) "c \<in> {CHR ''x'', CHR ''p'', CHR ''d'', CHR ''u''}" | (str) "c = CHR ''s''" | (chr) "c = CHR ''c''"
    using assms(2) by (auto simp: is_conversion_def)
  then show ?thesis
  proof cases
    case num
    obtain n m where "va_num (lflag f) args = Some (n, rest)" "va_signed (lflag f) args = Some (m, rest)"
      using va_num_takes [OF assms(3) num] by blast
    note p = print_num_correct [OF _ this(1)] print_signed_num_correct [OF _ this(2)]
    show ?thesis
      using num assms(1) by (auto simp: fmt_step_def converted_def digits19_def p)
  next
    case str
    then show ?thesis using assms(1,3)
      by (auto simp: fmt_step_def converted_def digits19_def print_str_def Let_def
          split: list.splits vararg.splits)
  next
    case chr
    then show ?thesis using assms(1,3)
      by (auto simp: fmt_step_def converted_def digits19_def split: list.splits vararg.splits)
  qed
qed

lemma fmt_step_flag:
  assumes "transfer f" "\<not> is_conversion c"
  shows "\<exists>f'. fmt_step c f args = Some ([], f', args) \<and> transfer f' \<and> (lflag f' \<longleftrightarrow> lflag f \<or> c = CHR ''l'')"
  using assms by (auto simp: fmt_step_def is_conversion_def digits19_def)

lemma cprintf_loop_fits:
  "fits cs (transfer f) (lflag f) args \<Longrightarrow> \<exists>out. cprintf_loop cs f args = Some out"
proof (induction cs arbitrary: f args)
  case (Cons c cs)
  consider (plain) "\<not> transfer f" | (conv) "transfer f" "is_conversion c"
    | (flag) "transfer f" "\<not> is_conversion c" by blast
  then show ?case
  proof cases
    case plain
    then have "fits cs (transfer (fmt_start (c = CHR ''%''))) (lflag (fmt_start (c = CHR ''%''))) args"
      using Cons.prems by (simp add: fmt_start_def)
    from Cons.IH [OF this] show ?thesis by (auto simp: fmt_step_text [OF plain])
  next
    case conv
    then obtain rest where r: "takes c (lflag f) args = Some rest" "fits cs False (lflag f) rest"
      using Cons.prems by (auto split: option.splits simp del: takes.simps)
    obtain o1 where o1: "fmt_step c f args = Some (o1, f\<lparr>transfer := False\<rparr>, rest)"
      using fmt_step_conversion [OF conv r(1)] by blast
    have "fits cs (transfer (f\<lparr>transfer := False\<rparr>)) (lflag (f\<lparr>transfer := False\<rparr>)) rest" using r(2) by simp
    from Cons.IH [OF this] show ?thesis by (auto simp: o1)
  next
    case flag
    obtain f' where f': "fmt_step c f args = Some ([], f', args)" "transfer f'"
      "lflag f' \<longleftrightarrow> lflag f \<or> c = CHR ''l''"
      using fmt_step_flag [OF flag] by blast
    have "fits cs (transfer f') (lflag f') args" using Cons.prems flag f'(2,3) by simp
    from Cons.IH [OF this] show ?thesis by (auto simp: f'(1))
  qed
qed simp

lemma cprintf_fits: "fits fm False False args \<Longrightarrow> \<exists>out. cprintf fm args = Some out"
  unfolding cprintf_def by (rule cprintf_loop_fits) (simp add: fmt_start_def)

section \<open>What printing changes\<close>

definition printed :: "('h, 'a) cons_scheme \<Rightarrow> ('h, 'a) cons_scheme \<Rightarrow> bool" where
  "printed s s' \<longleftrightarrow> (\<exists>m h p. s' = s\<lparr>mem := m, hw := h, crt_pos := p\<rparr>)"

lemma printedI: "s' = s\<lparr>mem := m, hw := h, crt_pos := p\<rparr> \<Longrightarrow> printed s s'"
  unfolding printed_def by blast

lemma printed_refl: "printed s s"
  by (rule printedI [where m = "mem s" and h = "hw s" and p = "crt_pos s"]) simp

lemma printed_trans: "printed s s' \<Longrightarrow> printed s' s'' \<Longrightarrow> printed s s''"
  unfolding printed_def by fastforce

lemma printed_upd:
  assumes "printed s s'"
  shows "printed s (s'\<lparr>mem := m\<rparr>)" "printed s (s'\<lparr>hw := h\<rparr>)" "printed s (s'\<lparr>crt_pos := p\<rparr>)"
proof -
  obtain m' h' p' where s': "s' = s\<lparr>mem := m', hw := h', crt_pos := p'\<rparr>"
    using assms unfolding printed_def by blast
  show "printed s (s'\<lparr>mem := m\<rparr>)"
    by (rule printedI [where m = m and h = h' and p = p']) (simp add: s')
  show "printed s (s'\<lparr>hw := h\<rparr>)"
    by (rule printedI [where m = m' and h = h and p = p']) (simp add: s')
  show "printed s (s'\<lparr>crt_pos := p\<rparr>)"
    by (rule printedI [where m = m' and h = h' and p = p]) (simp add: s')
qed

lemma printed_upd_mem: "printed s s' \<Longrightarrow> printed s (upd_mem g s')"
  unfolding upd_mem_def by (rule printed_upd)

lemmas printed_intros = printed_upd printed_upd_mem printed_refl

lemma cga_return_printed: "printed s s' \<Longrightarrow> printed s (cga_return s')"
  unfolding cga_return_def by (rule printed_upd)

lemma cga_scrup_printed: "printed s s' \<Longrightarrow> printed s (cga_scrup s')"
  unfolding cga_scrup_def Let_def by (intro printed_intros)

lemma cga_newline_printed: "printed s (cga_newline s)"
  unfolding cga_newline_def Let_def
  by (cases "of_nat CRT_ROWS \<le> (crt_pos s + of_nat CRT_COLS) div of_nat CRT_COLS")
    (simp_all add: cga_return_printed cga_scrup_printed printed_intros)

lemma cga_putc_printed: "printed s (cga_putc io c s)"
  unfolding cga_putc_def Let_def cur_update_def
  by (intro printed_upd) (simp add: printed_intros cga_newline_printed cga_return_printed)

lemma cons_putc_printed: "printed s (cons_putc io c s)"
  unfolding cons_putc_def Let_def by (intro printed_upd cga_putc_printed)

lemma cons_out_printed: "printed s (cons_out io cs s)"
  unfolding cons_out_def
proof (induction cs arbitrary: s)
  case (Cons c cs)
  show ?case using printed_trans [OF cons_putc_printed [of s io c] Cons.IH] by simp
qed (simp add: printed_refl)

lemma cons_printf_printed:
  assumes "fits fm False False args"
  shows "\<exists>s'. cons_printf io fm args s = Inr ((), s') \<and> printed s s'"
  using cprintf_fits [OF assms] cons_out_printed [of s io] by (auto simp: cons_printf_def)

section \<open>The cursor\<close>

text \<open>The cursor after a character, as a cell number; \<open>k\<close> is the low byte of the character.\<close>

definition next_pos :: "u32 \<Rightarrow> nat \<Rightarrow> nat" where
  "next_pos k p =
     (if k = 8 then p - 1
      else if k = 10 then 80 * (if p div 80 < 24 then p div 80 + 1 else p div 80)
      else if k = 13 then 80 * (p div 80)
      else p + 1)"

lemma low_byte_attr: "(c OR 0x0700) AND 0xFF = (c AND 0xFF :: u32)"
  by (simp add: word_ao_dist)

lemma cur_update_pos [simp]: "crt_pos (cur_update io s) = crt_pos s"
  by (simp add: cur_update_def Let_def)

lemma unat_return: "unat (x - x mod of_nat CRT_COLS) = 80 * (unat (x :: u16) div 80)"
proof -
  have m: "unat (x mod of_nat CRT_COLS) = unat x mod 80" by (simp add: unat_mod CRT_COLS_def)
  then have "x mod of_nat CRT_COLS \<le> x" by (simp add: word_le_nat_alt)
  then have "unat (x - x mod of_nat CRT_COLS) = unat x - unat x mod 80" by (simp add: unat_diff_le m)
  then show ?thesis by (simp add: minus_mod_eq_mult_div)
qed

lemma cga_scrup_pos: "crt_pos (cga_scrup s) = crt_pos s - of_nat CRT_COLS"
  by (simp add: cga_scrup_def Let_def upd_mem_def)

lemma cga_newline_pos:
  assumes "unat (crt_pos s) + 80 < 2 ^ 16"
  shows "unat (crt_pos (cga_newline s)) = next_pos 10 (unat (crt_pos s))"
proof -
  let ?p = "crt_pos s"
  have u: "unat (?p + 80) = unat ?p + 80" using assms by (intro unat_add_small [THEN trans]) simp_all
  have d: "unat ((?p + 80) div 80) = unat ?p div 80 + 1" by (simp add: unat_div u)
  have c: "(of_nat CRT_COLS :: u16) = 80" "(of_nat CRT_ROWS :: u16) = 25" by (simp_all add: CRT_COLS_def CRT_ROWS_def)
  show ?thesis
  proof (cases "25 \<le> (?p + 80) div 80")
    case True
    then have "24 \<le> unat ?p div 80" using d by (simp add: word_le_nat_alt)
    moreover have "crt_pos (cga_newline s) = ?p - ?p mod of_nat CRT_COLS"
      using True by (simp add: cga_newline_def cga_return_def Let_def c cga_scrup_pos)
    ultimately show ?thesis by (simp add: next_pos_def unat_return)
  next
    case False
    then have "unat ?p div 80 < 24" using d by (simp add: word_le_nat_alt)
    moreover have "crt_pos (cga_newline s) = (?p + 80) - (?p + 80) mod of_nat CRT_COLS"
      using False by (simp add: cga_newline_def cga_return_def Let_def c)
    moreover have "(unat ?p + 80) div 80 = unat ?p div 80 + 1" by simp
    ultimately show ?thesis by (simp only: next_pos_def unat_return u) simp
  qed
qed

lemma cga_putc_pos:
  assumes "unat (crt_pos s) + 80 < 2 ^ 16"
  shows "unat (crt_pos (cga_putc io c s)) = next_pos (c AND 0xFF) (unat (crt_pos s))"
proof -
  have b: "unat (crt_pos s - 1) = unat (crt_pos s) - 1" if "0 < crt_pos s"
  proof -
    have "1 \<le> crt_pos s" using that by (simp add: word_le_nat_alt word_less_nat_alt)
    then show ?thesis using unat_diff_le [of 1 "crt_pos s"] by simp
  qed
  have z: "\<not> 0 < crt_pos s \<Longrightarrow> unat (crt_pos s) = 0" by (simp add: word_gt_0)
  have n: "unat (crt_pos s + 1) = unat (crt_pos s) + 1"
    using assms by (intro unat_add_small [THEN trans]) simp_all
  show ?thesis
    by (simp add: cga_putc_def Let_def low_byte_attr cga_newline_pos [OF assms] cga_return_def unat_return
        upd_mem_def next_pos_def b z n)
qed

text \<open>Once the cursor is below the screen only backspaces bring it back.\<close>

lemma next_pos_off_screen: "2000 \<le> p \<Longrightarrow> k \<noteq> 8 \<Longrightarrow> 2000 \<le> next_pos k p"
  by (auto simp: next_pos_def)

section \<open>The screen\<close>

definition screen :: "('h, 'a) cons_scheme \<Rightarrow> nat \<Rightarrow> u16" where
  "screen s i = load16 (mem s) (crt_cell i)"

lemma unat_crt_cell: "i < 2 ^ 16 \<Longrightarrow> unat (crt_cell i) = 0xC00B8000 + 2 * i"
proof -
  assume i: "i < 2 ^ 16"
  have "(0xC00B8000 :: u32) + 2 * of_nat i = of_nat (0xC00B8000 + 2 * i)" by simp
  then have "crt_cell i = of_nat (0xC00B8000 + 2 * i)"
    by (simp add: crt_cell_def crt_buf_def CGA_BUF_def KERNEL_BASE_def)
  then show ?thesis using i by (simp add: unat_of_nat del: of_nat_add)
qed

lemma crt_cell_other:
  assumes "i < 2 ^ 16" "j < 2 ^ 16" "i \<noteq> j"
  shows "load16 (store16 (crt_cell j) w m) (crt_cell i) = load16 m (crt_cell i)"
proof -
  have u: "unat (crt_cell k + 1) = unat (crt_cell k) + 1" if "k < 2 ^ 16" for k
    using that by (intro unat_add_small [THEN trans]) (simp_all add: unat_crt_cell)
  have "unat (crt_cell i) \<noteq> unat (crt_cell j)" "unat (crt_cell i) \<noteq> unat (crt_cell j + 1)"
    "unat (crt_cell i + 1) \<noteq> unat (crt_cell j)" "unat (crt_cell i + 1) \<noteq> unat (crt_cell j + 1)"
    using assms by (auto simp: u unat_crt_cell)
  then have "crt_cell i \<noteq> crt_cell j" "crt_cell i \<noteq> crt_cell j + 1"
    "crt_cell i + 1 \<noteq> crt_cell j" "crt_cell i + 1 \<noteq> crt_cell j + 1" by metis+
  then show ?thesis by (simp add: load16_def store16_other)
qed

lemma scroll_loop_cells:
  "i + n \<le> 2000 \<Longrightarrow> k < 2 ^ 16 \<Longrightarrow> load16 (scroll_loop i n m) (crt_cell k) =
    (if i \<le> k \<and> k < i + n then load16 m (crt_cell (k + CRT_COLS)) else load16 m (crt_cell k))"
proof (induction n arbitrary: i m)
  case (Suc n)
  show ?case
  proof (cases "k = i")
    case True
    then show ?thesis using Suc by (simp add: load16_store16)
  next
    case False
    then show ?thesis using Suc by (auto simp: crt_cell_other CRT_COLS_def)
  qed
qed auto

lemma erase_loop_cells:
  "i + n \<le> 2000 \<Longrightarrow> k < 2 ^ 16 \<Longrightarrow> load16 (erase_loop i n m) (crt_cell k) =
    (if i \<le> k \<and> k < i + n then CRT_ERASE_CHAR else load16 m (crt_cell k))"
proof (induction n arbitrary: i m)
  case (Suc n)
  show ?case
  proof (cases "k = i")
    case True
    then show ?thesis using Suc by (simp add: load16_store16)
  next
    case False
    then show ?thesis using Suc by (auto simp: crt_cell_other)
  qed
qed auto

lemma cga_scrup_screen:
  assumes "k < 2 ^ 16"
  shows "screen (cga_scrup s) k =
    (if k < 1920 then screen s (k + 80) else if k < 2000 then CRT_ERASE_CHAR else screen s k)"
  using assms
  by (simp add: cga_scrup_def Let_def upd_mem_def screen_def erase_loop_cells scroll_loop_cells
      CRT_ROWS_def CRT_COLS_def)

lemma screen_cong: "mem s' = mem s \<Longrightarrow> screen s' k = screen s k"
  by (simp add: screen_def)

lemma newline_scrolls:
  assumes "unat (crt_pos s) + 80 < 2 ^ 16"
  shows "of_nat CRT_ROWS \<le> (crt_pos s + of_nat CRT_COLS) div of_nat CRT_COLS \<longleftrightarrow> 24 \<le> unat (crt_pos s) div 80"
proof -
  have "unat (crt_pos s + 80) = unat (crt_pos s) + 80"
    using assms by (intro unat_add_small [THEN trans]) simp_all
  moreover have "25 \<le> (n + 80) div 80 \<longleftrightarrow> 24 \<le> n div 80" for n :: nat by linarith
  ultimately show ?thesis by (simp only: word_le_nat_alt unat_div CRT_ROWS_def CRT_COLS_def) simp
qed

lemma cga_newline_screen:
  assumes "unat (crt_pos s) + 80 < 2 ^ 16" "k < 2 ^ 16"
  shows "screen (cga_newline s) k =
    (if unat (crt_pos s) div 80 < 24 then screen s k
     else if k < 1920 then screen s (k + 80) else if k < 2000 then CRT_ERASE_CHAR else screen s k)"
proof (cases "24 \<le> unat (crt_pos s) div 80")
  case True
  then have "screen (cga_newline s) k = screen (cga_scrup (s\<lparr>crt_pos := crt_pos s + of_nat CRT_COLS\<rparr>)) k"
    by (intro screen_cong) (simp add: cga_newline_def cga_return_def Let_def newline_scrolls [OF assms(1)])
  then show ?thesis using True by (simp only: cga_scrup_screen [OF assms(2)]) (simp add: screen_def)
next
  case False
  then show ?thesis
    by (simp add: screen_def cga_newline_def cga_return_def Let_def newline_scrolls [OF assms(1)])
qed

lemma mem_cur_update [simp]: "mem (cur_update io s) = mem s"
  by (simp add: cur_update_def Let_def)

text \<open>
  Abstractly, a character is a map on the cells: the one under the cursor gets it, white on black;
  a backspace blanks the one before; a newline on the last row or below moves all rows up by one.
\<close>

definition next_cells :: "u32 \<Rightarrow> nat \<Rightarrow> (nat \<Rightarrow> u16) \<Rightarrow> nat \<Rightarrow> u16" where
  "next_cells c p cells k =
     (if c AND 0xFF = 8 then
        if 0 < p \<and> k = p - 1 then ucast (((c OR 0x0700) AND NOT 0xFF) OR 0x20) else cells k
      else if c AND 0xFF = 10 then
        if p div 80 < 24 \<or> 2000 \<le> k then cells k
        else if k < 1920 then cells (k + 80) else 0x0720
      else if c AND 0xFF = 13 then cells k
      else if k = p then ucast (c OR 0x0700) else cells k)"

lemma screen_store:
  assumes "j < 2 ^ 16" "k < 2 ^ 16"
  shows "screen (upd_mem (store16 (crt_cell j) w) s) k = (if k = j then w else screen s k)"
  using assms by (simp add: screen_def upd_mem_def load16_store16 crt_cell_other)

lemma unat_pred: "0 < p \<Longrightarrow> unat (p - 1) = unat (p :: u16) - 1"
  using unat_diff_le [of 1 p] by (simp add: word_le_nat_alt word_less_nat_alt)

lemma cga_putc_cells:
  assumes "unat (crt_pos s) + 80 < 2 ^ 16" "k < 2 ^ 16"
  shows "screen (cga_putc io c s) k = next_cells c (unat (crt_pos s)) (screen s) k"
proof -
  have p: "unat (crt_pos s) < 2 ^ 16" using assms(1) by simp
  consider "c AND 0xFF = 8" "0 < crt_pos s" | "c AND 0xFF = 8" "crt_pos s = 0" | "c AND 0xFF = 10" | "c AND 0xFF = 13"
    | "c AND 0xFF \<notin> {8, 10, 13}" by (cases "crt_pos s = 0") (auto simp: word_gt_0)
  then show ?thesis
  proof cases
    case 1
    let ?s = "s\<lparr>crt_pos := crt_pos s - 1\<rparr>"
    have "screen (cga_putc io c s) k = screen (upd_mem (store16 (crt_cell (unat (crt_pos s - 1)))
        (ucast (((c OR 0x0700) AND NOT 0xFF) OR 0x20))) ?s) k"
      using 1 by (intro screen_cong) (simp add: cga_putc_def Let_def low_byte_attr)
    then show ?thesis
      using 1 p by (subst (asm) screen_store [OF _ assms(2)])
        (simp_all add: unat_pred next_cells_def word_less_nat_alt screen_def)
  next
    case 2
    then show ?thesis by (simp add: cga_putc_def Let_def low_byte_attr next_cells_def screen_def)
  next
    case 3
    then have "screen (cga_putc io c s) k = screen (cga_newline s) k"
      by (intro screen_cong) (simp add: cga_putc_def Let_def low_byte_attr)
    then show ?thesis
      using 3 by (simp add: cga_newline_screen [OF assms] next_cells_def CRT_ERASE_CHAR_def)
  next
    case 4
    then show ?thesis
      by (simp add: cga_putc_def Let_def low_byte_attr next_cells_def screen_def cga_return_def)
  next
    case 5
    then have "screen (cga_putc io c s) k = screen (upd_mem (store16 (crt_cell (unat (crt_pos s))) (ucast (c OR 0x0700))) s) k"
      by (intro screen_cong) (simp add: cga_putc_def Let_def low_byte_attr)
    then show ?thesis using 5 by (simp add: screen_store [OF p assms(2)] next_cells_def)
  qed
qed

text \<open>No memory but the cells is written.\<close>

definition cells_only :: "memory \<Rightarrow> memory \<Rightarrow> bool" where
  "cells_only m m' \<longleftrightarrow> (\<forall>a. (\<forall>k < 2 ^ 16. a \<noteq> crt_cell k \<and> a \<noteq> crt_cell k + 1) \<longrightarrow> m' a = m a)"

lemma cells_only_store: "j < 2 ^ 16 \<Longrightarrow> cells_only m m' \<Longrightarrow> cells_only m (store16 (crt_cell j) w m')"
  by (auto simp: cells_only_def store16_def)

lemma cells_only_scroll: "i + n \<le> 2 ^ 16 \<Longrightarrow> cells_only m m' \<Longrightarrow> cells_only m (scroll_loop i n m')"
  by (induction n arbitrary: i m') (simp_all add: cells_only_store)

lemma cells_only_erase: "i + n \<le> 2 ^ 16 \<Longrightarrow> cells_only m m' \<Longrightarrow> cells_only m (erase_loop i n m')"
  by (induction n arbitrary: i m') (simp_all add: cells_only_store)

lemma cells_only_refl: "cells_only m m"
  by (simp add: cells_only_def)

lemma cga_putc_cells_only: "cells_only (mem s) (mem (cga_putc io c s))"
proof -
  have "cells_only (mem s) (mem (cga_newline s))"
    by (simp add: cga_newline_def cga_return_def cga_scrup_def Let_def upd_mem_def CRT_ROWS_def CRT_COLS_def
        cells_only_refl cells_only_scroll cells_only_erase)
  moreover have "cells_only (mem s) (store16 (crt_cell (unat (p :: u16))) w (mem s))" for p w
    using cells_only_store [OF _ cells_only_refl] unsigned_less [of p, where ?'a = nat] by simp
  ultimately show ?thesis
    by (simp add: cga_putc_def Let_def low_byte_attr upd_mem_def cga_return_def cells_only_refl)
qed

text \<open>The hardware cursor follows.\<close>

definition cursor_at :: "'h port_io \<Rightarrow> nat \<Rightarrow> 'h \<Rightarrow> 'h" where
  "cursor_at io p h =
     outb io 0x3D5 (of_nat p) (outb io 0x3D4 0x0F (outb io 0x3D5 (of_nat (p div 256)) (outb io 0x3D4 0x0E h)))"

lemma cga_putc_hw: "hw (cga_putc io c s) = cursor_at io (unat (crt_pos (cga_putc io c s))) (hw s)"
proof -
  have "hw (cga_newline t) = hw t" for t :: "('a, 'b) cons_scheme"
    by (simp add: cga_newline_def cga_return_def cga_scrup_def Let_def upd_mem_def)
  moreover have d: "(ucast (drop_bit 8 p) :: u8) = of_nat (unat (p :: u16) div 256)" for p
    using of_nat_unat [of "p div 256", where ?'a = "8 word"] by (simp add: drop_bit_eq_div unat_div)
  moreover have "hw (cur_update io t) = cursor_at io (unat (crt_pos t)) (hw t)" for t :: "('a, 'b) cons_scheme"
    by (simp add: cur_update_def Let_def cursor_at_def CGA_IDX_REG_def CGA_DATA_REG_def CRTC_CURSOR_HIGH_def
        CRTC_CURSOR_LOW_def d)
  ultimately show ?thesis by (simp add: cga_putc_def Let_def upd_mem_def cga_return_def)
qed

section \<open>Properties\<close>

text \<open>
  C40. What a character does to the screen, cell by cell. A printed one goes, white on black, into
  the cell under the cursor, which moves one cell on; a backspace moves the cursor one cell back,
  unless it is in the first, and blanks that cell; a newline goes to the start of the next row, or
  scrolls all rows up by one and blanks the last when the cursor is on the last row or below; a
  carriage return moves the cursor to the start of its row. Every other cell, and all memory but
  the cells, stays as it is, and the hardware cursor is set to the new position. The cursor is not
  kept on the screen: a character printed in the last cell leaves it in cell 2000, below the last
  row, and newlines then scroll but keep it there.
\<close>

theorem cga_putc_screen:
  assumes "unat (crt_pos s) = p" and "p + 80 < 2 ^ 16"
  shows "unat (crt_pos (cga_putc io c s)) = next_pos (c AND 0xFF) p \<and>
    (\<forall>k < 2 ^ 16. screen (cga_putc io c s) k = next_cells c p (screen s) k) \<and>
    cells_only (mem s) (mem (cga_putc io c s)) \<and>
    hw (cga_putc io c s) = cursor_at io (next_pos (c AND 0xFF) p) (hw s) \<and>
    (2000 \<le> p \<and> c AND 0xFF \<noteq> 8 \<longrightarrow> 2000 \<le> unat (crt_pos (cga_putc io c s)))"
proof -
  have p: "unat (crt_pos s) + 80 < 2 ^ 16" using assms by simp
  note pos = cga_putc_pos [OF p, of io c, unfolded assms(1)]
  show ?thesis
    using cga_putc_cells [OF p, of _ io c, unfolded assms(1)] cga_putc_hw [of io c s, unfolded pos]
      next_pos_off_screen [of p "c AND 0xFF"] cga_putc_cells_only [of s io c]
    unfolding pos by blast
qed

definition demo_cons :: "ata cons" where
  "demo_cons = vmm.extend demo_vmm \<lparr>hw = sim_ata, irq_mask = 0xFFFF, ticks = 0,
     ide_devices = (\<lambda>_. sim_hda), hd_num_devices = 0, block_devices = (\<lambda>_. None), num_devices = 0,
     disk_devs = (\<lambda>_. disk_of 0 sim_hda), swap_mgr = Mgr_Null, max_swap_offset = 0, swap_device = None,
     swap_offset = 1, crt_pos = 1999\<rparr>"

theorem cga_putc_screen_witness:
  "unat (crt_pos (cga_putc sim_io 65 demo_cons)) = 2000 \<and>
   screen (cga_putc sim_io 65 demo_cons) 1999 = 0x0741 \<and>
   unat (crt_pos (cga_putc sim_io 8 demo_cons)) = 1998 \<and>
   screen (cga_putc sim_io 8 demo_cons) 1998 = 0x0720 \<and>
   (\<exists>s :: ata cons. unat (crt_pos s) = 2000 \<and> unat (crt_pos (cga_putc sim_io 10 s)) = 2000 \<and>
     screen (cga_putc sim_io 10 s) 1919 = 0x0741 \<and> screen (cga_putc sim_io 10 s) 1980 = CRT_ERASE_CHAR)"
proof -
  let ?s = "cga_putc sim_io 65 demo_cons"
  have p: "unat (crt_pos demo_cons) = 1999" by (simp add: demo_cons_def vmm.defs)
  from cga_putc_screen [OF p, of sim_io 65]
  have 1: "unat (crt_pos ?s) = 2000" "screen ?s 1999 = 0x0741" by (simp_all add: next_pos_def next_cells_def)
  from cga_putc_screen [OF p, of sim_io 8]
  have 2: "unat (crt_pos (cga_putc sim_io 8 demo_cons)) = 1998" "screen (cga_putc sim_io 8 demo_cons) 1998 = 0x0720"
    by (simp_all add: next_pos_def next_cells_def)
  from cga_putc_screen [OF 1(1), of sim_io 10]
  have "unat (crt_pos (cga_putc sim_io 10 ?s)) = 2000" "screen (cga_putc sim_io 10 ?s) 1919 = 0x0741"
    "screen (cga_putc sim_io 10 ?s) 1980 = CRT_ERASE_CHAR"
    using 1(2) by (simp_all add: next_pos_def next_cells_def CRT_ERASE_CHAR_def)
  with 1 2 show ?thesis by blast
qed

end
