(* ===== verification/Vmm_Laws.thy ===== *)
theory Vmm_Laws
  imports Vmm Mapping_Laws Swap_Fifo_Laws
begin

text \<open>
  What \<^verbatim>\<open>vmm_init\<close> builds: the kernel's direct map, one table entry for each of the
  frames below \<^verbatim>\<open>KERNEL_MEM_SIZE\<close>, with page tables taken from the allocator where the
  boot directory has none, and the directory's entry for itself.
\<close>

section \<open>The addresses of the direct map\<close>

definition kaddr :: "nat \<Rightarrow> u32" where
  "kaddr k = KERNEL_BASE + of_nat k * PG_SIZE"

definition kslots :: "nat set" where
  "kslots = {768..<992}"

lemma kaddr_0: "kaddr 0 = KERNEL_BASE"
  by (simp add: kaddr_def)

lemma kaddr_Suc: "kaddr (Suc k) = kaddr k + PG_SIZE"
  by (simp add: kaddr_def algebra_simps)

lemma unat_kaddr: "k < KFRAMES \<Longrightarrow> unat (kaddr k) = 0xC0000000 + 4096 * k"
proof -
  assume k: "k < KFRAMES"
  have "kaddr k = of_nat (0xC0000000 + 4096 * k)"
    by (simp add: kaddr_def KERNEL_BASE_def PG_SIZE_def mult.commute)
  then show ?thesis using k by (simp add: unat_of_nat KFRAMES_def del: of_nat_add)
qed

lemma kaddr_slots:
  assumes "k < KFRAMES"
  shows "unat (PDX (kaddr k)) = 768 + k div 1024" and "unat (PTX (kaddr k)) = k mod 1024"
proof -
  have u: "unat (kaddr k) = 0xC0000000 + 4096 * k" by (rule unat_kaddr [OF assms])
  have k: "k < 229376" using assms by (simp add: KFRAMES_def)
  have db: "unat (drop_bit i (kaddr k)) = unat (kaddr k) div 2 ^ i" for i
    unfolding unat_drop_bit_eq by (rule drop_bit_eq_div)
  have d22: "unat (drop_bit 22 (kaddr k)) = (0xC0000000 + 4096 * k) div 4194304"
    using db [of 22] by (simp only: u) simp
  have d12: "unat (drop_bit 12 (kaddr k)) = (0xC0000000 + 4096 * k) div 4096"
    using db [of 12] by (simp only: u) simp
  show "unat (PDX (kaddr k)) = 768 + k div 1024"
    unfolding PDX_bits take_bit_eq_mod using k by (simp add: unat_mod d22)
  show "unat (PTX (kaddr k)) = k mod 1024"
  proof -
    have "(786432 + k) mod 1024 = k mod 1024" using mod_mult_self3 [of 768 1024 k] by simp
    then show ?thesis unfolding PTX_bits take_bit_eq_mod using k by (simp add: unat_mod d12)
  qed
qed

lemma kaddr_kslot: "k < KFRAMES \<Longrightarrow> unat (PDX (kaddr k)) \<in> kslots"
  by (simp add: kaddr_slots kslots_def KFRAMES_def)

lemma kslots_user: "kslots \<subseteq> user_slots"
  by (auto simp: kslots_def user_slots_def VPT_IDX_1003)

lemma kaddr_user: "k < KFRAMES \<Longrightarrow> in_user (kaddr k)"
  using kaddr_kslot [of k] kslots_user by (auto simp: in_user_def user_slots_def)

section \<open>One entry\<close>

text \<open>
  The slots of the direct map that have no table yet. Enough frames are left for them, and \<open>r\<close>
  more; no free frame is one of \<open>X\<close>, and neither directory nor tables are there.
\<close>

definition clear_of :: "nat set \<Rightarrow> memory \<Rightarrow> nat \<Rightarrow> bool" where
  "clear_of X m pg \<longleftrightarrow> pg \<notin> X \<and> (\<forall>d \<in> user_slots. pde_present m pg d \<longrightarrow> table_of m pg d \<notin> X)"

definition missing :: "'a mach_scheme \<Rightarrow> nat \<Rightarrow> nat set" where
  "missing s pg = {d \<in> kslots. \<not> pde_present (mem s) pg d}"

definition tables_left :: "nat \<Rightarrow> nat set \<Rightarrow> 'a mach_scheme \<Rightarrow> nat \<Rightarrow> bool" where
  "tables_left r X s pg \<longleftrightarrow> r + card (missing s pg) \<le> card (ff_avail s) \<and>
     X \<inter> ff_avail s = {} \<and> clear_of X (mem s) pg"

lemma finite_missing [simp]: "finite (missing s pg)"
  by (simp add: missing_def kslots_def)

definition self_entry :: "'a mach_scheme \<Rightarrow> nat \<Rightarrow> u32" where
  "self_entry s pg = entry (mem s) pg VPT_IDX"

lemma get_pte_kernel:
  assumes ok: "pgdir_ok s pg" and la: "unat (PDX la) \<in> kslots" and tl: "tables_left r X s pg"
  obtains s' where
    "get_pte (page2kva pg) la True s =
       Inr (entry_addr (table_of (mem s') pg (unat (PDX la))) (unat (PTX la)), s')"
    "pgdir_ok s' pg" "pde_present (mem s') pg (unat (PDX la))" "same_map pg (mem s) (mem s')"
    "tables_left r X s' pg" "self_entry s' pg = self_entry s pg"
proof (cases "pde_present (mem s) pg (unat (PDX la))")
  case True
  then show ?thesis
    using ok tl by (intro that [of s]) (simp_all add: get_pte_present same_map_def)
next
  case False
  let ?d = "unat (PDX la)"
  have d: "?d \<in> user_slots" "?d \<in> missing s pg" using la kslots_user False by (auto simp: missing_def)
  have pos: "0 < card (missing s pg)" using d(2) by (simp only: card_gt_0_iff finite_missing) auto
  then have "card (ff_avail s) \<noteq> 0" using tl pos unfolding tables_left_def by linarith
  then have "ff_avail s \<noteq> {}" by auto
  then obtain p s' where *:
    "get_pte (page2kva pg) la True s = Inr (entry_addr p (unat (PTX la)), s')"
    "p \<in> ff_avail s" "ff_ok s'" "ff_avail s' = ff_avail s - {p}" "npage s' = npage s"
    "mem s' = new_table pg ?d p (mem s)"
    using get_pte_creates [OF ok False] by metis
  have p: "p < 2 ^ 20" "p \<noteq> pg"
    using ok *(2) ff_avail_npage [of s] by (auto simp: pgdir_ok_def KFRAMES_def)
  have pg: "pg < 2 ^ 20" by (rule pgdir_ok_pg [OF ok])
  note n = new_table_ok [OF ok d(1) False *(2-6)]
  note pde = new_table_pde [OF pg p PDX_less, of _ la "mem s", folded *(6)]
  have t: "table_of (mem s') pg ?d = p" "pde_present (mem s') pg ?d" using pde [OF PDX_less] by simp_all
  have "missing s' pg = missing s pg - {?d}"
    using pde(1) by (auto simp: missing_def kslots_def)
  then have "card (missing s' pg) = card (missing s pg) - 1" using d(2) by simp
  moreover have "card (ff_avail s') = card (ff_avail s) - 1" using *(2,4) by simp
  moreover have "clear_of X (mem s') pg"
    using tl pde *(2) user_slots_less by (auto simp: clear_of_def tables_left_def split: if_splits)
  ultimately have "tables_left r X s' pg" using tl pos *(4) by (auto simp: tables_left_def)
  moreover have "self_entry s' pg = self_entry s pg"
    using d(1) p pg new_table_entry [OF pg p(1) PDX_less pg, of VPT_IDX la "mem s"]
    by (simp add: self_entry_def *(6) VPT_IDX_1003 user_slots_def)
  ultimately show ?thesis
    using *(1) t n by (intro that [of s']) (auto simp: same_map_def)
qed

section \<open>The loop\<close>

text \<open>From the \<open>k\<close>-th frame on, \<open>n\<close> entries are set; all others stay.\<close>

definition direct_entry :: "nat \<Rightarrow> u32" where
  "direct_entry k = page2pa k OR PTE_P OR PTE_W"

definition sets_entries :: "nat \<Rightarrow> nat \<Rightarrow> nat \<Rightarrow> memory \<Rightarrow> memory \<Rightarrow> bool" where
  "sets_entries pg k n m m' \<longleftrightarrow> (\<forall>d \<in> user_slots. \<forall>t < 1024.
     vm_entry m' pg d t =
       (if k \<le> (d - 768) * 1024 + t \<and> (d - 768) * 1024 + t < k + n \<and> 768 \<le> d
        then direct_entry ((d - 768) * 1024 + t) else vm_entry m pg d t))"

lemma slot_number: "t < 1024 \<Longrightarrow> 768 \<le> d \<Longrightarrow>
    d = 768 + k div 1024 \<and> t = k mod 1024 \<longleftrightarrow> k = (d - 768) * 1024 + (t :: nat)"
  by auto

lemma of_nat_Suc_pa: "page2pa (Suc k) = page2pa k + PG_SIZE"
  by (simp add: page2pa_bits PG_SIZE_def push_bit_eq_mult algebra_simps)

lemma pgdir_init_loop_result:
  assumes "pgdir_ok s pg" "tables_left r X s pg" "k + n \<le> KFRAMES"
  shows "\<exists>s'. pgdir_init_loop (page2kva pg) (kaddr k) (page2pa k) PTE_W n s = Inr ((), s') \<and>
    pgdir_ok s' pg \<and> sets_entries pg k n (mem s) (mem s') \<and> self_entry s' pg = self_entry s pg \<and>
    tables_left r X s' pg"
  using assms
proof (induction n arbitrary: k s)
  case 0
  then show ?case by (auto simp: sets_entries_def)
next
  case (Suc n)
  let ?la = "kaddr k"
  have k: "k < KFRAMES" using Suc.prems(3) by simp
  have sl: "unat (PDX ?la) = 768 + k div 1024" "unat (PTX ?la) = k mod 1024"
    by (rule kaddr_slots [OF k])+
  obtain s1 where g: "get_pte (page2kva pg) ?la True s =
       Inr (entry_addr (table_of (mem s1) pg (unat (PDX ?la))) (unat (PTX ?la)), s1)"
    "pgdir_ok s1 pg" "pde_present (mem s1) pg (unat (PDX ?la))" "same_map pg (mem s) (mem s1)"
    "tables_left r X s1 pg" "self_entry s1 pg = self_entry s pg"
    using get_pte_kernel [OF Suc.prems(1) kaddr_kslot [OF k] Suc.prems(2)] by metis
  let ?ptep = "entry_addr (table_of (mem s1) pg (unat (PDX ?la))) (unat (PTX ?la))"
  let ?s2 = "upd_mem (store32 ?ptep (page2pa k OR PTE_P OR PTE_W)) s1"
  have us: "unat (PDX ?la) \<in> user_slots" using kaddr_kslot [OF k] kslots_user by auto
  have m2: "mem ?s2 = store32 ?ptep (direct_entry k) (mem s1)" by (simp add: mem_simps direct_entry_def)
  note st = store_pte [OF g(2) us g(3) PTX_less m2]
  have nz: "?ptep \<noteq> 0" by (rule entry_addr_nonzero [OF pgdir_ok_table(1) [OF g(2) us g(3)] PTX_less])
  have ok2: "pgdir_ok ?s2 pg"
    by (rule store_pte_ok [OF g(2) us g(3) PTX_less m2]) (simp_all add: mem_simps page_simps)
  have "missing ?s2 pg = missing s1 pg"
    using st(2) by (auto simp: missing_def kslots_def)
  moreover have "clear_of X (mem ?s2) pg = clear_of X (mem s1) pg"
    using st(2,3) user_slots_less by (auto simp: clear_of_def)
  ultimately have tl2: "tables_left r X ?s2 pg" using g(5) by (simp add: tables_left_def)
  have se2: "self_entry ?s2 pg = self_entry s1 pg"
    using entry_store [OF table_of_less pgdir_ok_pg [OF g(2)] PTX_less, of VPT_IDX "mem s1" pg "unat (PDX ?la)"]
      pgdir_ok_table(2) [OF g(2) us g(3)]
    by (simp add: self_entry_def m2 VPT_IDX_1003)
  obtain s' where s': "pgdir_init_loop (page2kva pg) (kaddr (Suc k)) (page2pa (Suc k)) PTE_W n ?s2 = Inr ((), s')"
    "pgdir_ok s' pg" "sets_entries pg (Suc k) n (mem ?s2) (mem s')" "self_entry s' pg = self_entry ?s2 pg"
    "tables_left r X s' pg"
    using Suc.IH [OF ok2 tl2, of "Suc k"] Suc.prems(3) by auto
  have "sets_entries pg k (Suc n) (mem s) (mem s')"
    unfolding sets_entries_def
  proof (intro ballI allI impI)
    fix d t assume d: "d \<in> user_slots" and t: "t < (1024 :: nat)"
    let ?j = "(d - 768) * 1024 + t"
    have "vm_entry (mem ?s2) pg d t = (if k = ?j \<and> 768 \<le> d then direct_entry k else vm_entry (mem s) pg d t)"
      using st(1) [OF d t] g(4) d t slot_number [OF t, of d k] by (auto simp: sl same_map_def)
    then show "vm_entry (mem s') pg d t =
       (if k \<le> ?j \<and> ?j < k + Suc n \<and> 768 \<le> d then direct_entry ?j else vm_entry (mem s) pg d t)"
      using s'(3) d t unfolding sets_entries_def by auto
  qed
  moreover have "pgdir_init_loop (page2kva pg) ?la (page2pa k) PTE_W (Suc n) s = Inr ((), s')"
    using s'(1) nz by (simp add: g(1) kaddr_Suc of_nat_Suc_pa)
  ultimately show ?case using s'(2,4,5) se2 g(6) by auto
qed

section \<open>\<^verbatim>\<open>vmm_init\<close>\<close>

text \<open>The directory's entry for itself is in no slot of the address space the invariant is about.\<close>

lemma store_self_entry:
  assumes ok: "pgdir_ok s pg" and m': "mem s' = store32 (entry_addr pg VPT_IDX) v (mem s)"
    and s': "ff_ok s' = ff_ok s" "ff_avail s' = ff_avail s" "npage s' = npage s"
  shows "pgdir_ok s' pg" "same_map pg (mem s) (mem s')" "missing s' pg = missing s pg" "self_entry s' pg = v"
    "clear_of X (mem s') pg = clear_of X (mem s) pg"
proof -
  have pg: "pg < 2 ^ 20" by (rule pgdir_ok_pg [OF ok])
  note es = entry_store [OF pg, of _ VPT_IDX _ v "mem s", folded m']
  have v: "VPT_IDX < 1024" by (simp add: VPT_IDX_1003)
  have dir: "pde_present (mem s') pg d = pde_present (mem s) pg d" "table_of (mem s') pg d = table_of (mem s) pg d"
    if "d \<in> user_slots" for d
    using es [OF pg v user_slots_less [OF that]] that by (simp_all add: pde_present_def table_of_def user_slots_def)
  then show "pgdir_ok s' pg" using ok s' unfolding pgdir_ok_def by simp
  show "clear_of X (mem s') pg = clear_of X (mem s) pg" using dir by (simp add: clear_of_def)
  show "missing s' pg = missing s pg" using dir(1) kslots_user by (auto simp: missing_def)
  show "self_entry s' pg = v" using es [OF pg v v] by (simp add: self_entry_def)
  show "same_map pg (mem s) (mem s')"
    unfolding same_map_def
  proof (intro ballI allI impI)
    fix d t assume d: "d \<in> user_slots" and t: "t < (1024 :: nat)"
    show "vm_entry (mem s') pg d t = vm_entry (mem s) pg d t"
      using dir [OF d] es [OF table_of_less v t] pgdir_ok_table(2) [OF ok d] by (auto simp: vm_entry_def)
  qed
qed

lemma mm_init_ok:
  assumes ok: "pgdir_ok s pg"
  shows "pgdir_ok ((mm_init s)\<lparr>mm_pgdir := v\<rparr>) pg" "ff_avail ((mm_init s)\<lparr>mm_pgdir := v\<rparr>) = ff_avail s"
proof -
  have c: "clist (links ((mm_init s)\<lparr>mm_pgdir := v\<rparr>)) FreeHead (map block_link bs)"
    if "clist (links s) FreeHead (map block_link bs)" for bs
    using clist_init_other [OF that, of MmapHead] by (auto simp: mm_init_def page_simps)
  have inv: "ff_inv s bs \<Longrightarrow> ff_inv ((mm_init s)\<lparr>mm_pgdir := v\<rparr>) bs" for bs
    using c [of bs] by (simp add: ff_inv_def block_ok_def) (simp add: mm_init_def page_simps)
  obtain bs where bs: "ff_inv s bs" using ok by (auto simp: pgdir_ok_def ff_ok_def)
  have "ff_ok ((mm_init s)\<lparr>mm_pgdir := v\<rparr>)" using inv [OF bs] by auto
  moreover show av: "ff_avail ((mm_init s)\<lparr>mm_pgdir := v\<rparr>) = ff_avail s"
    using ff_avail_frames [OF inv [OF bs]] ff_avail_frames [OF bs] by simp
  moreover have "npage ((mm_init s)\<lparr>mm_pgdir := v\<rparr>) = npage s" "mem ((mm_init s)\<lparr>mm_pgdir := v\<rparr>) = mem s"
    by (simp_all add: mm_init_def mem_simps page_simps)
  ultimately show "pgdir_ok ((mm_init s)\<lparr>mm_pgdir := v\<rparr>) pg" using ok unfolding pgdir_ok_def by simp
qed

lemma sets_entries_same:
  "same_map pg m m1 \<Longrightarrow> sets_entries pg k n m1 m' \<Longrightarrow> sets_entries pg k n m m'"
  by (simp add: sets_entries_def same_map_def)

lemma pgdir_init_args:
  "unat (ROUND_UP KERNEL_MEM_SIZE PG_SIZE div PG_SIZE) = KFRAMES"
  "ROUND_DOWN KERNEL_BASE PG_SIZE = kaddr 0" "ROUND_DOWN 0 PG_SIZE = page2pa 0"
proof -
  have "unat (ROUND_UP KERNEL_MEM_SIZE PG_SIZE) = 0x38000000"
    by (subst unat_ROUND_UP) (simp_all add: KERNEL_MEM_SIZE_def)
  then show "unat (ROUND_UP KERNEL_MEM_SIZE PG_SIZE div PG_SIZE) = KFRAMES"
    by (simp add: unat_div PG_SIZE_def KFRAMES_def)
  have "unat (ROUND_DOWN KERNEL_BASE PG_SIZE) = unat KERNEL_BASE"
    unfolding unat_ROUND_DOWN by (simp add: KERNEL_BASE_def)
  then show "ROUND_DOWN KERNEL_BASE PG_SIZE = kaddr 0" by (simp add: kaddr_0 word_unat_eq_iff)
  have "unat (ROUND_DOWN 0 PG_SIZE) = 0" unfolding unat_ROUND_DOWN by simp
  then show "ROUND_DOWN 0 PG_SIZE = page2pa 0" by (simp add: page2pa_bits unat_eq_0)
qed

lemma vmm_init_result:
  assumes ok: "pgdir_ok s pg" and tl: "tables_left r X s pg"
  shows "\<exists>s'. vmm_init (page2kva pg) s = Inr ((), s') \<and> pgdir_ok s' pg \<and> mm_pgdir s' = page2kva pg \<and>
    sets_entries pg 0 KFRAMES (mem s) (mem s') \<and>
    self_entry s' pg = page2pa pg OR PTE_P OR PTE_W \<and> tables_left r X s' pg"
proof -
  have a: "page2kva pg + 4 * PDX VPT = entry_addr pg VPT_IDX" by (simp add: pde_addr VPT_IDX_def)
  have p: "P_ADDR (page2kva pg) = page2pa pg" by (simp add: page2kva_def P_ADDR_def)
  let ?s1 = "upd_mem (store32 (entry_addr pg VPT_IDX) (page2pa pg OR PTE_P OR PTE_W)) s"
  have m1: "mem ?s1 = store32 (entry_addr pg VPT_IDX) (page2pa pg OR PTE_P OR PTE_W) (mem s)"
    by (simp add: mem_simps)
  note st = store_self_entry [OF ok m1 ff_ok_avail_mach(1,2)]
  have n: "npage ?s1 = npage s" by (simp add: mem_simps)
  have "tables_left r X ?s1 pg" using tl st(3) [OF n] st(5) [OF n] by (simp add: tables_left_def)
  then obtain s2 where s2: "pgdir_init_loop (page2kva pg) (kaddr 0) (page2pa 0) PTE_W KFRAMES ?s1 = Inr ((), s2)"
    "pgdir_ok s2 pg" "sets_entries pg 0 KFRAMES (mem ?s1) (mem s2)" "self_entry s2 pg = self_entry ?s1 pg"
    "tables_left r X s2 pg"
    using pgdir_init_loop_result [OF st(1) [OF n], where k = 0 and n = KFRAMES] by auto
  let ?s' = "(mm_init s2)\<lparr>mm_pgdir := page2kva pg\<rparr>"
  have "vmm_init (page2kva pg) s = Inr ((), ?s')"
    by (simp add: vmm_init_def pgdir_init_def pgdir_init_args a p s2(1))
  moreover have m': "mem ?s' = mem s2" by (simp add: mm_init_def mem_simps)
  moreover have "tables_left r X ?s' pg"
    using s2(5) mm_init_ok(2) [OF s2(2)] m' by (simp add: tables_left_def missing_def)
  ultimately show ?thesis
    using mm_init_ok(1) [OF s2(2)] sets_entries_same [OF st(2) [OF n] s2(3)] s2(4) st(4) [OF n]
    by (simp add: self_entry_def)
qed

section \<open>Properties\<close>

text \<open>
  C36. With a sound boot directory and 224 free frames, enough for the tables of the whole
  range, \<^verbatim>\<open>vmm_init\<close> returns and the kernel's direct map is there: the \<open>k\<close>-th page above
  \<^verbatim>\<open>KERNEL_BASE\<close> is mapped, present and writable, to the \<open>k\<close>-th frame, for all 0x38000
  frames; every slot outside the direct map keeps its entries, the directory's entry for
  \<^verbatim>\<open>VPT\<close> points to the directory, and \<^verbatim>\<open>init_mm\<close> uses it.
\<close>

theorem vmm_init_maps_kernel:
  assumes "pgdir_ok s pg" and "224 \<le> card (ff_avail s)"
  shows "\<exists>s'. vmm_init (page2kva pg) s = Inr ((), s') \<and> pgdir_ok s' pg \<and> mm_pgdir s' = page2kva pg \<and>
    (\<forall>k < KFRAMES. translate (mem s') pg (kaddr k) = page2pa k OR PTE_P OR PTE_W) \<and>
    (\<forall>d \<in> user_slots - kslots. \<forall>t < 1024. vm_entry (mem s') pg d t = vm_entry (mem s) pg d t) \<and>
    entry (mem s') pg VPT_IDX = page2pa pg OR PTE_P OR PTE_W"
proof -
  have "missing s pg \<subseteq> kslots" by (auto simp: missing_def)
  then have "card (missing s pg) \<le> card kslots" by (intro card_mono) (simp_all add: kslots_def)
  then have "tables_left 0 {} s pg" using assms(2) by (simp add: tables_left_def kslots_def clear_of_def)
  then obtain s' where s': "vmm_init (page2kva pg) s = Inr ((), s')" "pgdir_ok s' pg"
    "mm_pgdir s' = page2kva pg" "sets_entries pg 0 KFRAMES (mem s) (mem s')"
    "self_entry s' pg = page2pa pg OR PTE_P OR PTE_W"
    using vmm_init_result [OF assms(1)] by metis
  have "translate (mem s') pg (kaddr k) = page2pa k OR PTE_P OR PTE_W" if k: "k < KFRAMES" for k
  proof -
    have "768 + k div 1024 \<in> user_slots" using kaddr_kslot [OF k] kslots_user kaddr_slots [OF k] by auto
    moreover have "(768 + k div 1024 - 768) * 1024 + k mod 1024 = k" by simp
    ultimately have "vm_entry (mem s') pg (768 + k div 1024) (k mod 1024) = direct_entry k"
      using s'(4) k unfolding sets_entries_def by simp
    then show ?thesis by (simp add: translate_def kaddr_slots [OF k] direct_entry_def)
  qed
  moreover have "vm_entry (mem s') pg d t = vm_entry (mem s) pg d t"
    if d: "d \<in> user_slots - kslots" and t: "t < 1024" for d t
  proof -
    have "\<not> ((d - 768) * 1024 + t < 0 + KFRAMES \<and> 768 \<le> d)"
      using d by (auto simp: kslots_def KFRAMES_def)
    then show ?thesis using s'(4) d t unfolding sets_entries_def by auto
  qed
  ultimately show ?thesis using s' by (auto simp: self_entry_def)
qed

definition demo_boot_pmm :: pmm where
  "demo_boot_pmm = ff_init_memmap 4 300 (ff_init (bss_pmm 512))"

lemma demo_boot_pmm_inv: "ff_inv demo_boot_pmm [(4, 300)]" and demo_boot_pmm_npage: "npage demo_boot_pmm = 512"
  using ff_init_memmap_inv [OF ff_init_inv, of 300 4 "bss_pmm 512"]
  by (simp_all add: demo_boot_pmm_def ff_init_def bss_pmm_def upd_links_def)

definition demo_boot_vmm :: vmm where
  "demo_boot_vmm = vmm_of (mach_of demo_boot_pmm (\<lambda>_. 0) (page2pa 1))"

lemma demo_boot_avail: "ff_avail demo_boot_vmm = {4..<304}"
proof -
  have "set (frames [(4, 300)]) = {4..<4 + 300}"
    by (simp only: frames_def list.map concat.simps block_frames.simps append_Nil2 set_upt)
  then show ?thesis
    using ff_avail_frames [OF demo_boot_pmm_inv] by (simp add: demo_boot_vmm_def vmm_of_ff mach_of_ff)
qed

lemma demo_boot_vmm_ok: "pgdir_ok demo_boot_vmm 1"
  using demo_boot_avail ff_ok_intro [OF demo_boot_pmm_inv]
  by (simp add: pgdir_ok_def pde_present_def demo_boot_vmm_def demo_boot_pmm_npage KFRAMES_def vmm_of_ff mach_of_ff)

theorem vmm_init_maps_kernel_witness:
  "\<exists>s'. vmm_init (page2kva 1) demo_boot_vmm = Inr ((), s') \<and>
    translate (mem s') 1 (kaddr 0xB8) = page2pa 0xB8 OR PTE_P OR PTE_W"
proof -
  have "0xB8 < KFRAMES" by (simp add: KFRAMES_def)
  then show ?thesis
    using vmm_init_maps_kernel [OF demo_boot_vmm_ok] by (auto simp: demo_boot_avail)
qed

end
