(* ===== verification/Screen_Laws.thy ===== *)
theory Screen_Laws
  imports Cons_Laws Vmm_Laws
begin

text \<open>
  Printing writes into the frames of the screen buffer and nowhere else, wherever the cursor is:
  the cursor has 16 bits, so a cell is one of 65536, in 32 frames.
\<close>

section \<open>The frames of the screen\<close>

definition screen_frames :: "nat set" where
  "screen_frames = {0xB8..<0xD8}"

text \<open>The memory outside some frames.\<close>

definition same_off :: "nat set \<Rightarrow> memory \<Rightarrow> memory \<Rightarrow> bool" where
  "same_off F m m' \<longleftrightarrow> (\<forall>a. kva2page a \<notin> F \<longrightarrow> m' a = m a)"

abbreviation same_off_screen :: "memory \<Rightarrow> memory \<Rightarrow> bool" where
  "same_off_screen \<equiv> same_off screen_frames"

lemma same_off_refl: "same_off F m m"
  by (simp add: same_off_def)

lemma same_off_trans: "same_off F m m' \<Longrightarrow> same_off F m' m'' \<Longrightarrow> same_off F m m''"
  by (simp add: same_off_def)

lemma same_off_mono: "same_off F m m' \<Longrightarrow> F \<subseteq> G \<Longrightarrow> same_off G m m'"
  by (auto simp: same_off_def)

lemma same_off_eq: "same_off F m m' \<Longrightarrow> same_off F m0 m' = same_off F m0 m"
  by (auto simp: same_off_def)

lemma crt_cell_frame:
  assumes "i < 2 ^ 16" "j < 2"
  shows "kva2page (crt_cell i + of_nat j) \<in> screen_frames"
proof -
  have "P_ADDR (crt_cell i + of_nat j) = of_nat (0xB8000 + 2 * i + j)"
    by (simp add: P_ADDR_def crt_cell_def crt_buf_def CGA_BUF_def)
  then have "unat (P_ADDR (crt_cell i + of_nat j)) = (0xB8000 + 2 * i + j) mod 2 ^ 32"
    by (simp only: unat_of_nat) simp
  also have "\<dots> = 0xB8000 + 2 * i + j" using assms by simp
  finally have "kva2page (crt_cell i + of_nat j) = (0xB8000 + 2 * i + j) div 4096"
    by (simp add: kva2page_def unat_pa2page)
  moreover have "0xB8 \<le> (0xB8000 + 2 * i + j) div 4096" by simp
  moreover have "(0xB8000 + 2 * i + j) div 4096 < 0xD8" using assms by (simp add: less_mult_imp_div_less)
  ultimately show ?thesis by (simp add: screen_frames_def)
qed

lemma store_cell_off_screen:
  assumes "i < 2 ^ 16" "same_off_screen m m'"
  shows "same_off_screen m (store16 (crt_cell i) w m')"
proof -
  have "kva2page (crt_cell i) \<in> screen_frames" "kva2page (crt_cell i + 1) \<in> screen_frames"
    using crt_cell_frame [OF assms(1), of 0] crt_cell_frame [OF assms(1), of 1] by simp_all
  then show ?thesis using assms(2) by (auto simp: same_off_def store16_def)
qed

lemma scroll_off_screen:
  "i + n \<le> 2 ^ 16 \<Longrightarrow> same_off_screen m m' \<Longrightarrow> same_off_screen m (scroll_loop i n m')"
  by (induction n arbitrary: i m') (simp_all add: store_cell_off_screen)

lemma erase_off_screen:
  "i + n \<le> 2 ^ 16 \<Longrightarrow> same_off_screen m m' \<Longrightarrow> same_off_screen m (erase_loop i n m')"
  by (induction n arbitrary: i m') (simp_all add: store_cell_off_screen)

section \<open>Printing\<close>

text \<open>What a call that prints leaves alone.\<close>

definition shows_text :: "('h, 'a) cons_scheme \<Rightarrow> ('h, 'a) cons_scheme \<Rightarrow> bool" where
  "shows_text s s' \<longleftrightarrow> printed s s' \<and> same_off_screen (mem s) (mem s')"

lemma shows_text_refl: "shows_text s s"
  by (simp add: shows_text_def printed_refl same_off_refl)

lemma shows_text_trans: "shows_text s s' \<Longrightarrow> shows_text s' s'' \<Longrightarrow> shows_text s s''"
  unfolding shows_text_def using printed_trans same_off_trans by blast

lemma cga_newline_off_screen: "same_off_screen (mem s) (mem (cga_newline s))"
  by (simp add: cga_newline_def cga_return_def cga_scrup_def Let_def upd_mem_def CRT_ROWS_def CRT_COLS_def
      erase_off_screen scroll_off_screen same_off_refl del: scroll_loop.simps erase_loop.simps)

lemma cga_putc_off_screen: "same_off_screen (mem s) (mem (cga_putc io c s))"
proof -
  have "unat x < 2 ^ 16" for x :: u16 using unsigned_less [of x] by simp
  note st = store_cell_off_screen [OF this same_off_refl]
  show ?thesis
    by (simp add: cga_putc_def Let_def cur_update_def upd_mem_def st same_off_refl cga_newline_off_screen
        cga_return_def)
qed

lemma cons_putc_shows: "shows_text s (cons_putc io c s)"
  using cons_putc_printed [of s io c] cga_putc_off_screen [of s io c]
  by (simp add: shows_text_def cons_putc_def Let_def)

lemma cons_out_shows: "shows_text s (cons_out io cs s)"
  unfolding cons_out_def
proof (induction cs arbitrary: s)
  case (Cons c cs)
  show ?case using shows_text_trans [OF cons_putc_shows [of s io c] Cons.IH] by simp
qed (simp add: shows_text_refl)

lemma cons_printf_shows:
  assumes "fits fm False False args"
  obtains s' where "cons_printf io fm args s = Inr ((), s')" "shows_text s s'"
  using cprintf_fits [OF assms] cons_out_shows [of s io] by (auto simp: cons_printf_def)

section \<open>Address spaces whose tables are elsewhere\<close>

lemma off_entry:
  assumes "same_off F m m'" "p \<notin> F" "p < 2 ^ 20" "i < 1024"
  shows "entry m' p i = entry m p i"
  unfolding entry_def
  by (rule load32_cong) (use assms in \<open>simp add: same_off_def entry_addr_frame\<close>)

lemma off_slots:
  assumes so: "same_off F m m'" and pg: "pg < 2 ^ 20" "pg \<notin> F" and d: "d < 1024"
  shows "pde_present m' pg d = pde_present m pg d" "table_of m' pg d = table_of m pg d"
  using off_entry [OF so pg(2,1) d] by (simp_all add: pde_present_def table_of_def)

lemma off_same_map:
  assumes so: "same_off F m m'" and pg: "pg < 2 ^ 20" and cl: "clear_of F m pg"
  shows "same_map pg m m'" "clear_of F m' pg"
proof -
  have "pg \<notin> F" using cl by (simp add: clear_of_def)
  note sl = off_slots [OF so pg this user_slots_less]
  show "clear_of F m' pg" using cl sl by (simp add: clear_of_def)
  show "same_map pg m m'"
    unfolding same_map_def
  proof (intro ballI allI impI)
    fix d t assume d: "d \<in> user_slots" and t: "t < (1024 :: nat)"
    show "vm_entry m' pg d t = vm_entry m pg d t"
      using sl [OF d] off_entry [OF so _ table_of_less t] cl d by (auto simp: vm_entry_def clear_of_def)
  qed
qed

text \<open>Its well-formedness does not depend on the rest of the memory.\<close>

lemma off_pgdir_ok:
  assumes so: "same_off F (mem s) (mem s')" and cl: "clear_of F (mem s) pg" and ok: "pgdir_ok s pg"
    and ff: "ff_ok s'" "ff_avail s' \<subseteq> ff_avail s" "unat (npage s') \<le> KFRAMES"
  shows "pgdir_ok s' pg"
proof -
  have "pg \<notin> F" using cl by (simp add: clear_of_def)
  note sl = off_slots [OF so pgdir_ok_pg [OF ok] this user_slots_less]
  show ?thesis
    unfolding pgdir_ok_def
    using ok ff by (auto simp: pgdir_ok_def sl)
qed

end
