(* ===== verification/Swap_Test_Laws.thy ===== *)
theory Swap_Test_Laws
  imports Swap_Test Screen_Laws
begin

text \<open>
  What the shell's \<^verbatim>\<open>swaptest\<close> does to the kernel it runs in: both tests pass, and the
  queue of swappable pages is lost: afterwards it holds the three descriptors the second test
  left on the stack.
\<close>

section \<open>Printing\<close>

text \<open>
  The links the tests may change, and what they leave alone of the state \<open>s0\<close> they started in.
\<close>

definition test_nodes :: "lnode set" where
  "test_nodes = insert PraHead (PageLink ` range test_page)"

definition test_frame :: "('h, 'a) tests_scheme \<Rightarrow> ('h, 'a) tests_scheme \<Rightarrow> bool" where
  "test_frame s0 s \<longleftrightarrow>
     (\<forall>x. x \<notin> test_nodes \<longrightarrow>
        nxt (links s) x = nxt (links s0) x \<and> prv (links s) x = prv (links s0) x) \<and>
     pages s = pages s0 \<and> npage s = npage s0 \<and> nr_free s = nr_free s0 \<and>
     same_off_screen (mem s0) (mem s) \<and> mm_pgdir s = mm_pgdir s0 \<and> if_flag s = if_flag s0 \<and> ticks s = ticks s0 \<and>
     tests.more s = tests.more s0"

text \<open>The counters, and the list the tests find the \<^verbatim>\<open>mm_struct\<close> through; then also the queue.\<close>

definition tests_at :: "('h, 'a) tests_scheme \<Rightarrow> int \<Rightarrow> int \<Rightarrow> ('h, 'a) tests_scheme \<Rightarrow> bool" where
  "tests_at s0 a b s \<longleftrightarrow> prv (links s) MmapHead = MmapHead \<and>
     tests_passed s = a \<and> tests_failed s = b \<and> test_frame s0 s"

definition tq :: "('h, 'a) tests_scheme \<Rightarrow> nat list \<Rightarrow> int \<Rightarrow> int \<Rightarrow> ('h, 'a) tests_scheme \<Rightarrow> bool" where
  "tq s0 ps a b s \<longleftrightarrow> tests_at s0 a b s \<and> pra_queue s ps \<and> set ps \<subseteq> range test_page"

lemma shows_tests:
  assumes "shows_text s (s' :: ('h, 'a) tests_scheme)"
  shows "links s' = links s" "mm_swap_list s' = mm_swap_list s"
    "tests_passed s' = tests_passed s" "tests_failed s' = tests_failed s"
    "test_frame s0 s' = test_frame s0 s"
proof -
  have so: "same_off_screen (mem s) (mem s')" using assms by (simp add: shows_text_def)
  obtain m h p where "s' = s\<lparr>mem := m, hw := h, crt_pos := p\<rparr>"
    using assms unfolding shows_text_def printed_def by blast
  then show "links s' = links s" "mm_swap_list s' = mm_swap_list s"
    "tests_passed s' = tests_passed s" "tests_failed s' = tests_failed s"
    "test_frame s0 s' = test_frame s0 s"
    using same_off_eq [OF so] by (simp_all add: test_frame_def)
qed

lemma shows_tests_at: "shows_text s s' \<Longrightarrow> tests_at s0 a b s' = tests_at s0 a b s"
  using shows_tests [of s s'] by (simp add: tests_at_def)

lemma shows_tq: "shows_text s s' \<Longrightarrow> tq s0 ps a b s' = tq s0 ps a b s"
  using shows_tests [of s s'] by (simp add: tq_def shows_tests_at pra_queue_def)

lemma cons_printf_tq:
  assumes "fits fm False False args" and "tq s0 ps a b s"
  shows "\<exists>s'. cons_printf io fm args s = Inr ((), s') \<and> shows_text s s' \<and> tq s0 ps a b s'"
proof -
  obtain s' where "cons_printf io fm args s = Inr ((), s')" "shows_text s s'"
    using cons_printf_shows [OF assms(1), of io s] by metis
  then show ?thesis using shows_tq [of s s'] assms(2) by metis
qed

lemma printfs_shows:
  "list_all (\<lambda>(fm, args). fits fm False False args) ps \<Longrightarrow>
   \<exists>s'. printfs io ps s = Inr ((), s') \<and> shows_text s s'"
proof (induction ps arbitrary: s)
  case (Cons p ps)
  obtain fm args where p: "p = (fm, args)" by (cases p)
  then have "fits fm False False args" using Cons.prems by simp
  from cons_printf_shows [OF this, of io s] obtain s1 where
    s1: "cons_printf io fm args s = Inr ((), s1)" "shows_text s s1" by metis
  have "list_all (\<lambda>(fm, args). fits fm False False args) ps" using Cons.prems by simp
  from Cons.IH [OF this, of s1] obtain s2 where "printfs io ps s1 = Inr ((), s2)" "shows_text s1 s2" by metis
  then show ?case using s1 shows_text_trans [OF s1(2)] by (simp add: p)
qed (simp add: shows_text_refl)

lemmas fits_defs = line_def newline_def int_arg_def rule_def is_conversion_def

lemma test_start_shows: "\<exists>s'. test_start io name s = Inr (True, s') \<and> shows_text s s'"
proof -
  have "fits (newline @ line ''[TEST] %s'') False False [Str name]" by (simp add: fits_defs)
  from cons_printf_shows [OF this, of io s] obtain s' where
    "cons_printf io (newline @ line ''[TEST] %s'') [Str name] s = Inr ((), s')" "shows_text s s'" by metis
  then show ?thesis by (simp add: test_start_def)
qed

lemma test_assert_shows:
  assumes cond
  shows "\<exists>s'. test_assert io cond msg r s = Inr (r, s') \<and> shows_text s s'"
proof -
  have "fits (line ''  [OK] %s'') False False [Str msg]" by (simp add: fits_defs)
  from cons_printf_shows [OF this, of io s] obtain s' where
    "cons_printf io (line ''  [OK] %s'') [Str msg] s = Inr ((), s')" "shows_text s s'" by metis
  then show ?thesis using assms by (simp add: test_assert_def)
qed

lemma test_end_tq:
  assumes "tq s0 ps a b s"
  shows "\<exists>s'. test_end io True s = Inr ((), s') \<and> tq s0 ps (a + 1) b s'"
proof -
  have "fits (line ''  [PASSED]'') False False []" by (simp add: fits_defs)
  from cons_printf_tq [OF this assms, of io] obtain s' where
    "cons_printf io (line ''  [PASSED]'') [] s = Inr ((), s')" "tq s0 ps a b s'" by metis
  then show ?thesis by (simp add: test_end_def tq_def tests_at_def test_frame_def pra_queue_def)
qed

section \<open>The queue\<close>

lemma init_tq:
  assumes "tests_at s0 a b s"
  shows "tq s0 [] a b (snd (swap_fifo_init_mm s))"
  using assms pra_queue_init [of s]
  by (simp add: swap_fifo_init_mm_def tq_def tests_at_def test_frame_def test_nodes_def upd_links_def list_init_def)

lemma queue_nodes:
  assumes "set ps \<subseteq> range test_page"
  shows "last (PraHead # map PageLink ps) \<in> test_nodes" "hd (map PageLink ps @ [PraHead]) \<in> test_nodes"
  using assms by (induction ps) (auto simp: test_nodes_def)

lemma push_tq:
  assumes "tq s0 ps a b s" "p \<notin> set ps" "p \<in> range test_page"
  shows "\<exists>s'. swap_fifo_map_swappable x p y s = Inr (0, s') \<and> tq s0 (ps @ [p]) a b s'"
proof -
  have q: "pra_queue s ps" and h: "mm_swap_list s = PraHead" and r: "set ps \<subseteq> range test_page"
    using assms(1) by (simp_all add: tq_def pra_queue_def)
  let ?s = "upd_links (list_add_before PraHead (PageLink p)) s"
  have "prv (links s) PraHead = last (PraHead # map PageLink ps)"
    using q clist_prv [of "links s" PraHead "map PageLink ps"] by (simp only: pra_queue_def)
  then have n: "prv (links s) PraHead \<in> test_nodes" "PageLink p \<in> test_nodes" "PraHead \<in> test_nodes"
    "MmapHead \<notin> test_nodes"
    using queue_nodes(1) [OF r] assms(3) by (auto simp: test_nodes_def)
  have fr: "nxt (links ?s) x = nxt (links s) x \<and> prv (links ?s) x = prv (links s) x" if "x \<notin> test_nodes" for x
    using that n by (auto simp: upd_links_def list_add_before_def link_simps)
  have "test_frame s0 ?s"
    using assms(1) fr by (simp add: tq_def tests_at_def test_frame_def page_simps) (simp add: upd_links_def)
  moreover have "tests_passed ?s = a" "tests_failed ?s = b" "prv (links ?s) MmapHead = MmapHead"
    using assms(1) fr [OF n(4)] by (simp_all add: tq_def tests_at_def) (simp_all add: upd_links_def)
  ultimately have "tq s0 (ps @ [p]) a b ?s"
    using pra_queue_push [OF q assms(2)] r assms(3) by (auto simp: tq_def tests_at_def)
  then show ?thesis by (simp add: swap_fifo_map_swappable_def h)
qed

lemma add_pages_tq:
  "tq s0 ps a b s \<Longrightarrow> distinct (ps @ map test_page [i..<i + n]) \<Longrightarrow>
   \<exists>s'. add_pages i n s = Inr ((), s') \<and> tq s0 (ps @ map test_page [i..<i + n]) a b s'"
proof (induction n arbitrary: i ps s)
  case (Suc n)
  have u: "[i..<i + Suc n] = i # [i + 1..<i + 1 + n]" by (simp add: upt_conv_Cons del: upt_Suc)
  have gen: "distinct (ps @ map test_page (i # L)) \<Longrightarrow>
      test_page i \<notin> set ps \<and> distinct ((ps @ [test_page i]) @ map test_page L)" for L by auto
  have p: "test_page i \<notin> set ps" "distinct ((ps @ [test_page i]) @ map test_page [i + 1..<i + 1 + n])"
    using Suc.prems(2) gen unfolding u by blast+
  obtain s1 where s1: "swap_fifo_map_swappable (0x1000 * of_nat i) (test_page i) False s = Inr (0, s1)"
    "tq s0 (ps @ [test_page i]) a b s1" using push_tq [OF Suc.prems(1) p(1)] by blast
  from Suc.IH [OF s1(2) p(2)] show ?case unfolding u by (simp add: s1(1) del: upt_Suc)
qed simp

lemma pop_tq:
  assumes "tq s0 (p # ps) a b s"
  shows "\<exists>s'. swap_fifo_swap_out_victim t s = Inr (0, Some p, s') \<and> tq s0 ps a b s'"
proof -
  have q: "pra_queue s (p # ps)" and r: "set ps \<subseteq> range test_page" using assms by (simp_all add: tq_def)
  have c: "clist (links s) PraHead ([] @ PageLink p # map PageLink ps)" using q by (simp add: pra_queue_def)
  have nb: "prv (links s) (PageLink p) \<in> test_nodes" "nxt (links s) (PageLink p) \<in> test_nodes"
    "MmapHead \<notin> test_nodes"
    using clist_prv_mid [OF c] clist_nxt_mid [OF c] queue_nodes(2) [OF r] by (auto simp: test_nodes_def)
  let ?s = "upd_links (list_del (PageLink p)) s"
  have fr: "nxt (links ?s) x = nxt (links s) x \<and> prv (links ?s) x = prv (links s) x" if "x \<notin> test_nodes" for x
    using that nb by (auto simp: upd_links_def list_del_def link_simps)
  have "test_frame s0 ?s"
    using assms fr by (simp add: tq_def tests_at_def test_frame_def page_simps) (simp add: upd_links_def)
  moreover have "tests_passed ?s = a" "tests_failed ?s = b" "prv (links ?s) MmapHead = MmapHead"
    using assms fr [OF nb(3)] by (simp_all add: tq_def tests_at_def) (simp_all add: upd_links_def)
  ultimately have "tq s0 ps a b ?s"
    using pra_queue_pop [OF q] r by (simp add: tq_def tests_at_def)
  moreover have "nxt (links s) PraHead = PageLink p" "mm_swap_list s = PraHead"
    using pra_queue_next [OF q] q by (simp_all add: list_next_def pra_queue_def)
  ultimately show ?thesis by (simp add: swap_fifo_swap_out_victim_def list_next_def)
qed

lemma pop_empty_tq:
  "tq s0 [] a b s \<Longrightarrow> swap_fifo_swap_out_victim t s = Inr (-1, None, s)"
  using pra_queue_next [of s "[]"] by (simp add: swap_fifo_swap_out_victim_def tq_def pra_queue_def)

lemma check_victims_tq:
  "tq s0 (map test_page [i..<i + n]) a b s \<Longrightarrow>
   \<exists>s'. check_victims io i n True s = Inr (True, s') \<and> tq s0 [] a b s'"
proof (induction n arbitrary: i s)
  case (Suc n)
  have u: "[i..<i + Suc n] = i # [i + 1..<i + 1 + n]" by (simp add: upt_conv_Cons del: upt_Suc)
  obtain s1 where s1: "swap_fifo_swap_out_victim False s = Inr (0, Some (test_page i), s1)"
    "tq s0 (map test_page [i + 1..<i + 1 + n]) a b s1"
    using Suc.prems pop_tq [of s0 "test_page i" "map test_page [i + 1..<i + 1 + n]" a b s False]
    unfolding u by auto
  have "fits (line ''  [OK] Victim %d is page %d'') False False [int_arg (int i), int_arg (int i)]"
    by (simp add: fits_defs)
  from cons_printf_tq [OF this s1(2), of io] obtain s2 where
    s2: "cons_printf io (line ''  [OK] Victim %d is page %d'') [int_arg (int i), int_arg (int i)] s1 = Inr ((), s2)"
    "tq s0 (map test_page [i + 1..<i + 1 + n]) a b s2" by metis
  from Suc.IH [OF s2(2)] show ?case by (simp add: s1(1) s2(1))
qed simp

section \<open>The tests\<close>

lemma test_mm_at: "tests_at s0 a b s \<Longrightarrow> test_mm s = Inr ()"
  by (simp add: tests_at_def test_mm_def)

lemma test_pages_distinct: "distinct (map test_page xs) = distinct xs"
  by (simp add: distinct_map inj_on_def test_page_def)

lemma test_fifo_basic_result:
  assumes "tests_at s0 a b s"
  shows "\<exists>s'. test_fifo_basic io s = Inr ((), s') \<and> tq s0 [] (a + 1) b s'"
proof -
  obtain s1 where s1: "test_start io ''FIFO Basic Operation'' s = Inr (True, s1)" "shows_text s s1"
    using test_start_shows by metis
  have q1: "tests_at s0 a b s1" using shows_tests_at [OF s1(2)] assms by simp
  obtain s2 where s2: "swap_fifo_init_mm s1 = (0, s2)" "tq s0 [] a b s2"
    using init_tq [OF q1] by (simp add: swap_fifo_init_mm_def Let_def)
  have d: "distinct ([] @ map test_page [0..<0 + 5])" by (simp only: append_Nil test_pages_distinct) simp
  obtain s3 where s3: "add_pages 0 5 s2 = Inr ((), s3)" "tq s0 (map test_page [0..<0 + 5]) a b s3"
    using add_pages_tq [OF s2(2) d] by (metis append_Nil)
  obtain s4 where s4: "check_victims io 0 5 True s3 = Inr (True, s4)" "tq s0 [] a b s4"
    using check_victims_tq [OF s3(2)] by metis
  obtain s5 where s5: "test_assert io True ''Empty list returns error'' True s4 = Inr (True, s5)" "shows_text s4 s5"
    using test_assert_shows by metis
  have "tq s0 [] a b s5" using shows_tq [OF s5(2)] s4(2) by simp
  then obtain s6 where s6: "test_end io True s5 = Inr ((), s6)" "tq s0 [] (a + 1) b s6"
    using test_end_tq by metis
  have "test_fifo_basic io s = Inr ((), s6)"
    by (simp add: test_fifo_basic_def s1(1) test_mm_at [OF q1] s2(1) s3(1) s4(1) pop_empty_tq [OF s4(2)] s5(1) s6(1))
  then show ?thesis using s6(2) by metis
qed

lemma test_fifo_interleaved_result:
  assumes "tests_at s0 a b s"
  shows "\<exists>s'. test_fifo_interleaved io s = Inr ((), s') \<and>
    tq s0 (map test_page [2, 3, 4]) (a + 1) b s'"
proof -
  obtain s1 where s1: "test_start io ''FIFO Interleaved Add/Remove'' s = Inr (True, s1)" "shows_text s s1"
    using test_start_shows by metis
  have q1: "tests_at s0 a b s1" using shows_tests_at [OF s1(2)] assms by simp
  obtain s2 where s2: "swap_fifo_init_mm s1 = (0, s2)" "tq s0 [] a b s2"
    using init_tq [OF q1] by (simp add: swap_fifo_init_mm_def Let_def)
  have u: "[0..<0 + 3] = [0, 1, 2 :: nat]" "[3..<3 + 2] = [3, 4 :: nat]" by (simp_all add: upt_rec)
  have "distinct ([] @ map test_page [0..<0 + 3])" by (simp only: append_Nil test_pages_distinct) simp
  from add_pages_tq [OF s2(2) this] obtain s3 where
    s3: "add_pages 0 3 s2 = Inr ((), s3)" "tq s0 [test_page 0, test_page 1, test_page 2] a b s3"
    unfolding u by auto
  obtain s4 where s4: "swap_fifo_swap_out_victim False s3 = Inr (0, Some (test_page 0), s4)"
    "tq s0 [test_page 1, test_page 2] a b s4" using pop_tq [OF s3(2)] by metis
  obtain s5 where s5: "test_assert io True ''First victim is page 0'' True s4 = Inr (True, s5)" "shows_text s4 s5"
    using test_assert_shows by metis
  have q5: "tq s0 [test_page 1, test_page 2] a b s5" using shows_tq [OF s5(2)] s4(2) by simp
  have "distinct ([test_page 1, test_page 2] @ map test_page [3..<3 + 2])"
    unfolding u by (simp add: test_page_def)
  from add_pages_tq [OF q5 this] obtain s6 where
    s6: "add_pages 3 2 s5 = Inr ((), s6)" "tq s0 [test_page 1, test_page 2, test_page 3, test_page 4] a b s6"
    unfolding u by auto
  obtain s7 where s7: "swap_fifo_swap_out_victim False s6 = Inr (0, Some (test_page 1), s7)"
    "tq s0 [test_page 2, test_page 3, test_page 4] a b s7" using pop_tq [OF s6(2)] by metis
  obtain s8 where s8: "test_assert io True ''Second victim is page 1'' True s7 = Inr (True, s8)" "shows_text s7 s8"
    using test_assert_shows by metis
  have "tq s0 [test_page 2, test_page 3, test_page 4] a b s8" using shows_tq [OF s8(2)] s7(2) by simp
  then obtain s9 where s9: "test_end io True s8 = Inr ((), s9)"
    "tq s0 [test_page 2, test_page 3, test_page 4] (a + 1) b s9" using test_end_tq by metis
  have "test_fifo_interleaved io s = Inr ((), s9)"
    by (simp add: test_fifo_interleaved_def s1(1) test_mm_at [OF q1] s2(1) s3(1) s4(1) s5(1) s6(1) s7(1) s8(1) s9(1)
        del: One_nat_def)
  then show ?thesis using s9(2) by auto
qed

lemma test_summary_result:
  assumes "tq s0 ps 2 0 s"
  shows "\<exists>s'. test_summary io s = Inr ((), s') \<and> tq s0 ps 2 0 s'"
proof -
  let ?p = "[(newline, []), (rule, []), (line ''   TEST SUMMARY                        '', []), (rule, []),
    (line ''   Passed: %d'', [int_arg (tests_passed s)]), (line ''   Failed: %d'', [int_arg (tests_failed s)]),
    (line ''   Total:  %d'', [int_arg (tests_passed s + tests_failed s)])]"
  have "list_all (\<lambda>(fm, args). fits fm False False args) ?p" by (simp add: fits_defs)
  from printfs_shows [OF this, of io s] obtain s1 where s1: "printfs io ?p s = Inr ((), s1)" "shows_text s s1"
    by metis
  have q1: "tq s0 ps 2 0 s1" using shows_tq [OF s1(2)] assms by simp
  then have f1: "tests_failed s1 = 0" by (simp add: tq_def tests_at_def)
  have "fits (newline @ line ''   [OK] ALL TESTS PASSED!'') False False []" by (simp add: fits_defs)
  from cons_printf_tq [OF this q1, of io] obtain s2 where
    s2: "cons_printf io (newline @ line ''   [OK] ALL TESTS PASSED!'') [] s1 = Inr ((), s2)" "tq s0 ps 2 0 s2"
    by metis
  have "fits (rule @ newline) False False []" by (simp add: fits_defs)
  from cons_printf_tq [OF this s2(2), of io] obtain s3 where
    s3: "cons_printf io (rule @ newline) [] s2 = Inr ((), s3)" "tq s0 ps 2 0 s3" by metis
  have "test_summary io s = Inr ((), s3)"
    unfolding test_summary_def
    by (simp only: s1(1) bindE_Inr case_prod_conv f1 s2(1) s3(1) simp_thms if_True)
  then show ?thesis using s3(2) by metis
qed

text \<open>
  The whole run. It needs nothing but \<^verbatim>\<open>mm_init\<close> to have run; whatever was swappable before
  is forgotten.
\<close>

lemma run_swap_tests_result:
  assumes "tests_at s0 a b s"
  shows "\<exists>s'. run_swap_tests io s = Inr ((), s') \<and> tq s0 (map test_page [2, 3, 4]) 2 0 s'"
proof -
  let ?p1 = "[(newline, []), (rule, []), (line ''   ZONIX SWAP SYSTEM TEST SUITE       '', []), (rule, [])]"
  have "list_all (\<lambda>(fm, args). fits fm False False args) ?p1" by (simp add: fits_defs)
  from printfs_shows [OF this, of io s] obtain s1 where s1: "printfs io ?p1 s = Inr ((), s1)" "shows_text s s1"
    by metis
  let ?s2 = "s1\<lparr>tests_passed := 0, tests_failed := 0\<rparr>"
  have "tests_at s0 a b s1" using shows_tests_at [OF s1(2)] assms by simp
  then have q2: "tests_at s0 0 0 ?s2" by (simp add: tests_at_def test_frame_def)
  have "fits (newline @ line ''--- FIFO Algorithm Tests ---'') False False []" by (simp add: fits_defs)
  from cons_printf_shows [OF this, of io ?s2] obtain s3 where
    s3: "cons_printf io (newline @ line ''--- FIFO Algorithm Tests ---'') [] ?s2 = Inr ((), s3)" "shows_text ?s2 s3"
    by metis
  have q3: "tests_at s0 0 0 s3" using shows_tests_at [OF s3(2)] q2 by simp
  obtain s4 where s4: "test_fifo_basic io s3 = Inr ((), s4)" "tq s0 [] (0 + 1) 0 s4"
    using test_fifo_basic_result [OF q3] by metis
  then have q4: "tests_at s0 (0 + 1) 0 s4" by (simp add: tq_def)
  obtain s5 where s5: "test_fifo_interleaved io s4 = Inr ((), s5)" "tq s0 (map test_page [2, 3, 4]) (0 + 1 + 1) 0 s5"
    using test_fifo_interleaved_result [OF q4] by metis
  have "tq s0 (map test_page [2, 3, 4]) 2 0 s5" using s5(2) by simp
  then obtain s6 where s6: "test_summary io s5 = Inr ((), s6)" "tq s0 (map test_page [2, 3, 4]) 2 0 s6"
    using test_summary_result by metis
  have "run_swap_tests io s = Inr ((), s6)"
    unfolding run_swap_tests_def
    by (simp only: s1(1) bindE_Inr case_prod_conv Let_def s3(1) s4(1) s5(1) s6(1))
  then show ?thesis using s6(2) by metis
qed

end
