(* ===== verification/Listings.thy ===== *)
theory Listings
  imports Vmm Sched
begin

text \<open>
  The listings the shell's commands print: the block devices (\<^verbatim>\<open>kern/drivers/blk.c\<close>), the
  page directory (\<^verbatim>\<open>kern/mm/vmm.c\<close>), the processes (\<^verbatim>\<open>kern/sched/sched.c\<close>), and the
  disk test (\<^verbatim>\<open>kern/drivers/hd.c\<close>). Pointers printed as numbers are addresses.
\<close>

section \<open>Listings\<close>

definition nat_arg :: "nat \<Rightarrow> vararg" where
  "nat_arg n = Word (of_nat n)"

subsection \<open>\<^verbatim>\<open>blk_list_devices\<close>\<close>

fun blk_list_loop ::
  "'h port_io \<Rightarrow> nat \<Rightarrow> nat \<Rightarrow> ('h, 'a) cons_scheme \<Rightarrow> (unit \<times> ('h, 'a) cons_scheme) res" where
  "blk_list_loop io i 0 s = Inr ((), s)"
| "blk_list_loop io i (Suc n) s =
     bindE (case block_devices s i of
         None \<Rightarrow> Inr ((), s)
       | Some d \<Rightarrow>
           let dev = disk_devs s d;
               mount_str = (if bd_type dev = BLK_TYPE_SWAP then ''[SWAP]'' else '''');
               (mb, decimal) = size_mb (bd_size dev)
           in cons_printf io (line ''%-6s %3d:%-3d %-2d %2d.%dM %-2d %-4s %s'')
                [Str (bd_name dev), nat_arg 8, nat_arg (i * 16), nat_arg 0, Word mb, Word decimal, nat_arg 0, Str ''disk'', Str mount_str] s)
       (\<lambda>(_, s). blk_list_loop io (i + 1) n s)"

definition blk_list_devices ::
  "'h port_io \<Rightarrow> ('h, 'a) cons_scheme \<Rightarrow> (unit \<times> ('h, 'a) cons_scheme) res" where
  "blk_list_devices io s =
     bindE (cons_printf io (line ''NAME   MAJ:MIN RM  SIZE RO TYPE MOUNTPOINTS'') [] s)
       (\<lambda>(_, s). blk_list_loop io 0 (num_devices s) s)"

subsection \<open>\<^verbatim>\<open>print_pgdir\<close>\<close>

text \<open>The directory shown is the one in \<^verbatim>\<open>cr3\<close>.\<close>

definition pd_row :: "nat \<Rightarrow> nat \<Rightarrow> u32 \<Rightarrow> vararg list" where
  "pd_row left right perm =
     [nat_arg (right - left), nat_arg (left * 0x400000), nat_arg (right * 0x400000), nat_arg ((right - left) * 0x400000), Str (perm2str perm)]"

definition pt_row :: "nat \<Rightarrow> nat \<Rightarrow> u32 \<Rightarrow> vararg list" where
  "pt_row l r perm =
     [nat_arg (r - l), nat_arg (l * 4096), nat_arg (r * 4096), nat_arg ((r - l) * 4096), Str (perm2str perm)]"

function print_ptes ::
  "'h port_io \<Rightarrow> nat \<Rightarrow> nat \<Rightarrow> ('h, 'a) cons_scheme \<Rightarrow> (unit \<times> ('h, 'a) cons_scheme) res" where
  "print_ptes io r limit s =
     (case get_pgtable_items r limit (vpt (mem s) (K_ADDR (cr3 s))) of
        (perm, Some (l, r)) \<Rightarrow>
          if perm = 0 then Inr ((), s)
          else bindE (cons_printf io (line ''  |-- PTE(%05x) %08x-%08x %08x %s'') (pt_row l r perm) s)
            (\<lambda>(_, s). print_ptes io r limit s)
      | (perm, None) \<Rightarrow> Inr ((), s))"
  by pat_completeness auto

termination
  by (relation "measure (\<lambda>(_, r, limit, _). limit - r)") (auto dest!: get_pgtable_items_step [OF sym])

declare print_ptes.simps [simp del]

function print_pdes ::
  "'h port_io \<Rightarrow> nat \<Rightarrow> ('h, 'a) cons_scheme \<Rightarrow> (unit \<times> ('h, 'a) cons_scheme) res" where
  "print_pdes io right s =
     (case get_pgtable_items right 1024 (vpd (mem s) (K_ADDR (cr3 s))) of
        (perm, Some (left, right)) \<Rightarrow>
          if perm = 0 then Inr ((), s)
          else bindE (cons_printf io (line ''PDE(%03x) %08x-%08x %08x %s'') (pd_row left right perm) s)
            (\<lambda>(_, s). bindE (print_ptes io (left * 1024) (right * 1024) s)
              (\<lambda>(_, s). print_pdes io right s))
      | (perm, None) \<Rightarrow> Inr ((), s))"
  by pat_completeness auto

termination
  by (relation "measure (\<lambda>(_, r, _). 1024 - r)") (auto dest!: get_pgtable_items_step [OF sym])

declare print_pdes.simps [simp del]

definition print_pgdir ::
  "'h port_io \<Rightarrow> ('h, 'a) cons_scheme \<Rightarrow> (unit \<times> ('h, 'a) cons_scheme) res" where
  "print_pgdir io s =
     bindE (cons_printf io (line ''-------------------- BEGIN --------------------'') [] s) (\<lambda>(_, s).
     bindE (print_pdes io 0 s) (\<lambda>(_, s).
     cons_printf io (line ''--------------------- END ---------------------'') [] s))"

subsection \<open>\<^verbatim>\<open>print_all_procs\<close>\<close>

text \<open>Addresses of objects that are printed or written to.\<close>

record kernel_symbols =
  ks_sched :: symbols
  ks_kernel_start :: u32
  ks_kernel_end :: u32
  ks_boot_pgdir :: u32
  ks_init_mm :: u32
  ks_write_buf :: u32
  ks_read_buf :: u32
  ks_vectors :: "nat \<Rightarrow> u32"

fun mm_addr :: "kernel_symbols \<Rightarrow> mm_ptr \<Rightarrow> u32" where
  "mm_addr ks MmNull = 0"
| "mm_addr ks InitMm = ks_init_mm ks"

definition proc_row :: "kernel_symbols \<Rightarrow> u32 \<Rightarrow> ('h, 'a) sched_scheme \<Rightarrow> vararg list" where
  "proc_row ks proc s =
     (let t = tasks s proc
      in [Word (of_char (if proc = current s then CHR ''*'' else CHR '' '')), Word (t_pid t),
          Str (state_str (t_state t)),
          Word (if t_parent t \<noteq> 0 then t_pid (tasks s (t_parent t)) else -1),
          Word (t_kstack t), Word (mm_addr ks (t_mm t)), Str (t_name t)])"

partial_function (option) print_procs_loop ::
  "'h port_io \<Rightarrow> kernel_symbols \<Rightarrow> lnode \<Rightarrow> ('h, 'a) sched_scheme \<Rightarrow> (unit \<times> ('h, 'a) sched_scheme) res option" where
  "print_procs_loop io ks le s =
     (let le = list_prev (links s) le in
      if le = ProcHead then Some (Inr ((), s))
      else
        case cons_printf io (line ''%c%-3d %-4s  %-4d  %08x  %08x  %s'') (proc_row ks (le2proc_list le) s) s of
          Inl e \<Rightarrow> Some (Inl e)
        | Inr (_, s) \<Rightarrow> print_procs_loop io ks le s)"

definition print_all_procs ::
  "'h port_io \<Rightarrow> kernel_symbols \<Rightarrow> ('h, 'a) sched_scheme \<Rightarrow> (unit \<times> ('h, 'a) sched_scheme) res" where
  "print_all_procs io ks s =
     bindE (printfs io
        [(line ''PID  STAT  PPID  KSTACK    MM        NAME'', []),
         (line ''---  ----  ----  --------  --------  ----------------'', [])] s) (\<lambda>(_, s).
     bindE (bindE (returns (print_procs_loop io ks ProcHead s)) (\<lambda>r. r)) (\<lambda>(_, s).
     bindE (cons_printf io (newline @ line ''Total processes: %d'') [Word (nr_process s)] s) (\<lambda>(_, s).
     if current s = 0 then Inl Null_Deref
     else cons_printf io (line ''Current process: %s (PID %d)'')
            [Str (t_name (tasks s (current s))), Word (t_pid (tasks s (current s)))] s)))"

subsection \<open>\<^verbatim>\<open>hd_test\<close>\<close>

fun fill_pattern :: "u32 \<Rightarrow> nat \<Rightarrow> nat \<Rightarrow> nat \<Rightarrow> memory \<Rightarrow> memory" where
  "fill_pattern buf dev_id i 0 m = m"
| "fill_pattern buf dev_id i (Suc n) m =
     fill_pattern buf dev_id (i + 1) n (m(buf + of_nat i := of_nat (i + dev_id * 17)))"

fun verify_loop ::
  "'h port_io \<Rightarrow> u32 \<Rightarrow> u32 \<Rightarrow> nat \<Rightarrow> nat \<Rightarrow> nat \<Rightarrow> ('h, 'a) cons_scheme \<Rightarrow> (nat \<times> ('h, 'a) cons_scheme) res" where
  "verify_loop io rbuf wbuf errors i 0 s = Inr (errors, s)"
| "verify_loop io rbuf wbuf errors i (Suc n) s =
     (let r = mem s (rbuf + of_nat i); e = mem s (wbuf + of_nat i)
      in if r \<noteq> e then
           bindE (if errors < 5
                  then cons_printf io (line ''    Mismatch at offset %d: expected 0x%02x, got 0x%02x'')
                         [nat_arg i, Word (ucast e), Word (ucast r)] s
                  else Inr ((), s))
             (\<lambda>(_, s). verify_loop io rbuf wbuf (errors + 1) (i + 1) n s)
         else verify_loop io rbuf wbuf errors (i + 1) n s)"

text \<open>One round of the loop over the devices; a \<^verbatim>\<open>continue\<close> ends it.\<close>

definition hd_test_device ::
  "'h port_io \<Rightarrow> kernel_symbols \<Rightarrow> nat \<Rightarrow> ('h, 'a) cons_scheme \<Rightarrow> (unit \<times> ('h, 'a) cons_scheme) res" where
  "hd_test_device io ks dev_id s =
     (let dev = ide_devices s dev_id; sz = di_size (ide_info dev); test_sector = 100 in
      if \<not> ide_present dev then Inr ((), s)
      else
        bindE (printfs io
          [(line ''--- Testing %s (dev_id=%d) ---'', [Str (ide_name dev), nat_arg dev_id]),
           (line ''  Size: %d sectors (%d MB)'', [Word sz, Word (sz div 2048)])] s) (\<lambda>(_, s).
        let s = upd_mem (fill_pattern (ks_write_buf ks) dev_id 0 (unat SECTOR_SIZE)) s in
        bindE (cons_printf io (line ''  Test 1: Write sector %d...'') [Word test_sector] s) (\<lambda>(_, s).
        let (r, s) = hd_write_device io dev_id test_sector (ks_write_buf ks) 1 s in
        if r \<noteq> 0 then cons_printf io (line ''    FAILED: write error'') [] s
        else
          bindE (printfs io [(line ''    OK'', []), (line ''  Test 2: Read sector %d...'', [Word test_sector])] s) (\<lambda>(_, s).
          let (r, s) = hd_read_device io dev_id test_sector (ks_read_buf ks) 1 s in
          if r \<noteq> 0 then cons_printf io (line ''    FAILED: read error'') [] s
          else
            bindE (printfs io [(line ''    OK'', []), (line ''  Test 3: Verify data...'', [])] s) (\<lambda>(_, s).
            bindE (verify_loop io (ks_read_buf ks) (ks_write_buf ks) 0 0 (unat SECTOR_SIZE) s) (\<lambda>(errors, s).
            bindE (if errors > 0 then cons_printf io (line ''    FAILED: %d mismatches'') [nat_arg errors] s
                   else cons_printf io (line ''    OK'') [] s) (\<lambda>(_, s).
            cons_printf io (line ''  %s test %s'' @ newline)
              [Str (ide_name dev), Str (if errors = 0 then ''PASSED'' else ''FAILED'')] s)))))))"

fun hd_test_loop ::
  "'h port_io \<Rightarrow> kernel_symbols \<Rightarrow> nat \<Rightarrow> nat \<Rightarrow> ('h, 'a) cons_scheme \<Rightarrow> (unit \<times> ('h, 'a) cons_scheme) res" where
  "hd_test_loop io ks dev_id 0 s = Inr ((), s)"
| "hd_test_loop io ks dev_id (Suc n) s =
     bindE (hd_test_device io ks dev_id s) (\<lambda>(_, s). hd_test_loop io ks (dev_id + 1) n s)"

definition hd_test ::
  "'h port_io \<Rightarrow> kernel_symbols \<Rightarrow> ('h, 'a) cons_scheme \<Rightarrow> (unit \<times> ('h, 'a) cons_scheme) res" where
  "hd_test io ks s =
     bindE (printfs io
       [(newline @ line ''=== Multi-Disk Test ==='', []),
        (line ''Testing %d disk device(s)'' @ newline, [nat_arg (hd_num_devices s)])] s) (\<lambda>(_, s).
     if hd_num_devices s = 0
     then printfs io [(line ''No disk devices found!'', []), (line ''=== Test Complete ==='' @ newline, [])] s
     else bindE (hd_test_loop io ks 0 MAX_IDE_DEVICES s) (\<lambda>(_, s).
       cons_printf io (line ''=== Multi-Disk Test Complete ==='' @ newline) [] s))"

end
