(* ===== verification/Commands.thy ===== *)
theory Commands
  imports Listings
begin

text \<open>
  The shell's commands and its line editor, \<^verbatim>\<open>kern/cons/shell.c\<close>: what a line does and
  what a character from the keyboard does.
\<close>

section \<open>Commands\<close>

definition quoted :: "string \<Rightarrow> string" where
  "quoted s = [CHR 0x27] @ s @ [CHR 0x27]"

definition cmd_help :: "'h port_io \<Rightarrow> ('h, 'a) cons_scheme \<Rightarrow> (unit \<times> ('h, 'a) cons_scheme) res" where
  "cmd_help io s =
     printfs io ((line ''Available commands:'', []) #
       map (\<lambda>(name, desc, _). (line ''  %-10s - %s'', [Str name, Str desc])) commands) s"

definition SCREEN_ROWS :: nat where "SCREEN_ROWS = 25"

definition cmd_clear :: "'h port_io \<Rightarrow> ('h, 'a) cons_scheme \<Rightarrow> (unit \<times> ('h, 'a) cons_scheme) res" where
  "cmd_clear io s = printfs io (replicate SCREEN_ROWS (newline, [])) s"

definition hdparm_rows :: "nat \<Rightarrow> ide_device \<Rightarrow> (string \<times> vararg list) list" where
  "hdparm_rows dev_id dev =
     [(line ''Device: %s (dev_id=%d)'', [Str (ide_name dev), nat_arg dev_id]),
      (line ''  Channel: %s, Drive: %s'',
         [Str (if ide_channel dev = 0 then ''Primary'' else ''Secondary''),
          Str (if ide_drive dev = 0 then ''Master'' else ''Slave'')]),
      (line ''  Base I/O: 0x%x, IRQ: %d'', [Word (ucast (ide_base dev)), Word (ucast (ide_irq dev))]),
      (line ''  Size: %d sectors (%d MB)'',
         [Word (di_size (ide_info dev)), Word (di_size (ide_info dev) div 2048)]),
      (line ''  CHS: %d cylinders, %d heads, %d sectors/track'',
         [Word (ucast (di_cylinders (ide_info dev))), Word (ucast (di_heads (ide_info dev))),
          Word (ucast (di_sectors (ide_info dev)))]),
      (newline, [])]"

fun hdparm_loop :: "'h port_io \<Rightarrow> nat \<Rightarrow> nat \<Rightarrow> ('h, 'a) cons_scheme \<Rightarrow> (unit \<times> ('h, 'a) cons_scheme) res" where
  "hdparm_loop io dev_id 0 s = Inr ((), s)"
| "hdparm_loop io dev_id (Suc n) s =
     bindE (case hd_get_device dev_id s of
         None \<Rightarrow> Inr ((), s)
       | Some d \<Rightarrow> printfs io (hdparm_rows dev_id (ide_devices s d)) s)
       (\<lambda>(_, s). hdparm_loop io (dev_id + 1) n s)"

definition cmd_hdparm :: "'h port_io \<Rightarrow> ('h, 'a) cons_scheme \<Rightarrow> (unit \<times> ('h, 'a) cons_scheme) res" where
  "cmd_hdparm io s =
     (let num = hd_get_device_count s
      in if num = 0 then cons_printf io (line ''No disk devices found'') [] s
         else bindE (cons_printf io (line ''IDE Disk Information (%d device(s) found):'' @ newline) [nat_arg num] s)
           (\<lambda>(_, s). hdparm_loop io 0 4 s))"

definition cmd_disktest ::
  "'h port_io \<Rightarrow> kernel_symbols \<Rightarrow> ('h, 'a) cons_scheme \<Rightarrow> (unit \<times> ('h, 'a) cons_scheme) res" where
  "cmd_disktest io ks s =
     bindE (cons_printf io (line ''Running disk test...'') [] s) (\<lambda>(_, s). hd_test io ks s)"

definition cmd_dd :: "'h port_io \<Rightarrow> ('h, 'a) cons_scheme \<Rightarrow> (unit \<times> ('h, 'a) cons_scheme) res" where
  "cmd_dd io s =
     printfs io [(line ''dd - disk read/write utility'', []),
       (line ''Usage: Use disktest for basic disk I/O testing'', []),
       (line ''Note: Full dd command with parameters not yet implemented'', [])] s"

definition SYSINFO_NAME :: string where "SYSINFO_NAME = ''Zonix''"
definition SYSINFO_HOSTNAME :: string where "SYSINFO_HOSTNAME = ''zohar''"
definition SYSINFO_VERSION :: string where "SYSINFO_VERSION = ''#1 Oct 21 2025 18:08:53''"
definition SYSINFO_MACHINE :: string where "SYSINFO_MACHINE = ''i386''"
definition ZONIX_VERSION_STRING :: string where "ZONIX_VERSION_STRING = ''0.3.0''"

definition cmd_uname :: "'h port_io \<Rightarrow> ('h, 'a) cons_scheme \<Rightarrow> (unit \<times> ('h, 'a) cons_scheme) res" where
  "cmd_uname io s = cons_printf io (line ''%s'') [Str SYSINFO_NAME] s"

definition cmd_uname_a :: "'h port_io \<Rightarrow> ('h, 'a) cons_scheme \<Rightarrow> (unit \<times> ('h, 'a) cons_scheme) res" where
  "cmd_uname_a io s =
     cons_printf io (line ''%s %s %s %s %s'')
       [Str SYSINFO_NAME, Str SYSINFO_HOSTNAME, Str ZONIX_VERSION_STRING, Str SYSINFO_VERSION,
        Str SYSINFO_MACHINE] s"

text \<open>The call through the table's function pointer.\<close>

fun run_command ::
  "'h port_io \<Rightarrow> kernel_symbols \<Rightarrow> command \<Rightarrow> ('h, 'a) sched_scheme \<Rightarrow> (unit \<times> ('h, 'a) sched_scheme) res" where
  "run_command io ks Cmd_help s = cmd_help io s"
| "run_command io ks Cmd_pgdir s = print_pgdir io s"
| "run_command io ks Cmd_clear s = cmd_clear io s"
| "run_command io ks Cmd_swap_test s = run_swap_tests io s"
| "run_command io ks Cmd_lsblk s = blk_list_devices io s"
| "run_command io ks Cmd_hdparm s = cmd_hdparm io s"
| "run_command io ks Cmd_disktest s = cmd_disktest io ks s"
| "run_command io ks Cmd_dd s = cmd_dd io s"
| "run_command io ks Cmd_uname_a s = cmd_uname_a io s"
| "run_command io ks Cmd_uname s = cmd_uname io s"
| "run_command io ks Cmd_ps s = print_all_procs io ks s"

definition execute_command ::
  "'h port_io \<Rightarrow> kernel_symbols \<Rightarrow> string \<Rightarrow> ('h, 'a) sched_scheme \<Rightarrow> (unit \<times> ('h, 'a) sched_scheme) res" where
  "execute_command io ks cmd s =
     (let cmd = skip_spaces cmd in
      if cmd = [] then Inr ((), s)
      else
        case find_command cmd commands of
          Some func \<Rightarrow> run_command io ks func s
        | None \<Rightarrow> printfs io
            [(line ''Unknown command: %s'', [Str cmd]),
             (line (''Type '' @ quoted ''help'' @ '' for available commands.''), [])] s)"

section \<open>Line editor\<close>

text \<open>The character is a signed \<^verbatim>\<open>char\<close>.\<close>

definition shell_handle_char ::
  "'h port_io \<Rightarrow> kernel_symbols \<Rightarrow> int \<Rightarrow> ('h, 'a) sched_scheme \<Rightarrow> (unit \<times> ('h, 'a) sched_scheme) res" where
  "shell_handle_char io ks c s =
     (if c \<le> 0 then Inr ((), s)
      else if c = 10 \<or> c = 13 then
        let s = cons_putc io 10 s;
            s = s\<lparr>cmd_buffer := (cmd_buffer s)(cmd_pos s := CHR 0x00)\<rparr>
        in bindE (execute_command io ks (buffer_string (cmd_buffer s)) s) (\<lambda>(_, s).
           let s = s\<lparr>cmd_pos := 0\<rparr>
           in shell_prompt io s)
      else if c = 8 then
        if cmd_pos s > 0 then
          let s = s\<lparr>cmd_pos := cmd_pos s - 1\<rparr>
          in Inr ((), cons_putc io 8 s)
        else Inr ((), s)
      else if c = ASCII_DEL then Inr ((), s)
      else if cmd_pos s < CMD_BUF_SIZE - 1 \<and> c \<ge> ASCII_PRINTABLE_MIN \<and> c < ASCII_PRINTABLE_MAX then
        let s = s\<lparr>cmd_buffer := (cmd_buffer s)(cmd_pos s := char_of c)\<rparr>;
            s = s\<lparr>cmd_pos := cmd_pos s + 1\<rparr>
        in Inr ((), cons_putc io (of_int c) s)
      else Inr ((), s))"

end
