(* ===== verification/Kernel.thy ===== *)
theory Kernel
  imports Commands
begin

text \<open>
  The parts together: the interrupt descriptor table (\<^verbatim>\<open>kern/arch/x86/idt.c\<close>), the trap
  handler (\<^verbatim>\<open>kern/trap/trap.c\<close>), the kernel's initialisation (\<^verbatim>\<open>kern/init.c\<close>) and
  \<^verbatim>\<open>panic\<close> (\<^verbatim>\<open>kern/debug/panic.c\<close>). The gate descriptors have a store of their own.
\<close>

section \<open>Gates\<close>

record gate_desc =
  gd_off_15_0 :: u16
  gd_ss :: u16
  gd_args :: nat
  gd_rsv1 :: nat
  gd_type :: nat
  gd_s :: nat
  gd_dpl :: nat
  gd_p :: nat
  gd_off_31_16 :: u16

record 'h kern = "'h sched" +
  idt :: "nat \<Rightarrow> gate_desc"
  is_panic :: bool

definition STS_TG32 :: nat where "STS_TG32 = 0xF"
definition GD_KTEXT :: u16 where "GD_KTEXT = push_bit 3 1"
definition DPL_KERNEL :: nat where "DPL_KERNEL = 0"
definition DPL_USER :: nat where "DPL_USER = 3"
definition T_PGFLT :: u32 where "T_PGFLT = 14"
definition T_SYSCALL :: u32 where "T_SYSCALL = 0x80"
definition IRQ_OFFSET :: u32 where "IRQ_OFFSET = 0x20"

definition set_gate :: "nat \<Rightarrow> u16 \<Rightarrow> nat \<Rightarrow> u32 \<Rightarrow> gate_desc" where
  "set_gate type sel dpl addr =
     \<lparr>gd_off_15_0 = ucast (addr AND 0xFFFF), gd_ss = sel, gd_args = 0, gd_rsv1 = 0, gd_type = type,
      gd_s = 0, gd_dpl = dpl, gd_p = 1, gd_off_31_16 = ucast (drop_bit 16 addr)\<rparr>"

fun idt_loop :: "(nat \<Rightarrow> u32) \<Rightarrow> nat \<Rightarrow> nat \<Rightarrow> (nat \<Rightarrow> gate_desc) \<Rightarrow> nat \<Rightarrow> gate_desc" where
  "idt_loop vectors i 0 t = t"
| "idt_loop vectors i (Suc n) t =
     idt_loop vectors (i + 1) n (t(i := set_gate STS_TG32 GD_KTEXT DPL_KERNEL (vectors i)))"

definition idt_init :: "(nat \<Rightarrow> u32) \<Rightarrow> ('h, 'a) kern_scheme \<Rightarrow> ('h, 'a) kern_scheme" where
  "idt_init vectors s =
     (let t = idt_loop vectors 0 256 (idt s)
      in s\<lparr>idt := t(unat T_SYSCALL := set_gate STS_TG32 GD_KTEXT DPL_USER (vectors (unat T_SYSCALL)))\<rparr>)"

section \<open>Traps\<close>

definition excnames :: "string list" where
  "excnames =
     [''Divide error'', ''Debug'', ''Non-Maskable Interrupt'', ''Breakpoint'', ''Overflow'',
      ''BOUND Range Exceeded'', ''Invalid Opcode'', ''Device Not Available'', ''Double Fault'',
      ''Coprocessor Segment Overrun'', ''Invalid TSS'', ''Segment Not Present'', ''Stack Fault'',
      ''General Protection'', ''Page Fault'', ''(unknown trap)'', ''x87 FPU Floating-Point Error'',
      ''Alignment Check'', ''Machine-Check'', ''SIMD Floating-Point Exception'']"

text \<open>The first comparison is unsigned, the others are signed.\<close>

definition trap_name :: "u32 \<Rightarrow> string" where
  "trap_name trapno =
     (if unat trapno < length excnames then excnames ! unat trapno
      else if sint trapno \<ge> 0x20 \<and> sint trapno < 0x20 + 16 then ''Hardware Interrupt''
      else ''(unknown trap)'')"

definition regs_rows :: "trap_regs \<Rightarrow> (string \<times> vararg list) list" where
  "regs_rows r =
     [(line ''  edi  0x%08x'', [Word (reg_edi r)]), (line ''  esi  0x%08x'', [Word (reg_esi r)]),
      (line ''  ebp  0x%08x'', [Word (reg_ebp r)]), (line ''  ebx  0x%08x'', [Word (reg_ebx r)]),
      (line ''  edx  0x%08x'', [Word (reg_edx r)]), (line ''  ecx  0x%08x'', [Word (reg_ecx r)]),
      (line ''  eax  0x%08x'', [Word (reg_eax r)])]"

definition print_trapframe ::
  "'h port_io \<Rightarrow> u32 \<Rightarrow> ('h, 'a) sched_scheme \<Rightarrow> (unit \<times> ('h, 'a) sched_scheme) res" where
  "print_trapframe io tf s =
     (let f = tframes s tf
      in printfs io
        ([(line ''trapframe at %p'', [Word tf])] @ regs_rows (tf_regs f) @
         [(line ''  trap 0x%08x %s'', [Word (tf_trapno f), Str (trap_name (tf_trapno f))]),
          (line ''  err  0x%08x'', [Word (tf_err f)]),
          (line ''  eip  0x%08x'', [Word (tf_eip f)])]) s)"

definition print_pgfault ::
  "'h port_io \<Rightarrow> u32 \<Rightarrow> ('h, 'a) sched_scheme \<Rightarrow> (unit \<times> ('h, 'a) sched_scheme) res" where
  "print_pgfault io tf s =
     (let err = tf_err (tframes s tf)
      in cons_printf io (line ''Page Fault at 0x%08x: %c/%c [%s].'')
          [Word (cr2 s), Word (of_char (if err AND 4 \<noteq> 0 then CHR ''U'' else CHR ''K'')),
           Word (of_char (if err AND 2 \<noteq> 0 then CHR ''W'' else CHR ''R'')),
           Str (if err AND 1 \<noteq> 0 then ''Protection Fault'' else ''No Page Found'')] s)"

definition irq_timer :: "('h, 'a) devs_scheme \<Rightarrow> ('h, 'a) devs_scheme" where
  "irq_timer s = s\<lparr>ticks := ticks s + 1\<rparr>"

text \<open>The result of \<^verbatim>\<open>kdb_getc\<close> is kept in a signed \<^verbatim>\<open>char\<close>.\<close>

definition irq_kbd ::
  "'h port_io \<Rightarrow> kernel_symbols \<Rightarrow> ('h, 'a) sched_scheme \<Rightarrow> (unit \<times> ('h, 'a) sched_scheme) res" where
  "irq_kbd io ks s =
     (let (k, s) = kdb_getc io s; c = sint (of_int k :: u8)
      in if c > 0 then shell_handle_char io ks c s else Inr ((), s))"

definition pg_fault ::
  "'h port_io \<Rightarrow> u32 \<Rightarrow> ('h, 'a) sched_scheme \<Rightarrow> (int \<times> ('h, 'a) sched_scheme) res" where
  "pg_fault io tf s =
     bindE (print_trapframe io tf s) (\<lambda>(_, s).
     bindE (print_pgfault io tf s) (\<lambda>(_, s).
     if current s = 0 \<or> t_mm (tasks s (current s)) = MmNull then Inl Null_Deref
     else bindE (vmm_pg_fault io (tf_err (tframes s tf)) (cr2 s) s) (\<lambda>(_, s). Inr (0, s))))"

definition trap ::
  "'h port_io \<Rightarrow> kernel_symbols \<Rightarrow> u32 \<Rightarrow> ('h, 'a) sched_scheme \<Rightarrow> (unit \<times> ('h, 'a) sched_scheme) res" where
  "trap io ks tf s =
     (let no = tf_trapno (tframes s tf)
      in bindE
          (if no = T_PGFLT then bindE (pg_fault io tf s) (\<lambda>(_, s). Inr ((), s))
           else if no = IRQ_OFFSET + of_nat IRQ_TIMER then Inr ((), irq_timer s)
           else if no = IRQ_OFFSET + of_nat IRQ_KBD then irq_kbd io ks s
           else Inr ((), s))
          (\<lambda>(_, s).
            let no = tf_trapno (tframes s tf)
            in Inr ((), if no \<ge> IRQ_OFFSET \<and> no < IRQ_OFFSET + 16
                        then pic_send_eoi io (unat (no - IRQ_OFFSET)) s else s)))"

section \<open>Kernel entry\<close>

text \<open>\<^verbatim>\<open>kern_init\<close> up to its idle loop, which calls \<^verbatim>\<open>schedule\<close> for ever.\<close>

definition kern_init ::
  "'h port_io \<Rightarrow> kernel_symbols \<Rightarrow> ('h, 'a) kern_scheme \<Rightarrow> (unit \<times> ('h, 'a) kern_scheme) res" where
  "kern_init io ks s =
     bindE (cons_init io (ks_kernel_start ks) s) (\<lambda>(_, s).
     let s = pic_init io s;
         s = blk_init io s
     in bindE (pit_init io s) (\<lambda>(_, s).
        let s = idt_init (ks_vectors ks) s;
            s = pmm_init (ks_kernel_end ks) s
        in bindE (vmm_init (ks_boot_pgdir ks) s) (\<lambda>(_, s).
           bindE (swap_init s) (\<lambda>(_, s).
           bindE (sched_init (ks_sched ks) s) (\<lambda>(_, s).
           let s = intr_enable s
           in shell_init io s)))))"

text \<open>The first thing the init process does; it then calls \<^verbatim>\<open>schedule\<close> for ever.\<close>

definition init_main :: "'h port_io \<Rightarrow> ('h, 'a) sched_scheme \<Rightarrow> (unit \<times> ('h, 'a) sched_scheme) res" where
  "init_main io s = shell_prompt io s"

section \<open>Panic\<close>

text \<open>The state in which the processor spins for ever; the message itself is never printed.\<close>

definition kernel_panic ::
  "'h port_io \<Rightarrow> string \<Rightarrow> u32 \<Rightarrow> ('h, 'a) kern_scheme \<Rightarrow> (unit \<times> ('h, 'a) kern_scheme) res" where
  "kernel_panic io file ln s =
     (if is_panic s then Inr ((), intr_disable s)
      else
        let s = s\<lparr>is_panic := True\<rparr>
        in bindE (printfs io [(line ''kernel panic at %s:%d:'' @ ''    '', [Str file, Word ln]), (newline, [])] s)
             (\<lambda>(_, s). Inr ((), intr_disable s)))"

end
