(* ===== verification/Shell_Laws.thy ===== *)
theory Shell_Laws
  imports Kernel Sched_Laws "HOL-Library.Sublist"
begin

text \<open>
  The shell's line editor. The line being edited is the first \<open>cmd_pos\<close> characters of the
  buffer; it is well formed when it fits with its terminator and has printable characters only.
  Abstractly, a key appends its character, takes the last one away, or does nothing.
\<close>

section \<open>The line\<close>

definition edit_line :: "('h, 'a) shell_scheme \<Rightarrow> string" where
  "edit_line s = map (cmd_buffer s) [0..<cmd_pos s]"

definition printable :: "char \<Rightarrow> bool" where
  "printable c \<longleftrightarrow> 0x20 \<le> (of_char c :: int) \<and> (of_char c :: int) < 0x7F"

definition line_ok :: "('h, 'a) shell_scheme \<Rightarrow> bool" where
  "line_ok s \<longleftrightarrow> cmd_pos s < CMD_BUF_SIZE \<and> list_all printable (edit_line s)"

definition edit_key :: "string \<Rightarrow> int \<Rightarrow> string" where
  "edit_key l c =
     (if c = 8 then butlast l
      else if 0x20 \<le> c \<and> c < 0x7F \<and> length l < 127 then l @ [char_of c]
      else l)"

lemma length_edit_line [simp]: "length (edit_line s) = cmd_pos s"
  by (simp add: edit_line_def)

lemma line_okI:
  "cmd_pos s < CMD_BUF_SIZE \<Longrightarrow> list_all printable (edit_line s) \<Longrightarrow> line_ok s"
  by (simp add: line_ok_def)

text \<open>The console does not touch the buffer.\<close>

lemma cur_update_shell [simp]:
  "cmd_buffer (cur_update io s) = cmd_buffer s" "cmd_pos (cur_update io s) = cmd_pos s"
  by (simp_all add: cur_update_def Let_def)

lemma cga_scrup_shell [simp]:
  "cmd_buffer (cga_scrup s) = cmd_buffer s" "cmd_pos (cga_scrup s) = cmd_pos s"
  by (simp_all add: cga_scrup_def upd_mem_def Let_def)

lemma cga_newline_shell [simp]:
  "cmd_buffer (cga_newline s) = cmd_buffer s" "cmd_pos (cga_newline s) = cmd_pos s"
  by (simp_all add: cga_newline_def cga_return_def Let_def)

lemma cons_putc_shell [simp]:
  "cmd_buffer (cons_putc io c s) = cmd_buffer s" "cmd_pos (cons_putc io c s) = cmd_pos s"
  by (simp_all add: cons_putc_def cga_putc_def cga_return_def upd_mem_def Let_def)

lemma cons_out_shell [simp]:
  "cmd_buffer (cons_out io cs s) = cmd_buffer s" "cmd_pos (cons_out io cs s) = cmd_pos s"
  unfolding cons_out_def by (induction cs arbitrary: s) simp_all

lemma cons_printf_shell:
  assumes "cons_printf io fm args s = Inr (x, s')"
  shows "cmd_buffer s' = cmd_buffer s \<and> cmd_pos s' = cmd_pos s"
proof (cases "cprintf fm args")
  case (Some cs)
  then have "s' = cons_out io cs s" using assms by (simp add: cons_printf_def)
  then show ?thesis by simp
next
  case None
  then have "cons_printf io fm args s = Inl Diverges" by (simp add: cons_printf_def)
  then show ?thesis using assms by simp
qed

lemma edit_line_cong:
  "cmd_buffer s' = cmd_buffer s \<Longrightarrow> cmd_pos s' = cmd_pos s \<Longrightarrow> edit_line s' = edit_line s"
  by (simp add: edit_line_def)

lemma line_ok_cong:
  "cmd_buffer s' = cmd_buffer s \<Longrightarrow> cmd_pos s' = cmd_pos s \<Longrightarrow> line_ok s' = line_ok s"
  by (simp add: line_ok_def edit_line_def)

lemma edit_line_empty: "cmd_pos s = 0 \<Longrightarrow> edit_line s = []"
  by (simp add: edit_line_def)

text \<open>Reading the buffer as a C string gives the line back, once it is terminated.\<close>

lemma buffer_string_line:
  assumes "line_ok s"
  shows "buffer_string ((cmd_buffer s)(cmd_pos s := CHR 0x00)) = edit_line s"
proof -
  let ?b = "(cmd_buffer s)(cmd_pos s := CHR 0x00)" and ?n = "cmd_pos s"
  have n: "?n < CMD_BUF_SIZE" and p: "list_all printable (edit_line s)"
    using assms by (simp_all add: line_ok_def)
  have "[0..<CMD_BUF_SIZE] = [0..<?n] @ ?n # [Suc ?n..<CMD_BUF_SIZE]"
    using n upt_add_eq_append [of 0 ?n "CMD_BUF_SIZE - ?n"] upt_conv_Cons [of ?n CMD_BUF_SIZE] by simp
  then have "map ?b [0..<CMD_BUF_SIZE] = edit_line s @ CHR 0x00 # map ?b [Suc ?n..<CMD_BUF_SIZE]"
    by (simp add: edit_line_def)
  moreover have "\<forall>c \<in> set (edit_line s). c \<noteq> CHR 0x00"
    using p by (auto simp: list_all_iff printable_def)
  ultimately show ?thesis
    by (simp add: buffer_string_def takeWhile_append2)
qed

section \<open>Keys\<close>

lemma printable_char_of: "0x20 \<le> c \<Longrightarrow> c < 0x7F \<Longrightarrow> printable (char_of (c :: int))"
  by (simp add: printable_def of_char_of)

lemma edit_line_push:
  "edit_line (s\<lparr>cmd_buffer := (cmd_buffer s)(cmd_pos s := c), cmd_pos := Suc (cmd_pos s)\<rparr>) = edit_line s @ [c]"
  by (simp add: edit_line_def)

lemma edit_line_pop: "0 < cmd_pos s \<Longrightarrow> edit_line (s\<lparr>cmd_pos := cmd_pos s - 1\<rparr>) = butlast (edit_line s)"
  by (cases "cmd_pos s") (simp_all add: edit_line_def)

lemma key_ignored:
  assumes "c \<le> 0 \<or> c = ASCII_DEL"
  shows "shell_handle_char io ks c s = Inr ((), s)" "edit_key l c = l"
proof -
  have "c \<le> 0 \<or> c = 127" using assms by (simp add: ASCII_DEL_def)
  then show "shell_handle_char io ks c s = Inr ((), s)" "edit_key l c = l"
    by (cases "c \<le> 0"; simp add: shell_handle_char_def edit_key_def ASCII_DEL_def)+
qed

lemma key_erases:
  assumes ok: "line_ok s"
  shows "\<exists>s'. shell_handle_char io ks 8 s = Inr ((), s') \<and> line_ok s' \<and>
    edit_line s' = edit_key (edit_line s) 8"
proof (cases "0 < cmd_pos s")
  case True
  let ?s = "cons_putc io 8 (s\<lparr>cmd_pos := cmd_pos s - 1\<rparr>)"
  have l: "edit_line ?s = butlast (edit_line s)"
    using edit_line_pop [OF True] by (simp add: edit_line_def)
  have "list_all printable (butlast (edit_line s))"
    using ok by (auto simp: line_ok_def list_all_iff dest: in_set_butlastD)
  moreover have "cmd_pos ?s < CMD_BUF_SIZE" using ok by (simp add: line_ok_def less_imp_diff_less)
  ultimately have "line_ok ?s" using l by (intro line_okI) simp_all
  moreover have "shell_handle_char io ks 8 s = Inr ((), ?s)"
    using True by (simp add: shell_handle_char_def Let_def)
  moreover have "edit_key (edit_line s) 8 = butlast (edit_line s)" by (simp add: edit_key_def)
  ultimately show ?thesis using l by metis
next
  case False
  then have "edit_line s = []" by (simp add: edit_line_empty)
  then have "edit_key (edit_line s) 8 = edit_line s" by (simp add: edit_key_def)
  moreover have "shell_handle_char io ks 8 s = Inr ((), s)"
    using False by (simp add: shell_handle_char_def)
  ultimately show ?thesis using ok by metis
qed

lemma key_typed:
  assumes ok: "line_ok s" and c: "0 < c" "c \<noteq> ASCII_DEL" "c \<noteq> 8" "c \<noteq> 10" "c \<noteq> 13"
  shows "\<exists>s'. shell_handle_char io ks c s = Inr ((), s') \<and> line_ok s' \<and>
    edit_line s' = edit_key (edit_line s) c"
proof (cases "cmd_pos s < CMD_BUF_SIZE - 1 \<and> ASCII_PRINTABLE_MIN \<le> c \<and> c < ASCII_PRINTABLE_MAX")
  case True
  let ?s = "cons_putc io (of_int c) (s\<lparr>cmd_buffer := (cmd_buffer s)(cmd_pos s := char_of c), cmd_pos := Suc (cmd_pos s)\<rparr>)"
  have l: "edit_line ?s = edit_line s @ [char_of c]"
    using edit_line_push [of s "char_of c"] by (simp add: edit_line_def)
  have "printable (char_of c)"
    using True by (intro printable_char_of) (simp_all add: ASCII_PRINTABLE_MIN_def ASCII_PRINTABLE_MAX_def)
  then have "line_ok ?s" using ok l True by (intro line_okI) (simp_all add: line_ok_def CMD_BUF_SIZE_def)
  moreover have "shell_handle_char io ks c s = Inr ((), ?s)"
    using c True by (simp add: shell_handle_char_def Let_def)
  moreover have "edit_key (edit_line s) c = edit_line s @ [char_of c]"
    using c True by (simp add: edit_key_def ASCII_PRINTABLE_MIN_def ASCII_PRINTABLE_MAX_def CMD_BUF_SIZE_def)
  ultimately show ?thesis using l by metis
next
  case False
  then have "shell_handle_char io ks c s = Inr ((), s)"
    using c by (simp add: shell_handle_char_def False del: One_nat_def)
  moreover have "edit_key (edit_line s) c = edit_line s"
    using False c
    by (simp add: edit_key_def ASCII_PRINTABLE_MIN_def ASCII_PRINTABLE_MAX_def CMD_BUF_SIZE_def) argo
  ultimately show ?thesis using ok by metis
qed

lemma edit_key_line:
  assumes ok: "line_ok s" and c: "c \<noteq> 10" "c \<noteq> 13"
  shows "\<exists>s'. shell_handle_char io ks c s = Inr ((), s') \<and> line_ok s' \<and>
    edit_line s' = edit_key (edit_line s) c"
proof -
  consider (none) "c \<le> 0 \<or> c = ASCII_DEL" | (del) "c = 8" | (key) "0 < c" "c \<noteq> ASCII_DEL" "c \<noteq> 8" by linarith
  then show ?thesis
  proof cases
    case none
    from key_ignored [OF this] ok show ?thesis by metis
  next
    case del
    then show ?thesis using key_erases [OF ok] by simp
  next
    case key
    from key_typed [OF ok this c] show ?thesis .
  qed
qed

section \<open>Commands\<close>

text \<open>
  What a line asks for: the first command whose name is a prefix of the line and is followed by
  the end or a space.
\<close>

definition asks_for :: "string \<Rightarrow> string \<Rightarrow> bool" where
  "asks_for name l \<longleftrightarrow> prefix name l \<and> (drop (length name) l = [] \<or> hd (drop (length name) l) = CHR '' '')"

definition command_of :: "string \<Rightarrow> command option" where
  "command_of l = map_option (snd \<circ> snd) (List.find (\<lambda>e. asks_for (fst e) l) commands)"

lemma char_at_Cons [simp]: "char_at (c # s) 0 = c"
  by (simp add: char_at_def)

lemma of_char_0: "(of_char c :: int) = 0 \<longleftrightarrow> c = CHR 0x00"
proof -
  have "(of_char (CHR 0x00) :: int) = 0" by simp
  then show ?thesis by (metis of_char_eq_iff)
qed

lemma strncmp_prefix:
  assumes "CHR 0x00 \<notin> set s" "CHR 0x00 \<notin> set name"
  shows "strncmp s name (length name) = 0 \<longleftrightarrow> prefix name s"
  using assms
proof (induction name arbitrary: s)
  case (Cons c name)
  show ?case
  proof (cases s)
    case Nil
    then show ?thesis using Cons.prems(2) by (auto simp: char_at_def of_char_0)
  next
    case (Cons d s')
    then show ?thesis using Cons.IH [of s'] Cons.prems by auto
  qed
qed simp

lemma find_command_find:
  assumes "CHR 0x00 \<notin> set l" "\<forall>e \<in> set cs. CHR 0x00 \<notin> set (fst e)"
  shows "find_command l cs = map_option (snd \<circ> snd) (List.find (\<lambda>e. asks_for (fst e) l) cs)"
  using assms(2)
proof (induction cs)
  case (Cons e cs)
  obtain name desc f where e: "e = (name, desc, f)" by (cases e)
  have "(char_at l (length name) = CHR 0x00 \<or> char_at l (length name) = CHR '' '') \<longleftrightarrow>
      (drop (length name) l = [] \<or> hd (drop (length name) l) = CHR '' '')"
    using assms(1) by (auto simp: char_at_def hd_drop_conv_nth dest: nth_mem)
  then have "(strncmp l name (length name) = 0 \<and>
      (char_at l (length name) = CHR 0x00 \<or> char_at l (length name) = CHR '' '')) = asks_for name l"
    using strncmp_prefix [OF assms(1), of name] Cons.prems by (simp add: e asks_for_def)
  then show ?case using Cons.IH Cons.prems by (simp add: e Let_def)
qed simp

lemma commands_no_nul: "\<forall>e \<in> set commands. CHR 0x00 \<notin> set (fst e)"
  by (simp add: commands_def)

lemma find_command_commands: "CHR 0x00 \<notin> set l \<Longrightarrow> find_command l commands = command_of l"
  unfolding command_of_def by (rule find_command_find [OF _ commands_no_nul])


section \<open>Typing a line\<close>

fun type_keys ::
  "'h port_io \<Rightarrow> kernel_symbols \<Rightarrow> int list \<Rightarrow> ('h, 'a) sched_scheme \<Rightarrow> (unit \<times> ('h, 'a) sched_scheme) res" where
  "type_keys io ks [] s = Inr ((), s)"
| "type_keys io ks (c # cs) s = bindE (shell_handle_char io ks c s) (\<lambda>(_, s). type_keys io ks cs s)"

lemma type_keys_line:
  assumes "line_ok s" "\<forall>c \<in> set cs. c \<noteq> 10 \<and> c \<noteq> 13"
  shows "\<exists>s'. type_keys io ks cs s = Inr ((), s') \<and> line_ok s' \<and>
    edit_line s' = foldl edit_key (edit_line s) cs"
  using assms
proof (induction cs arbitrary: s)
  case (Cons c cs)
  have c: "c \<noteq> 10" "c \<noteq> 13" using Cons.prems(2) by simp_all
  obtain s1 where s1: "shell_handle_char io ks c s = Inr ((), s1)" "line_ok s1"
    "edit_line s1 = edit_key (edit_line s) c"
    using edit_key_line [OF Cons.prems(1) c, of io ks] by metis
  have "\<forall>c \<in> set cs. c \<noteq> 10 \<and> c \<noteq> 13" using Cons.prems(2) by simp
  from Cons.IH [OF s1(2) this] show ?case by (simp add: s1(1,3))
qed simp

lemma line_no_nul: "line_ok s \<Longrightarrow> CHR 0x00 \<notin> set (edit_line s)"
  by (auto simp: line_ok_def list_all_iff printable_def)

text \<open>The state in which Enter runs the line: the cursor is on the next row, the line is terminated.\<close>

definition entered :: "'h port_io \<Rightarrow> ('h, 'a) shell_scheme \<Rightarrow> ('h, 'a) shell_scheme" where
  "entered io s = (cons_putc io 10 s)\<lparr>cmd_buffer := (cmd_buffer s)(cmd_pos s := CHR 0x00)\<rparr>"

lemma shell_enter:
  assumes ok: "line_ok s" and c: "c = 10 \<or> c = 13"
  shows "shell_handle_char io ks c s =
    bindE (execute_command io ks (edit_line s) (entered io s))
      (\<lambda>(_, s). shell_prompt io (s\<lparr>cmd_pos := 0\<rparr>))"
proof -
  have "0 < c" using c by auto
  then show ?thesis
    using c buffer_string_line [OF ok] by (simp add: shell_handle_char_def Let_def entered_def)
qed

lemma execute_command_spec:
  assumes "CHR 0x00 \<notin> set l" and l: "l' = skip_spaces l"
  shows "execute_command io ks l s =
    (if l' = [] then Inr ((), s)
     else case command_of l' of Some f \<Rightarrow> run_command io ks f s
     | None \<Rightarrow> printfs io
         [(line ''Unknown command: %s'', [Str l']),
          (line (''Type '' @ quoted ''help'' @ '' for available commands.''), [])] s)"
proof -
  have "CHR 0x00 \<notin> set l'" using assms by (auto simp: skip_spaces_def dest: set_dropWhileD)
  then show ?thesis unfolding l by (simp add: execute_command_def find_command_commands Let_def)
qed

section \<open>Properties\<close>

text \<open>
  C37. The line stays well formed. Whatever character arrives, if the shell returns then the
  line fits in the buffer with its terminator and holds printable characters only, and after
  Enter it is empty.
\<close>

theorem shell_line_invariant:
  assumes "line_ok s" and "shell_handle_char io ks c s = Inr ((), s')"
  shows "line_ok s' \<and> (c = 10 \<or> c = 13 \<longrightarrow> edit_line s' = [])"
proof (cases "c = 10 \<or> c = 13")
  case True
  obtain s1 where "shell_prompt io (s1\<lparr>cmd_pos := 0\<rparr>) = Inr ((), s')"
    using assms(2) unfolding shell_enter [OF assms(1) True] by (auto simp: bindE_eq_Inr)
  then have "cmd_pos s' = 0"
    unfolding shell_prompt_def by (auto dest: cons_printf_shell)
  then show ?thesis by (simp add: line_ok_def edit_line_empty CMD_BUF_SIZE_def)
next
  case False
  then have "c \<noteq> 10" "c \<noteq> 13" by simp_all
  from edit_key_line [OF assms(1) this, of io ks] have "line_ok s'" unfolding assms(2) by simp
  then show ?thesis using False by simp
qed

definition demo_ks :: kernel_symbols where
  "demo_ks = \<lparr>ks_sched = demo_syms, ks_kernel_start = 0xC0100000, ks_kernel_end = 0xC0140000,
     ks_boot_pgdir = 0xC0120000, ks_init_mm = 0xC0130000, ks_write_buf = 0xC0131000,
     ks_read_buf = 0xC0132000, ks_vectors = (\<lambda>i. 0xC0108000 + 8 * of_nat i)\<rparr>"

lemma demo_line: "line_ok demo_boot_sched" "edit_line demo_boot_sched = []"
proof -
  have "cmd_pos demo_boot_sched = 0" by (simp add: demo_boot_sched_def vmm.defs)
  then show "line_ok demo_boot_sched" "edit_line demo_boot_sched = []"
    by (simp_all add: line_ok_def edit_line_empty CMD_BUF_SIZE_def)
qed

theorem shell_line_invariant_witness:
  "\<exists>s'. shell_handle_char sim_io demo_ks 97 demo_boot_sched = Inr ((), s') \<and> line_ok s'"
proof -
  obtain s' where "shell_handle_char sim_io demo_ks 97 demo_boot_sched = Inr ((), s')"
    using edit_key_line [OF demo_line(1), of 97 sim_io demo_ks] by auto
  from this shell_line_invariant [OF demo_line(1) this] show ?thesis by blast
qed

text \<open>
  C39. The editor refines the abstract one. Typing keys from a well-formed line gives the line
  the keys edit, cut off at 127 characters; Enter then runs the first command whose name the
  line starts with, up to its end or a space, prints a message when there is none, and does
  nothing for a blank line; afterwards the line is empty and the prompt is shown.
\<close>

theorem shell_runs_typed_line:
  assumes "line_ok s" and "\<forall>c \<in> set cs. c \<noteq> 10 \<and> c \<noteq> 13"
  shows "\<exists>s'. type_keys io ks cs s = Inr ((), s') \<and>
    (let l = skip_spaces (foldl edit_key (edit_line s) cs) in
     shell_handle_char io ks 13 s' =
       bindE (if l = [] then Inr ((), entered io s')
              else case command_of l of
                Some f \<Rightarrow> run_command io ks f (entered io s')
              | None \<Rightarrow> printfs io
                  [(line ''Unknown command: %s'', [Str l]),
                   (line (''Type '' @ quoted ''help'' @ '' for available commands.''), [])] (entered io s'))
         (\<lambda>(_, s). shell_prompt io (s\<lparr>cmd_pos := 0\<rparr>)))"
proof -
  obtain s' where s': "type_keys io ks cs s = Inr ((), s')" "line_ok s'"
    "edit_line s' = foldl edit_key (edit_line s) cs"
    using type_keys_line [OF assms] by metis
  show ?thesis
    unfolding s'(3) [symmetric] Let_def
    by (intro exI [of _ s'] conjI s'(1))
      (simp only: shell_enter [OF s'(2)] execute_command_spec [OF line_no_nul [OF s'(2)] refl] simp_thms)
qed

theorem shell_runs_typed_line_witness:
  "\<exists>s'. type_keys sim_io demo_ks [32, 112, 120, 8, 115] demo_boot_sched = Inr ((), s') \<and>
    shell_handle_char sim_io demo_ks 13 s' =
      bindE (print_all_procs sim_io demo_ks (entered sim_io s'))
        (\<lambda>(_, s). shell_prompt sim_io (s\<lparr>cmd_pos := 0\<rparr>))"
proof -
  have k: "char_of (32 :: int) = CHR '' ''" "char_of (112 :: int) = CHR ''p''" "char_of (115 :: int) = CHR ''s''"
    by code_simp+
  have l: "skip_spaces (foldl edit_key [] [32, 112, 120, 8, 115]) = ''ps''"
    by (simp add: edit_key_def skip_spaces_def k)
  have c: "command_of ''ps'' = Some Cmd_ps"
    by (simp add: command_of_def commands_def asks_for_def)
  have "\<forall>c \<in> set [32, 112, 120, 8, 115 :: int]. c \<noteq> 10 \<and> c \<noteq> 13" by simp
  from shell_runs_typed_line [OF demo_line(1) this, of sim_io demo_ks]
  show ?thesis by (simp only: demo_line(2) l c Let_def list.distinct if_False option.simps run_command.simps)
qed

end
