(* ===== verification/Commands_Laws.thy ===== *)
theory Commands_Laws
  imports Kernel Swap_Test_Laws Shell_Laws
begin

text \<open>
  Every command of the shell returns. All but \<^verbatim>\<open>swaptest\<close> change nothing but the screen,
  the buffers of the disk test, the devices and the cursor; \<^verbatim>\<open>swaptest\<close> also replaces the queue of swappable pages.
\<close>

section \<open>Outcomes\<close>

text \<open>The frames that commands write to: the screen, and the two buffers of the disk test.\<close>

definition sector_frames :: "u32 \<Rightarrow> nat set" where
  "sector_frames a = (\<lambda>i. kva2page (a + of_nat i)) ` {..<512}"

definition busy_frames :: "kernel_symbols \<Rightarrow> nat set" where
  "busy_frames ks = screen_frames \<union> sector_frames (ks_write_buf ks) \<union> sector_frames (ks_read_buf ks)"

definition writes_in :: "nat set \<Rightarrow> ('h, 'a) cons_scheme \<Rightarrow> ('h, 'a) cons_scheme \<Rightarrow> bool" where
  "writes_in F s s' \<longleftrightarrow> printed s s' \<and> same_off F (mem s) (mem s')"

lemma writes_in_refl: "writes_in F s s"
  by (simp add: writes_in_def printed_refl same_off_refl)

lemma writes_in_trans: "writes_in F s s' \<Longrightarrow> writes_in F s' s'' \<Longrightarrow> writes_in F s s''"
  unfolding writes_in_def using printed_trans same_off_trans by blast

lemma shows_writes_in: "shows_text s s' \<Longrightarrow> writes_in (busy_frames ks) s s'"
  using same_off_mono [of screen_frames "mem s" "mem s'" "busy_frames ks"]
  by (simp add: shows_text_def writes_in_def busy_frames_def le_supI1)

text \<open>A call that returns and does no more than that.\<close>

definition only_prints :: "kernel_symbols \<Rightarrow> ('h, 'a) cons_scheme \<Rightarrow> (unit \<times> ('h, 'a) cons_scheme) res \<Rightarrow> bool" where
  "only_prints ks s r \<longleftrightarrow> (\<exists>s'. r = Inr ((), s') \<and> writes_in (busy_frames ks) s s')"

lemma only_prints_refl: "only_prints ks s (Inr ((), s))"
  by (simp add: only_prints_def writes_in_refl)

lemma only_prints_printf: "fits fm False False args \<Longrightarrow> only_prints ks s (cons_printf io fm args s)"
  unfolding only_prints_def using cons_printf_shows shows_writes_in by metis

lemma only_prints_printfs:
  "list_all (\<lambda>(fm, args). fits fm False False args) ps \<Longrightarrow> only_prints ks s (printfs io ps s)"
  unfolding only_prints_def using printfs_shows shows_writes_in by metis

lemma only_prints_bind:
  assumes "only_prints ks s r" and "\<And>s'. r = Inr ((), s') \<Longrightarrow> only_prints ks s' (g s')"
  shows "only_prints ks s (bindE r (\<lambda>(_, s'). g s'))"
proof -
  obtain s' where s': "r = Inr ((), s')" "writes_in (busy_frames ks) s s'"
    using assms(1) unfolding only_prints_def by blast
  obtain s'' where "g s' = Inr ((), s'')" "writes_in (busy_frames ks) s' s''"
    using assms(2) [OF s'(1)] unfolding only_prints_def by blast
  then show ?thesis using s' writes_in_trans unfolding only_prints_def by fastforce
qed

lemma only_prints_from:
  assumes "writes_in (busy_frames ks) s s1" "only_prints ks s1 r"
  shows "only_prints ks s r"
  using assms writes_in_trans unfolding only_prints_def by blast

section \<open>The listings\<close>

lemma hdparm_rows_fit: "list_all (\<lambda>(fm, args). fits fm False False args) (hdparm_rows i d)"
  by (simp add: hdparm_rows_def nat_arg_def fits_defs)

lemma hdparm_loop_prints: "only_prints ks s (hdparm_loop io i n s)"
proof (induction n arbitrary: i s)
  case (Suc n)
  have "only_prints ks s (case hd_get_device i s of None \<Rightarrow> Inr ((), s)
      | Some d \<Rightarrow> printfs io (hdparm_rows i (ide_devices s d)) s)"
    by (simp add: only_prints_refl only_prints_printfs hdparm_rows_fit split: option.split)
  then show ?case by (simp only: hdparm_loop.simps) (rule only_prints_bind [OF _ Suc.IH])
qed (simp add: only_prints_refl)

lemma cmd_hdparm_prints: "only_prints ks s (cmd_hdparm io s)"
proof -
  have "only_prints ks s (cons_printf io (line ''IDE Disk Information (%d device(s) found):'' @ newline)
      [nat_arg (hd_get_device_count s)] s)"
    "only_prints ks s (cons_printf io (line ''No disk devices found'') [] s)"
    by (rule only_prints_printf, simp add: nat_arg_def fits_defs)+
  then show ?thesis
    by (simp add: cmd_hdparm_def Let_def) (blast intro: only_prints_bind hdparm_loop_prints)
qed

lemma blk_list_loop_prints: "only_prints ks s (blk_list_loop io i n s)"
proof (induction n arbitrary: i s)
  case (Suc n)
  have "only_prints ks s (case block_devices s i of None \<Rightarrow> Inr ((), s)
       | Some d \<Rightarrow>
           let dev = disk_devs s d;
               mount_str = (if bd_type dev = BLK_TYPE_SWAP then ''[SWAP]'' else '''');
               (mb, decimal) = size_mb (bd_size dev)
           in cons_printf io (line ''%-6s %3d:%-3d %-2d %2d.%dM %-2d %-4s %s'')
                [Str (bd_name dev), nat_arg 8, nat_arg (i * 16), nat_arg 0, Word mb, Word decimal, nat_arg 0, Str ''disk'', Str mount_str] s)"
    by (auto simp: only_prints_refl Let_def nat_arg_def fits_defs split: option.splits prod.splits
        intro!: only_prints_printf)
  then show ?case by (simp only: blk_list_loop.simps) (rule only_prints_bind [OF _ Suc.IH])
qed (simp add: only_prints_refl)

lemma blk_list_devices_prints: "only_prints ks s (blk_list_devices io s)"
  unfolding blk_list_devices_def
  by (rule only_prints_bind [OF _ blk_list_loop_prints], rule only_prints_printf) (simp add: fits_defs)

lemma print_ptes_prints: "only_prints ks s (print_ptes io r limit s)"
proof (induction io r limit s rule: print_ptes.induct)
  case (1 io r limit s)
  obtain perm b where g: "get_pgtable_items r limit (vpt (mem s) (K_ADDR (cr3 s))) = (perm, b)" by fastforce
  show ?case
  proof (cases "b = None \<or> perm = 0")
    case True
    then show ?thesis
      by (subst print_ptes.simps) (auto simp: g only_prints_refl split: option.splits)
  next
    case False
    then obtain l r' where b: "b = Some (l, r')" by auto
    have "only_prints ks s (cons_printf io (line ''  |-- PTE(%05x) %08x-%08x %08x %s'') (pt_row l r' perm) s)"
      by (rule only_prints_printf) (simp add: pt_row_def nat_arg_def fits_defs)
    moreover have "only_prints ks s' (print_ptes io r' limit s')"
      if "cons_printf io (line ''  |-- PTE(%05x) %08x-%08x %08x %s'') (pt_row l r' perm) s = Inr ((), s')" for s'
      using False by (intro "1.IH" [OF g [symmetric] b refl _ that refl]) simp
    ultimately have "only_prints ks s
       (bindE (cons_printf io (line ''  |-- PTE(%05x) %08x-%08x %08x %s'') (pt_row l r' perm) s)
         (\<lambda>(_, s). print_ptes io r' limit s))"
      by (rule only_prints_bind)
    then show ?thesis using False by (subst print_ptes.simps) (simp add: g b)
  qed
qed

lemma print_pdes_prints: "only_prints ks s (print_pdes io r s)"
proof (induction io r s rule: print_pdes.induct)
  case (1 io r s)
  obtain perm b where g: "get_pgtable_items r 1024 (vpd (mem s) (K_ADDR (cr3 s))) = (perm, b)" by fastforce
  show ?case
  proof (cases "b = None \<or> perm = 0")
    case True
    then show ?thesis
      by (subst print_pdes.simps) (auto simp: g only_prints_refl split: option.splits)
  next
    case False
    then obtain l r' where b: "b = Some (l, r')" by auto
    have "only_prints ks s (cons_printf io (line ''PDE(%03x) %08x-%08x %08x %s'') (pd_row l r' perm) s)"
      by (rule only_prints_printf) (simp add: pd_row_def nat_arg_def fits_defs)
    moreover have "only_prints ks s' (bindE (print_ptes io (l * 1024) (r' * 1024) s') (\<lambda>(_, s). print_pdes io r' s))"
      if p: "cons_printf io (line ''PDE(%03x) %08x-%08x %08x %s'') (pd_row l r' perm) s = Inr ((), s')" for s'
    proof (rule only_prints_bind [OF print_ptes_prints])
      fix s'' assume "print_ptes io (l * 1024) (r' * 1024) s' = Inr ((), s'')"
      then show "only_prints ks s'' (print_pdes io r' s'')"
        using False by (intro "1.IH" [OF g [symmetric] b refl _ p refl _ refl]) simp_all
    qed
    ultimately have "only_prints ks s
       (bindE (cons_printf io (line ''PDE(%03x) %08x-%08x %08x %s'') (pd_row l r' perm) s)
         (\<lambda>(_, s). bindE (print_ptes io (l * 1024) (r' * 1024) s) (\<lambda>(_, s). print_pdes io r' s)))"
      by (rule only_prints_bind)
    then show ?thesis using False by (subst print_pdes.simps) (simp add: g b)
  qed
qed

lemma print_pgdir_prints: "only_prints ks s (print_pgdir io s)"
  unfolding print_pgdir_def
  by (intro only_prints_bind print_pdes_prints only_prints_printf) (simp_all add: fits_defs)

lemma printfs_printed:
  "list_all (\<lambda>(fm, args). fits fm False False args) ps \<Longrightarrow>
   \<exists>s'. printfs io ps s = Inr ((), s') \<and> printed s s'"
  using printfs_shows unfolding shows_text_def by metis

section \<open>\<^verbatim>\<open>ps\<close>\<close>

text \<open>
  The processes are listed in the order of their creation, the reverse of \<^verbatim>\<open>proc_list\<close>; the
  list is walked through the links although every row printed writes to memory.
\<close>

definition proc_format :: string where
  "proc_format = line ''%c%-3d %-4s  %-4d  %08x  %08x  %s''"

definition proc_rows :: "kernel_symbols \<Rightarrow> u32 list \<Rightarrow> ('h, 'a) sched_scheme \<Rightarrow> (string \<times> vararg list) list" where
  "proc_rows ks ps s = map (\<lambda>p. (proc_format, proc_row ks p s)) (rev ps)"

lemma printed_procs:
  assumes "printed s (s' :: ('h, 'a) sched_scheme)"
  shows "links s' = links s" "tasks s' = tasks s" "current s' = current s" "nr_process s' = nr_process s"
proof -
  obtain m h p where "s' = s\<lparr>mem := m, hw := h, crt_pos := p\<rparr>" using assms unfolding printed_def by blast
  then show "links s' = links s" "tasks s' = tasks s" "current s' = current s" "nr_process s' = nr_process s"
    by simp_all
qed

lemma proc_row_fits: "fits proc_format False False (proc_row ks p s)"
  by (simp add: proc_format_def proc_row_def Let_def fits_defs)

lemma proc_row_printed: "printed s s' \<Longrightarrow> proc_row ks p s' = proc_row ks p s"
  by (simp add: proc_row_def printed_procs Let_def)

lemma proc_rows_printed: "printed s s' \<Longrightarrow> proc_rows ks ps s' = proc_rows ks ps s"
  by (simp add: proc_rows_def proc_row_printed)

lemma print_procs_loop_rows:
  assumes "clist (links s) ProcHead (map ListLink qs @ ys)"
  shows "print_procs_loop io ks (hd (ys @ [ProcHead])) s = Some (printfs io (proc_rows ks qs s) s)"
  using assms
proof (induction qs arbitrary: ys s rule: rev_induct)
  case Nil
  then have "prv (links s) (hd (ys @ [ProcHead])) = ProcHead"
    using clist_prv_mid [of "links s" ProcHead "[]"] clist_prv [of "links s" ProcHead "[]"] by (cases ys) auto
  then show ?case
    by (subst print_procs_loop.simps) (simp add: list_prev_def proc_rows_def)
next
  case (snoc q qs)
  have l: "prv (links s) (hd (ys @ [ProcHead])) = ListLink q"
    using snoc.prems clist_prv_mid [of "links s" ProcHead "map ListLink (qs @ [q])"]
      clist_prv [of "links s" ProcHead "map ListLink (qs @ [q])"] by (cases ys) auto
  obtain s1 where s1: "cons_printf io proc_format (proc_row ks q s) s = Inr ((), s1)" "printed s s1"
    using cons_printf_printed [OF proc_row_fits] by metis
  have "clist (links s1) ProcHead (map ListLink qs @ ListLink q # ys)"
    using snoc.prems printed_procs [OF s1(2)] by simp
  from snoc.IH [OF this] have "print_procs_loop io ks (ListLink q) s1 = Some (printfs io (proc_rows ks qs s) s1)"
    using proc_rows_printed [OF s1(2)] by simp
  then show ?case
    by (subst print_procs_loop.simps)
      (simp add: list_prev_def l Let_def s1(1) proc_rows_def flip: proc_format_def)
qed

lemma bindE_printfs_Nil: "bindE r (\<lambda>(_, s). printfs io [] s) = r"
  by (cases r) auto

lemma printfs_append: "printfs io (as @ bs) s = bindE (printfs io as s) (\<lambda>(_, s). printfs io bs s)"
  by (induction io as s rule: printfs.induct) (auto simp: bindE_def split: sum.splits)

definition procs_table :: "kernel_symbols \<Rightarrow> u32 list \<Rightarrow> ('h, 'a) sched_scheme \<Rightarrow> (string \<times> vararg list) list" where
  "procs_table ks ps s =
     [(line ''PID  STAT  PPID  KSTACK    MM        NAME'', []),
      (line ''---  ----  ----  --------  --------  ----------------'', [])] @
     proc_rows ks ps s @
     [(newline @ line ''Total processes: %d'', [Word (of_nat (length ps))]),
      (line ''Current process: %s (PID %d)'', [Str (t_name (tasks s (current s))), Word (t_pid (tasks s (current s)))])]"

lemma procs_table_fits: "list_all (\<lambda>(fm, args). fits fm False False args) (procs_table ks ps s)"
  by (simp add: procs_table_def proc_rows_def proc_row_fits list_all_iff, simp add: fits_defs)

lemma print_all_procs_rows:
  assumes inv: "sched_inv s ps H"
  shows "print_all_procs io ks s = printfs io (procs_table ks ps s) s"
proof -
  let ?a = "[(line ''PID  STAT  PPID  KSTACK    MM        NAME'', []),
      (line ''---  ----  ----  --------  --------  ----------------'', [])] :: (string \<times> vararg list) list"
  let ?c = "(newline @ line ''Total processes: %d'', [Word (of_nat (length ps))])"
  have "list_all (\<lambda>(fm, args). fits fm False False args) ?a" by (simp add: fits_defs)
  from printfs_printed [OF this, of io s] obtain s1 where s1: "printfs io ?a s = Inr ((), s1)" "printed s s1" by metis
  have "list_all (\<lambda>(fm, args). fits fm False False args) (proc_rows ks ps s)"
    by (simp add: proc_rows_def proc_row_fits list_all_iff)
  from printfs_printed [OF this, of io s1] obtain s2 where
    s2: "printfs io (proc_rows ks ps s) s1 = Inr ((), s2)" "printed s1 s2" by metis
  have "fits (fst ?c) False False (snd ?c)" by (simp add: fits_defs)
  from cons_printf_printed [OF this, of io s2] obtain s3 where
    s3: "cons_printf io (fst ?c) (snd ?c) s2 = Inr ((), s3)" "printed s2 s3" by metis
  have cl: "clist (links s) ProcHead (map ListLink ps @ [])" and nr: "nr_process s = of_nat (length ps)"
    using inv by (simp_all add: sched_inv_def proc_lists_def pids_ok_def)
  have "current s \<noteq> 0" using inv proc_nonzero by (auto simp: sched_inv_def procs_live_def)
  note eq1 = printed_procs [OF s1(2)] and eq2 = printed_procs [OF s2(2)] and eq3 = printed_procs [OF s3(2)]
  have "print_procs_loop io ks ProcHead s1 = Some (Inr ((), s2))"
    using print_procs_loop_rows [of s1 ps "[]" io ks] cl eq1 proc_rows_printed [OF s1(2)] s2(1) by simp
  then show ?thesis
    using \<open>current s \<noteq> 0\<close> s3(1) eq1 eq2 eq3 nr
    by (simp only: print_all_procs_def procs_table_def printfs_append s1(1) s2(1) bindE_Inr case_prod_conv returns_simps)
      (simp add: bindE_printfs_Nil)
qed

lemma print_all_procs_prints: "sched_inv s ps H \<Longrightarrow> only_prints ks s (print_all_procs io ks s)"
  by (simp only: print_all_procs_rows) (rule only_prints_printfs [OF procs_table_fits])

section \<open>The disk test\<close>

lemma fill_pattern_other: "(\<forall>k < n. a \<noteq> buf + of_nat (i + k)) \<Longrightarrow> fill_pattern buf d i n m a = m a"
proof (induction n arbitrary: i m)
  case (Suc n)
  have "\<forall>k < n. a \<noteq> buf + of_nat (i + 1 + k)" using Suc.prems by force
  moreover have "a \<noteq> buf + of_nat i" using Suc.prems by force
  ultimately show ?case using Suc.IH [of "i + 1"] by simp
qed simp

lemma insw_same_off:
  "(\<And>i. i < 2 * n \<Longrightarrow> kva2page (a + of_nat i) \<in> F) \<Longrightarrow> insw io port a n h m = (h', m') \<Longrightarrow> same_off F m m'"
proof (induction n arbitrary: a h m)
  case (Suc n)
  have "kva2page (a + 2 + of_nat i) \<in> F" if "i < 2 * n" for i
    using Suc.prems(1) [of "i + 2"] that by (simp add: add.assoc)
  moreover have "same_off F m (store16 a w m)" for w
    using Suc.prems(1) [of 0] Suc.prems(1) [of 1] by (auto simp: same_off_def store16_def)
  ultimately show ?case
    using Suc.IH [of "a + 2"] Suc.prems(2) same_off_trans by (fastforce simp: Let_def split: prod.splits)
qed (simp add: same_off_refl)

lemma hd_read_writes_in:
  assumes "hd_read_device io d sec a 1 s = (r, s')"
  shows "writes_in (sector_frames a) s s'"
proof -
  have "kva2page (a + of_nat i) \<in> sector_frames a" if "i < 2 * 256" for i
    using that by (auto simp: sector_frames_def)
  note io = insw_same_off [OF this]
  show ?thesis
    using assms
    by (auto simp: hd_read_device_def Let_def writes_in_def same_off_refl intro: printed_upd printed_refl io
        split: if_splits prod.splits)
qed

lemma hd_write_writes_in: "hd_write_device io d sec a n s = (r, s') \<Longrightarrow> writes_in F s s'"
  by (auto simp: hd_write_device_def Let_def writes_in_def same_off_refl intro: printed_upd printed_refl
      split: if_splits prod.splits)

lemma fill_pattern_same_off:
  assumes "n \<le> 512"
  shows "same_off (sector_frames buf) m (fill_pattern buf d 0 n m)"
  unfolding same_off_def
proof (intro allI impI)
  fix a assume a: "kva2page a \<notin> sector_frames buf"
  show "fill_pattern buf d 0 n m a = m a"
    by (rule fill_pattern_other) (use a assms in \<open>auto simp: sector_frames_def\<close>)
qed

lemma only_prints_bind_nat:
  assumes "\<exists>n s'. r = Inr (n, s') \<and> writes_in (busy_frames ks) s s'" and "\<And>n s'. only_prints ks s' (g n s')"
  shows "only_prints ks s (bindE r (\<lambda>(n, s'). g n s'))"
  using assms only_prints_from by fastforce

lemma verify_loop_returns: "\<exists>n s'. verify_loop io rb wb e i k s = Inr (n, s') \<and> writes_in (busy_frames ks) s s'"
proof (induction k arbitrary: e i s)
  case (Suc k)
  let ?row = "cons_printf io (line ''    Mismatch at offset %d: expected 0x%02x, got 0x%02x'')
    [nat_arg i, Word (ucast (mem s (wb + of_nat i))), Word (ucast (mem s (rb + of_nat i)))] s"
  have "only_prints ks s ?row" by (rule only_prints_printf) (simp add: nat_arg_def fits_defs)
  then have "only_prints ks s (if e < 5 then ?row else Inr ((), s))" by (simp add: only_prints_refl)
  then obtain s1 where s1: "(if e < 5 then ?row else Inr ((), s)) = Inr ((), s1)" "writes_in (busy_frames ks) s s1"
    unfolding only_prints_def by blast
  obtain n s2 where s2: "verify_loop io rb wb (e + 1) (i + 1) k s1 = Inr (n, s2)" "writes_in (busy_frames ks) s1 s2"
    using Suc.IH by blast
  show ?case
  proof (cases "mem s (rb + of_nat i) \<noteq> mem s (wb + of_nat i)")
    case True
    then show ?thesis using s1 s2 writes_in_trans [OF s1(2) s2(2)] by (simp add: Let_def)
  next
    case False
    then show ?thesis using Suc.IH [of e "i + 1" s] by simp
  qed
qed (simp add: writes_in_refl)

lemma only_prints_if:
  "(b \<Longrightarrow> only_prints ks s r1) \<Longrightarrow> (\<not> b \<Longrightarrow> only_prints ks s r2) \<Longrightarrow> only_prints ks s (if b then r1 else r2)"
  by simp

lemma writes_in_busy: "writes_in F s s' \<Longrightarrow> F \<subseteq> busy_frames ks \<Longrightarrow> writes_in (busy_frames ks) s s'"
  unfolding writes_in_def using same_off_mono by blast

lemma only_prints_read:
  assumes "\<And>r s'. only_prints ks s' (g r s')"
  shows "only_prints ks s (case hd_read_device io d sec (ks_read_buf ks) 1 s of (r, s') \<Rightarrow> g r s')"
proof -
  obtain r s' where r: "hd_read_device io d sec (ks_read_buf ks) 1 s = (r, s')" by fastforce
  have "writes_in (busy_frames ks) s s'"
    by (rule writes_in_busy [OF hd_read_writes_in [OF r]]) (simp add: busy_frames_def)
  then show ?thesis using only_prints_from [OF _ assms] by (simp add: r)
qed

lemma only_prints_write:
  "(\<And>r s'. only_prints ks s' (g r s')) \<Longrightarrow> only_prints ks s (case hd_write_device io d sec a n s of (r, s') \<Rightarrow> g r s')"
  by (auto split: prod.split intro: only_prints_from [OF hd_write_writes_in])

lemma only_prints_fill_printf:
  assumes "fits fm False False args"
  shows "only_prints ks s (cons_printf io fm args (upd_mem (fill_pattern (ks_write_buf ks) d 0 (unat SECTOR_SIZE)) s))"
proof (rule only_prints_from [OF _ only_prints_printf [OF assms]])
  have "unat SECTOR_SIZE \<le> 512" by (simp add: SECTOR_SIZE_def)
  from fill_pattern_same_off [OF this]
  have "writes_in (sector_frames (ks_write_buf ks)) s (upd_mem (fill_pattern (ks_write_buf ks) d 0 (unat SECTOR_SIZE)) s)"
    by (simp add: writes_in_def printed_upd_mem printed_refl) (simp add: upd_mem_def)
  then show "writes_in (busy_frames ks) s (upd_mem (fill_pattern (ks_write_buf ks) d 0 (unat SECTOR_SIZE)) s)"
    by (rule writes_in_busy) (simp add: busy_frames_def le_supI1)
qed

lemma hd_test_device_prints: "only_prints ks s (hd_test_device io ks d s)"
  unfolding hd_test_device_def Let_def
  by (intro only_prints_if only_prints_bind only_prints_bind_nat only_prints_read only_prints_write
      verify_loop_returns only_prints_refl only_prints_fill_printf only_prints_printfs only_prints_printf)
    (simp_all add: nat_arg_def fits_defs)

lemma hd_test_loop_prints: "only_prints ks s (hd_test_loop io ks d n s)"
  by (induction n arbitrary: d s)
    (simp_all add: only_prints_refl only_prints_bind hd_test_device_prints)

lemma hd_test_prints: "only_prints ks s (hd_test io ks s)"
  unfolding hd_test_def
  by (intro only_prints_if only_prints_bind hd_test_loop_prints only_prints_printfs only_prints_printf)
    (simp_all add: nat_arg_def fits_defs)

section \<open>All commands\<close>

lemma commands_fit:
  "list_all (\<lambda>(fm, args). fits fm False False args)
     (map (\<lambda>(name, desc, _). (line ''  %-10s - %s'', [Str name, Str desc])) cs)"
  by (auto simp: list_all_iff fits_defs)

lemma run_command_prints:
  assumes inv: "sched_inv s ps H" and c: "c \<noteq> Cmd_swap_test"
  shows "only_prints ks s (run_command io ks c s)"
proof (cases c)
  case Cmd_ps
  then show ?thesis by (simp add: print_all_procs_prints [OF inv])
next
  case Cmd_help
  have "list_all (\<lambda>(fm, args). fits fm False False args) ((line ''Available commands:'', []) #
       map (\<lambda>(name, desc, _). (line ''  %-10s - %s'', [Str name, Str desc])) commands)"
    by (simp only: list.pred_inject commands_fit case_prod_conv) (simp add: fits_defs)
  then show ?thesis by (simp only: Cmd_help run_command.simps cmd_help_def) (rule only_prints_printfs)
next
  case Cmd_clear
  have "list_all (\<lambda>(fm, args). fits fm False False args) (replicate SCREEN_ROWS (newline, []))"
    by (simp add: list_all_iff fits_defs)
  then show ?thesis by (simp only: Cmd_clear run_command.simps cmd_clear_def) (rule only_prints_printfs)
next
  case Cmd_dd
  show ?thesis
    by (simp only: Cmd_dd run_command.simps cmd_dd_def) (rule only_prints_printfs, simp add: fits_defs)
next
  case Cmd_disktest
  show ?thesis
    by (simp only: Cmd_disktest run_command.simps cmd_disktest_def)
      (intro only_prints_bind hd_test_prints only_prints_printf, simp add: fits_defs)
next
  case Cmd_uname
  show ?thesis
    by (simp only: Cmd_uname run_command.simps cmd_uname_def) (rule only_prints_printf, simp add: fits_defs)
next
  case Cmd_uname_a
  show ?thesis
    by (simp only: Cmd_uname_a run_command.simps cmd_uname_a_def) (rule only_prints_printf, simp add: fits_defs)
qed (use c in \<open>simp_all add: print_pgdir_prints blk_list_devices_prints cmd_hdparm_prints\<close>)

end
