(* ===== verification/Channel_Laws.thy ===== *)
theory Channel_Laws
  imports Hd_Laws
begin

text \<open>
  Observers of the hardware that do not look at a channel's ports see nothing of a transfer over
  it: another channel, or the log of what was printed.
\<close>

definition channel_apart :: "'h port_io \<Rightarrow> u16 \<Rightarrow> ('h \<Rightarrow> 'x) \<Rightarrow> bool" where
  "channel_apart io base obs \<longleftrightarrow>
     (\<forall>off \<le> 7. \<forall>h v w.
        obs (snd (p_inb io (base + off) h)) = obs h \<and> obs (p_outb io (base + off) v h) = obs h \<and>
        obs (snd (p_inw io (base + off) h)) = obs h \<and> obs (p_outw io (base + off) w h) = obs h)"

lemma channel_apart_ports:
  assumes "channel_apart io base obs" "off \<le> 7"
  shows "obs (snd (inb io (base + off) h)) = obs h" "obs (outb io (base + off) v h) = obs h"
    "obs (snd (p_inw io (base + off) h)) = obs h" "obs (p_outw io (base + off) w h) = obs h"
  using assms by (simp_all add: channel_apart_def inb_def outb_def)

lemma register_numbers:
  "IDE_STATUS \<le> 7" "IDE_COMMAND \<le> 7" "IDE_SECTOR_COUNT \<le> 7" "IDE_LBA_LOW \<le> 7" "IDE_LBA_MID \<le> 7"
  "IDE_LBA_HIGH \<le> 7" "IDE_DEVICE \<le> 7" "IDE_DATA \<le> 7"
  by (simp_all add: ide_defs)

lemma status_apart:
  "channel_apart io base obs \<Longrightarrow> inb io (base + IDE_STATUS) h = (st, h') \<Longrightarrow> obs h' = obs h"
  using channel_apart_ports(1) [OF _ register_numbers(1), of io base obs h] by simp

lemma wait_ready_apart:
  "channel_apart io base obs \<Longrightarrow> wait_ready_loop io base n h = (r, h') \<Longrightarrow> obs h' = obs h"
proof (induction n arbitrary: h)
  case (Suc n)
  obtain st h1 where st: "inb io (base + IDE_STATUS) h = (st, h1)" by fastforce
  then show ?case
    using Suc.prems(2) Suc.IH [OF Suc.prems(1), of h1] status_apart [OF Suc.prems(1) st]
    by (simp add: Let_def split: if_splits)
qed simp

lemma wait_data_apart:
  "channel_apart io base obs \<Longrightarrow> wait_data_loop io base n h = (r, h') \<Longrightarrow> obs h' = obs h"
proof (induction n arbitrary: h)
  case (Suc n)
  obtain st h1 where st: "inb io (base + IDE_STATUS) h = (st, h1)" by fastforce
  then show ?case
    using Suc.prems(2) Suc.IH [OF Suc.prems(1), of h1] status_apart [OF Suc.prems(1) st]
    by (simp add: Let_def split: if_splits)
qed simp

lemma send_command_apart:
  "channel_apart io base obs \<Longrightarrow> obs (send_command io base sel lba cmd h) = obs h"
  by (simp add: send_command_def Let_def channel_apart_ports register_numbers)

lemma insw_apart:
  "channel_apart io base obs \<Longrightarrow> insw io (base + IDE_DATA) a n h m = (h', m') \<Longrightarrow> obs h' = obs h"
proof (induction n arbitrary: a h m)
  case (Suc n)
  have "obs (snd (p_inw io (base + IDE_DATA) h)) = obs h"
    by (rule channel_apart_ports(3) [OF Suc.prems(1) register_numbers(8)])
  then show ?case using Suc by (auto simp: Let_def split: prod.splits)
qed simp

lemma outsw_apart:
  "channel_apart io base obs \<Longrightarrow> obs (outsw io (base + IDE_DATA) a n m h) = obs h"
  by (induction n arbitrary: a h) (simp_all add: channel_apart_ports register_numbers)

lemmas transfer_apart =
  wait_ready_apart wait_data_apart send_command_apart insw_apart outsw_apart

lemma read_loop_apart:
  "channel_apart io base obs \<Longrightarrow> read_loop io base sel sec dst i n h m = (r, h', m') \<Longrightarrow> obs h' = obs h"
proof (induction n arbitrary: i h m)
  case (Suc n)
  obtain r1 h1 where 1: "hd_wait_ready_on_base io base h = (r1, h1)" by fastforce
  let ?h = "send_command io base sel (sec + i) IDE_CMD_READ h1"
  obtain r2 h2 where 2: "hd_wait_data_on_base io base ?h = (r2, h2)" by fastforce
  obtain h3 m3 where 3: "insw io (base + IDE_DATA) (dst + i * SECTOR_SIZE) 256 h2 m = (h3, m3)" by fastforce
  have "obs h1 = obs h" "obs h2 = obs h1" "obs h3 = obs h2"
    using 1 2 3 transfer_apart [OF Suc.prems(1)]
    unfolding hd_wait_ready_on_base_def hd_wait_data_on_base_def by metis+
  then show ?case using Suc.prems(2) Suc.IH [OF Suc.prems(1), of "i + 1" h3 m3] by (auto simp: 1 2 3 split: if_splits)
qed simp

lemma write_loop_apart:
  "channel_apart io base obs \<Longrightarrow> write_loop io base sel sec src i n m h = (r, h') \<Longrightarrow> obs h' = obs h"
proof (induction n arbitrary: i h)
  case (Suc n)
  obtain r1 h1 where 1: "hd_wait_ready_on_base io base h = (r1, h1)" by fastforce
  let ?h = "send_command io base sel (sec + i) IDE_CMD_WRITE h1"
  obtain r2 h2 where 2: "hd_wait_data_on_base io base ?h = (r2, h2)" by fastforce
  let ?h3 = "outsw io (base + IDE_DATA) (src + i * SECTOR_SIZE) 256 m h2"
  obtain r4 h4 where 4: "hd_wait_ready_on_base io base ?h3 = (r4, h4)" by fastforce
  have "obs h1 = obs h" "obs h2 = obs h1" "obs h4 = obs h2"
    using 1 2 4 transfer_apart [OF Suc.prems(1)]
    unfolding hd_wait_ready_on_base_def hd_wait_data_on_base_def by metis+
  then show ?case using Suc.prems(2) Suc.IH [OF Suc.prems(1), of "i + 1" h4] by (auto simp: 1 2 4 Let_def split: if_splits)
qed simp

lemma hd_device_apart:
  assumes "channel_apart io (ide_base (ide_devices s d)) obs"
  shows "hd_write_device io d sec a n s = (r, s') \<Longrightarrow> obs (hw s') = obs (hw s)"
    and "hd_read_device io d sec a n s = (r, s') \<Longrightarrow> obs (hw s') = obs (hw s)"
  using write_loop_apart [OF assms] read_loop_apart [OF assms]
  by (auto simp: hd_write_device_def hd_read_device_def Let_def split: if_splits prod.splits)

end
