(* ===== verification/Text_Laws.thy ===== *)
theory Text_Laws
  imports Swap_Test_Laws
begin

text \<open>
  What is printed, as text: the numerals and fields of the conversions the kernel uses, and that
  \<^verbatim>\<open>cprintf\<close> puts out the text its format stands for. Text that is put out can be told from the
  screen and from the debug port \<^verbatim>\<open>0xE9\<close>, which gets every character.
\<close>

section \<open>Numerals and fields\<close>

definition digit_text :: "nat \<Rightarrow> char" where
  "digit_text d = ''0123456789ABCDEF'' ! d"

definition numeral_text :: "nat \<Rightarrow> nat \<Rightarrow> string" where
  "numeral_text b n = map digit_text (digits b n)"

definition int_text :: "int \<Rightarrow> string" where
  "int_text i = (if i < 0 then ''-'' else []) @ numeral_text 10 (nat \<bar>i\<bar>)"

definition flush_left :: "nat \<Rightarrow> string \<Rightarrow> string" where
  "flush_left n t = t @ replicate (n - length t) CHR '' ''"

text \<open>A word as eight hexadecimal digits.\<close>

definition hex8 :: "u32 \<Rightarrow> string" where
  "hex8 w = (let t = numeral_text 16 (unat w) in replicate (8 - length t) CHR ''0'' @ t)"

abbreviation codes :: "string \<Rightarrow> u32 list" where
  "codes t \<equiv> map putc_of t"

lemma digit_char_text: "d < 16 \<Longrightarrow> digit_char (of_nat d) = putc_of (digit_text d)"
proof -
  assume "d < 16"
  then have "d \<in> set [0..<16]" by simp
  then show ?thesis
    by (simp add: upt_rec [of _ 16] digit_char_def digit_text_def putc_of_def) auto
qed

lemma shown_text:
  assumes "2 \<le> b" "b \<le> 16"
  shows "shown (digits b n) = codes (numeral_text b n)"
proof -
  have "d < 16" if "d \<in> set (digits b n)" for d
    using digits_less [OF assms(1), of n] that assms(2) by fastforce
  then show ?thesis by (simp add: shown_def numeral_text_def digit_char_text)
qed

section \<open>Conversions\<close>

text \<open>A character outside a conversion sets the flags back.\<close>

lemma cprintf_loop_idle: "\<not> transfer f \<Longrightarrow> cprintf_loop cs f args = cprintf cs args"
  by (cases cs) (simp_all add: cprintf_def fmt_step_text fmt_start_def)

lemma cprintf_Nil: "cprintf [] args = Some []"
  by (simp add: cprintf_def)

lemma cprintf_char: "c \<noteq> CHR ''%'' \<Longrightarrow> cprintf (c # cs) args = map_option ((#) (putc_of c)) (cprintf cs args)"
proof -
  have "(@) [x] = (#) x" for x :: u32 by (rule ext) simp
  then show "c \<noteq> CHR ''%'' \<Longrightarrow> ?thesis" by (simp add: cprintf_def fmt_step_text fmt_start_def)
qed

lemma va_u32_signed: "va_signed False (Word w # args) = Some (scast w, args)"
  by (simp add: va_signed_def)

lemma sint_scast_64: "sint (scast (w :: u32) :: u64) = sint w"
  by (simp add: signed_scast_eq signed_take_bit_int_eq_self_iff) (use sint_greater_eq [of w] sint_less [of w] in simp)

lemma scast_neg: "(scast (w :: u32) :: u64) <s 0 \<longleftrightarrow> sint w < 0"
  by (simp add: word_sless_alt sint_scast_64)

lemma print_dec:
  "print_signed_num 10 False (int n) (putc_of CHR '' '') True (Word w # args) =
     Some (codes (flush_left n (int_text (sint w))), args)"
  "print_signed_num 10 False 0 (putc_of CHR '' '') False (Word w # args) =
     Some (codes (int_text (sint w)), args)"
  using shown_text [of 10]
  by (simp_all add: print_signed_num_correct [OF _ va_u32_signed] digit_field_def flush_left_def int_text_def
      sint_scast_64 scast_neg pad_def Let_def nat_diff_distrib' nat_add_distrib)

lemma print_hex:
  "print_num 16 False 8 (putc_of CHR ''0'') False (Word w # args) = Some (codes (hex8 w), args)"
  "print_num 16 False 0 c False (Word w # args) = Some (codes (numeral_text 16 (unat w)), args)"
  using shown_text [of 16]
  by (simp_all add: print_num_correct [where num = "ucast w"] va_num_def digit_field_def hex8_def pad_def Let_def
      unat_ucast_64 nat_diff_distrib')

text \<open>The conversions the kernel's messages use, one after a percent sign.\<close>

lemma converted_Some: "converted f (Some (out, args)) = Some (out, f\<lparr>transfer := False\<rparr>, args)"
  by (simp add: converted_def)

lemma option_out: "map_option ((@) []) x = x" "map_option ((@) [w]) x = map_option ((#) w) x"
  by (cases x; simp)+

lemmas conversion_steps = cprintf_def fmt_start_def fmt_step_def digits19_def converted_Some option_out
lemmas conversion_rest = cprintf_loop_idle [where f = "fmt_start False", simplified fmt_start_def, simplified]
  cprintf_loop_idle option_out

lemma cprintf_dec:
  "cprintf (''%d'' @ cs) (Word w # args) = map_option ((@) (codes (int_text (sint w)))) (cprintf cs args)"
  "cprintf (''%-3d'' @ cs) (Word w # args) =
     map_option ((@) (codes (flush_left 3 (int_text (sint w))))) (cprintf cs args)"
  "cprintf (''%-4d'' @ cs) (Word w # args) =
     map_option ((@) (codes (flush_left 4 (int_text (sint w))))) (cprintf cs args)"
  using print_dec(1) [of 3] print_dec(1) [of 4]
  by (simp_all add: conversion_steps print_dec(2),
      simp_all add: conversion_rest)

lemma cprintf_hex:
  "cprintf (''%08x'' @ cs) (Word w # args) = map_option ((@) (codes (hex8 w))) (cprintf cs args)"
  "cprintf (''%p'' @ cs) (Word w # args) =
     map_option ((@) (codes (numeral_text 16 (unat w)))) (cprintf cs args)"
  by (simp_all add: conversion_steps print_hex,
      simp_all add: conversion_rest)

lemma cprintf_str:
  "cprintf (''%s'' @ cs) (Str t # args) = map_option ((@) (codes t)) (cprintf cs args)"
  "cprintf (''%-4s'' @ cs) (Str t # args) = map_option ((@) (codes (flush_left 4 t))) (cprintf cs args)"
  by (simp_all add: conversion_steps print_str_def Let_def,
      simp_all add: conversion_rest flush_left_def pad_def nat_diff_distrib')

lemma cprintf_chr:
  "cprintf (''%c'' @ cs) (Word w # args) = map_option ((#) w) (cprintf cs args)"
  by (simp add: conversion_steps)

lemmas cprintf_text = cprintf_Nil cprintf_char
  cprintf_dec [unfolded append_Cons append_Nil] cprintf_hex [unfolded append_Cons append_Nil]
  cprintf_str [unfolded append_Cons append_Nil] cprintf_chr [unfolded append_Cons append_Nil]
  line_def newline_def

section \<open>Putting out a text\<close>

definition put_text :: "'h port_io \<Rightarrow> string \<Rightarrow> ('h, 'a) cons_scheme \<Rightarrow> ('h, 'a) cons_scheme" where
  "put_text io t s = cons_out io (codes t) s"

lemma put_text_Nil: "put_text io [] s = s"
  by (simp add: put_text_def cons_out_def)

lemma put_text_append: "put_text io (t @ u) s = put_text io u (put_text io t s)"
  by (simp add: put_text_def cons_out_def)

lemma put_text_shows: "shows_text s (put_text io t s)"
  unfolding put_text_def by (rule cons_out_shows)

lemma put_text_printed: "printed s (put_text io t s)"
  using put_text_shows unfolding shows_text_def by blast

lemma cons_printf_text: "cprintf fm args = Some (codes t) \<Longrightarrow> cons_printf io fm args s = Inr ((), put_text io t s)"
  by (simp add: cons_printf_def put_text_def)

lemma printfs_text:
  "list_all2 (\<lambda>(fm, args) t. cprintf fm args = Some (codes t)) ps ts \<Longrightarrow>
   printfs io ps s = Inr ((), put_text io (concat ts) s)"
proof (induction ps ts arbitrary: s rule: list_all2_induct)
  case (Cons p ps t ts)
  then show ?case by (cases p) (simp add: cons_printf_text put_text_append)
qed (simp add: put_text_Nil)

section \<open>Observing the output\<close>

text \<open>
  An observer of the hardware that does not look at the cursor registers, and to which a character
  at the debug port does \<open>k\<close>. What it sees after a text does not depend on the screen.
\<close>

definition hears :: "'h port_io \<Rightarrow> ('h \<Rightarrow> 'x) \<Rightarrow> (u8 \<Rightarrow> 'x \<Rightarrow> 'x) \<Rightarrow> bool" where
  "hears io obs k \<longleftrightarrow>
     (\<forall>v h. obs (p_outb io CGA_IDX_REG v h) = obs h \<and> obs (p_outb io CGA_DATA_REG v h) = obs h \<and>
        obs (p_outb io 0xE9 v h) = k v (obs h))"

lemma fold_snoc: "fold (\<lambda>v l. l @ [v]) vs l = l @ vs"
  by (induction vs arbitrary: l) simp_all

lemma fold_skip: "fold (\<lambda>_ a. a) vs x = x"
  by (induction vs) simp_all

lemma hears_cga_putc:
  assumes "hears io obs k"
  shows "obs (hw (cga_putc io c s)) = obs (hw s)"
proof -
  have "hw (cga_newline t) = hw t" for t :: "('a, 'c) cons_scheme"
    by (simp add: cga_newline_def cga_return_def cga_scrup_def Let_def upd_mem_def)
  moreover have "obs (hw (cur_update io t)) = obs (hw t)" for t :: "('a, 'c) cons_scheme"
    using assms by (simp add: cur_update_def Let_def outb_def hears_def)
  ultimately show ?thesis by (simp add: cga_putc_def Let_def upd_mem_def cga_return_def)
qed

lemma ucast_putc_of: "ucast (putc_of c) = (of_char c :: u8)"
  by (intro bit_word_eqI) (simp add: putc_of_def bit_ucast_iff bit_simps)

lemma hears_text:
  assumes "hears io obs k"
  shows "obs (hw (put_text io t s)) = fold k (map of_char t) (obs (hw s))"
proof (induction t arbitrary: s)
  case (Cons c t)
  have "obs (hw (cons_putc io (putc_of c) s)) = k (of_char c) (obs (hw s))"
    using assms by (simp add: cons_putc_def Let_def outb_def ucast_putc_of)
      (simp add: hears_def hears_cga_putc [OF assms])
  then show ?case using Cons.IH [of "cons_putc io (putc_of c) s"] by (simp add: put_text_def cons_out_def)
qed (simp add: put_text_Nil)

text \<open>The log of the debug port: every character is appended to it.\<close>

definition logs :: "'h port_io \<Rightarrow> ('h \<Rightarrow> u8 list) \<Rightarrow> bool" where
  "logs io log \<longleftrightarrow> hears io log (\<lambda>v l. l @ [v])"

lemma logs_text: "logs io log \<Longrightarrow> log (hw (put_text io t s)) = log (hw s) @ map of_char t"
  by (simp add: logs_def hears_text fold_snoc)

end
