(* ===== verification/Disktest_Laws.thy ===== *)
theory Disktest_Laws
  imports Commands_Laws Disk_Laws Channel_Laws Text_Laws
begin

text \<open>
  Printing between disk transfers: the console's ports are not the drive's, so that what a
  drive holds and the memory off the screen outlive it. With it the shell's \<^verbatim>\<open>disktest\<close>: with
  working drives it passes on all of them, and sector 100 of each is lost.
\<close>

section \<open>Printing beside a drive\<close>

definition console_apart :: "'h port_io \<Rightarrow> ('h \<Rightarrow> ata) \<Rightarrow> bool" where
  "console_apart io view \<longleftrightarrow>
     (\<forall>port \<in> {CGA_IDX_REG, CGA_DATA_REG, 0xE9}. \<forall>v h. view (p_outb io port v h) = view h)"

definition prints_only :: "('h \<Rightarrow> ata) \<Rightarrow> ('h, 'a) cons_scheme \<Rightarrow> ('h, 'a) cons_scheme \<Rightarrow> bool" where
  "prints_only view s s' \<longleftrightarrow> shows_text s s' \<and> view (hw s') = view (hw s)"

lemma prints_only_refl: "prints_only view s s"
  by (simp add: prints_only_def shows_text_refl)

lemma prints_only_trans: "prints_only view s s' \<Longrightarrow> prints_only view s' s'' \<Longrightarrow> prints_only view s s''"
  unfolding prints_only_def using shows_text_trans by metis

lemma cga_putc_view:
  assumes "console_apart io view"
  shows "view (hw (cga_putc io c s)) = view (hw s)"
proof -
  have "hw (cga_newline t) = hw t" for t :: "('a, 'b) cons_scheme"
    by (simp add: cga_newline_def cga_return_def cga_scrup_def Let_def upd_mem_def)
  moreover have "view (hw (cur_update io t)) = view (hw t)" for t :: "('a, 'b) cons_scheme"
    using assms by (simp add: cur_update_def Let_def outb_def console_apart_def)
  ultimately show ?thesis by (simp add: cga_putc_def Let_def upd_mem_def cga_return_def)
qed

lemma cons_out_prints_only:
  assumes "console_apart io view"
  shows "prints_only view s (cons_out io cs s)"
proof -
  have p: "view (hw (cons_putc io c t)) = view (hw t)" for c and t :: "('a, 'b) cons_scheme"
    using cga_putc_view [OF assms] assms by (simp add: cons_putc_def Let_def outb_def console_apart_def)
  have "view (hw (cons_out io cs s)) = view (hw s)"
    unfolding cons_out_def by (induction cs arbitrary: s) (simp_all add: p)
  then show ?thesis using cons_out_shows by (simp add: prints_only_def)
qed

lemma cons_printf_prints_only:
  assumes "fits fm False False args" "console_apart io view"
  obtains s' where "cons_printf io fm args s = Inr ((), s')" "prints_only view s s'"
  using cprintf_fits [OF assms(1)] cons_out_prints_only [OF assms(2), of s] by (auto simp: cons_printf_def)

lemma put_text_prints_only: "console_apart io view \<Longrightarrow> prints_only view s (put_text io t s)"
  unfolding put_text_def by (rule cons_out_prints_only)

lemma console_apart_hears: "console_apart io view \<longleftrightarrow> hears io view (\<lambda>_ a. a)"
  by (auto simp: console_apart_def hears_def)

lemma printfs_prints_only:
  "list_all (\<lambda>(fm, args). fits fm False False args) ps \<Longrightarrow> console_apart io view \<Longrightarrow>
   \<exists>s'. printfs io ps s = Inr ((), s') \<and> prints_only view s s'"
proof (induction ps arbitrary: s)
  case (Cons p ps)
  obtain fm args where p: "p = (fm, args)" by (cases p)
  then have "fits fm False False args" using Cons.prems(1) by simp
  from cons_printf_prints_only [OF this Cons.prems(2), of s] obtain s1 where
    s1: "cons_printf io fm args s = Inr ((), s1)" "prints_only view s s1" by metis
  have "list_all (\<lambda>(fm, args). fits fm False False args) ps" using Cons.prems(1) by simp
  from Cons.IH [OF this Cons.prems(2), of s1] obtain s2 where
    "printfs io ps s1 = Inr ((), s2)" "prints_only view s1 s2" by metis
  then show ?case using s1 prints_only_trans [OF s1(2)] by (simp add: p)
qed (simp add: prints_only_refl)

lemma prints_only_devices:
  assumes "prints_only view s s'"
  shows "ide_devices s' = ide_devices s" "hd_ok io view d s' = hd_ok io view d s"
    "hd_in_range d k n s' = hd_in_range d k n s" "hd_sector view d s' = hd_sector view d s"
    "kva2page a \<notin> screen_frames \<Longrightarrow> mem s' a = mem s a"
proof -
  obtain m h p where s': "s' = s\<lparr>mem := m, hw := h, crt_pos := p\<rparr>"
    using assms by (auto simp: prints_only_def shows_text_def printed_def)
  then show "ide_devices s' = ide_devices s" by simp
  then show "hd_ok io view d s' = hd_ok io view d s" "hd_in_range d k n s' = hd_in_range d k n s"
    "hd_sector view d s' = hd_sector view d s"
    using assms by (simp_all add: hd_ok_def hd_in_range_def hd_sector_def prints_only_def)
  show "mem s' a = mem s a" if "kva2page a \<notin> screen_frames"
    using assms that by (simp add: prints_only_def shows_text_def same_off_def)
qed

section \<open>The disk test on one drive\<close>

definition pattern_byte :: "nat \<Rightarrow> nat \<Rightarrow> u8" where
  "pattern_byte d i = of_nat (i + d * 17)"

lemma fill_pattern_apply:
  "i + n \<le> 512 \<Longrightarrow> k < n \<Longrightarrow> fill_pattern buf d i n m (buf + of_nat (i + k)) = pattern_byte d (i + k)"
proof (induction n arbitrary: i m k)
  case (Suc n)
  show ?case
  proof (cases k)
    case 0
    have "(of_nat i :: u32) \<noteq> of_nat (i + 1 + j)" if "j < n" for j
    proof
      assume "(of_nat i :: u32) = of_nat (i + 1 + j)"
      from arg_cong [OF this, of unat] show False using Suc.prems(1) that by (simp only: unat_of_nat) simp
    qed
    then have "fill_pattern buf d (i + 1) n m' (buf + of_nat i) = m' (buf + of_nat i)" for m'
      by (intro fill_pattern_other) auto
    then show ?thesis by (simp add: 0 pattern_byte_def)
  next
    case (Suc j)
    then show ?thesis using Suc.IH [of "i + 1" j] Suc.prems by (simp add: add.assoc add.commute)
  qed
qed simp

text \<open>Equal buffers verify without a message.\<close>

lemma verify_loop_equal:
  "\<forall>k < n. mem s (rb + of_nat (i + k)) = mem s (wb + of_nat (i + k)) \<Longrightarrow>
   verify_loop io rb wb e i n s = Inr (e, s)"
proof (induction n arbitrary: i)
  case (Suc n)
  have "mem s (rb + of_nat i) = mem s (wb + of_nat i)" using Suc.prems by force
  moreover have "mem s (rb + of_nat (i + 1 + k)) = mem s (wb + of_nat (i + 1 + k))" if "k < n" for k
    using Suc.prems [rule_format, of "Suc k"] that by simp
  ultimately show ?case using Suc.IH [of "i + 1"] by simp
qed simp

text \<open>The two static buffers, apart from each other and from the screen.\<close>

definition test_buffers_ok :: "kernel_symbols \<Rightarrow> bool" where
  "test_buffers_ok ks \<longleftrightarrow>
     (\<forall>i < 512. kva2page (ks_write_buf ks + of_nat i) \<notin> screen_frames \<and>
        kva2page (ks_read_buf ks + of_nat i) \<notin> screen_frames \<and>
        (\<forall>j < 512. ks_write_buf ks + of_nat i \<noteq> ks_read_buf ks + of_nat j))"

text \<open>What the test prints on a drive where it passes: its stages, and the whole.\<close>

definition test_head :: "string \<Rightarrow> nat \<Rightarrow> u32 \<Rightarrow> string" where
  "test_head nm d sz =
     ''--- Testing '' @ nm @ '' (dev_id='' @ int_text (int d) @ '') ---'' @ newline @
     ''  Size: '' @ int_text (sint sz) @ '' sectors ('' @ int_text (sint (sz div 2048)) @ '' MB)'' @ newline"

definition test_writing :: string where
  "test_writing = ''  Test 1: Write sector 100...'' @ newline"

definition test_reading :: string where
  "test_reading = ''    OK'' @ newline @ ''  Test 2: Read sector 100...'' @ newline"

definition test_verifying :: string where
  "test_verifying = ''    OK'' @ newline @ ''  Test 3: Verify data...'' @ newline"

definition test_passed :: "string \<Rightarrow> string" where
  "test_passed nm = ''    OK'' @ newline @ ''  '' @ nm @ '' test PASSED'' @ newline @ newline"

definition device_text :: "string \<Rightarrow> nat \<Rightarrow> u32 \<Rightarrow> string" where
  "device_text nm d sz =
     test_head nm d sz @ test_writing @ test_reading @ test_verifying @ test_passed nm"

lemma int_text_100: "int_text 100 = ''100''"
  by (simp add: int_text_def numeral_text_def digits.simps digit_text_def)

lemma sint_small: "d < 2 ^ 31 \<Longrightarrow> sint (of_nat d :: u32) = int d"
  using take_bit_nat_eq_self [of d 32]
  by (simp add: sint_uint unsigned_of_nat signed_take_bit_int_eq_self)

lemma test_printfs:
  "d < 4 \<Longrightarrow> printfs io [(line ''--- Testing %s (dev_id=%d) ---'', [Str nm, nat_arg d]),
     (line ''  Size: %d sectors (%d MB)'', [Word sz, Word (sz div 2048)])] s = Inr ((), put_text io (test_head nm d sz) s)"
  "cons_printf io (line ''  Test 1: Write sector %d...'') [Word 100] s = Inr ((), put_text io test_writing s)"
  "printfs io [(line ''    OK'', []), (line ''  Test 2: Read sector %d...'', [Word 100])] s =
     Inr ((), put_text io test_reading s)"
  "printfs io [(line ''    OK'', []), (line ''  Test 3: Verify data...'', [])] s = Inr ((), put_text io test_verifying s)"
  "bindE (cons_printf io (line ''    OK'') [] s) (\<lambda>(_, s).
     cons_printf io (line ''  %s test %s'' @ newline) [Str nm, Str ''PASSED''] s) = Inr ((), put_text io (test_passed nm) s)"
proof -
  show "printfs io [(line ''--- Testing %s (dev_id=%d) ---'', [Str nm, nat_arg d]),
     (line ''  Size: %d sectors (%d MB)'', [Word sz, Word (sz div 2048)])] s = Inr ((), put_text io (test_head nm d sz) s)"
    if "d < 4"
    using that by (subst printfs_text [where ts = "[''--- Testing '' @ nm @ '' (dev_id='' @ int_text (int d) @ '') ---'' @ newline,
      ''  Size: '' @ int_text (sint sz) @ '' sectors ('' @ int_text (sint (sz div 2048)) @ '' MB)'' @ newline]"])
      (simp_all add: cprintf_text nat_arg_def sint_small test_head_def)
  show "cons_printf io (line ''  Test 1: Write sector %d...'') [Word 100] s = Inr ((), put_text io test_writing s)"
    by (rule cons_printf_text) (simp add: cprintf_text int_text_100 test_writing_def)
  show "printfs io [(line ''    OK'', []), (line ''  Test 2: Read sector %d...'', [Word 100])] s =
     Inr ((), put_text io test_reading s)"
    by (subst printfs_text [where ts = "[''    OK'' @ newline, ''  Test 2: Read sector 100...'' @ newline]"])
      (simp_all add: cprintf_text int_text_100 test_reading_def)
  show "printfs io [(line ''    OK'', []), (line ''  Test 3: Verify data...'', [])] s = Inr ((), put_text io test_verifying s)"
    by (subst printfs_text [where ts = "[''    OK'' @ newline, ''  Test 3: Verify data...'' @ newline]"])
      (simp_all add: cprintf_text test_verifying_def)
  have 1: "cons_printf io (line ''    OK'') [] s = Inr ((), put_text io (''    OK'' @ newline) s)" for s
    by (rule cons_printf_text) (simp add: cprintf_text)
  have 2: "cons_printf io (line ''  %s test %s'' @ newline) [Str nm, Str ''PASSED''] s =
      Inr ((), put_text io (''  '' @ nm @ '' test PASSED'' @ newline @ newline) s)" for s
    by (rule cons_printf_text) (simp add: cprintf_text)
  show "bindE (cons_printf io (line ''    OK'') [] s) (\<lambda>(_, s).
     cons_printf io (line ''  %s test %s'' @ newline) [Str nm, Str ''PASSED''] s) = Inr ((), put_text io (test_passed nm) s)"
    by (simp only: 1 2 bindE_Inr case_prod_conv test_passed_def append_assoc flip: put_text_append)
qed

text \<open>
  The test up to its write: the pattern is in the write buffer, and the command leaves it in sector 100.
\<close>

definition test_started :: "'h port_io \<Rightarrow> kernel_symbols \<Rightarrow> nat \<Rightarrow> ('h, 'a) cons_scheme \<Rightarrow> ('h, 'a) cons_scheme" where
  "test_started io ks d s =
     put_text io test_writing (upd_mem (fill_pattern (ks_write_buf ks) d 0 (unat SECTOR_SIZE))
       (put_text io (test_head (ide_name (ide_devices s d)) d (di_size (ide_info (ide_devices s d)))) s))"

lemma disktest_write_stage:
  assumes ok: "hd_ok io view d s" and rg: "hd_in_range d 100 1 s" and ap: "console_apart io view"
    and bufs: "test_buffers_ok ks"
  obtains h where
    "hd_write_device io d 100 (ks_write_buf ks) 1 (test_started io ks d s) = (0, (test_started io ks d s)\<lparr>hw := h\<rparr>)"
    "ata_disk (view h) = put_sectors (ide_drive (ide_devices s d) \<noteq> 0) 100 1 (ks_write_buf ks) (mem (test_started io ks d s))
       (ata_disk (view (hw s)))"
    "ide_devices (test_started io ks d s) = ide_devices s" "hd_ok io view d ((test_started io ks d s)\<lparr>hw := h\<rparr>)"
    "hd_in_range d 100 1 ((test_started io ks d s)\<lparr>hw := h\<rparr>)"
    "\<And>i. i < 512 \<Longrightarrow> mem (test_started io ks d s) (ks_write_buf ks + of_nat i) = pattern_byte d i"
proof -
  let ?wb = "ks_write_buf ks"
  let ?s1 = "put_text io (test_head (ide_name (ide_devices s d)) d (di_size (ide_info (ide_devices s d)))) s"
  let ?s2 = "upd_mem (fill_pattern ?wb d 0 (unat SECTOR_SIZE)) ?s1" and ?s3 = "test_started io ks d s"
  have s1: "prints_only view s ?s1" and s3: "prints_only view ?s2 ?s3"
    using put_text_prints_only [OF ap] by (simp_all add: test_started_def)
  have d3: "ide_devices ?s3 = ide_devices s" "hd_ok io view d ?s3" "hd_in_range d 100 1 ?s3" "view (hw ?s3) = view (hw s)"
    using prints_only_devices(1-3) [OF s1] prints_only_devices(1-3) [OF s3] s1 s3 ok rg
    by (simp_all add: upd_mem_def hd_ok_def hd_in_range_def prints_only_def)
  obtain h where h: "hd_write_device io d 100 ?wb 1 ?s3 = (0, ?s3\<lparr>hw := h\<rparr>)" "ata_ready (view h)"
    "ata_disk (view h) = put_sectors (ide_drive (ide_devices s d) \<noteq> 0) 100 1 ?wb (mem ?s3) (ata_disk (view (hw ?s3)))"
    using hd_write_device_result [OF d3(2,3), of ?wb] d3(1) by auto
  have "mem ?s3 (?wb + of_nat i) = pattern_byte d i" if "i < 512" for i
  proof -
    have "kva2page (?wb + of_nat i) \<notin> screen_frames" using bufs that by (simp add: test_buffers_ok_def)
    from prints_only_devices(5) [OF s3 this] show ?thesis
      using fill_pattern_apply [of 0 512 i ?wb d] that by (simp add: upd_mem_def SECTOR_SIZE_def)
  qed
  moreover have "hd_ok io view d (?s3\<lparr>hw := h\<rparr>)" "hd_in_range d 100 1 (?s3\<lparr>hw := h\<rparr>)"
    using d3(2,3) h(2) by (simp_all add: hd_ok_def hd_in_range_def)
  ultimately show ?thesis using that [OF h(1)] h(3) d3(1,4) by simp
qed

text \<open>
  The rest of the test, when the sector holds the write buffer: it reads the sector into the other
  buffer, finds no difference, and has changed no sector.
\<close>

lemma disktest_read_stage:
  assumes ok: "hd_ok io view d s" and rg: "hd_in_range d 100 1 s" and ap: "console_apart io view"
    and bufs: "test_buffers_ok ks"
    and sec: "hd_sector view d s 100 = load_words (ks_write_buf ks) 256 (mem s)"
    and pat: "\<And>i. i < 512 \<Longrightarrow> mem s (ks_write_buf ks + of_nat i) = pattern_byte d i"
  obtains s2 where
    "hd_read_device io d 100 (ks_read_buf ks) 1 (put_text io test_reading s) = (0, s2)"
    "verify_loop io (ks_read_buf ks) (ks_write_buf ks) 0 0 (unat SECTOR_SIZE) (put_text io test_verifying s2) =
       Inr (0, put_text io test_verifying s2)"
    "ide_devices s2 = ide_devices s" "ata_ready (view (hw s2))" "ata_disk (view (hw s2)) = ata_disk (view (hw s))"
proof -
  let ?wb = "ks_write_buf ks" and ?rb = "ks_read_buf ks" and ?s1 = "put_text io test_reading s"
  have s1: "prints_only view s ?s1" by (rule put_text_prints_only [OF ap])
  have d1: "hd_ok io view d ?s1" "hd_in_range d 100 1 ?s1" "hd_sector view d ?s1 100 = hd_sector view d s 100"
    using prints_only_devices(1-3) [OF s1] s1 ok rg
    by (simp_all add: hd_ok_def hd_in_range_def prints_only_def hd_sector_def)
  let ?ws = "load_words ?wb 256 (mem s)"
  have "sector_words (hd_sector view d ?s1) 100 1 = ?ws" using d1(3) sec by (simp add: sector_words_def)
  then obtain h where h: "hd_read_device io d 100 ?rb 1 ?s1 = (0, ?s1\<lparr>hw := h, mem := store_words ?rb ?ws (mem ?s1)\<rparr>)"
    "ata_ready (view h)" "ata_disk (view h) = ata_disk (view (hw ?s1))"
    using hd_read_device_result [OF d1(1,2), of ?rb] by auto
  let ?s2 = "?s1\<lparr>hw := h, mem := store_words ?rb ?ws (mem ?s1)\<rparr>" and ?s3 = "put_text io test_verifying
    (?s1\<lparr>hw := h, mem := store_words ?rb ?ws (mem ?s1)\<rparr>)"
  have lw: "load_words ?rb 256 (mem ?s2) = ?ws" using load_store_words [of ?ws ?rb "mem ?s1"] by simp
  have s3: "prints_only view ?s2 ?s3" by (rule put_text_prints_only [OF ap])
  have both: "mem ?s3 (?wb + of_nat i) = pattern_byte d i" "mem ?s3 (?rb + of_nat i) = pattern_byte d i" if i: "i < 512" for i
  proof -
    have off: "kva2page (?wb + of_nat i) \<notin> screen_frames" "kva2page (?rb + of_nat i) \<notin> screen_frames"
      and ne: "\<And>j. j < 512 \<Longrightarrow> ?wb + of_nat i \<noteq> ?rb + of_nat j"
      using bufs i by (auto simp: test_buffers_ok_def)
    have "store_words ?rb ?ws (mem ?s1) (?wb + of_nat i) = mem ?s1 (?wb + of_nat i)"
      by (rule store_words_other) (use ne in simp)
    then show "mem ?s3 (?wb + of_nat i) = pattern_byte d i"
      using prints_only_devices(5) [OF s3 off(1)] prints_only_devices(5) [OF s1 off(1)] pat [OF i] by simp
    have "mem ?s2 (?rb + of_nat i) = mem s (?wb + of_nat i)" using load_words_bytes [OF lw] i by simp
    then show "mem ?s3 (?rb + of_nat i) = pattern_byte d i"
      using prints_only_devices(5) [OF s3 off(2)] pat [OF i] by simp
  qed
  have "verify_loop io ?rb ?wb 0 0 (unat SECTOR_SIZE) ?s3 = Inr (0, ?s3)"
    by (rule verify_loop_equal) (simp add: both SECTOR_SIZE_def)
  moreover have "ide_devices ?s2 = ide_devices s" "ata_disk (view (hw ?s2)) = ata_disk (view (hw s))"
    using prints_only_devices(1) [OF s1] s1 h(3) by (simp_all add: prints_only_def)
  ultimately show ?thesis using that [OF h(1)] h(2) by simp
qed

text \<open>The sector of the test pattern of a device.\<close>

definition pattern_words :: "nat \<Rightarrow> u16 list" where
  "pattern_words d =
     map (\<lambda>i. ucast (pattern_byte d (2 * i)) OR push_bit 8 (ucast (pattern_byte d (2 * i + 1)))) [0..<256]"

lemma load_words_map: "load_words a n m = map (\<lambda>i. load16 m (a + of_nat (2 * i))) [0..<n]"
proof (induction n arbitrary: a)
  case (Suc n)
  have "[0..<Suc n] = 0 # map Suc [0..<n]" by (simp add: upt_conv_Cons map_Suc_upt)
  then show ?case using Suc.IH [of "a + 2"] by (simp add: o_def algebra_simps)
qed simp

lemma load_pattern:
  assumes "\<And>i. i < 512 \<Longrightarrow> m (a + of_nat i) = pattern_byte d i"
  shows "load_words a 256 m = pattern_words d"
proof -
  have "load16 m (a + of_nat (2 * i)) =
      ucast (pattern_byte d (2 * i)) OR push_bit 8 (ucast (pattern_byte d (2 * i + 1)))" if "i < 256" for i
    using assms [of "2 * i"] assms [of "2 * i + 1"] that by (simp add: load16_def algebra_simps)
  then show ?thesis by (simp add: load_words_map pattern_words_def)
qed

text \<open>The whole test on a working drive.\<close>

lemma disktest_run:
  assumes ok: "hd_ok io view d s" and rg: "hd_in_range d 100 1 s" and ap: "console_apart io view"
    and bufs: "test_buffers_ok ks" and d: "d < 4"
  obtains s3 s4 s6 where
    "s3 = test_started io ks d s" "hd_write_device io d 100 (ks_write_buf ks) 1 s3 = (0, s4)"
    "hd_read_device io d 100 (ks_read_buf ks) 1 (put_text io test_reading s4) = (0, s6)"
    "hd_test_device io ks d s = Inr ((), put_text io (test_passed (ide_name (ide_devices s d))) (put_text io test_verifying s6))"
    "ide_devices s3 = ide_devices s" "ide_devices s4 = ide_devices s" "ide_devices s6 = ide_devices s" "ata_ready (view (hw s6))"
    "ata_disk (view (hw s6)) = put_sector (ide_drive (ide_devices s d) \<noteq> 0) 100 (pattern_words d) (ata_disk (view (hw s)))"
proof -
  let ?sl = "ide_drive (ide_devices s d) \<noteq> 0" and ?name = "Str (ide_name (ide_devices s d))"
  have pr: "ide_present (ide_devices s d)" using ok by (simp add: hd_ok_def)
  obtain s3 where s3: "s3 = test_started io ks d s" by simp
  obtain h where w: "hd_write_device io d 100 (ks_write_buf ks) 1 s3 = (0, s3\<lparr>hw := h\<rparr>)"
    "ata_disk (view h) = put_sectors ?sl 100 1 (ks_write_buf ks) (mem s3) (ata_disk (view (hw s)))"
    "ide_devices s3 = ide_devices s" "hd_ok io view d (s3\<lparr>hw := h\<rparr>)" "hd_in_range d 100 1 (s3\<lparr>hw := h\<rparr>)"
    "\<And>i. i < 512 \<Longrightarrow> mem s3 (ks_write_buf ks + of_nat i) = pattern_byte d i"
    unfolding s3 using disktest_write_stage [OF ok rg ap bufs] by blast
  let ?s4 = "s3\<lparr>hw := h\<rparr>"
  have sec: "hd_sector view d ?s4 100 = load_words (ks_write_buf ks) 256 (mem ?s4)"
    by (simp add: hd_sector_def w(2,3) put_sectors_def)
  obtain s6 where r: "hd_read_device io d 100 (ks_read_buf ks) 1 (put_text io test_reading ?s4) = (0, s6)"
    "verify_loop io (ks_read_buf ks) (ks_write_buf ks) 0 0 (unat SECTOR_SIZE) (put_text io test_verifying s6) =
       Inr (0, put_text io test_verifying s6)"
    "ide_devices s6 = ide_devices ?s4" "ata_ready (view (hw s6))" "ata_disk (view (hw s6)) = ata_disk (view (hw ?s4))"
    by (rule disktest_read_stage [OF w(4,5) ap bufs sec]) (use w(6) in simp, blast)
  note t = test_printfs(1) [OF d, of io "ide_name (ide_devices s d)"] test_printfs(2-5)
  have run: "hd_test_device io ks d s =
      Inr ((), put_text io (test_passed (ide_name (ide_devices s d))) (put_text io test_verifying s6))"
    unfolding hd_test_device_def Let_def
    by (simp only: pr not_True_eq_False if_False t bindE_Inr case_prod_conv w(1) r(1,2)
        s3 [unfolded test_started_def, symmetric] order.irrefl simp_thms if_True)
  have "load_words (ks_write_buf ks) 256 (mem s3) = pattern_words d" by (rule load_pattern [OF w(6)])
  then have "put_sectors ?sl 100 1 (ks_write_buf ks) (mem s3) dk = put_sector ?sl 100 (pattern_words d) dk" for dk
    by (auto simp: put_sectors_def put_sector_def fun_eq_iff)
  then show ?thesis using that [OF s3 w(1) r(1) run] w(2,3) r(3-5) by simp
qed


section \<open>The test on all drives\<close>

text \<open>
  Every present drive works and has a sector 100: the channel at the base \<open>b\<close>, whose state is
  \<open>view b\<close>, obeys the ATA protocol, and is apart from the console, from the other channel and from
  the log of what is printed; no two devices are the same drive of the same channel.
\<close>

definition disks_work ::
  "'h port_io \<Rightarrow> (u16 \<Rightarrow> 'h \<Rightarrow> ata) \<Rightarrow> ('h \<Rightarrow> u8 list) \<Rightarrow> ('h, 'a) hd_scheme \<Rightarrow> bool" where
  "disks_work io view log s \<longleftrightarrow> logs io log \<and>
     (\<forall>d < 4. ide_present (ide_devices s d) \<longrightarrow>
        (let b = ide_base (ide_devices s d) in
         hd_ok io (view b) d s \<and> hd_in_range d 100 1 s \<and> console_apart io (view b) \<and> channel_apart io b log \<and>
         (\<forall>e < 4. ide_present (ide_devices s e) \<longrightarrow>
            (if ide_base (ide_devices s e) \<noteq> b then channel_apart io b (view (ide_base (ide_devices s e)))
             else e = d \<or> (ide_drive (ide_devices s e) \<noteq> 0) \<noteq> (ide_drive (ide_devices s d) \<noteq> 0)))))"

lemma disks_workD:
  assumes "disks_work io view log s" "d < 4" "ide_present (ide_devices s d)" "b = ide_base (ide_devices s d)"
  shows "hd_ok io (view b) d s" "hd_in_range d 100 1 s" "console_apart io (view b)" "channel_apart io b log"
    "e < 4 \<Longrightarrow> ide_present (ide_devices s e) \<Longrightarrow> ide_base (ide_devices s e) \<noteq> b \<Longrightarrow>
       channel_apart io b (view (ide_base (ide_devices s e)))"
    "e < 4 \<Longrightarrow> ide_present (ide_devices s e) \<Longrightarrow> ide_base (ide_devices s e) = b \<Longrightarrow>
       (ide_drive (ide_devices s e) \<noteq> 0) = (ide_drive (ide_devices s d) \<noteq> 0) \<Longrightarrow> e = d"
  using assms by (auto simp: disks_work_def Let_def split: if_splits)

lemma disks_work_cong:
  assumes "disks_work io view log s" "ide_devices s' = ide_devices s"
    and "\<And>e. e < 4 \<Longrightarrow> ide_present (ide_devices s e) \<Longrightarrow> ata_ready (view (ide_base (ide_devices s e)) (hw s'))"
  shows "disks_work io view log s'"
  using assms(1,3) unfolding disks_work_def Let_def hd_ok_def hd_in_range_def assms(2) by blast

text \<open>What the test of one device prints, and what it does to the sectors of the channel at \<open>b\<close>.\<close>

definition tested_text :: "(nat \<Rightarrow> ide_device) \<Rightarrow> nat \<Rightarrow> string" where
  "tested_text dv d =
     (if ide_present (dv d) then device_text (ide_name (dv d)) d (di_size (ide_info (dv d))) else [])"

definition tested_disk ::
  "(nat \<Rightarrow> ide_device) \<Rightarrow> u16 \<Rightarrow> nat \<Rightarrow> (bool \<Rightarrow> nat \<Rightarrow> u16 list) \<Rightarrow> bool \<Rightarrow> nat \<Rightarrow> u16 list" where
  "tested_disk dv b d dk =
     (if ide_present (dv d) \<and> ide_base (dv d) = b then put_sector (ide_drive (dv d) \<noteq> 0) 100 (pattern_words d) dk
      else dk)"

text \<open>An observer that is apart from the channel hears what is printed, and nothing else.\<close>

lemma disktest_heard:
  assumes ok: "hd_ok io view d s" "hd_in_range d 100 1 s" "console_apart io view" "test_buffers_ok ks" "d < 4"
    and h: "hears io obs k" "channel_apart io (ide_base (ide_devices s d)) obs"
    and r: "hd_test_device io ks d s = Inr ((), s')"
  shows "obs (hw s') = fold k (map of_char (tested_text (ide_devices s) d)) (obs (hw s))"
proof -
  let ?nm = "ide_name (ide_devices s d)"
  obtain s3 s4 s6 where t: "s3 = test_started io ks d s" "hd_write_device io d 100 (ks_write_buf ks) 1 s3 = (0, s4)"
    "hd_read_device io d 100 (ks_read_buf ks) 1 (put_text io test_reading s4) = (0, s6)"
    "hd_test_device io ks d s = Inr ((), put_text io (test_passed ?nm) (put_text io test_verifying s6))"
    "ide_devices s3 = ide_devices s" "ide_devices s4 = ide_devices s"
    by (rule disktest_run [OF ok]) blast
  have "ide_devices (put_text io test_reading s4) = ide_devices s"
    using prints_only_devices(1) [OF put_text_prints_only [OF ok(3), of s4 test_reading]] t(6) by simp
  then have "obs (hw s6) = obs (hw (put_text io test_reading s4))" "obs (hw s4) = obs (hw s3)"
    using hd_device_apart(1) [OF _ t(2)] hd_device_apart(2) [OF _ t(3)] h(2) t(5) by simp_all
  moreover have "ide_present (ide_devices s d)" using ok(1) by (simp add: hd_ok_def)
  moreover have "hw (upd_mem f t) = hw t" for f and t :: "('a, 'b) cons_scheme" by (simp add: upd_mem_def)
  moreover have "s' = put_text io (test_passed ?nm) (put_text io test_verifying s6)" using r t(4) by simp
  ultimately show ?thesis
    by (simp add: t(1) hears_text [OF h(1)] test_started_def tested_text_def device_text_def)
qed

lemma disktest_step:
  assumes w: "disks_work io view log s" and bufs: "test_buffers_ok ks" and d: "d < 4"
  obtains s' where "hd_test_device io ks d s = Inr ((), s')" "ide_devices s' = ide_devices s"
    "disks_work io view log s'" "log (hw s') = log (hw s) @ map of_char (tested_text (ide_devices s) d)"
    "\<And>e. e < 4 \<Longrightarrow> ide_present (ide_devices s e) \<Longrightarrow>
       ata_disk (view (ide_base (ide_devices s e)) (hw s')) =
       tested_disk (ide_devices s) (ide_base (ide_devices s e)) d (ata_disk (view (ide_base (ide_devices s e)) (hw s)))"
proof (cases "ide_present (ide_devices s d)")
  case False
  then have "hd_test_device io ks d s = Inr ((), s)" by (simp add: hd_test_device_def Let_def)
  then show ?thesis using that [of s] w False by (simp add: tested_text_def tested_disk_def)
next
  case True
  let ?b = "ide_base (ide_devices s d)"
  note D = disks_workD [OF w d True refl]
  obtain s6 where t: "hd_test_device io ks d s =
      Inr ((), put_text io (test_passed (ide_name (ide_devices s d))) (put_text io test_verifying s6))"
    "ide_devices s6 = ide_devices s" "ata_ready (view ?b (hw s6))"
    "ata_disk (view ?b (hw s6)) = put_sector (ide_drive (ide_devices s d) \<noteq> 0) 100 (pattern_words d) (ata_disk (view ?b (hw s)))"
    by (rule disktest_run [OF D(1-3) bufs d]) blast
  let ?s = "put_text io (test_passed (ide_name (ide_devices s d))) (put_text io test_verifying s6)"
  have q: "prints_only (view ?b) s6 ?s" by (rule prints_only_trans; rule put_text_prints_only [OF D(3)])
  have v: "view ?b (hw ?s) = view ?b (hw s6)" and dv: "ide_devices ?s = ide_devices s"
    using q prints_only_devices(1) [OF q] t(2) by (simp_all add: prints_only_def)
  note heard = disktest_heard [OF D(1-3) bufs d _ _ t(1)]
  have other: "view (ide_base (ide_devices s e)) (hw ?s) = view (ide_base (ide_devices s e)) (hw s)"
    if e: "e < 4" "ide_present (ide_devices s e)" "ide_base (ide_devices s e) \<noteq> ?b" for e
    using heard [OF disks_workD(3) [OF w e(1,2) refl, unfolded console_apart_hears] D(5) [OF e]] by (simp add: fold_skip)
  have lg: "log (hw ?s) = log (hw s) @ map of_char (tested_text (ide_devices s) d)"
    using heard [OF _ D(4), of "\<lambda>v l. l @ [v]"] w by (simp add: disks_work_def logs_def fold_snoc)
  have rd: "ata_ready (view (ide_base (ide_devices s e)) (hw ?s))" if "e < 4" "ide_present (ide_devices s e)" for e
    using other [OF that] v t(3) disks_workD(1) [OF w that refl]
    by (cases "ide_base (ide_devices s e) = ?b") (simp_all add: hd_ok_def)
  have "ata_disk (view (ide_base (ide_devices s e)) (hw ?s)) =
      tested_disk (ide_devices s) (ide_base (ide_devices s e)) d (ata_disk (view (ide_base (ide_devices s e)) (hw s)))"
    if "e < 4" "ide_present (ide_devices s e)" for e
    using other [OF that] v t(4) True
    by (cases "ide_base (ide_devices s e) = ?b") (simp_all add: tested_disk_def)
  then show ?thesis using that [OF t(1) dv disks_work_cong [OF w dv rd] lg] by blast
qed

text \<open>The loop: what is printed, and the sectors, add up.\<close>

lemma disktest_loop:
  assumes "disks_work io view log s" and bufs: "test_buffers_ok ks" and "i + n \<le> 4"
  shows "\<exists>s'. hd_test_loop io ks i n s = Inr ((), s') \<and> ide_devices s' = ide_devices s \<and> disks_work io view log s' \<and>
    log (hw s') = log (hw s) @ map of_char (concat (map (tested_text (ide_devices s)) [i..<i + n])) \<and>
    (\<forall>e < 4. ide_present (ide_devices s e) \<longrightarrow>
       ata_disk (view (ide_base (ide_devices s e)) (hw s')) =
       fold (tested_disk (ide_devices s) (ide_base (ide_devices s e))) [i..<i + n]
         (ata_disk (view (ide_base (ide_devices s e)) (hw s))))"
  using assms(1,3)
proof (induction n arbitrary: i s)
  case (Suc n)
  have "i < 4" using Suc.prems(2) by simp
  from disktest_step [OF Suc.prems(1) bufs this] obtain s1 where s1:
    "hd_test_device io ks i s = Inr ((), s1)" "ide_devices s1 = ide_devices s" "disks_work io view log s1"
    "log (hw s1) = log (hw s) @ map of_char (tested_text (ide_devices s) i)"
    "\<And>e. e < 4 \<Longrightarrow> ide_present (ide_devices s e) \<Longrightarrow>
       ata_disk (view (ide_base (ide_devices s e)) (hw s1)) =
       tested_disk (ide_devices s) (ide_base (ide_devices s e)) i (ata_disk (view (ide_base (ide_devices s e)) (hw s)))"
    by blast
  have "i + 1 + n \<le> 4" using Suc.prems(2) by simp
  from Suc.IH [OF s1(3) this] obtain s2 where s2: "hd_test_loop io ks (i + 1) n s1 = Inr ((), s2)"
    "ide_devices s2 = ide_devices s" "disks_work io view log s2"
    "log (hw s2) = log (hw s1) @ map of_char (concat (map (tested_text (ide_devices s)) [i + 1..<i + 1 + n]))"
    "\<And>e. e < 4 \<Longrightarrow> ide_present (ide_devices s e) \<Longrightarrow>
       ata_disk (view (ide_base (ide_devices s e)) (hw s2)) =
       fold (tested_disk (ide_devices s) (ide_base (ide_devices s e))) [i + 1..<i + 1 + n]
         (ata_disk (view (ide_base (ide_devices s e)) (hw s1)))"
    unfolding s1(2) by blast
  have "[i..<i + Suc n] = i # [i + 1..<i + 1 + n]" by (simp add: upt_conv_Cons)
  then show ?case using s1(1) s2(1-3) by (simp add: s2(4,5) s1(4,5))
qed simp

text \<open>A sector that no tested drive has as its sector 100 is left, the others get their pattern.\<close>

lemma tested_disks_other:
  assumes "\<And>d. d \<in> set ds \<Longrightarrow> ide_present (dv d) \<Longrightarrow> ide_base (dv d) = b \<Longrightarrow> (ide_drive (dv d) \<noteq> 0) = dr \<Longrightarrow> l \<noteq> 100"
  shows "fold (tested_disk dv b) ds dk dr l = dk dr l"
  using assms
proof (induction ds arbitrary: dk)
  case (Cons d ds)
  have "tested_disk dv b d dk dr l = dk dr l"
    using Cons.prems [of d] by (auto simp: tested_disk_def put_sector_def)
  moreover have "fold (tested_disk dv b) ds (tested_disk dv b d dk) dr l = tested_disk dv b d dk dr l"
    by (rule Cons.IH) (use Cons.prems in auto)
  ultimately show ?case by simp
qed simp

lemma tested_disks_same:
  assumes "distinct ds" "d \<in> set ds" "ide_present (dv d)"
    and "\<And>e. e \<in> set ds \<Longrightarrow> ide_present (dv e) \<Longrightarrow> ide_base (dv e) = ide_base (dv d) \<Longrightarrow>
      (ide_drive (dv e) \<noteq> 0) = (ide_drive (dv d) \<noteq> 0) \<Longrightarrow> e = d"
  shows "fold (tested_disk dv (ide_base (dv d))) ds dk (ide_drive (dv d) \<noteq> 0) 100 = pattern_words d"
proof -
  obtain as bs where ds: "ds = as @ d # bs" using assms(2) by (metis split_list)
  then have "d \<notin> set bs" using assms(1) by simp
  have "fold (tested_disk dv (ide_base (dv d))) bs (tested_disk dv (ide_base (dv d)) d dk') (ide_drive (dv d) \<noteq> 0) 100 =
      tested_disk dv (ide_base (dv d)) d dk' (ide_drive (dv d) \<noteq> 0) 100" for dk'
    by (rule tested_disks_other) (use assms(4) ds \<open>d \<notin> set bs\<close> in auto)
  then show ?thesis using assms(3) by (simp add: ds) (simp add: tested_disk_def put_sector_def)
qed

text \<open>All that the command prints.\<close>

definition disktest_text :: "('h, 'a) hd_scheme \<Rightarrow> string" where
  "disktest_text s =
     ''Running disk test...'' @ newline @ newline @ ''=== Multi-Disk Test ==='' @ newline @
     ''Testing '' @ int_text (sint (of_nat (hd_num_devices s) :: u32)) @ '' disk device(s)'' @ newline @ newline @
     concat (map (tested_text (ide_devices s)) [0..<4]) @
     ''=== Multi-Disk Test Complete ==='' @ newline @ newline"

lemma disktest_messages:
  "cons_printf io (line ''Running disk test...'') [] s = Inr ((), put_text io (''Running disk test...'' @ newline) s)"
  "printfs io [(newline @ line ''=== Multi-Disk Test ==='', []), (line ''Testing %d disk device(s)'' @ newline, [nat_arg k])] s =
     Inr ((), put_text io (newline @ ''=== Multi-Disk Test ==='' @ newline @
       ''Testing '' @ int_text (sint (of_nat k :: u32)) @ '' disk device(s)'' @ newline @ newline) s)"
  "cons_printf io (line ''=== Multi-Disk Test Complete ==='' @ newline) [] s =
     Inr ((), put_text io (''=== Multi-Disk Test Complete ==='' @ newline @ newline) s)"
  by (rule cons_printf_text, simp add: cprintf_text,
      subst printfs_text [where ts = "[newline @ ''=== Multi-Disk Test ==='' @ newline,
        ''Testing '' @ int_text (sint (of_nat k :: u32)) @ '' disk device(s)'' @ newline @ newline]"],
      simp_all add: cprintf_text nat_arg_def,
      rule cons_printf_text, simp add: cprintf_text)

lemma put_text_devices: "ide_devices (put_text io t s) = ide_devices s" "hd_num_devices (put_text io t s) = hd_num_devices s"
  using put_text_printed [of s io t] by (auto simp: printed_def)

lemma disks_work_text:
  assumes w: "disks_work io view log s"
  shows "disks_work io view log (put_text io t s)"
    and "e < 4 \<Longrightarrow> ide_present (ide_devices s e) \<Longrightarrow>
      view (ide_base (ide_devices s e)) (hw (put_text io t s)) = view (ide_base (ide_devices s e)) (hw s)"
    and "log (hw (put_text io t s)) = log (hw s) @ map of_char t"
proof -
  show v: "view (ide_base (ide_devices s e)) (hw (put_text io t s)) = view (ide_base (ide_devices s e)) (hw s)"
    if "e < 4" "ide_present (ide_devices s e)" for e
    using put_text_prints_only [OF disks_workD(3) [OF w that refl], of s t] by (simp add: prints_only_def)
  show "disks_work io view log (put_text io t s)"
    by (rule disks_work_cong [OF w put_text_devices(1)]) (use v disks_workD(1) [OF w _ _ refl] in \<open>simp add: hd_ok_def\<close>)
  show "log (hw (put_text io t s)) = log (hw s) @ map of_char t"
    using w by (simp add: disks_work_def logs_text)
qed

lemma cmd_disktest_run:
  assumes w: "disks_work io view log s" and n: "0 < hd_num_devices s" and bufs: "test_buffers_ok ks"
  obtains s' where "cmd_disktest io ks s = Inr ((), s')" "ide_devices s' = ide_devices s"
    "log (hw s') = log (hw s) @ map of_char (disktest_text s)"
    "\<And>e. e < 4 \<Longrightarrow> ide_present (ide_devices s e) \<Longrightarrow>
       ata_disk (view (ide_base (ide_devices s e)) (hw s')) =
       fold (tested_disk (ide_devices s) (ide_base (ide_devices s e))) [0..<4]
         (ata_disk (view (ide_base (ide_devices s e)) (hw s)))"
proof -
  let ?t1 = "''Running disk test...'' @ newline" and ?t2 = "newline @ ''=== Multi-Disk Test ==='' @ newline @
       ''Testing '' @ int_text (sint (of_nat (hd_num_devices s) :: u32)) @ '' disk device(s)'' @ newline @ newline"
    and ?t3 = "''=== Multi-Disk Test Complete ==='' @ newline @ newline"
  let ?s1 = "put_text io ?t2 (put_text io ?t1 s)"
  note w1 = disks_work_text [OF w, where t = ?t1]
  note w2 = disks_work_text [OF w1(1), where t = ?t2]
  obtain s2 where s2: "hd_test_loop io ks 0 4 ?s1 = Inr ((), s2)" "ide_devices s2 = ide_devices s" "disks_work io view log s2"
    "log (hw s2) = log (hw ?s1) @ map of_char (concat (map (tested_text (ide_devices s)) [0..<4]))"
    "\<And>e. e < 4 \<Longrightarrow> ide_present (ide_devices s e) \<Longrightarrow>
       ata_disk (view (ide_base (ide_devices s e)) (hw s2)) =
       fold (tested_disk (ide_devices s) (ide_base (ide_devices s e))) [0..<4]
         (ata_disk (view (ide_base (ide_devices s e)) (hw ?s1)))"
    using disktest_loop [OF w2(1) bufs, of 0 4] unfolding put_text_devices by auto
  note w3 = disks_work_text [OF s2(3), where t = ?t3]
  let ?s' = "put_text io ?t3 s2"
  have "cmd_disktest io ks s = Inr ((), ?s')"
    unfolding cmd_disktest_def hd_test_def disktest_messages(1) bindE_Inr case_prod_conv put_text_devices
    by (simp only: disktest_messages bindE_Inr case_prod_conv n neq0_conv [symmetric] if_False MAX_IDE_DEVICES_def s2(1)
        put_text_devices not_gr_zero simp_thms) (use n in simp)
  moreover have "log (hw ?s') = log (hw s) @ map of_char (disktest_text s)"
    by (simp only: w3(3) s2(4) w2(3) w1(3) disktest_text_def map_append append_assoc)
  moreover have "view (ide_base (ide_devices s e)) (hw ?s') = view (ide_base (ide_devices s e)) (hw s2)"
    "view (ide_base (ide_devices s e)) (hw ?s1) = view (ide_base (ide_devices s e)) (hw s)"
    if "e < 4" "ide_present (ide_devices s e)" for e
    using that w3(2) w2(2) w1(2) by (simp_all add: put_text_devices s2(2))
  ultimately show ?thesis using that [of ?s'] s2(2,5) by (simp add: put_text_devices)
qed

text \<open>
  C30. \<^verbatim>\<open>disktest\<close>, when all drives that were found obey the ATA protocol and have a sector
  100. It returns, having printed the whole report, in which every present drive passed. Sector
  100 of every one of them then holds that drive's test pattern, whatever was in it before; every
  other sector of their channels is as it was, and no memory was written but the screen and the
  two buffers.
\<close>

theorem disktest_overwrites_sector:
  assumes "disks_work io view log s" and "0 < hd_num_devices s" and "test_buffers_ok ks"
  shows "\<exists>s'. cmd_disktest io ks s = Inr ((), s') \<and>
    log (hw s') = log (hw s) @ map of_char (disktest_text s) \<and>
    (\<forall>d < 4. ide_present (ide_devices s d) \<longrightarrow>
       hd_sector (view (ide_base (ide_devices s d))) d s' 100 = pattern_words d) \<and>
    (\<forall>d < 4. ide_present (ide_devices s d) \<longrightarrow>
       (\<forall>dr l. l \<noteq> 100 \<or> (\<forall>e < 4. ide_present (ide_devices s e) \<longrightarrow>
            ide_base (ide_devices s e) = ide_base (ide_devices s d) \<longrightarrow> (ide_drive (ide_devices s e) \<noteq> 0) \<noteq> dr) \<longrightarrow>
          ata_disk (view (ide_base (ide_devices s d)) (hw s')) dr l =
          ata_disk (view (ide_base (ide_devices s d)) (hw s)) dr l)) \<and>
    writes_in (busy_frames ks) s s'"
proof -
  obtain s' where s': "cmd_disktest io ks s = Inr ((), s')" "ide_devices s' = ide_devices s"
    "log (hw s') = log (hw s) @ map of_char (disktest_text s)"
    "\<And>e. e < 4 \<Longrightarrow> ide_present (ide_devices s e) \<Longrightarrow>
       ata_disk (view (ide_base (ide_devices s e)) (hw s')) =
       fold (tested_disk (ide_devices s) (ide_base (ide_devices s e))) [0..<4]
         (ata_disk (view (ide_base (ide_devices s e)) (hw s)))"
    using cmd_disktest_run [OF assms] by blast
  have "hd_sector (view (ide_base (ide_devices s d))) d s' 100 = pattern_words d"
    if "d < 4" "ide_present (ide_devices s d)" for d
    unfolding hd_sector_def s'(2) s'(4) [OF that]
    by (rule tested_disks_same) (use that disks_workD(6) [OF assms(1) that refl] in auto)
  moreover have "ata_disk (view (ide_base (ide_devices s d)) (hw s')) dr l =
      ata_disk (view (ide_base (ide_devices s d)) (hw s)) dr l"
    if d: "d < 4" "ide_present (ide_devices s d)" and
      o: "l \<noteq> 100 \<or> (\<forall>e < 4. ide_present (ide_devices s e) \<longrightarrow>
        ide_base (ide_devices s e) = ide_base (ide_devices s d) \<longrightarrow> (ide_drive (ide_devices s e) \<noteq> 0) \<noteq> dr)" for d dr l
    unfolding s'(4) [OF d] by (rule tested_disks_other) (use o in auto)
  moreover have "writes_in (busy_frames ks) s s'"
  proof -
    have "fits (line ''Running disk test...'') False False []" by (simp add: fits_defs)
    then have "only_prints ks s (cmd_disktest io ks s)"
      unfolding cmd_disktest_def by (intro only_prints_bind hd_test_prints only_prints_printf)
    then show ?thesis using s'(1) by (simp add: only_prints_def)
  qed
  ultimately show ?thesis using s'(1,3) by blast
qed

lemma demo_buffer:
  assumes "i < 512" and that: "a = 0xC0131000 \<or> a = 0xC0132000"
  shows "unat (a + of_nat i) = unat a + i" "kva2page (a + of_nat i) = (unat (P_ADDR a) + i) div 4096"
proof -
  have i: "unat (of_nat i :: u32) = i" using assms by (simp add: unat_of_nat)
  show "unat (a + of_nat i) = unat a + i"
    by (subst unat_add_small) (use that assms i in auto)
  have "unat (P_ADDR a + of_nat i) = unat (P_ADDR a) + i"
    by (subst unat_add_small) (use that assms i in \<open>auto simp: P_ADDR_def KERNEL_BASE_def\<close>)
  moreover have "P_ADDR (a + of_nat i) = P_ADDR a + of_nat i" by (simp add: P_ADDR_def algebra_simps)
  ultimately show "kva2page (a + of_nat i) = (unat (P_ADDR a) + i) div 4096"
    by (simp add: kva2page_def unat_pa2page)
qed

lemma demo_buffers_ok: "test_buffers_ok demo_ks"
proof -
  have "0xC0131000 + of_nat i \<noteq> (0xC0132000 + of_nat j :: u32)" if "i < 512" "j < 512" for i j
    using demo_buffer(1) [OF that(1), of "0xC0131000"] demo_buffer(1) [OF that(2), of "0xC0132000"] that by auto
  then show ?thesis
    unfolding test_buffers_ok_def demo_ks_def
    by (auto simp: demo_buffer(2) P_ADDR_def KERNEL_BASE_def screen_frames_def)
qed

lemma sim_console_apart: "console_apart sim_io id"
  by (simp add: console_apart_def sim_io_def sim_outb_def CGA_IDX_REG_def CGA_DATA_REG_def ide_defs)

text \<open>
  A machine with two drives on the first channel and a log of the debug port: the channel is the
  first component of the hardware, the log the second.
\<close>

definition logged :: "'h port_io \<Rightarrow> ('h \<times> u8 list) port_io" where
  "logged io =
     \<lparr>p_inb = (\<lambda>port (h, l). let (v, h) = p_inb io port h in (v, h, l)),
      p_inw = (\<lambda>port (h, l). let (v, h) = p_inw io port h in (v, h, l)),
      p_inl = (\<lambda>port (h, l). let (v, h) = p_inl io port h in (v, h, l)),
      p_outb = (\<lambda>port v (h, l). (p_outb io port v h, if port = 0xE9 then l @ [v] else l)),
      p_outw = (\<lambda>port w (h, l). (p_outw io port w h, l))\<rparr>"

definition demo_disks :: "(ata \<times> u8 list) cons" where
  "demo_disks = vmm.extend demo_vmm \<lparr>hw = (sim_ata, []), irq_mask = 0xFFFF, ticks = 0,
     ide_devices = (\<lambda>d. (identified d sim_identify)\<lparr>ide_present := d < 2\<rparr>), hd_num_devices = 2,
     block_devices = (\<lambda>_. None), num_devices = 0,
     disk_devs = (\<lambda>_. disk_of 0 sim_hda), swap_mgr = Mgr_Null, max_swap_offset = 0, swap_device = None,
     swap_offset = 1, crt_pos = 0\<rparr>"

lemma logged_simps:
  "p_outb (logged io) port v h = (p_outb io port v (fst h), if port = 0xE9 then snd h @ [v] else snd h)"
  "fst (p_inb (logged io) port h) = fst (p_inb io port (fst h))"
  "snd (p_inb (logged io) port h) = (snd (p_inb io port (fst h)), snd h)"
  "fst (p_inw (logged io) port h) = fst (p_inw io port (fst h))"
  "snd (p_inw (logged io) port h) = (snd (p_inw io port (fst h)), snd h)"
  "p_outw (logged io) port w h = (p_outw io port w (fst h), snd h)"
  by (cases h; simp add: logged_def case_prod_beta)+

lemma logged_channel: "ata_channel io base id \<Longrightarrow> ata_channel (logged io) base fst"
  by (simp add: ata_channel_def ata_polls_def ata_latches_def ata_commands_def ata_gives_def ata_takes_def logged_simps
      cong: if_cong)

lemma demo_disks_simps:
  "hw demo_disks = (sim_ata, [])" "ide_present (ide_devices demo_disks d) \<longleftrightarrow> d < 2" "hd_num_devices demo_disks = 2"
  "d < 2 \<Longrightarrow> ide_base (ide_devices demo_disks d) = IDE0_BASE" "d < 2 \<Longrightarrow> (ide_drive (ide_devices demo_disks d) \<noteq> 0) = (d = 1)"
  "di_size (ide_info (ide_devices demo_disks d)) = 0x4000"
  by (auto simp: demo_disks_def vmm.defs identified_def ide_configs_def sim_identify_def less_2_cases_iff
      case_prod_beta Let_def)

lemma demo_disks_work: "disks_work (logged sim_io) (\<lambda>_. fst) snd demo_disks"
proof -
  have "logs (logged sim_io) snd"
    by (simp add: logs_def hears_def logged_simps CGA_IDX_REG_def CGA_DATA_REG_def)
  moreover have "console_apart (logged sim_io) fst"
    using sim_console_apart by (simp add: console_apart_def logged_simps)
  moreover have "channel_apart (logged sim_io) IDE0_BASE snd"
  proof -
    have "IDE0_BASE + off \<noteq> 0xE9" if "off \<le> 7" for off
    proof
      assume "IDE0_BASE + off = 0xE9"
      then have "off = 0xE9 - IDE0_BASE" by (simp add: eq_diff_eq add.commute)
      then show False using that by (simp add: IDE0_BASE_def)
    qed
    then show ?thesis by (simp add: channel_apart_def logged_simps)
  qed
  ultimately show ?thesis
    using logged_channel [OF sim_channel] sim_ata_ready
    by (auto simp: disks_work_def hd_ok_def hd_in_range_def demo_disks_simps less_2_cases_iff)
qed

theorem disktest_overwrites_sector_witness:
  "\<exists>s'. cmd_disktest (logged sim_io) demo_ks demo_disks = Inr ((), s') \<and>
     snd (hw s') = map of_char (disktest_text demo_disks) \<and>
     ata_disk (fst (hw demo_disks)) True 100 = replicate 256 0 \<and>
     ata_disk (fst (hw s')) False 100 ! 2 = 0x0504 \<and> ata_disk (fst (hw s')) True 100 ! 2 = 0x1615 \<and>
     ata_disk (fst (hw s')) True 99 = replicate 256 0"
proof -
  obtain s' where s': "cmd_disktest (logged sim_io) demo_ks demo_disks = Inr ((), s')"
    "snd (hw s') = snd (hw demo_disks) @ map of_char (disktest_text demo_disks)"
    "\<forall>d < 4. ide_present (ide_devices demo_disks d) \<longrightarrow> hd_sector fst d s' 100 = pattern_words d"
    "ata_disk (fst (hw s')) True 99 = ata_disk (fst (hw demo_disks)) True 99"
    "writes_in (busy_frames demo_ks) demo_disks s'"
    using disktest_overwrites_sector [OF demo_disks_work _ demo_buffers_ok]
    by (force simp: demo_disks_simps)
  have dv: "ide_devices s' = ide_devices demo_disks"
    using s'(5) by (auto simp: writes_in_def printed_def)
  have "ata_disk (fst (hw s')) False 100 = pattern_words 0" "ata_disk (fst (hw s')) True 100 = pattern_words 1"
    using s'(3) [rule_format, of 0] s'(3) [rule_format, of 1] by (simp_all add: demo_disks_simps hd_sector_def dv)
  moreover have "pattern_words 0 ! 2 = 0x0504" "pattern_words 1 ! 2 = 0x1615"
    by (simp_all add: pattern_words_def pattern_byte_def)
  ultimately show ?thesis using s'(1,2,4) by (simp add: demo_disks_simps sim_ata_def)
qed

end
