(* ===== verification/Trap_Laws.thy ===== *)
theory Trap_Laws
  imports Commands_Laws
begin

text \<open>
  The kernel between traps: what a keystroke or a timer tick may change, the invariant of the
  whole (well-formed process tables, a well-formed command line, the list the tests find the
  \<^verbatim>\<open>mm_struct\<close> through), and that no interrupt and no scheduling step leaves it.
\<close>

section \<open>What a character may change\<close>

definition keeps_procs :: "('h, 'a) sched_scheme \<Rightarrow> ('h, 'a) sched_scheme \<Rightarrow> bool" where
  "keeps_procs s s' \<longleftrightarrow>
     (\<forall>x. x \<notin> test_nodes \<longrightarrow>
        nxt (links s') x = nxt (links s) x \<and> prv (links s') x = prv (links s) x) \<and>
     pages s' = pages s \<and> npage s' = npage s \<and> nr_free s' = nr_free s \<and>
     mm_pgdir s' = mm_pgdir s \<and> if_flag s' = if_flag s \<and> shell.more s' = shell.more s"

lemma keeps_refl: "keeps_procs s s"
  by (simp add: keeps_procs_def)

lemma keeps_trans: "keeps_procs s s' \<Longrightarrow> keeps_procs s' s'' \<Longrightarrow> keeps_procs s s''"
  by (simp add: keeps_procs_def)

lemma keeps_upd:
  "keeps_procs s s' \<Longrightarrow> keeps_procs s (s'\<lparr>mem := m\<rparr>)"
  "keeps_procs s s' \<Longrightarrow> keeps_procs s (s'\<lparr>hw := h\<rparr>)"
  "keeps_procs s s' \<Longrightarrow> keeps_procs s (s'\<lparr>ticks := t\<rparr>)"
  "keeps_procs s s' \<Longrightarrow> keeps_procs s (s'\<lparr>crt_pos := p\<rparr>)"
  "keeps_procs s s' \<Longrightarrow> keeps_procs s (s'\<lparr>cmd_buffer := b\<rparr>)"
  "keeps_procs s s' \<Longrightarrow> keeps_procs s (s'\<lparr>cmd_pos := n\<rparr>)"
  by (simp_all add: keeps_procs_def)

lemma printed_keeps:
  assumes "printed s (s' :: ('h, 'a) sched_scheme)"
  shows "keeps_procs s s'" "cmd_pos s' = cmd_pos s" "cmd_buffer s' = cmd_buffer s"
proof -
  obtain m h p where "s' = s\<lparr>mem := m, hw := h, crt_pos := p\<rparr>" using assms unfolding printed_def by blast
  then show "keeps_procs s s'" "cmd_pos s' = cmd_pos s" "cmd_buffer s' = cmd_buffer s"
    by (simp_all add: keeps_upd keeps_refl)
qed

lemma test_frame_keeps:
  assumes "test_frame s (s' :: ('h, 'a) sched_scheme)"
  shows "keeps_procs s s'" "cmd_pos s' = cmd_pos s"
proof -
  have t: "tests.more s' = tests.more s" using assms by (simp add: test_frame_def)
  then have "shell.more s' = shell.more s \<and> cmd_pos s' = cmd_pos s" by (cases s; cases s') simp
  then show "keeps_procs s s'" "cmd_pos s' = cmd_pos s"
    using assms by (simp_all add: test_frame_def keeps_procs_def)
qed

lemma keeps_fields:
  assumes "keeps_procs s s'"
  shows "tasks s' = tasks s" "tframes s' = tframes s" "current s' = current s" "idle_proc s' = idle_proc s"
    "init_proc s' = init_proc s" "nr_process s' = nr_process s" "next_pid s' = next_pid s"
proof -
  have "shell.more s' = shell.more s" using assms by (simp add: keeps_procs_def)
  then show "tasks s' = tasks s" "tframes s' = tframes s" "current s' = current s" "idle_proc s' = idle_proc s"
    "init_proc s' = init_proc s" "nr_process s' = nr_process s" "next_pid s' = next_pid s"
    by (cases s; cases s'; simp)+
qed

lemma keeps_link:
  assumes "keeps_procs s s'" "x \<notin> test_nodes"
  shows "nxt (links s') x = nxt (links s) x" "prv (links s') x = prv (links s) x"
  using assms by (auto simp: keeps_procs_def)

text \<open>No free block is a test page, so the free list is as it was.\<close>

lemma keeps_ff:
  assumes k: "keeps_procs s s'" and np: "unat (npage s) \<le> KFRAMES"
  shows "ff_inv s' = ff_inv s"
proof
  fix bs
  have eq: "pages s' = pages s" "npage s' = npage s" "nr_free s' = nr_free s"
    using k by (simp_all add: keeps_procs_def)
  then have b: "block_ok s' = block_ok s" by (simp add: block_ok_def fun_eq_iff)
  show "ff_inv s' bs = ff_inv s bs"
  proof (cases "(\<forall>b \<in> set bs. block_ok s b) \<and> set (frames bs) \<subseteq> {..<unat (npage s)}")
    case True
    have "PageLink p \<notin> test_nodes" if "p < unat (npage s)" for p
      using that np by (auto simp: test_nodes_def test_page_def KFRAMES_def)
    moreover have "block_link ` set bs \<subseteq> PageLink ` {..<unat (npage s)}"
      using True heads_sub [of bs s] by blast
    ultimately have "x \<notin> test_nodes" if "x \<in> set (FreeHead # map block_link bs)" for x
      using that by (auto simp: test_nodes_def)
    then have "clist (links s') FreeHead (map block_link bs) = clist (links s) FreeHead (map block_link bs)"
      by (intro clist_frame keeps_link [OF k])
    then show ?thesis by (simp add: ff_inv_def eq b)
  qed (auto simp: ff_inv_def eq b)
qed

lemma keeps_inv:
  assumes k: "keeps_procs s s'" and inv: "sched_inv s ps H"
  shows "sched_inv s' ps H"
proof -
  note e = keeps_fields [OF k]
  have eq: "npage s' = npage s" "mm_pgdir s' = mm_pgdir s" using k by (simp_all add: keeps_procs_def)
  have np: "unat (npage s) \<le> KFRAMES" using inv by (simp add: sched_inv_def proc_frames_def)
  have ff: "ff_ok s' = ff_ok s" "ff_avail s' = ff_avail s"
    using keeps_ff [OF k np] by (simp_all add: ff_ok_def ff_avail_def)
  have "clist (links s') ProcHead (map ListLink ps) = clist (links s) ProcHead (map ListLink ps)"
    "clist (links s') (HashHead h) (map HashLink (H h)) = clist (links s) (HashHead h) (map HashLink (H h))" for h
    by (rule clist_frame; rule keeps_link [OF k]; auto simp: test_nodes_def)+
  then show ?thesis
    using inv by (simp add: sched_inv_def sched_inv_parts e eq ff)
qed

section \<open>The invariant\<close>

definition kern_ok :: "('h, 'a) sched_scheme \<Rightarrow> u32 list \<Rightarrow> (nat \<Rightarrow> u32 list) \<Rightarrow> bool" where
  "kern_ok s ps H \<longleftrightarrow> sched_inv s ps H \<and> line_ok s \<and> prv (links s) MmapHead = MmapHead"

lemma keeps_ok:
  assumes "keeps_procs s s'" "kern_ok s ps H" "line_ok s'"
  shows "kern_ok s' ps H"
  using assms keeps_inv [OF assms(1)] keeps_link(2) [OF assms(1), of MmapHead]
  by (simp add: kern_ok_def test_nodes_def image_iff)

text \<open>With the console's and the disk test's memory, all that a character changes.\<close>

definition keeps_memory :: "kernel_symbols \<Rightarrow> ('h, 'a) sched_scheme \<Rightarrow> ('h, 'a) sched_scheme \<Rightarrow> bool" where
  "keeps_memory ks s s' \<longleftrightarrow> keeps_procs s s' \<and> ticks s' = ticks s \<and> same_off (busy_frames ks) (mem s) (mem s')"

lemma memory_refl: "keeps_memory ks s s"
  by (simp add: keeps_memory_def keeps_refl same_off_refl)

lemma memory_trans: "keeps_memory ks s s' \<Longrightarrow> keeps_memory ks s' s'' \<Longrightarrow> keeps_memory ks s s''"
  unfolding keeps_memory_def using keeps_trans same_off_trans by metis

lemma memory_upd:
  "keeps_memory ks s s' \<Longrightarrow> keeps_memory ks s (s'\<lparr>hw := h\<rparr>)"
  "keeps_memory ks s s' \<Longrightarrow> keeps_memory ks s (s'\<lparr>cmd_buffer := b\<rparr>)"
  "keeps_memory ks s s' \<Longrightarrow> keeps_memory ks s (s'\<lparr>cmd_pos := n\<rparr>)"
  by (simp_all add: keeps_memory_def keeps_upd)

lemma writes_keeps:
  assumes "writes_in (busy_frames ks) s (s' :: ('h, 'a) sched_scheme)"
  shows "keeps_memory ks s s'"
proof -
  have p: "printed s s'" and m: "same_off (busy_frames ks) (mem s) (mem s')"
    using assms by (simp_all add: writes_in_def)
  have "ticks s' = ticks s" using p unfolding printed_def by force
  then show ?thesis using printed_keeps(1) [OF p] m by (simp add: keeps_memory_def)
qed

lemma shows_keeps: "shows_text s (s' :: ('h, 'a) sched_scheme) \<Longrightarrow> keeps_memory ks s s'"
  by (rule writes_keeps [OF shows_writes_in])

lemma memory_putc: "keeps_memory ks s s' \<Longrightarrow> keeps_memory ks s (cons_putc io c s')"
  by (rule memory_trans [OF _ shows_keeps [OF cons_putc_shows]])

lemma writes_links: "writes_in F s (s' :: ('h, 'a) sched_scheme) \<Longrightarrow> links s' = links s"
  by (simp add: writes_in_def printed_procs)

lemma shows_links: "shows_text s (s' :: ('h, 'a) sched_scheme) \<Longrightarrow> links s' = links s"
  by (rule writes_links [OF shows_writes_in])

lemma putc_links: "links (cons_putc io c s) = links (s :: ('h, 'a) sched_scheme)"
  by (rule shows_links [OF cons_putc_shows])

lemma run_command_returns:
  assumes inv: "sched_inv s ps H" and mm: "prv (links s) MmapHead = MmapHead"
  shows "\<exists>s'. run_command io ks c s = Inr ((), s') \<and> keeps_memory ks s s' \<and>
    (links s' = links s \<or> c = Cmd_swap_test)"
proof (cases "c = Cmd_swap_test")
  case True
  have "tests_at s (tests_passed s) (tests_failed s) s"
    using mm by (simp add: tests_at_def test_frame_def same_off_refl)
  from run_swap_tests_result [OF this, of io] obtain s' where
    s': "run_swap_tests io s = Inr ((), s')" "test_frame s s'" by (auto simp: tq_def tests_at_def)
  have "same_off_screen (mem s) (mem s')" using s'(2) by (simp add: test_frame_def)
  then have "same_off (busy_frames ks) (mem s) (mem s')"
    by (rule same_off_mono) (simp add: busy_frames_def le_supI1)
  then show ?thesis using test_frame_keeps(1) [OF s'(2)] s' True by (simp add: keeps_memory_def test_frame_def)
next
  case False
  then show ?thesis using run_command_prints [OF inv False] writes_keeps writes_links unfolding only_prints_def by metis
qed

lemma execute_command_returns:
  assumes inv: "sched_inv s ps H" and mm: "prv (links s) MmapHead = MmapHead"
  shows "\<exists>s'. execute_command io ks l s = Inr ((), s') \<and> keeps_memory ks s s' \<and>
    (links s' = links s \<or> find_command (skip_spaces l) commands = Some Cmd_swap_test)"
proof (cases "find_command (skip_spaces l) commands")
  case None
  let ?p = "[(line ''Unknown command: %s'', [Str (skip_spaces l)]),
    (line (''Type '' @ quoted ''help'' @ '' for available commands.''), [])]"
  have "list_all (\<lambda>(fm, args). fits fm False False args) ?p" by (simp add: quoted_def fits_defs)
  from printfs_shows [OF this, of io s] obtain s' where s': "printfs io ?p s = Inr ((), s')" "shows_text s s'"
    by metis
  then show ?thesis
    using None shows_keeps [OF s'(2)] shows_links [OF s'(2)] memory_refl by (cases "skip_spaces l = []") (simp_all add: execute_command_def)
next
  case (Some c)
  then show ?thesis
    using run_command_returns [OF assms, of io ks c] memory_refl
    by (cases "skip_spaces l = []") (simp_all add: execute_command_def)
qed

text \<open>
  A character never crashes or hangs the shell, whatever command it starts; the links stay as they
  are unless it is the end of a line that asks for \<^verbatim>\<open>swaptest\<close>.
\<close>

definition runs_swaptest :: "int \<Rightarrow> ('h, 'a) shell_scheme \<Rightarrow> bool" where
  "runs_swaptest c s \<longleftrightarrow> (c = 10 \<or> c = 13) \<and> command_of (skip_spaces (edit_line s)) = Some Cmd_swap_test"

lemma shell_char_keeps:
  assumes ok: "kern_ok s ps H"
  shows "\<exists>s'. shell_handle_char io ks c s = Inr ((), s') \<and> keeps_memory ks s s' \<and>
    (links s' = links s \<or> runs_swaptest c s)"
proof -
  have l: "line_ok s" and inv: "sched_inv s ps H" using ok by (simp_all add: kern_ok_def)
  show ?thesis
  proof (cases "c = 10 \<or> c = 13")
    case True
    have k: "keeps_memory ks s (entered io s)" unfolding entered_def by (intro memory_upd memory_putc memory_refl)
    then have kp: "keeps_procs s (entered io s)" by (simp add: keeps_memory_def)
    have "prv (links (entered io s)) MmapHead = MmapHead"
      using keeps_link(2) [OF kp, of MmapHead] ok by (simp add: kern_ok_def test_nodes_def image_iff)
    from execute_command_returns [OF keeps_inv [OF kp inv] this, of io ks "edit_line s"] obtain s1 where
      s1: "execute_command io ks (edit_line s) (entered io s) = Inr ((), s1)" "keeps_memory ks (entered io s) s1"
      "links s1 = links (entered io s) \<or> find_command (skip_spaces (edit_line s)) commands = Some Cmd_swap_test"
      by blast
    have "CHR 0x00 \<notin> set (skip_spaces (edit_line s))"
      using line_no_nul [OF l] by (auto simp: skip_spaces_def dest: set_dropWhileD)
    then have "links s1 = links s \<or> runs_swaptest c s"
      using s1(3) True by (simp add: runs_swaptest_def find_command_commands entered_def putc_links)
    moreover    have "fits ''zonix> '' False False []" by (simp add: fits_defs)
    from cons_printf_shows [OF this, of io "s1\<lparr>cmd_pos := 0\<rparr>"] obtain s2 where
      s2: "shell_prompt io (s1\<lparr>cmd_pos := 0\<rparr>) = Inr ((), s2)" "shows_text (s1\<lparr>cmd_pos := 0\<rparr>) s2"
      by (auto simp: shell_prompt_def)
    have "keeps_memory ks s s2"
      by (rule memory_trans [OF memory_upd(3) [OF memory_trans [OF k s1(2)]] shows_keeps [OF s2(2)]])
    ultimately show ?thesis using s1(1) s2(1) shows_links [OF s2(2)] by (simp add: shell_enter [OF l True])
  next
    case False
    then have "c \<noteq> 10" "c \<noteq> 13" by simp_all
    from edit_key_line [OF l this] obtain s' where s': "shell_handle_char io ks c s = Inr ((), s')" by metis
    then have "keeps_memory ks s s'" "links s' = links s"
      using False by (auto simp: shell_handle_char_def Let_def putc_links
          intro!: memory_refl memory_putc memory_upd split: if_splits)
    then show ?thesis using s' by blast
  qed
qed

lemma shell_char_returns:
  assumes ok: "kern_ok s ps H"
  shows "\<exists>s'. shell_handle_char io ks c s = Inr ((), s') \<and> keeps_memory ks s s' \<and> kern_ok s' ps H \<and>
    (links s' = links s \<or> runs_swaptest c s)"
proof -
  have l: "line_ok s" using ok by (simp add: kern_ok_def)
  obtain s' where s': "shell_handle_char io ks c s = Inr ((), s')" "keeps_memory ks s s'"
    "links s' = links s \<or> runs_swaptest c s"
    using shell_char_keeps [OF ok] by blast
  have "line_ok s'"
  proof (cases "c = 10 \<or> c = 13")
    case True
    obtain s1 where "shell_prompt io (s1\<lparr>cmd_pos := 0\<rparr>) = Inr ((), s')"
      using s'(1) unfolding shell_enter [OF l True] by (auto simp: bindE_eq_Inr)
    then have "cmd_pos s' = 0" unfolding shell_prompt_def by (auto dest: cons_printf_shell)
    then show ?thesis by (simp add: line_ok_def edit_line_empty CMD_BUF_SIZE_def)
  next
    case False
    then have "c \<noteq> 10" "c \<noteq> 13" by simp_all
    from edit_key_line [OF l this, of io ks] show ?thesis unfolding s'(1) by simp
  qed
  then show ?thesis using s' keeps_ok [OF _ ok] unfolding keeps_memory_def by blast
qed

end
