(* ===== verification/Proc_Text.thy ===== *)
theory Proc_Text
  imports Commands_Laws Text_Laws
begin

text \<open>What \<^verbatim>\<open>ps\<close> prints, as text.\<close>

fun stat_text :: "proc_state \<Rightarrow> string" where
  "stat_text TASK_UNINIT = ''U''"
| "stat_text TASK_SLEEPING = ''S''"
| "stat_text TASK_RUNNABLE = ''R''"
| "stat_text TASK_RUNNING = ''R+''"
| "stat_text TASK_ZOMBIE = ''Z''"

text \<open>
  The row of the process at \<open>a\<close>: a star for the running one, its pid, its state, the pid of its
  parent or -1, its stack, its address space and its name.
\<close>

definition ps_row :: "kernel_symbols \<Rightarrow> u32 \<Rightarrow> ('h, 'a) sched_scheme \<Rightarrow> string" where
  "ps_row ks a s =
     (let t = tasks s a in
      (if a = current s then ''*'' else '' '') @
      flush_left 3 (int_text (sint (t_pid t))) @ '' '' @
      flush_left 4 (stat_text (t_state t)) @ ''  '' @
      flush_left 4 (if t_parent t = 0 then ''-1'' else int_text (sint (t_pid (tasks s (t_parent t))))) @ ''  '' @
      hex8 (t_kstack t) @ ''  '' @
      hex8 (if t_mm t = InitMm then ks_init_mm ks else 0) @ ''  '' @
      t_name t @ newline)"

definition ps_text :: "kernel_symbols \<Rightarrow> u32 list \<Rightarrow> ('h, 'a) sched_scheme \<Rightarrow> string" where
  "ps_text ks ps s =
     ''PID  STAT  PPID  KSTACK    MM        NAME'' @ newline @
     ''---  ----  ----  --------  --------  ----------------'' @ newline @
     concat (map (\<lambda>a. ps_row ks a s) ps) @ newline @
     ''Total processes: '' @ int_text (sint (of_nat (length ps) :: u32)) @ newline @
     ''Current process: '' @ t_name (tasks s (current s)) @ '' (PID '' @
     int_text (sint (t_pid (tasks s (current s)))) @ '')'' @ newline"

lemma stat_text_state: "state_str st = stat_text st"
  by (cases st) simp_all

lemma int_text_minus_one: "int_text (-1) = ''-1''"
  by (simp add: int_text_def numeral_text_def digits.simps digit_text_def)

lemma sint_minus_one: "sint (- 1 :: u32) = - 1"
  by (metis sint_n1)

lemma mark_char: "(of_char (if b then CHR ''*'' else CHR '' '') :: u32) = putc_of (if b then CHR ''*'' else CHR '' '')"
  by (simp add: putc_of_def)

lemma proc_row_args:
  "proc_row ks a s =
     [Word (putc_of (if a = current s then CHR ''*'' else CHR '' '')), Word (t_pid (tasks s a)),
      Str (stat_text (t_state (tasks s a))),
      Word (if t_parent (tasks s a) \<noteq> 0 then t_pid (tasks s (t_parent (tasks s a))) else -1),
      Word (t_kstack (tasks s a)), Word (mm_addr ks (t_mm (tasks s a))), Str (t_name (tasks s a))]"
  by (simp only: proc_row_def Let_def mark_char stat_text_state)

lemma mm_text: "mm_addr ks m = (if m = InitMm then ks_init_mm ks else 0)"
  by (cases m) simp_all

lemma ppid_text:
  "int_text (sint (if b then w else - 1 :: u32)) = (if b then int_text (sint w) else ''-1'')"
  by (simp add: sint_minus_one int_text_minus_one)

lemma proc_format_text:
  "cprintf proc_format [Word (putc_of c), Word i, Str t, Word j, Word k, Word m, Str n] =
     Some (codes ([c] @ flush_left 3 (int_text (sint i)) @ '' '' @ flush_left 4 t @ ''  '' @
       flush_left 4 (int_text (sint j)) @ ''  '' @ hex8 k @ ''  '' @ hex8 m @ ''  '' @ n @ newline))"
  by (simp add: proc_format_def cprintf_text)

lemma ps_row_text: "cprintf proc_format (proc_row ks a s) = Some (codes (ps_row ks a s))"
  unfolding proc_row_args proc_format_text ppid_text mm_text ps_row_def Let_def by simp

lemma ps_rows_text:
  "list_all2 (\<lambda>(fm, args) t. cprintf fm args = Some (codes t)) (proc_rows ks ps s) (map (\<lambda>a. ps_row ks a s) (rev ps))"
  by (simp add: proc_rows_def list_all2_map1 list_all2_map2 list_all2_refl ps_row_text)

lemma procs_table_text:
  "list_all2 (\<lambda>(fm, args) t. cprintf fm args = Some (codes t)) (procs_table ks ps s)
     ([''PID  STAT  PPID  KSTACK    MM        NAME'' @ newline,
       ''---  ----  ----  --------  --------  ----------------'' @ newline] @
      map (\<lambda>a. ps_row ks a s) (rev ps) @
      [newline @ ''Total processes: '' @ int_text (sint (of_nat (length ps) :: u32)) @ newline,
       ''Current process: '' @ t_name (tasks s (current s)) @ '' (PID '' @
         int_text (sint (t_pid (tasks s (current s)))) @ '')'' @ newline])"
  unfolding procs_table_def
  by (intro list_all2_appendI ps_rows_text) (simp_all add: cprintf_text)

lemma print_all_procs_text:
  assumes "sched_inv s ps H"
  shows "print_all_procs io ks s = Inr ((), put_text io (ps_text ks (rev ps) s) s)"
  unfolding print_all_procs_rows [OF assms] printfs_text [OF procs_table_text]
  by (simp add: ps_text_def)

end
