(* ===== verification/Kernel_Laws.thy ===== *)
theory Kernel_Laws
  imports Trap_Laws Swap_Fault Proc_Text
begin

text \<open>
  The kernel as a whole in operation: interrupts and scheduling steps in any order. What the
  scheduler leaves alone of the console and the shell, the transition system, and its invariant.
\<close>

section \<open>What the scheduler leaves alone\<close>

definition same_console :: "('h, 'a) sched_scheme \<Rightarrow> ('h, 'a) sched_scheme \<Rightarrow> bool" where
  "same_console s s' \<longleftrightarrow> cmd_buffer s' = cmd_buffer s \<and> cmd_pos s' = cmd_pos s \<and>
     prv (links s') MmapHead = prv (links s) MmapHead"

lemma console_refl: "same_console s s"
  by (simp add: same_console_def)

lemma console_trans: "same_console s s' \<Longrightarrow> same_console s' s'' \<Longrightarrow> same_console s s''"
  by (simp add: same_console_def)

lemma console_upd:
  "same_console s (upd_task a f s)" "same_console s (intr_restore b s)" "same_console s (resume syms s)"
  "same_console s (demote s)" "same_console s (switched syms p n s)" "same_console s (s\<lparr>if_flag := b\<rparr>)"
  "same_console s (s\<lparr>sched_flag := f'\<rparr>)" "same_console s (dying code s)"
  by (simp_all add: same_console_def upd_task_def intr_restore_def intr_enable_def resume_def forkret_def
      demote_def switched_def switch_to_def dying_def Let_def)

lemma console_upd_trans:
  assumes "same_console s s'"
  shows "same_console s (upd_task a f s')" "same_console s (intr_restore b s')"
  using assms by (simp_all add: same_console_def upd_task_def intr_restore_def intr_enable_def)

lemma wakeup_console: "wakeup_proc a s = Inr ((), s') \<Longrightarrow> same_console s s'"
  by (auto simp: wakeup_proc_def console_refl console_upd split: if_splits)

lemma schedule_console:
  assumes "sched_inv s ps H" "schedule syms s = Inr ((), s')"
  shows "same_console s s'"
proof (cases "pick_next s ps = current s")
  case True
  then show ?thesis using schedule_eq [OF assms(1), of syms] assms(2) by (simp add: console_upd)
next
  case False
  have "same_console s ((demote s)\<lparr>if_flag := False, sched_flag := f\<rparr>)" for f
    by (simp add: same_console_def demote_def upd_task_def)
  then show ?thesis
    using False schedule_eq [OF assms(1), of syms] assms(2) console_trans console_upd(5) by fastforce
qed

lemma reparent_step_console: "same_console s (reparent_step s)"
  unfolding reparent_step_def Let_def by (simp add: same_console_def upd_task_def)

lemma reparent_loop_console:
  assumes "reparent_loop s = Some (Inr ((), s'))"
  shows "same_console s s'"
proof (rule reparent_loop_keeps [where P = "same_console s", OF _ _ assms refl console_refl])
  show "same_console s (reparent_step t)" if "same_console s t" for t
    by (rule console_trans [OF that reparent_step_console])
  show "same_console s t'" if "same_console s t" "wakeup_proc a t = Inr ((), t')" for t a t'
    by (rule console_trans [OF that(1) wakeup_console [OF that(2)]])
qed

lemma do_exit_console:
  assumes inv: "sched_inv s ps H" and r: "do_exit syms code s = Inr ((), s')"
  shows "same_console s s'"
proof -
  obtain s1 s2 where 1: "wake_parent code s = Inr ((), s1)" and 2: "adopt s1 = Inr ((), s2)"
    and 3: "schedule syms (intr_restore (if_flag s) s2) = Inr ((), s')"
    using r unfolding do_exit_stages by (auto simp: bindE_eq_Inr split: if_splits)
  have i1: "sched_inv s1 ps H"
    using 1 wakeup_inv [OF dying_inv [OF inv]] dying_inv [OF inv]
    by (auto simp: wake_parent_def split: if_splits)
  have c1: "same_console s s1"
    using 1 wakeup_console console_upd(8) console_trans by (fastforce simp: wake_parent_def split: if_splits)
  have c2: "same_console s1 s2 \<and> sched_inv s2 ps H"
  proof (cases "init_proc s1 = 0")
    case False
    then have "reparent_loop s1 = Some (Inr ((), s2))"
      using 2 by (cases "reparent_loop s1") (auto simp: adopt_def)
    then show ?thesis using reparent_loop_console reparent_loop_inv i1 by blast
  qed (use 2 i1 in \<open>simp add: adopt_def console_refl\<close>)
  have "same_console (intr_restore (if_flag s) s2) s'"
    by (rule schedule_console [OF intr_restore_inv [OF conjunct2 [OF c2]] 3])
  then show ?thesis using c1 c2 console_upd(2) console_trans by blast
qed

text \<open>Forking: two allocations, then two insertions into lists of processes.\<close>

definition same_lists :: "('h, 'a) sched_scheme \<Rightarrow> ('h, 'a) sched_scheme \<Rightarrow> bool" where
  "same_lists s s' \<longleftrightarrow> same_console s s' \<and>
     (\<forall>x. x \<noteq> FreeHead \<and> (\<forall>p. x \<noteq> PageLink p) \<longrightarrow>
        nxt (links s') x = nxt (links s) x \<and> prv (links s') x = prv (links s) x)"

lemma lists_trans: "same_lists s s' \<Longrightarrow> same_lists s' s'' \<Longrightarrow> same_lists s s''"
  by (simp add: same_lists_def same_console_def)

lemma lists_upd: "same_lists s (upd_task a f s)"
  by (simp add: same_lists_def console_upd sched_simps)

lemma lists_alloc:
  assumes ok: "ff_ok s" and a: "alloc_pages 1 s = Inr (q, s')"
  shows "same_lists s s'" "ff_ok s'"
proof -
  have o: "outside (ff_avail s) s s'" by (rule outside_alloc [OF ok a])
  then have m: "mach.more s' = mach.more s" by (simp add: outside_def)
  then have "cmd_buffer s' = cmd_buffer s" "cmd_pos s' = cmd_pos s" by (cases s; cases s'; simp)+
  moreover have "nxt (links s') x = nxt (links s) x \<and> prv (links s') x = prv (links s) x"
    if "x \<noteq> FreeHead" "\<And>p. x \<noteq> PageLink p" for x
    using o that unfolding outside_def by blast
  ultimately show "same_lists s s'" by (simp add: same_lists_def same_console_def)
  show "ff_ok s'"
  proof (cases "ff_avail s = {}")
    case True
    then show ?thesis using alloc_page_none [OF ok] a ok by simp
  next
    case False
    then show ?thesis using alloc_page_some [OF ok False] a by (metis Inr_inject Pair_inject)
  qed
qed

lemma set_links_lists:
  assumes "set_links a s = Inr ((), s')"
  shows "same_console (s\<lparr>links := links s'\<rparr>) s' \<and> links s' = list_add ProcHead (ListLink a) (links s)"
  using assms
  by (simp add: set_links_def Let_def same_console_def upd_task_def upd_links_def split: if_split_asm) auto

lemma fork_rest_lists:
  assumes "fork_rest syms a stack tf s = Inr (pid, s')"
  shows "cmd_buffer s' = cmd_buffer s \<and> cmd_pos s' = cmd_pos s \<and>
    links s' = list_add ProcHead (ListLink a) (list_add (HashHead (pid_hashfn (next_pid s))) (HashLink a) (links s))"
proof -
  let ?s1 = "copy_thread syms a stack tf s"
  have 1: "cmd_buffer ?s1 = cmd_buffer s" "cmd_pos ?s1 = cmd_pos s" "links ?s1 = links s" "next_pid ?s1 = next_pid s"
    "if_flag ?s1 = if_flag s"
    by (simp_all add: copy_thread_def Let_def upd_task_def)
  let ?s2 = "hash_proc a (upd_task a (\<lambda>t. t\<lparr>t_pid := next_pid s\<rparr>)
    (?s1\<lparr>if_flag := False, next_pid := next_pid s + 1\<rparr>))"
  have 2: "cmd_buffer ?s2 = cmd_buffer s" "cmd_pos ?s2 = cmd_pos s"
    "links ?s2 = list_add (HashHead (pid_hashfn (next_pid s))) (HashLink a) (links s)"
    by (simp_all add: hash_proc_def upd_task_def upd_links_def 1)
  have fr: "fork_rest syms a stack tf s = bindE (set_links a ?s2) (\<lambda>(_, s').
      bindE (wakeup_proc a (intr_restore (if_flag s) s')) (\<lambda>(_, s'). Inr (t_pid (tasks s' a), s')))"
    by (simp add: fork_rest_def Let_def intr_save_eq get_pid_def 1)
  obtain s3 where 3: "set_links a ?s2 = Inr ((), s3)" "wakeup_proc a (intr_restore (if_flag s) s3) = Inr ((), s')"
    using assms unfolding fr by (auto simp: bindE_eq_Inr)
  have "same_console s3 s'"
    using console_trans [OF console_upd(2) wakeup_console [OF 3(2)]] .
  moreover have "links s' = links s3"
    using 3(2) by (auto simp: wakeup_proc_def sched_simps split: if_splits)
  ultimately show ?thesis using set_links_lists [OF 3(1)] 2 by (simp add: same_console_def)
qed

lemma do_fork_console:
  assumes inv: "sched_inv s ps H" and r: "do_fork syms cf stack tf s = Inr (pid, s')"
  shows "same_console s s'"
proof -
  obtain a s1 r2 s2 r3 s3 where 1: "alloc_proc s = Inr (a, s1)" "a \<noteq> 0"
    and 2: "setup_kstack a (upd_task a (\<lambda>t. t\<lparr>t_parent := current s1\<rparr>) s1) = Inr (r2, s2)"
    and 3: "copy_mm cf a s2 = Inr (r3, s3)" and 4: "fork_rest syms a stack tf s3 = Inr (pid, s')"
    using r unfolding do_fork_stages by (auto simp: bindE_eq_Inr split: if_splits)
  have ok: "ff_ok s" using inv by (simp add: sched_inv_def proc_frames_def)
  obtain q t1 where q: "alloc_pages 1 s = Inr (q, t1)" "s1 = t1 \<or> s1 = upd_task a init_task t1"
    using 1 by (auto simp: alloc_proc_def kmalloc_def bindE_eq_Inr split: if_splits option.splits)
  have l1: "same_lists s s1" "ff_ok s1"
    using lists_alloc [OF ok q(1)] q(2) lists_trans [OF _ lists_upd] by auto
  obtain q' t2 where q': "alloc_pages 1 (upd_task a (\<lambda>t. t\<lparr>t_parent := current s1\<rparr>) s1) = Inr (q', t2)"
    "s2 = t2 \<or> (\<exists>f. s2 = upd_task a f t2)"
    using 2 by (auto simp: setup_kstack_def bindE_eq_Inr split: option.splits)
  have t2: "same_lists s1 t2"
    by (rule lists_trans [OF lists_upd lists_alloc(1) [OF _ q'(1)]]) (simp add: l1(2))
  have l2: "same_lists s1 s2" using q'(2) t2 lists_trans [OF t2 lists_upd] by blast
  have l3: "same_lists s2 s3"
    using 3 by (auto simp: copy_mm_def lists_upd split: if_splits)
  have l: "same_lists s s3" using l1(1) l2 l3 lists_trans by blast
  let ?h = "pid_hashfn (next_pid s3)"
  let ?M = "list_add (HashHead ?h) (HashLink a) (links s3)"
  have pl: "clist (links s) ProcHead (map ListLink ps)" "clist (links s) (HashHead ?h) (map HashLink (H ?h))"
    using inv pid_hashfn_less by (simp_all add: sched_inv_def proc_lists_def)
  have "clist (links s3) ProcHead (map ListLink ps)"
    using pl(1) by (subst clist_frame [of _ _ _ "links s"]) (use l in \<open>auto simp: same_lists_def\<close>)
  moreover have h3: "clist (links s3) (HashHead ?h) (map HashLink (H ?h))"
    using pl(2) by (subst clist_frame [of _ _ _ "links s"]) (use l in \<open>auto simp: same_lists_def\<close>)
  have hh: "HashHead ?h \<in> set (HashHead ?h # map HashLink (H ?h))"
    and pp: "ProcHead \<in> set (ProcHead # map ListLink ps)" by simp_all
  note uh = list_add_unchanged [OF h3 hh]
  ultimately have "clist ?M ProcHead (map ListLink ps)"
    by (subst clist_frame [of _ _ _ "links s3"]) (auto intro!: uh)
  note up = list_add_unchanged [OF this pp]
  have n: "MmapHead \<notin> insert (ListLink a) (set (ProcHead # map ListLink ps))"
    "MmapHead \<notin> insert (HashLink a) (set (HashHead ?h # map HashLink (H ?h)))" by auto
  have fl: "links s' = list_add ProcHead (ListLink a) ?M" using fork_rest_lists [OF 4] by simp
  have "prv (links s') MmapHead = prv (links s3) MmapHead"
    unfolding fl up(2) [OF n(1)] uh(2) [OF n(2)] by (rule refl)
  then show ?thesis
    using l fork_rest_lists [OF 4] by (simp add: same_lists_def same_console_def)
qed

lemma sched_step_console:
  assumes inv: "sched_inv s ps H" and st: "sched_step syms s s'"
  shows "same_console s s'"
  using st
proof cases
  case (sched_yield s1)
  then show ?thesis using schedule_console [OF inv] console_upd(3) console_trans by blast
next
  case sched_fork
  then show ?thesis using do_fork_console [OF inv] by blast
next
  case sched_wake
  then show ?thesis by (rule wakeup_console)
next
  case (sched_exit code s1)
  then show ?thesis using do_exit_console [OF inv] console_upd(3) console_trans by blast
qed

text \<open>Setting up the tables.\<close>

lemma idle_init_lists:
  assumes "idle_init syms s = Inr ((), s')"
  shows "\<exists>a q s1. alloc_pages 1 s = Inr (q, s1) \<and> cmd_buffer s' = cmd_buffer s1 \<and> cmd_pos s' = cmd_pos s1 \<and>
    links s' = list_add ProcHead (ListLink a) (list_add (HashHead (pid_hashfn 0)) (HashLink a) (links s1))"
proof -
  obtain a s2 where 1: "alloc_proc s = Inr (a, s2)" "a \<noteq> 0"
    using assms by (auto simp: idle_init_def Let_def bindE_eq_Inr split: if_splits)
  obtain q s1 where q: "alloc_pages 1 s = Inr (q, s1)" "s2 = s1 \<or> s2 = upd_task a init_task s1"
    using 1 by (auto simp: alloc_proc_def kmalloc_def bindE_eq_Inr split: if_splits option.splits)
  have "cmd_buffer s' = cmd_buffer s2 \<and> cmd_pos s' = cmd_pos s2 \<and>
      links s' = list_add ProcHead (ListLink a) (list_add (HashHead (pid_hashfn 0)) (HashLink a) (links s2))"
    using assms 1 by (auto simp: idle_init_def Let_def hash_proc_def upd_task_def upd_links_def)
  moreover have "cmd_buffer s2 = cmd_buffer s1 \<and> cmd_pos s2 = cmd_pos s1 \<and> links s2 = links s1"
    using q(2) by (auto simp: upd_task_def)
  ultimately show ?thesis using q(1) by auto
qed

lemma sched_init_console:
  assumes ok: "ff_ok s" "unat (npage s) \<le> KFRAMES" "2 \<le> card (ff_avail s)"
    and st: "next_pid s = 1" "nr_process s = 0" "mm_pgdir s \<noteq> 0"
    and r: "sched_init syms s = Inr ((), s')"
  shows "same_console s s'"
proof -
  let ?e = "empty_tables s"
  have ff: "ff_ok ?e = ff_ok s" "ff_avail ?e = ff_avail s"
    using empty_tables_ff [of s] by (simp_all add: ff_ok_def ff_avail_def)
  have np: "npage ?e = npage s" by (simp add: empty_tables_def sched_simps page_simps)
  note ee = more_eq_sched [OF empty_tables_more, of s]
  have m: "pmm.more ?e = pmm.more s" by (rule empty_tables_more)
  then have "cmd_buffer ?e = cmd_buffer s" "cmd_pos ?e = cmd_pos s" by (cases s; cases ?e; simp)+
  moreover have "prv (links ?e) MmapHead = prv (links s) MmapHead"
    by (simp add: empty_tables_def hash_init_links page_simps list_init_def Let_def)
  ultimately have e: "same_console s ?e" by (simp add: same_console_def)
  have ne: "ff_avail s \<noteq> {}" using ok(3) by auto
  obtain a s1 where 1: "idle_init syms ?e = Inr ((), s1)"
    "sched_inv s1 [a] ((\<lambda>_. [])(pid_hashfn 0 := [a]))"
    using idle_init_inv [OF _ _ _ empty_tables_lists, of s syms] ok ne st ff np ee by metis
  obtain b q s0 where i: "alloc_pages 1 ?e = Inr (q, s0)" "cmd_buffer s1 = cmd_buffer s0" "cmd_pos s1 = cmd_pos s0"
    "links s1 = list_add ProcHead (ListLink b) (list_add (HashHead (pid_hashfn 0)) (HashLink b) (links s0))"
    using idle_init_lists [OF 1(1)] by blast
  have "ff_ok ?e" using ok(1) ff(1) by simp
  note l0 = lists_alloc(1) [OF this i(1)]
  have z: "nxt (links s0) ProcHead = ProcHead" "nxt (links s0) (HashHead (pid_hashfn 0)) = HashHead (pid_hashfn 0)"
    using l0 empty_tables_lists [of s] pid_hashfn_less [of 0]
    by (simp_all add: same_lists_def proc_lists_def clist_def)
  have "prv (links s1) MmapHead = prv (links s0) MmapHead"
    unfolding i(4) by (simp add: list_add_def list_add_after_def link_simps z)
  then have c1: "same_console ?e s1" using l0 i(2,3) by (simp add: same_lists_def same_console_def)
  obtain pid s2 x where 2: "do_fork syms 0 0 (init_frame syms) s1 = Inr (pid, s2)"
    "s' = upd_task x (\<lambda>t. t\<lparr>t_name := ''init''\<rparr>) (s2\<lparr>init_proc := x\<rparr>)"
    using r 1(1) by (auto simp: sched_init_def Let_def init_proc_init_def bindE_eq_Inr
        simp flip: empty_tables_def split: if_splits)
  have "same_console s1 s2" by (rule do_fork_console [OF 1(2) 2(1)])
  moreover have "same_console s2 s'" unfolding 2(2) by (simp add: same_console_def upd_task_def)
  ultimately show ?thesis using e c1 console_trans by blast
qed

section \<open>Interrupts and scheduling in any order\<close>

text \<open>
  A step is an interrupt, for which the processor has pushed a frame \<open>f\<close>, a change of the hardware
  by itself, or a step of the scheduler. Page faults are the matter of the swapping theories.
\<close>

definition push_frame :: "u32 \<Rightarrow> trap_frame \<Rightarrow> ('h, 'a) sched_scheme \<Rightarrow> ('h, 'a) sched_scheme" where
  "push_frame tf f s = s\<lparr>tframes := (tframes s)(tf := f)\<rparr>"

inductive kern_step ::
  "'h port_io \<Rightarrow> kernel_symbols \<Rightarrow> ('h, 'a) sched_scheme \<Rightarrow> ('h, 'a) sched_scheme \<Rightarrow> bool" for io ks where
  step_interrupt: "tf_trapno f \<noteq> T_PGFLT \<Longrightarrow> trap io ks tf (push_frame tf f s) = Inr ((), s') \<Longrightarrow>
    kern_step io ks s s'"
| step_device: "kern_step io ks s (s\<lparr>hw := h\<rparr>)"
| step_sched: "sched_step (ks_sched ks) s s' \<Longrightarrow> kern_step io ks s s'"

inductive kern_reach ::
  "'h port_io \<Rightarrow> kernel_symbols \<Rightarrow> ('h, 'a) sched_scheme \<Rightarrow> ('h, 'a) sched_scheme \<Rightarrow> bool" for io ks s where
  kern_refl: "kern_reach io ks s s"
| kern_more: "kern_reach io ks s s' \<Longrightarrow> kern_step io ks s' s'' \<Longrightarrow> kern_reach io ks s s''"

lemma push_frame_ok:
  assumes "kern_ok s ps H"
  shows "kern_ok (push_frame tf f s) ps H"
proof -
  have "sched_inv s ps H" using assms by (simp add: kern_ok_def)
  then have "sched_inv (push_frame tf f s) ps H"
    by (rule sched_inv_same)
      (use \<open>sched_inv s ps H\<close> in \<open>auto simp: push_frame_def sched_inv_def procs_live_def only_current_runs_def\<close>)
  then show ?thesis
    using assms by (simp add: kern_ok_def push_frame_def line_ok_def edit_line_def)
qed

text \<open>What an interrupt does before it is acknowledged.\<close>

definition handled :: "'h port_io \<Rightarrow> kernel_symbols \<Rightarrow> u32 \<Rightarrow> ('h, 'a) sched_scheme \<Rightarrow> ('h, 'a) sched_scheme \<Rightarrow> bool" where
  "handled io ks no s s1 \<longleftrightarrow>
     (if no = 32 then s1 = s\<lparr>ticks := ticks s + 1\<rparr>
      else if no = 33 then
        (let (k, s0) = kdb_getc io s; c = sint (of_int k :: u8)
         in if c > 0 then shell_handle_char io ks c s0 = Inr ((), s1) else s1 = s0)
      else s1 = s)"

definition acknowledged :: "'h port_io \<Rightarrow> u32 \<Rightarrow> 'h \<Rightarrow> 'h" where
  "acknowledged io no h =
     (if 32 \<le> no \<and> no < 40 then outb io PIC1_CMD 0x20 h
      else if 40 \<le> no \<and> no < 48 then outb io PIC1_CMD 0x20 (outb io PIC2_CMD 0x20 h)
      else h)"

text \<open>The interrupt is the key that ends a line asking for \<^verbatim>\<open>swaptest\<close>.\<close>

definition typed_swaptest :: "'h port_io \<Rightarrow> u32 \<Rightarrow> ('h, 'a) sched_scheme \<Rightarrow> bool" where
  "typed_swaptest io no s \<longleftrightarrow>
     no = 33 \<and> runs_swaptest (sint (of_int (fst (kdb_getc io s)) :: u8)) s"

lemma kdb_getc_hw: "kdb_getc io s = (k, s') \<Longrightarrow> \<exists>h. s' = s\<lparr>hw := h\<rparr>"
  by (auto simp: kdb_getc_def Let_def split: prod.splits if_splits)

lemma handled_ok:
  assumes ok: "kern_ok s ps H"
  shows "\<exists>s1. handled io ks no s s1 \<and> keeps_procs s s1 \<and> same_off (busy_frames ks) (mem s) (mem s1) \<and> kern_ok s1 ps H \<and>
    (links s1 = links s \<or> typed_swaptest io no s)"
proof -
  consider "no = 32" | "no = 33" | "no \<noteq> 32" "no \<noteq> 33" by blast
  then show ?thesis
  proof cases
    case 1
    have "keeps_procs s (s\<lparr>ticks := ticks s + 1\<rparr>)" by (intro keeps_upd keeps_refl)
    moreover have "line_ok (s\<lparr>ticks := ticks s + 1\<rparr>)" using ok by (simp add: kern_ok_def line_ok_def edit_line_def)
    ultimately show ?thesis using 1 keeps_ok [OF _ ok] by (auto simp: handled_def same_off_refl)
  next
    case 2
    obtain k h where k: "kdb_getc io s = (k, s\<lparr>hw := h\<rparr>)" using kdb_getc_hw by (metis prod.exhaust)
    let ?s = "s\<lparr>hw := h\<rparr>" and ?c = "sint (of_int k :: u8)"
    have kp: "keeps_procs s ?s" by (intro keeps_upd keeps_refl)
    have "line_ok ?s" using ok by (simp add: kern_ok_def line_ok_def edit_line_def)
    then have ok': "kern_ok ?s ps H" by (rule keeps_ok [OF kp ok])
    have sw: "runs_swaptest ?c ?s = typed_swaptest io no s"
      using 2 k by (simp add: typed_swaptest_def runs_swaptest_def edit_line_def)
    show ?thesis
    proof (cases "0 < ?c")
      case True
      from shell_char_returns [OF ok', of io ks ?c] sw obtain s' where
        "shell_handle_char io ks ?c ?s = Inr ((), s')" "keeps_memory ks ?s s'" "kern_ok s' ps H"
        "links s' = links s \<or> typed_swaptest io no s" by auto
      then show ?thesis
        using True 2 k keeps_trans [OF kp] by (intro exI [of _ s']) (auto simp: handled_def keeps_memory_def Let_def)
    next
      case False
      then show ?thesis using 2 k kp ok' by (intro exI [of _ ?s]) (simp add: handled_def Let_def same_off_refl)
    qed
  next
    case 3
    then show ?thesis using ok keeps_refl by (intro exI [of _ s]) (simp add: handled_def same_off_refl)
  qed
qed

lemma eoi_acknowledged:
  "(if no \<ge> IRQ_OFFSET \<and> no < IRQ_OFFSET + 16 then pic_send_eoi io (unat (no - IRQ_OFFSET)) s else s) =
   s\<lparr>hw := acknowledged io no (hw s)\<rparr>"
proof -
  have irq: "IRQ_OFFSET = 32" "IRQ_OFFSET + 16 = 48" by (simp_all add: IRQ_OFFSET_def)
  consider "no < 32 \<or> 48 \<le> no" | "32 \<le> no" "no < 40" | "40 \<le> no" "no < 48" by fastforce
  then show ?thesis
  proof cases
    case 1
    then show ?thesis unfolding irq acknowledged_def by (auto simp: word_less_nat_alt word_le_nat_alt)
  next
    case 2
    then have u: "32 \<le> unat no" "unat no < 40" by (simp_all add: word_le_nat_alt word_less_nat_alt)
    have "unat (no - 32) = unat no - 32" using unat_diff_le [of 32 no] u by (simp add: word_le_nat_alt)
    then have "\<not> 8 \<le> unat (no - 32)" using u by linarith
    then show ?thesis using u unfolding irq acknowledged_def
      by (simp add: pic_send_eoi_def Let_def word_less_nat_alt word_le_nat_alt)
  next
    case 3
    then have u: "40 \<le> unat no" "unat no < 48" by (simp_all add: word_le_nat_alt word_less_nat_alt)
    have "unat (no - 32) = unat no - 32" using unat_diff_le [of 32 no] u by (simp add: word_le_nat_alt)
    then have "8 \<le> unat (no - 32)" using u by linarith
    then show ?thesis using u unfolding irq acknowledged_def
      by (simp add: pic_send_eoi_def Let_def word_less_nat_alt word_le_nat_alt)
  qed
qed

lemma handled_trap:
  assumes h: "handled io ks no s s1" and k: "keeps_procs s s1" and no: "tf_trapno (tframes s tf) = no" "no \<noteq> T_PGFLT"
  shows "trap io ks tf s = Inr ((), s1\<lparr>hw := acknowledged io no (hw s1)\<rparr>)"
proof -
  have t: "tf_trapno (tframes s1 tf) = no" using keeps_fields(2) [OF k] no(1) by simp
  have irq: "IRQ_OFFSET + of_nat IRQ_TIMER = 32" "IRQ_OFFSET + of_nat IRQ_KBD = 33"
    by (simp_all add: IRQ_OFFSET_def IRQ_TIMER_def IRQ_KBD_def)
  have "(if no = T_PGFLT then bindE (pg_fault io tf s) (\<lambda>(_, s). Inr ((), s))
       else if no = IRQ_OFFSET + of_nat IRQ_TIMER then Inr ((), irq_timer s)
       else if no = IRQ_OFFSET + of_nat IRQ_KBD then irq_kbd io ks s else Inr ((), s)) = Inr ((), s1)"
    using h no(2) unfolding irq handled_def irq_timer_def irq_kbd_def
    by (auto simp: Let_def split: prod.splits if_splits)
  then show ?thesis
    unfolding trap_def Let_def no(1) by (simp only: bindE_Inr prod.case t eoi_acknowledged)
qed

lemma interrupt_step:
  assumes ok: "kern_ok s ps H" and no: "tf_trapno (tframes s tf) = no" "no \<noteq> T_PGFLT"
  shows "\<exists>s1. handled io ks no s s1 \<and> keeps_procs s s1 \<and> same_off (busy_frames ks) (mem s) (mem s1) \<and>
    trap io ks tf s = Inr ((), s1\<lparr>hw := acknowledged io no (hw s1)\<rparr>) \<and>
    kern_ok (s1\<lparr>hw := acknowledged io no (hw s1)\<rparr>) ps H \<and> (links s1 = links s \<or> typed_swaptest io no s)"
proof -
  obtain s1 where s1: "handled io ks no s s1" "keeps_procs s s1" "kern_ok s1 ps H"
    "same_off (busy_frames ks) (mem s) (mem s1)" "links s1 = links s \<or> typed_swaptest io no s"
    using handled_ok [OF ok] by blast
  let ?s = "s1\<lparr>hw := acknowledged io no (hw s1)\<rparr>"
  have "keeps_procs s1 ?s" by (intro keeps_upd keeps_refl)
  moreover have "line_ok ?s" using s1(3) by (simp add: kern_ok_def line_ok_def edit_line_def)
  ultimately show ?thesis using s1 handled_trap [OF s1(1,2) no] keeps_ok [OF _ s1(3)] by blast
qed

lemma kern_step_ok:
  assumes st: "kern_step io ks s s'" and ok: "kern_ok s ps H"
  shows "\<exists>ps' H'. kern_ok s' ps' H'"
  using st
proof cases
  case (step_interrupt f tf)
  have "tf_trapno (tframes (push_frame tf f s) tf) = tf_trapno f" by (simp add: push_frame_def)
  from interrupt_step [OF push_frame_ok [OF ok] this step_interrupt(1), of io ks]
  show ?thesis using step_interrupt(2) by auto
next
  case (step_device h)
  have "keeps_procs s (s\<lparr>hw := h\<rparr>)" by (intro keeps_upd keeps_refl)
  moreover have "line_ok (s\<lparr>hw := h\<rparr>)" using ok by (simp add: kern_ok_def line_ok_def edit_line_def)
  ultimately show ?thesis using step_device keeps_ok [OF _ ok] by blast
next
  case step_sched
  have inv: "sched_inv s ps H" using ok by (simp add: kern_ok_def)
  have "same_console s s'" by (rule sched_step_console [OF inv step_sched])
  then have "line_ok s' \<and> prv (links s') MmapHead = MmapHead"
    using ok by (simp add: kern_ok_def same_console_def line_ok_def edit_line_def)
  then show ?thesis using sched_step_inv [OF step_sched inv] by (auto simp: kern_ok_def)
qed

lemma kern_reach_ok:
  "kern_reach io ks s s' \<Longrightarrow> kern_ok s ps H \<Longrightarrow> \<exists>ps' H'. kern_ok s' ps' H'"
proof (induction rule: kern_reach.induct)
  case (kern_more s' s'')
  then show ?case using kern_step_ok by blast
qed blast

section \<open>A concrete state\<close>

text \<open>After \<^verbatim>\<open>mm_init\<close> and \<^verbatim>\<open>sched_init\<close>.\<close>

definition demo_kern_boot :: "ata sched" where
  "demo_kern_boot = upd_links (list_init MmapHead) demo_boot_sched"

definition demo_kern :: "ata sched" where
  "demo_kern = snd (projr (sched_init demo_syms demo_kern_boot))"

lemma demo_kern_boot_ok:
  "ff_ok demo_kern_boot" "unat (npage demo_kern_boot) \<le> KFRAMES" "2 \<le> card (ff_avail demo_kern_boot)"
  "next_pid demo_kern_boot = 1" "nr_process demo_kern_boot = 0" "mm_pgdir demo_kern_boot \<noteq> 0"
  "ff_avail demo_kern_boot = {4..<12}"
proof -
  let ?b = "demo_kern_boot"
  have "ff_inv ?b bs" if "ff_inv demo_boot_sched bs" for bs
    using that clist_init_other [of "links demo_boot_sched" FreeHead "map block_link bs" MmapHead]
    by (auto simp: ff_inv_def block_ok_def demo_kern_boot_def page_simps)
  moreover have "ff_inv demo_boot_sched [(4, 8)]"
    using demo_vmm_inv by (simp add: ff_inv_def block_ok_def)
  ultimately have inv: "ff_inv ?b [(4, 8)]" by blast
  then show "ff_ok ?b" by auto
  show av: "ff_avail ?b = {4..<12}" using ff_avail_frames [OF inv] by (simp add: frames_def atLeastLessThan_upt)
  show "2 \<le> card (ff_avail ?b)" unfolding av by simp
  show "unat (npage ?b) \<le> KFRAMES" "next_pid ?b = 1" "nr_process ?b = 0" "mm_pgdir ?b \<noteq> 0"
    using demo_boot_sched_ok by (simp_all add: demo_kern_boot_def upd_links_def)
qed

lemma demo_kern_ok:
  "\<exists>ps H. kern_ok demo_kern ps H" "t_pid (tasks demo_kern (current demo_kern)) = 0"
  "sched_init demo_syms demo_kern_boot = Inr ((), demo_kern)" "ff_avail demo_kern \<subseteq> {4..<12}"
  "5 \<le> card (ff_avail demo_kern)"
proof -
  let ?b = "demo_kern_boot"
  note st = demo_kern_boot_ok(1-6)
  obtain s' a b H where s': "sched_init demo_syms ?b = Inr ((), s')" "sched_inv s' [b, a] H" "current s' = a"
    "t_pid (tasks s' a) = 0" "ff_avail s' \<subseteq> ff_avail ?b" "card (ff_avail ?b) \<le> card (ff_avail s') + 3"
    using sched_init_result [OF st, of demo_syms] by metis
  then have d: "demo_kern = s'" by (simp add: demo_kern_def)
  have "same_console ?b s'" by (rule sched_init_console [OF st s'(1)])
  moreover have "line_ok ?b" "prv (links ?b) MmapHead = MmapHead"
    using demo_line(1) by (simp_all add: demo_kern_boot_def line_ok_def edit_line_def upd_links_def list_init_def)
  ultimately have "line_ok s'" "prv (links s') MmapHead = MmapHead"
    by (simp_all add: same_console_def line_ok_def edit_line_def)
  then show "\<exists>ps H. kern_ok demo_kern ps H" "t_pid (tasks demo_kern (current demo_kern)) = 0"
    "sched_init demo_syms demo_kern_boot = Inr ((), demo_kern)" "ff_avail demo_kern \<subseteq> {4..<12}"
    "5 \<le> card (ff_avail demo_kern)"
    using s' d demo_kern_boot_ok(7) by (auto simp: kern_ok_def)
qed

section \<open>Properties\<close>

text \<open>
  C4. An interrupt is handled and acknowledged. The timer counts; the keyboard passes a character,
  if there is one and it is positive as a signed \<^verbatim>\<open>char\<close>, to the shell; all other vectors but
  the page fault do nothing. A vector from 32 to 47 ends with one end-of-interrupt command to the
  first controller, preceded by one to the second for 40 to 47; other vectors send none. No
  process, no list of processes, no free list and no page descriptor changes, and no memory but
  the screen's and the buffers' of the disk test. No list changes at all, except that the key
  that ends a line asking for \<^verbatim>\<open>swaptest\<close> replaces the queue of swappable pages: then the
  links outside \<open>test_nodes\<close> (that queue's head and the links of the test pages) are the same.
\<close>

theorem trap_dispatch:
  assumes "kern_ok s ps H" and "tf_trapno (tframes s tf) = no" and "no \<noteq> T_PGFLT"
  shows "\<exists>s1. handled io ks no s s1 \<and> keeps_procs s s1 \<and> same_off (busy_frames ks) (mem s) (mem s1) \<and>
    trap io ks tf s = Inr ((), s1\<lparr>hw := acknowledged io no (hw s1)\<rparr>) \<and>
    (links s1 = links s \<or> typed_swaptest io no s)"
  using interrupt_step [OF assms, of io ks] by blast

definition demo_trap :: "u32 \<Rightarrow> trap_frame" where
  "demo_trap no = (init_frame demo_syms)\<lparr>tf_trapno := no\<rparr>"

definition demo_trapped :: "u32 \<Rightarrow> ata sched" where
  "demo_trapped no = push_frame 0xC0130000 (demo_trap no) demo_kern"

theorem trap_dispatch_witness:
  "\<exists>s'. trap sim_io demo_ks 0xC0130000 (demo_trapped 32) = Inr ((), s') \<and> ticks s' = ticks demo_kern + 1 \<and>
    hw s' = outb sim_io PIC1_CMD 0x20 (hw demo_kern) \<and> links s' = links demo_kern"
proof -
  obtain ps H where "kern_ok demo_kern ps H" using demo_kern_ok(1) by blast
  then have ok: "kern_ok (demo_trapped 32) ps H" unfolding demo_trapped_def by (rule push_frame_ok)
  have no: "tf_trapno (tframes (demo_trapped 32) 0xC0130000) = 32"
    by (simp add: demo_trapped_def push_frame_def demo_trap_def)
  have "(32 :: u32) \<noteq> T_PGFLT" by (simp add: T_PGFLT_def)
  from trap_dispatch [OF ok no this, of sim_io demo_ks] obtain s1 where
    s1: "handled sim_io demo_ks 32 (demo_trapped 32) s1"
      "trap sim_io demo_ks 0xC0130000 (demo_trapped 32) = Inr ((), s1\<lparr>hw := acknowledged sim_io 32 (hw s1)\<rparr>)"
      "links s1 = links (demo_trapped 32)"
    unfolding typed_swaptest_def by auto
  have "s1 = demo_trapped 32\<lparr>ticks := ticks (demo_trapped 32) + 1\<rparr>" using s1(1) by (simp add: handled_def)
  then show ?thesis using s1(2) by (simp add: acknowledged_def demo_trapped_def push_frame_def)
qed

text \<open>
  The kernel keeps running. From a well-formed state, whatever interrupts other than page
  faults arrive with whatever frames, whatever the devices do, whatever is typed (every command
  line included) and whatever processes are scheduled, forked, woken or exit: the process tables
  and the command line stay well formed, and the next interrupt is handled and the next
  \<^verbatim>\<open>schedule\<close> returns, without a null dereference, a failed assertion or an endless loop.
\<close>

theorem kernel_keeps_running:
  assumes "kern_ok s ps H" and "kern_reach io ks s s'"
  shows "\<exists>ps' H'. kern_ok s' ps' H' \<and>
    (\<forall>tf f. tf_trapno f \<noteq> T_PGFLT \<longrightarrow> (\<exists>s''. trap io ks tf (push_frame tf f s') = Inr ((), s''))) \<and>
    (\<exists>s''. schedule (ks_sched ks) s' = Inr ((), s''))"
proof -
  obtain ps' H' where ok: "kern_ok s' ps' H'" using kern_reach_ok [OF assms(2,1)] by blast
  have "\<exists>s''. trap io ks tf (push_frame tf f s') = Inr ((), s'')" if "tf_trapno f \<noteq> T_PGFLT" for tf f
    using interrupt_step [OF push_frame_ok [OF ok] _ that, of tf f tf io ks] by (auto simp: push_frame_def)
  moreover have "\<exists>s''. schedule (ks_sched ks) s' = Inr ((), s'')"
    using schedule_inv [of s' ps' H' "ks_sched ks"] ok by (metis kern_ok_def)
  ultimately show ?thesis using ok by blast
qed

theorem kernel_keeps_running_witness:
  "\<exists>s1 s2. trap sim_io demo_ks 0xC0130000 (demo_trapped 33) = Inr ((), s1) \<and>
    kern_reach sim_io demo_ks demo_kern s1 \<and> schedule demo_syms s1 = Inr ((), s2)"
proof -
  obtain ps H where ok: "kern_ok demo_kern ps H" using demo_kern_ok(1) by blast
  have n: "tf_trapno (demo_trap 33) \<noteq> T_PGFLT" by (simp add: demo_trap_def T_PGFLT_def)
  obtain s1 where s1: "trap sim_io demo_ks 0xC0130000 (demo_trapped 33) = Inr ((), s1)"
    using kernel_keeps_running [OF ok kern_refl, of sim_io demo_ks] n unfolding demo_trapped_def by blast
  have "kern_reach sim_io demo_ks demo_kern s1"
    by (rule kern_more [OF kern_refl step_interrupt [OF n s1 [unfolded demo_trapped_def]]])
  moreover obtain s2 where "schedule demo_syms s1 = Inr ((), s2)"
    using kernel_keeps_running [OF ok calculation] by (auto simp: demo_ks_def)
  ultimately show ?thesis using s1 by blast
qed

text \<open>
  C6. What \<^verbatim>\<open>ps\<close> prints, character by character: two header lines, a row for every process of
  the list, once, in the order of creation, and two lines with the number of processes and the
  current one. A row has a star for the current process and a blank for the others, the pid, the
  letters of the state, the parent's pid or -1, the addresses of stack and address space in
  hexadecimal and the name, in columns. The list is read through its links while the rows are
  printed; nothing but the screen and the devices changes.
\<close>

theorem ps_lists_processes:
  assumes "sched_inv s ps H"
  shows "run_command io ks Cmd_ps s = Inr ((), put_text io (ps_text ks (rev ps) s) s) \<and>
    shows_text s (put_text io (ps_text ks (rev ps) s) s)"
  using print_all_procs_text [OF assms, of io ks] put_text_shows by simp

theorem ps_lists_processes_witness:
  "run_command sim_io demo_ks Cmd_ps demo_sched =
     Inr ((), put_text sim_io (ps_text demo_ks [demo_idle, demo_init] demo_sched) demo_sched) \<and>
   take 11 (ps_row demo_ks demo_idle demo_sched) = ''*0   R     '' \<and>
   take 17 (ps_row demo_ks demo_init demo_sched) = '' 1   R     0     ''"
proof -
  obtain H where H: "sched_inv demo_sched [demo_init, demo_idle] H" using demo_sched_facts(1) by blast
  have "demo_idle \<noteq> 0" "current demo_sched = demo_idle"
    using H proc_nonzero [of demo_sched "[demo_init, demo_idle]" demo_idle]
    by (simp_all add: sched_inv_def demo_idle_def)
  then have "take 11 (ps_row demo_ks demo_idle demo_sched) = ''*0   R     ''"
    "take 17 (ps_row demo_ks demo_init demo_sched) = '' 1   R     0     ''"
    using demo_sched_facts(3-8)
    by (simp_all add: ps_row_def Let_def flush_left_def int_text_def numeral_text_def digits.simps digit_text_def,
        simp_all add: numeral_2_eq_2 numeral_3_eq_3)
  then show ?thesis using ps_lists_processes [OF H, of sim_io demo_ks] by simp
qed

end
