(* ===== verification/Boot_Stages.thy ===== *)
theory Boot_Stages
  imports Kernel_Laws Screen_Laws Mem_Init Disk_Laws Swap_Laws
begin

text \<open>
  What each stage of \<^verbatim>\<open>kern_init\<close> leaves alone, so that what one stage has set up is still
  there at the end.
\<close>

section \<open>Before the memory manager\<close>

text \<open>Memory off the screen, and the counters the scheduler starts from.\<close>

definition early_same :: "('h, 'a) sched_scheme \<Rightarrow> ('h, 'a) sched_scheme \<Rightarrow> bool" where
  "early_same s s' \<longleftrightarrow> same_off_screen (mem s) (mem s') \<and> next_pid s' = next_pid s \<and>
     nr_process s' = nr_process s"

lemma early_refl: "early_same s s"
  by (simp add: early_same_def same_off_refl)

lemma early_trans: "early_same s s' \<Longrightarrow> early_same s' s'' \<Longrightarrow> early_same s s''"
  using same_off_trans by (auto simp: early_same_def)

lemma early_shows: "shows_text s s' \<Longrightarrow> early_same s s'"
  unfolding shows_text_def printed_def early_same_def by auto

lemma early_pic: "early_same s (pic_enable io k s)"
  by (simp add: early_same_def pic_enable_def pic_setmask_def Let_def same_off_refl)

lemma kernel_banner_fits: "fits (''Zonix OS is Loading in [0x%x]...'' @ [CHR 0x0A]) False False [Word k]"
  by simp

lemma cons_init_result:
  obtains s' where "cons_init io k s = Inr ((), s')" "early_same s s'"
proof -
  let ?s1 = "kbd_init io (cga_init io s)"
  obtain s' where s': "cons_printf io (''Zonix OS is Loading in [0x%x]...'' @ [CHR 0x0A]) [Word k] ?s1 = Inr ((), s')"
    "shows_text ?s1 s'"
    using cons_printf_shows [OF kernel_banner_fits] by blast
  have "early_same s (cga_init io s)"
    by (simp add: early_same_def cga_init_def Let_def case_prod_unfold same_off_refl)
  then have "early_same s ?s1" using early_pic early_trans unfolding kbd_init_def by blast
  then have "early_same s s'" by (rule early_trans [OF _ early_shows [OF s'(2)]])
  then show ?thesis using that s'(1) by (simp add: cons_init_def)
qed

lemma hd_more_early:
  assumes "hd.more s' = hd.more (s :: ('h, 'a) sched_scheme)"
  shows "next_pid s' = next_pid s" "nr_process s' = nr_process s"
  using assms by (cases s; cases s'; simp)+

lemma detect_loop_mem: "mem (detect_loop io i n s) = mem s"
proof (induction n arbitrary: i s)
  case (Suc n)
  have "mem (snd (hd_detect_device io i s)) = mem s"
    by (cases rule: hd_detect_cases [of io i s]) simp_all
  then show ?case by (simp add: Suc.IH case_prod_unfold Let_def)
qed simp

lemma hd_init_early: "early_same s (hd_init io s)"
proof -
  have "mem (hd_init io s) = mem s"
    by (simp add: hd_init_def Let_def detect_loop_mem pic_enable_def pic_setmask_def)
  then show ?thesis using hd_more_early [OF hd_init_more [of io s]] by (simp add: early_same_def same_off_refl)
qed

lemma register_loop_early: "early_same s (register_loop i n s)"
proof (induction n arbitrary: i s)
  case (Suc n)
  let ?f = "\<lambda>s. case hd_get_device i s of None \<Rightarrow> s | Some d \<Rightarrow>
    if ide_present (ide_devices s d)
    then snd (blk_register i (s\<lparr>disk_devs := (disk_devs s)(i := disk_of i (ide_devices s d))\<rparr>)) else s"
  have a: "early_same s (?f s)"
    by (simp add: early_same_def blk_register_def same_off_refl split: option.split)
  have e: "register_loop i (Suc n) s = register_loop (i + 1) n (?f s)"
    by (simp only: register_loop.simps Let_def)
  show ?case unfolding e by (rule early_trans [OF a Suc.IH])
qed (simp add: early_refl)

lemma blk_init_early: "early_same s (blk_init io s)"
proof -
  obtain s0 where s0: "s0 = s\<lparr>block_devices := (\<lambda>i. if i < MAX_BLK_DEV then None else block_devices s i), num_devices := 0\<rparr>"
    by simp
  have "blk_init io s = register_loop 0 (min (hd_get_device_count (hd_init io s0)) MAX_BLK_DEV) (hd_init io s0)"
    by (simp add: blk_init_def s0 Let_def)
  moreover have "early_same s s0" by (simp add: s0 early_same_def same_off_refl)
  ultimately show ?thesis using hd_init_early register_loop_early early_trans by metis
qed

text \<open>The timer needs a clock whose seconds stand still for one reading.\<close>

definition clock_answers :: "'h port_io \<Rightarrow> bool" where
  "clock_answers io \<longleftrightarrow> (\<forall>h. clock_loop io h \<noteq> None)"

lemma pit_init_result:
  assumes "clock_answers io"
  obtains t s' where "pit_init io s = Inr (t, s')" "early_same s s'"
    "block_devices s' = block_devices s" "disk_devs s' = disk_devs s" "num_devices s' = num_devices s"
proof -
  obtain t h where "clock_loop io (hw s) = Some (t, h)"
    using assms unfolding clock_answers_def by (metis not_None_eq surj_pair)
  then show ?thesis
    using that by (auto simp: pit_init_def Let_def early_same_def pic_enable_def pic_setmask_def same_off_refl)
qed

section \<open>The memory manager\<close>

lemma init_region_more: "pmm.more (init_region v a z s) = pmm.more s"
  by (simp add: init_region_def Let_def ff_init_memmap_more)

lemma memmap_loop_more: "pmm.more (memmap_loop i v s) = pmm.more s"
proof (induction i v s rule: memmap_loop.induct)
  case (1 i v s)
  show ?case
  proof (cases "e820map_get_items i (mem s)")
    case (Some it)
    obtain addr sz ty where it: "it = (addr, sz, ty)" by (cases it)
    have "pmm.more (memmap_loop (i + 1) v (if ty = E820_RAM then init_region v addr sz s else s)) = pmm.more s"
      using 1 [OF Some, of addr] it by (simp add: init_region_more)
    then show ?thesis using Some it by (subst memmap_loop.simps) simp
  qed (subst memmap_loop.simps, simp)
qed

lemma pmm_init_more: "pmm.more (pmm_init k s) = pmm.more s"
  by (simp add: pmm_init_def page_init_def Let_def memmap_loop_more page_simps ff_init_def upd_links_def)


section \<open>The kernel's mappings\<close>

lemma ff_alloc_more:
  assumes "ff_alloc n s = Inr (r, s')"
  shows "pmm.more s' = pmm.more s"
proof (cases "n > nr_free s")
  case False
  then obtain found where "list_scan (\<lambda>le. pd_property (pages s (le2page le)) \<ge> n) (links s) FreeHead FreeHead = Some found"
    using assms by (cases "list_scan (\<lambda>le. pd_property (pages s (le2page le)) \<ge> n) (links s) FreeHead FreeHead")
      (auto simp: ff_alloc_def)
  then show ?thesis
    using assms False by (cases found) (auto simp: ff_alloc_def Let_def page_simps)
qed (use assms in \<open>simp add: ff_alloc_def\<close>)

lemma alloc_pages_more:
  assumes "alloc_pages n s = Inr (r, s')"
  shows "pmm.more s' = pmm.more s"
proof -
  obtain s1 where s1: "ff_alloc n (snd (intr_save s)) = Inr (r, s1)"
    "s' = intr_restore (fst (intr_save s)) s1"
    using assms by (auto simp: alloc_pages_def Let_def case_prod_unfold bindE_eq_Inr)
  show ?thesis
    unfolding s1(2) by (rule intr_save_restore [OF ff_alloc_more [OF s1(1)]])
qed

lemma get_pte_more:
  assumes "get_pte pd la c s = Inr (r, s')"
  shows "mach.more s' = mach.more s"
proof (cases "load32 (mem s) (pd + 4 * PDX la) AND PTE_P = 0 \<and> c")
  case True
  then obtain q s1 where "alloc_pages 1 s = Inr (q, s1)"
    "mach.more s' = mach.more s1"
    using assms by (auto simp: get_pte_def Let_def bindE_eq_Inr mem_simps page_simps split: option.splits)
  then show ?thesis using more_eq_mach(6) [OF alloc_pages_more] by metis
qed (use assms in \<open>auto simp: get_pte_def Let_def split: if_splits\<close>)

lemma pgdir_init_loop_more:
  "pgdir_init_loop pd la pa perm n s = Inr ((), s') \<Longrightarrow> mach.more s' = mach.more s"
proof (induction n arbitrary: la pa s)
  case (Suc n)
  obtain p s1 where g: "get_pte pd la True s = Inr (p, s1)" "p \<noteq> 0"
    "pgdir_init_loop pd (la + PG_SIZE) (pa + PG_SIZE) perm n (upd_mem (store32 p (pa OR PTE_P OR perm)) s1) = Inr ((), s')"
    using Suc.prems by (auto simp: bindE_eq_Inr Let_def split: if_splits)
  show ?case using Suc.IH [OF g(3)] get_pte_more [OF g(1)] by (simp add: mem_simps)
qed simp

lemma vmm_init_frame:
  assumes "vmm_init pd s = Inr ((), s')"
  shows "vmm.more s' = vmm.more s" "prv (links s') MmapHead = MmapHead"
proof -
  let ?s0 = "upd_mem (store32 (pd + 4 * PDX VPT) (P_ADDR pd OR PTE_P OR PTE_W)) s"
  obtain s1 where s1: "pgdir_init pd KERNEL_BASE KERNEL_MEM_SIZE 0 PTE_W ?s0 = Inr ((), s1)"
    "s' = (mm_init s1)\<lparr>mm_pgdir := pd\<rparr>"
    using assms by (auto simp: vmm_init_def Let_def bindE_eq_Inr)
  have m: "mach.more s1 = mach.more s"
    using pgdir_init_loop_more s1(1) by (fastforce simp: pgdir_init_def Let_def mem_simps)
  then have "vmm.more s1 = vmm.more s" by (cases s; cases s1; simp)
  then show "vmm.more s' = vmm.more s" by (simp add: s1(2) mm_init_def upd_links_def)
  show "prv (links s') MmapHead = MmapHead"
    by (simp add: s1(2) mm_init_def upd_links_def list_init_def Let_def)
qed

lemma swap_init_result:
  assumes "blk_get_device BLK_TYPE_DISK s = Some d"
  shows "swap_init s = Inr (0, s\<lparr>swap_mgr := Swap_Mgr_Fifo, swap_device := Some d,
    max_swap_offset := (bd_size (disk_devs s d) - SWAP_START_SECTOR) div SECTORS_PER_PAGE\<rparr>)"
proof -
  have "blk_get_device BLK_TYPE_DISK (s\<lparr>swap_mgr := Swap_Mgr_Fifo\<rparr>) = Some d"
    using assms find_device_cong [of "s\<lparr>swap_mgr := Swap_Mgr_Fifo\<rparr>" s] by (simp add: blk_get_device_def)
  then show ?thesis by (simp add: swap_init_def swapfs_init_def swap_fifo_init_def Let_def)
qed

section \<open>The processes\<close>

text \<open>Memory, the address space, swapping and the interrupt table are not the scheduler's.\<close>

definition kept ::
  "('h, 'a) sched_scheme \<Rightarrow> memory \<times> u32 \<times> nat option \<times> swap_mgr_ptr \<times> u32 \<times> 'a" where
  "kept s = (mem s, mm_pgdir s, swap_device s, swap_mgr s, max_swap_offset s, sched.more s)"

lemma more_kept: "pmm.more s' = pmm.more (s :: ('h, 'a) sched_scheme) \<Longrightarrow> kept s' = kept s"
  unfolding kept_def by (cases s; cases s'; simp)

lemma kept_upd:
  "kept (upd_task a f s) = kept s" "kept (upd_links g s) = kept s" "kept (intr_restore b s) = kept s"
  "kept (s\<lparr>if_flag := b\<rparr>) = kept s" "kept (s\<lparr>next_pid := p\<rparr>) = kept s" "kept (s\<lparr>nr_process := n\<rparr>) = kept s"
  "kept (s\<lparr>current := a\<rparr>) = kept s" "kept (s\<lparr>idle_proc := a\<rparr>) = kept s" "kept (s\<lparr>init_proc := a\<rparr>) = kept s"
  "kept (copy_thread syms a stack tf s) = kept s" "kept (hash_proc a s) = kept s"
  by (simp_all add: kept_def upd_task_def upd_links_def intr_restore_def intr_enable_def copy_thread_def
      hash_proc_def Let_def)

lemma alloc_kept: "alloc_pages n s = Inr (r, s') \<Longrightarrow> kept s' = kept s"
  by (rule more_kept [OF alloc_pages_more])

lemma alloc_proc_kept: "alloc_proc s = Inr (a, s') \<Longrightarrow> kept s' = kept s"
  using alloc_kept by (auto simp: alloc_proc_def kmalloc_def bindE_eq_Inr kept_upd split: if_splits)

lemma set_links_kept: "set_links a s = Inr ((), s') \<Longrightarrow> kept s' = kept s"
  by (auto simp: set_links_def Let_def kept_upd split: if_splits)

lemma wakeup_kept: "wakeup_proc a s = Inr ((), s') \<Longrightarrow> kept s' = kept s"
  by (auto simp: wakeup_proc_def kept_upd split: if_splits)

lemma fork_rest_kept:
  assumes "fork_rest syms a stack tf s = Inr (pid, s')"
  shows "kept s' = kept s"
proof -
  let ?s1 = "copy_thread syms a stack tf s"
  let ?s2 = "hash_proc a (upd_task a (\<lambda>t. t\<lparr>t_pid := next_pid ?s1\<rparr>)
    (?s1\<lparr>if_flag := False, next_pid := next_pid ?s1 + 1\<rparr>))"
  have "kept ?s2 = kept s" by (simp add: kept_upd)
  moreover obtain s3 where "set_links a ?s2 = Inr ((), s3)" "wakeup_proc a (intr_restore (if_flag ?s1) s3) = Inr ((), s')"
    using assms by (auto simp: fork_rest_def Let_def intr_save_eq get_pid_def bindE_eq_Inr)
  ultimately show ?thesis using set_links_kept wakeup_kept kept_upd(3) by metis
qed

lemma do_fork_kept:
  assumes "do_fork syms cf stack tf s = Inr (pid, s')"
  shows "kept s' = kept s"
proof -
  obtain a s1 r2 s2 r3 s3 where 1: "alloc_proc s = Inr (a, s1)"
    and 2: "setup_kstack a (upd_task a (\<lambda>t. t\<lparr>t_parent := current s1\<rparr>) s1) = Inr (r2, s2)"
    and 3: "copy_mm cf a s2 = Inr (r3, s3)" and 4: "fork_rest syms a stack tf s3 = Inr (pid, s')"
    using assms unfolding do_fork_stages by (auto simp: bindE_eq_Inr split: if_splits)
  have "kept s2 = kept s1"
    using 2 alloc_kept by (fastforce simp: setup_kstack_def bindE_eq_Inr kept_upd split: option.splits)
  moreover have "kept s3 = kept s2"
    using 3 by (auto simp: copy_mm_def kept_upd split: if_splits)
  ultimately show ?thesis using alloc_proc_kept [OF 1] fork_rest_kept [OF 4] by simp
qed

lemma sched_init_kept:
  assumes "sched_init syms s = Inr ((), s')"
  shows "kept s' = kept s"
proof -
  obtain s1 where 1: "idle_init syms (empty_tables s) = Inr ((), s1)"
    and r: "\<exists>r. init_proc_init syms s1 = Inr (r, s')"
    using assms by (auto simp: sched_init_def Let_def bindE_eq_Inr simp flip: empty_tables_def)
  have e: "kept (empty_tables s) = kept s" by (rule more_kept [OF empty_tables_more])
  obtain a s2 where 2: "alloc_proc (empty_tables s) = Inr (a, s2)" "kept s1 = kept s2"
    using 1 by (auto simp: idle_init_def Let_def bindE_eq_Inr kept_upd split: if_splits)
  obtain pid s3 where 3: "do_fork syms 0 0 (init_frame syms) s1 = Inr (pid, s3)" "kept s' = kept s3"
    using r by (auto simp: init_proc_init_def Let_def bindE_eq_Inr kept_upd split: if_splits)
  show ?thesis using e alloc_proc_kept [OF 2(1)] 2(2) do_fork_kept [OF 3(1)] 3(2) by simp
qed

section \<open>The shell\<close>

definition only_shows :: "('h, 'a) cons_scheme \<Rightarrow> (unit \<times> ('h, 'a) cons_scheme) res \<Rightarrow> bool" where
  "only_shows s r \<longleftrightarrow> (\<exists>s'. r = Inr ((), s') \<and> shows_text s s')"

lemma only_shows_printf: "fits fm False False args \<Longrightarrow> only_shows s (cons_printf io fm args s)"
  unfolding only_shows_def by (metis cons_printf_shows)

lemma only_shows_bind:
  assumes "only_shows s r" "\<And>s'. only_shows s' (g s')"
  shows "only_shows s (bindE r (\<lambda>(_, s'). g s'))"
proof -
  obtain s' where s': "r = Inr ((), s')" "shows_text s s'" using assms(1) unfolding only_shows_def by blast
  obtain s'' where "g s' = Inr ((), s'')" "shows_text s' s''" using assms(2) unfolding only_shows_def by blast
  then show ?thesis using s' shows_text_trans by (auto simp: only_shows_def)
qed

lemma shell_init_result:
  obtains s' where "shell_init io s = Inr ((), s')"
    "shows_text (s\<lparr>cmd_pos := 0, cmd_buffer := (cmd_buffer s)(0 := CHR 0x00)\<rparr>) s'"
proof -
  let ?s = "s\<lparr>cmd_pos := 0, cmd_buffer := (cmd_buffer s)(0 := CHR 0x00)\<rparr>"
  have "only_shows ?s (shell_init io s)"
    unfolding shell_init_def Let_def
    by simp (intro only_shows_bind only_shows_printf; simp add: newline_def)
  then show ?thesis using that by (auto simp: only_shows_def)
qed

end
