(* ===== verification/Space_Laws.thy ===== *)
theory Space_Laws
  imports Swap_Fault Boot_Stages
begin

text \<open>
  Where the tables of an address space come from, and that scheduling leaves the address space
  alone: page tables are only ever taken from the free frames, so they stay out of frames that
  never were free.
\<close>

section \<open>Tables are taken from the free frames\<close>

definition takes :: "nat \<Rightarrow> 'a mach_scheme \<Rightarrow> 'a mach_scheme \<Rightarrow> bool" where
  "takes pg s s' \<longleftrightarrow> ff_avail s' \<subseteq> ff_avail s \<and> npage s' = npage s \<and>
     (\<forall>d \<in> user_slots. pde_present (mem s') pg d \<longrightarrow>
        table_of (mem s') pg d \<in> ff_avail s \<or>
        pde_present (mem s) pg d \<and> table_of (mem s') pg d = table_of (mem s) pg d)"

lemma takes_refl: "takes pg s s"
  by (simp add: takes_def)

lemma takes_trans: "takes pg s s' \<Longrightarrow> takes pg s' s'' \<Longrightarrow> takes pg s s''"
  unfolding takes_def by (metis subsetD subset_trans)

lemma takes_same:
  "ff_avail s' \<subseteq> ff_avail s \<Longrightarrow> npage s' = npage s \<Longrightarrow> mem s' = mem s \<Longrightarrow> takes pg s s'"
  by (simp add: takes_def)

lemma takes_get_pte:
  assumes ok: "pgdir_ok s pg" and g: "get_pte (page2kva pg) la True s = Inr (e, s')"
  shows "takes pg s s'"
proof (cases "pde_present (mem s) pg (unat (PDX la))")
  case True
  then show ?thesis using g get_pte_present takes_refl by fastforce
next
  case absent: False
  show ?thesis
  proof (cases "ff_avail s = {}")
    case True
    then show ?thesis using g get_pte_no_memory [OF absent pgdir_ok_ff [OF ok]] takes_refl by fastforce
  next
    case False
    from get_pte_creates [OF ok absent this] g obtain p where p:
      "p \<in> ff_avail s" "ff_avail s' = ff_avail s - {p}" "npage s' = npage s"
      "mem s' = new_table pg (unat (PDX la)) p (mem s)" by (metis Inr_inject Pair_inject)
    have "p < 2 ^ 20" "p \<noteq> pg"
      using ok p(1) ff_avail_npage [of s] by (auto simp: pgdir_ok_def KFRAMES_def)
    note pde = new_table_pde [OF pgdir_ok_pg [OF ok] this PDX_less, of _ la "mem s", folded p(4)]
    show ?thesis using p(1-3) pde user_slots_less by (auto simp: takes_def)
  qed
qed

lemma takes_page_insert:
  assumes ok: "pgdir_ok s pg" and la: "in_user la" and g: "page_insert (page2kva pg) p la perm s = Inr (r, s')"
  shows "takes pg s s'"
proof (cases "can_map s pg la")
  case False
  then show ?thesis using g page_insert_fails [OF ok] takes_refl by fastforce
next
  case True
  obtain s1 where s1: "get_pte (page2kva pg) la True s =
      Inr (entry_addr (table_of (mem s1) pg (unat (PDX la))) (unat (PTX la)), s1)"
    "pgdir_ok s1 pg" "pde_present (mem s1) pg (unat (PDX la))"
    using get_pte_succeeds [OF ok la True] by metis
  have "entry_addr (table_of (mem s1) pg (unat (PDX la))) (unat (PTX la)) \<noteq> 0"
    by (rule entry_addr_nonzero [OF pgdir_ok_table(1) [OF s1(2) in_user_slot [OF la] s1(3)] PTX_less])
  then have s': "s' = tlb_invl (page2kva pg) la
      (upd_mem (store32 (entry_addr (table_of (mem s1) pg (unat (PDX la))) (unat (PTX la))) (page2pa p OR perm OR PTE_P))
        (upd_page p (\<lambda>d. d\<lparr>pd_ref := pd_ref d + 1\<rparr>) s1))"
    using g by (simp add: page_insert_def s1(1))
  then have m: "mem s' = store32 (entry_addr (table_of (mem s1) pg (unat (PDX la))) (unat (PTX la)))
      (page2pa p OR perm OR PTE_P) (mem s1)"
    and av: "ff_avail s' = ff_avail s1" "npage s' = npage s1" by (simp_all add: mem_simps page_simps)
  note sp = store_pte(2,3) [OF s1(2) in_user_slot [OF la] s1(3) PTX_less m]
  have "takes pg s1 s'" using sp user_slots_less by (simp add: takes_def av)
  then show ?thesis using takes_trans [OF takes_get_pte [OF ok s1(1)]] by blast
qed

lemma takes_pgdir_alloc_page:
  assumes ok: "pgdir_ok s pg" and la: "in_user la" and g: "pgdir_alloc_page (page2kva pg) la perm s = Inr (r, s')"
  shows "takes pg s s'"
proof (cases "ff_avail s = {}")
  case True
  then show ?thesis
    using g alloc_page_none [OF pgdir_ok_ff [OF ok]] takes_refl by (fastforce simp: pgdir_alloc_page_def)
next
  case False
  obtain p s1 where a: "alloc_pages 1 s = Inr (Some p, s1)" "p \<in> ff_avail s" "ff_ok s1"
    "ff_avail s1 = ff_avail s - {p}" "ff_frame (ff_avail s) s s1"
    using alloc_page_some [OF pgdir_ok_ff [OF ok] False] by metis
  have "takes pg s s1"
    by (rule takes_same) (use a(4,5) more_eq_mach [of s1 s] in \<open>auto simp: ff_frame_def\<close>)
  moreover have "pgdir_ok s1 pg" by (rule alloc_page_pgdir_ok [OF ok a(5,3)]) (simp add: a(4))
  moreover obtain b where "page_insert (page2kva pg) p la perm s1 = Inr (b, s')"
    using g a(1) by (auto simp: pgdir_alloc_page_def bindE_eq_Inr)
  ultimately show ?thesis using takes_page_insert [OF _ la] takes_trans by blast
qed

text \<open>Frames that are neither free nor tables stay so.\<close>

lemma takes_clear:
  "takes pg s s' \<Longrightarrow> X \<inter> ff_avail s = {} \<Longrightarrow> clear_of X (mem s) pg \<Longrightarrow>
   X \<inter> ff_avail s' = {} \<and> clear_of X (mem s') pg"
  by (fastforce simp: takes_def clear_of_def)

section \<open>Scheduling leaves the address space alone\<close>

definition same_space :: "('h, 'a) sched_scheme \<Rightarrow> ('h, 'a) sched_scheme \<Rightarrow> bool" where
  "same_space s s' \<longleftrightarrow> mem s' = mem s \<and> mm_pgdir s' = mm_pgdir s \<and> ff_avail s' \<subseteq> ff_avail s"

lemma space_refl: "same_space s s"
  by (simp add: same_space_def)

lemma space_trans: "same_space s s' \<Longrightarrow> same_space s' s'' \<Longrightarrow> same_space s s''"
  unfolding same_space_def by (metis subset_trans)

lemma space_upd:
  assumes "same_space s s'"
  shows "same_space s (upd_task a f s')" "same_space s (intr_restore b s')" "same_space s (resume syms s')"
proof -
  have "ff_avail (intr_restore b s') = ff_avail s'" "ff_avail (resume syms s') = ff_avail s'"
    by (rule ff_ok_avail_same(2); simp add: intr_restore_def intr_enable_def resume_def forkret_def Let_def)+
  then show "same_space s (upd_task a f s')" "same_space s (intr_restore b s')" "same_space s (resume syms s')"
    using assms by (simp_all add: same_space_def sched_simps resume_def forkret_def Let_def)
qed

lemma wakeup_space: "wakeup_proc a s = Inr ((), s') \<Longrightarrow> same_space s s'"
  by (auto simp: wakeup_proc_def space_refl space_upd split: if_splits)

lemma schedule_space:
  assumes "sched_inv s ps H" "schedule syms s = Inr ((), s')"
  shows "same_space s s'"
proof -
  have "mem s' = mem s" "mm_pgdir s' = mm_pgdir s"
    using schedule_eq [OF assms(1), of syms] assms(2)
    by (auto simp: demote_def switched_def switch_to_def sched_simps Let_def split: if_splits)
  then show ?thesis using schedule_frame(11) [OF assms] by (simp add: same_space_def)
qed

lemma reparent_step_space: "same_space s (reparent_step s)"
proof -
  have "ff_avail (reparent_step s) = ff_avail s"
    using reparent_step_quiet [of s] by (intro ff_ok_avail_same(2)) (simp_all add: quiet_def)
  then show ?thesis unfolding same_space_def reparent_step_def Let_def by (simp add: sched_simps)
qed

lemma do_exit_space:
  assumes inv: "sched_inv s ps H" and r: "do_exit syms code s = Inr ((), s')"
  shows "same_space s s'"
proof -
  obtain s1 s2 where 1: "wake_parent code s = Inr ((), s1)" and 2: "adopt s1 = Inr ((), s2)"
    and 3: "schedule syms (intr_restore (if_flag s) s2) = Inr ((), s')"
    using r unfolding do_exit_stages by (auto simp: bindE_eq_Inr split: if_splits)
  have i1: "sched_inv s1 ps H"
    using 1 wakeup_inv [OF dying_inv [OF inv]] dying_inv [OF inv]
    by (auto simp: wake_parent_def split: if_splits)
  have "ff_avail (dying code s) = ff_avail s" by (rule ff_ok_avail_same(2)) (simp_all add: dying_def sched_simps)
  then have "same_space s (dying code s)" by (simp add: same_space_def dying_def sched_simps)
  then have c1: "same_space s s1"
    using 1 wakeup_space space_trans by (fastforce simp: wake_parent_def split: if_splits)
  have "same_space s1 s2 \<and> sched_inv s2 ps H"
  proof (cases "init_proc s1 = 0")
    case False
    then have l: "reparent_loop s1 = Some (Inr ((), s2))"
      using 2 by (cases "reparent_loop s1") (auto simp: adopt_def)
    have "same_space s1 s2"
    proof (rule reparent_loop_keeps [where P = "same_space s1", OF _ _ l refl space_refl])
      show "same_space s1 (reparent_step t)" if "same_space s1 t" for t
        by (rule space_trans [OF that reparent_step_space])
      show "same_space s1 t'" if "same_space s1 t" "wakeup_proc a t = Inr ((), t')" for t a t'
        by (rule space_trans [OF that(1) wakeup_space [OF that(2)]])
    qed
    then show ?thesis using reparent_loop_inv [OF l i1] by blast
  qed (use 2 i1 in \<open>simp add: adopt_def space_refl\<close>)
  then have "same_space s1 (intr_restore (if_flag s) s2)" "sched_inv (intr_restore (if_flag s) s2) ps H"
    using space_upd(2) intr_restore_inv by blast+
  then show ?thesis using schedule_space [OF _ 3] c1 space_trans by blast
qed

lemma do_fork_space:
  assumes inv: "sched_inv s ps H" and r: "do_fork syms cf stack tf s = Inr (pid, s')"
    and np: "unat (next_pid s) + 1 < 2 ^ 32"
  shows "same_space s s'"
proof -
  have ok: "ff_ok s" using inv by (simp add: sched_inv_def proc_frames_def)
  have "ff_avail s \<noteq> {}" using r do_fork_no_memory [OF ok] by fastforce
  from do_fork_inv [OF inv this np, of syms cf stack tf] r have "ff_avail s' \<subseteq> ff_avail s"
    by (auto simp: fork_effect_def)
  then show ?thesis using do_fork_kept [OF r] by (simp add: same_space_def kept_def)
qed

lemma sched_step_space:
  assumes inv: "sched_inv s ps H" and st: "sched_step syms s s'"
  shows "same_space s s'"
  using st
proof cases
  case (sched_yield s1)
  then show ?thesis using schedule_space [OF inv] space_upd(3) by blast
next
  case sched_fork
  then show ?thesis using do_fork_space [OF inv] by fastforce
next
  case sched_wake
  then show ?thesis by (rule wakeup_space)
next
  case (sched_exit code s1)
  then show ?thesis using do_exit_space [OF inv] space_upd(3) by blast
qed

end
