(* ===== verification/Fault_Text.thy ===== *)
theory Fault_Text
  imports Kernel Text_Laws
begin

text \<open>What the page-fault trap prints, as text: the trap frame and the fault.\<close>

definition frame_text :: "u32 \<Rightarrow> trap_frame \<Rightarrow> string \<Rightarrow> string" where
  "frame_text tf f what =
     (let r = tf_regs f; row = (\<lambda>(name, w). ''  '' @ name @ ''  0x'' @ hex8 w) in
      ''trapframe at '' @ numeral_text 16 (unat tf) @ newline @
      concat (map (\<lambda>e. row e @ newline)
        [(''edi'', reg_edi r), (''esi'', reg_esi r), (''ebp'', reg_ebp r), (''ebx'', reg_ebx r),
         (''edx'', reg_edx r), (''ecx'', reg_ecx r), (''eax'', reg_eax r)]) @
      ''  trap 0x'' @ hex8 (tf_trapno f) @ '' '' @ what @ newline @
      row (''err'', tf_err f) @ newline @ row (''eip'', tf_eip f) @ newline)"

text \<open>The bits of the error code: 0 for a protection fault, 1 for a write, 2 for user mode.\<close>

definition fault_line :: "u32 \<Rightarrow> u32 \<Rightarrow> string" where
  "fault_line err a =
     ''Page Fault at 0x'' @ hex8 a @ '': '' @ (if bit err 2 then ''U'' else ''K'') @ ''/'' @
     (if bit err 1 then ''W'' else ''R'') @ '' ['' @
     (if bit err 0 then ''Protection Fault'' else ''No Page Found'') @ ''].'' @ newline"

lemma print_trapframe_text: "print_trapframe io tf s = Inr ((), put_text io (frame_text tf (tframes s tf) (trap_name (tf_trapno (tframes s tf)))) s)"
proof -
  let ?f = "tframes s tf" and ?row = "\<lambda>name w. ''  '' @ name @ ''  0x'' @ hex8 w @ newline"
  have "list_all2 (\<lambda>(fm, args) t. cprintf fm args = Some (codes t))
    ([(line ''trapframe at %p'', [Word tf])] @ regs_rows (tf_regs ?f) @
     [(line ''  trap 0x%08x %s'', [Word (tf_trapno ?f), Str (trap_name (tf_trapno ?f))]),
      (line ''  err  0x%08x'', [Word (tf_err ?f)]), (line ''  eip  0x%08x'', [Word (tf_eip ?f)])])
    ([''trapframe at '' @ numeral_text 16 (unat tf) @ newline] @
     [?row ''edi'' (reg_edi (tf_regs ?f)), ?row ''esi'' (reg_esi (tf_regs ?f)), ?row ''ebp'' (reg_ebp (tf_regs ?f)),
      ?row ''ebx'' (reg_ebx (tf_regs ?f)), ?row ''edx'' (reg_edx (tf_regs ?f)), ?row ''ecx'' (reg_ecx (tf_regs ?f)),
      ?row ''eax'' (reg_eax (tf_regs ?f))] @
     [''  trap 0x'' @ hex8 (tf_trapno ?f) @ '' '' @ trap_name (tf_trapno ?f) @ newline,
      ?row ''err'' (tf_err ?f), ?row ''eip'' (tf_eip ?f)])"
    unfolding regs_rows_def by (intro list_all2_appendI) (simp_all add: cprintf_text)
  from printfs_text [OF this] show ?thesis by (simp add: print_trapframe_def Let_def frame_text_def)
qed

lemma trap_name_fault: "trap_name T_PGFLT = ''Page Fault''"
  by (simp add: trap_name_def T_PGFLT_def excnames_def)

lemma error_bits: "w AND 4 \<noteq> 0 \<longleftrightarrow> bit w 2" "w AND 2 \<noteq> 0 \<longleftrightarrow> bit w 1" "w AND 1 \<noteq> 0 \<longleftrightarrow> bit (w :: u32) 0"
  using and_exp_eq_0_iff_not_bit [of w 2] and_exp_eq_0_iff_not_bit [of w 1] and_exp_eq_0_iff_not_bit [of w 0] by simp_all

lemma letter_codes:
  "(of_char (if b then CHR ''U'' else CHR ''K'') :: u32) = putc_of (if b then CHR ''U'' else CHR ''K'')"
  "(of_char (if b then CHR ''W'' else CHR ''R'') :: u32) = putc_of (if b then CHR ''W'' else CHR ''R'')"
  by (simp_all add: putc_of_def)

lemma fault_format_text:
  "cprintf (line ''Page Fault at 0x%08x: %c/%c [%s].'') [Word a, Word (putc_of c), Word (putc_of d), Str t] =
     Some (codes (''Page Fault at 0x'' @ hex8 a @ '': '' @ [c] @ ''/'' @ [d] @ '' ['' @ t @ ''].'' @ newline))"
  by (simp add: cprintf_text)

lemma print_pgfault_text:
  "print_pgfault io tf s = Inr ((), put_text io (fault_line (tf_err (tframes s tf)) (cr2 s)) s)"
  unfolding print_pgfault_def Let_def error_bits letter_codes
  by (rule trans [OF cons_printf_text [OF fault_format_text]]) (simp add: fault_line_def)

text \<open>The whole message of a fault.\<close>

definition fault_text :: "u32 \<Rightarrow> trap_frame \<Rightarrow> u32 \<Rightarrow> string" where
  "fault_text tf f a = frame_text tf f ''Page Fault'' @ fault_line (tf_err f) a"

end
