(* ===== verification/Fault_Laws.thy ===== *)
theory Fault_Laws
  imports Disktest_Laws Swap_Laws Space_Laws Fault_Text
begin

text \<open>
  The page-fault trap of the running kernel: it prints the trap frame and the fault, which
  leaves address space, free frames and swap file alone, and then maps a page at the address, a
  fresh one or the one that was swapped out.
\<close>

section \<open>Printing and the address space\<close>

lemma prints_only_fields:
  assumes "prints_only view s s'"
  shows "links s' = links s" "pages s' = pages s" "npage s' = npage s" "nr_free s' = nr_free s"
    "mm_pgdir s' = mm_pgdir s" "mm_swap_list s' = mm_swap_list s" "cr2 s' = cr2 s"
    "swap_mgr s' = swap_mgr s" "swap_offset s' = swap_offset s" "max_swap_offset s' = max_swap_offset s"
    "swap_device s' = swap_device s" "disk_devs s' = disk_devs s" "ide_devices s' = ide_devices s"
    "ff_ok s' = ff_ok s" "ff_avail s' = ff_avail s" "cons.more s' = cons.more s"
proof -
  obtain m h p where s': "s' = s\<lparr>mem := m, hw := h, crt_pos := p\<rparr>"
    using assms by (auto simp: prints_only_def shows_text_def printed_def)
  then show f: "links s' = links s" "pages s' = pages s" "npage s' = npage s" "nr_free s' = nr_free s"
    "mm_pgdir s' = mm_pgdir s" "mm_swap_list s' = mm_swap_list s" "cr2 s' = cr2 s"
    "swap_mgr s' = swap_mgr s" "swap_offset s' = swap_offset s" "max_swap_offset s' = max_swap_offset s"
    "swap_device s' = swap_device s" "disk_devs s' = disk_devs s" "ide_devices s' = ide_devices s"
    "cons.more s' = cons.more s"
    by simp_all
  show "ff_ok s' = ff_ok s" "ff_avail s' = ff_avail s" by (rule ff_ok_avail_same [OF f(1-4)])+
qed

lemma prints_only_space:
  assumes q: "prints_only view s s'" and ok: "pgdir_ok s pg" and cl: "clear_of screen_frames (mem s) pg"
  shows "pgdir_ok s' pg" "same_map pg (mem s) (mem s')" "clear_of screen_frames (mem s') pg"
    "d \<in> user_slots \<Longrightarrow> pde_present (mem s') pg d = pde_present (mem s) pg d"
    "d \<in> user_slots \<Longrightarrow> table_of (mem s') pg d = table_of (mem s) pg d"
proof -
  have so: "same_off_screen (mem s) (mem s')" using q by (simp add: prints_only_def shows_text_def)
  have pg: "pg < 2 ^ 20" by (rule pgdir_ok_pg [OF ok])
  have "pg \<notin> screen_frames" using cl by (simp add: clear_of_def)
  note sl = off_slots [OF so pg this user_slots_less]
  note f = prints_only_fields [OF q]
  show "pgdir_ok s' pg" using ok sl by (simp add: pgdir_ok_def f(3,14,15))
  show "clear_of screen_frames (mem s') pg" using cl sl by (simp add: clear_of_def)
  show "same_map pg (mem s) (mem s')" by (rule off_same_map(1) [OF so pg cl])
  show "pde_present (mem s') pg d = pde_present (mem s) pg d" "table_of (mem s') pg d = table_of (mem s) pg d"
    if "d \<in> user_slots" using sl [OF that] by simp_all
qed

lemma prints_only_store:
  assumes "prints_only view s s'"
  shows "swap_ok io view s' = swap_ok io view s" "slot_words view s' = slot_words view s"
    "swap_limit s' = swap_limit s" "offset_ok s' = offset_ok s"
  using prints_only_fields [OF assms] assms
  by (simp_all add: swap_ok_def hd_ok_def swap_dev_def slot_words_def hd_sector_def fun_eq_iff swap_limit_def
      offset_ok_def prints_only_def)

lemma prints_only_swap_state:
  assumes q: "prints_only view s s'" and st: "swap_state io view pg s ps" and cl: "clear_of screen_frames (mem s) pg"
  shows "swap_state io view pg s' ps"
proof -
  note D = swap_stateD [OF st] and f = prints_only_fields [OF q]
  note sp = prints_only_space [OF q D(1) cl]
  have "swappable s' pg p" if "p \<in> set ps" for p
    using D(7) [OF that] by (rule swappable_mono) (use D(7) [OF that] f sp in \<open>auto simp: swappable_def\<close>)
  moreover have "pra_queue s' ps" using D(6) pra_queue_cong [OF f(1,6)] by simp
  ultimately show ?thesis using D sp(1) f prints_only_store [OF q] by (simp add: swap_state_def)
qed

section \<open>The messages of a fault\<close>

lemma prints_only_sched:
  assumes "prints_only view s (s' :: ('h, 'a) sched_scheme)"
  shows "tframes s' = tframes s" "tasks s' = tasks s" "current s' = current s"
  using prints_only_fields(16) [OF assms] by (cases s; cases s'; simp)+

text \<open>The trap of a fault prints the whole message, and then does what \<^verbatim>\<open>vmm_pg_fault\<close> does.\<close>

lemma fault_trap:
  assumes ap: "console_apart io view" and no: "tf_trapno (tframes s tf) = T_PGFLT"
    and cur: "current s \<noteq> 0" "t_mm (tasks s (current s)) \<noteq> MmNull"
    and s1: "s1 = put_text io (fault_text tf (tframes s tf) (cr2 s)) s"
  shows "prints_only view s s1"
    and "vmm_pg_fault io (tf_err (tframes s tf)) (cr2 s) s1 = Inr (0, s') \<Longrightarrow>
       tf_trapno (tframes s' tf) = T_PGFLT \<Longrightarrow> trap io ks tf s = Inr ((), s')"
    and "vmm_pg_fault io (tf_err (tframes s tf)) (cr2 s) s1 = Inl e \<Longrightarrow> trap io ks tf s = Inl e"
proof -
  let ?s = "put_text io (frame_text tf (tframes s tf) ''Page Fault'') s"
  have q: "prints_only view s ?s" "prints_only view s s1"
    by (simp_all add: s1 put_text_prints_only [OF ap])
  then show "prints_only view s s1" by simp
  have p: "print_trapframe io tf s = Inr ((), ?s)" by (simp add: print_trapframe_text no trap_name_fault)
  have "print_pgfault io tf ?s = Inr ((), s1)"
    using prints_only_sched(1) [OF q(1)] prints_only_fields(7) [OF q(1)]
    by (simp add: print_pgfault_text s1 fault_text_def put_text_append)
  then have pg: "pg_fault io tf s =
      bindE (vmm_pg_fault io (tf_err (tframes s tf)) (cr2 s) s1) (\<lambda>(_, s). Inr (0, s))"
    using cur p prints_only_sched [OF q(2)] prints_only_fields(7) [OF q(2)] by (simp add: pg_fault_def)
  show "trap io ks tf s = Inr ((), s')"
    if "vmm_pg_fault io (tf_err (tframes s tf)) (cr2 s) s1 = Inr (0, s')" "tf_trapno (tframes s' tf) = T_PGFLT"
    using that no by (simp add: trap_def pg Let_def T_PGFLT_def IRQ_OFFSET_def)
  show "trap io ks tf s = Inl e" if "vmm_pg_fault io (tf_err (tframes s tf)) (cr2 s) s1 = Inl e"
    using that no by (simp add: trap_def pg)
qed

section \<open>A fresh page\<close>

text \<open>
  At an address without an entry the fault returns if there is a table or a frame for one. It
  takes what it needs from the free frames; with two of them it maps one at the address.
\<close>

lemma fresh_fault_returns:
  assumes ok: "pgdir_ok s pg" and pd: "mm_pgdir s = page2kva pg" and la: "in_user la" "la = ROUND_DOWN addr PG_SIZE"
    and no: "translate (mem s) pg la = 0" and can: "can_map s pg la"
  obtains s' where "vmm_pg_fault io ec addr s = Inr (0, s')" "pgdir_ok s' pg" "outside (ff_avail s) s s'" "takes pg s s'"
    "1 < card (ff_avail s) \<Longrightarrow> \<exists>p \<in> ff_avail s - ff_avail s'. maps_one pg la (page2pa p OR PTE_U OR PTE_P) (mem s) (mem s')"
proof -
  let ?d = "unat (PDX la)" and ?t = "unat (PTX la)"
  note du = in_user_slot [OF la(1)]
  from get_pte_succeeds [OF ok la(1) can] obtain s1 where g:
    "get_pte (page2kva pg) la True s = Inr (entry_addr (table_of (mem s1) pg ?d) ?t, s1)"
    "pgdir_ok s1 pg" "pde_present (mem s1) pg ?d" "same_map pg (mem s) (mem s1)"
    "ff_avail s1 \<subseteq> ff_avail s" "card (ff_avail s) \<le> Suc (card (ff_avail s1))" by metis
  have ea: "entry_addr (table_of (mem s1) pg ?d) ?t \<noteq> 0"
    by (rule entry_addr_nonzero [OF pgdir_ok_table(1) [OF g(2) du g(3)] PTX_less])
  have "vm_entry (mem s1) pg ?d ?t = 0"
    using no g(4) du PTX_less [of la] by (simp add: same_map_def translate_def)
  then have z: "load32 (mem s1) (entry_addr (table_of (mem s1) pg ?d) ?t) = 0"
    using g(3) by (simp add: vm_entry_def flip: entry_def)
  have o1: "outside (ff_avail s) s s1" by (rule outside_get_pte [OF pgdir_ok_ff [OF ok] g(1)])
  then have m1: "mach.more s1 = mach.more s" by (simp add: outside_def)
  have run: "vmm_pg_fault io ec addr s = bindE (pgdir_alloc_page (page2kva pg) la PTE_U s1) (\<lambda>(page, s). Inr (0, s))"
    using g(1) ea z pd la(2) mach_more_swap(1) [OF m1] by (simp add: vmm_pg_fault_def Let_def)
  have t1: "takes pg s s1" by (rule takes_get_pte [OF ok g(1)])
  show ?thesis
  proof (cases "ff_avail s1 = {}")
    case True
    have "pgdir_alloc_page (page2kva pg) la PTE_U s1 = Inr (None, s1)"
      by (rule pgdir_alloc_page_none [OF pgdir_ok_ff [OF g(2)] True])
    then show ?thesis using that [of s1] run g(2,6) o1 t1 True by simp
  next
    case False
    from pgdir_alloc_page_some [OF g(2) la(1) False, of PTE_U] obtain p s2 where p:
      "pgdir_alloc_page (page2kva pg) la PTE_U s1 = Inr (Some p, s2)" "p \<in> ff_avail s1" "p \<notin> ff_avail s2"
      "pgdir_ok s2 pg" "maps_one pg la (page2pa p OR PTE_U OR PTE_P) (mem s1) (mem s2)"
      using g(3) by metis
    have "outside (ff_avail s) s s2"
      by (rule outside_trans [OF o1 outside_pgdir_alloc_page [OF pgdir_ok_ff [OF g(2)] p(1)] g(5)])
    moreover have "takes pg s s2" by (rule takes_trans [OF t1 takes_pgdir_alloc_page [OF g(2) la(1) p(1)]])
    moreover have "maps_one pg la (page2pa p OR PTE_U OR PTE_P) (mem s) (mem s2)"
      using p(5) g(4) by (simp add: maps_one_def same_map_def)
    ultimately show ?thesis using that [of s2] p(1-4) g(5) run by auto
  qed
qed

text \<open>Without a table and without a frame for one it follows a null pointer.\<close>

lemma fresh_fault_fails:
  assumes ok: "pgdir_ok s pg" and pd: "mm_pgdir s = page2kva pg" and la: "la = ROUND_DOWN addr PG_SIZE"
    and can: "\<not> can_map s pg la"
  shows "vmm_pg_fault io ec addr s = Inl Null_Deref"
  using get_pte_fails [OF ok can] pd la by (simp add: vmm_pg_fault_def Let_def)

section \<open>The trap\<close>

definition fault_served ::
  "('h \<Rightarrow> ata) \<Rightarrow> nat \<Rightarrow> u32 \<Rightarrow> nat \<Rightarrow> ('h, 'a) sched_scheme \<Rightarrow> ('h, 'a) sched_scheme \<Rightarrow> bool" where
  "fault_served view pg la p s s' \<longleftrightarrow>
     (let ent = translate (mem s) pg la in
      p \<in> ff_avail s \<and> p \<notin> ff_avail s' \<and> pgdir_ok s' pg \<and>
      maps_one pg la (if ent = 0 then page2pa p OR PTE_U OR PTE_P
                      else page2pa p OR (PTE_P OR PTE_W OR PTE_U) OR PTE_P) (mem s) (mem s') \<and>
      (ent \<noteq> 0 \<longrightarrow> frame_words s' p = slot_words view s (swap_slot ent)) \<and>
      tasks s' = tasks s \<and> current s' = current s)"

lemma maps_one_from:
  "same_map pg m m1 \<Longrightarrow> maps_one pg la v m1 m2 \<Longrightarrow> maps_one pg la v m m2"
  by (simp add: maps_one_def same_map_def)

lemma same_map_translate:
  "same_map pg m m' \<Longrightarrow> in_user la \<Longrightarrow> translate m' pg la = translate m pg la"
  using in_user_slot [of la] PTX_less [of la] by (simp add: same_map_def translate_def)

text \<open>
  C3. A page fault of the running kernel. The trap first prints the frame and the fault, character
  by character the text \<open>fault_text\<close>; from there \<^verbatim>\<open>vmm_pg_fault\<close>, called with the error code
  and the address in \<^verbatim>\<open>cr2\<close>, leads to the state the trap returns. In it a free frame is mapped at
  the page of that address: where nothing was mapped a fresh one, the devices having seen nothing
  but the message; where the entry names a slot of the swap file one that holds the page of that
  slot. No other translation changes, the printing included, and no process is touched. (The
  progress messages of \<^verbatim>\<open>swap_in\<close> are not modelled.)
\<close>

theorem page_fault_trap:
  assumes tr: "tf_trapno (tframes s tf) = T_PGFLT" "current s \<noteq> 0" "t_mm (tasks s (current s)) \<noteq> MmNull"
    and ap: "console_apart io view"
    and ok: "pgdir_ok s pg" "mm_pgdir s = page2kva pg" "clear_of screen_frames (mem s) pg"
    and la: "in_user la" "la = ROUND_DOWN (cr2 s) PG_SIZE"
    and ent: "let ent = translate (mem s) pg la in
      if ent = 0 then 1 < card (ff_avail s)
      else ff_avail s \<noteq> {} \<and> swap_state io view pg s ps \<and> swap_slot ent < swap_limit s \<and>
        pde_present (mem s) pg (unat (PDX la))"
  shows "\<exists>p s'. trap io ks tf s = Inr ((), s') \<and>
    vmm_pg_fault io (tf_err (tframes s tf)) (cr2 s) (put_text io (fault_text tf (tframes s tf) (cr2 s)) s) = Inr (0, s') \<and>
    (translate (mem s) pg la = 0 \<longrightarrow> hw s' = hw (put_text io (fault_text tf (tframes s tf) (cr2 s)) s)) \<and>
    fault_served view pg la p s s'"
proof -
  obtain s1 where s1: "s1 = put_text io (fault_text tf (tframes s tf) (cr2 s)) s" by simp
  note q = fault_trap(1) [OF ap tr s1] and run = fault_trap(2) [OF ap tr s1]
  note f = prints_only_fields [OF q] and sp = prints_only_space [OF q ok(1,3)] and sc = prints_only_sched [OF q]
  let ?ent = "translate (mem s) pg la"
  have e1: "translate (mem s1) pg la = ?ent" by (rule same_map_translate [OF sp(2) la(1)])
  show ?thesis
  proof (cases "?ent = 0")
    case True
    then have two: "1 < card (ff_avail s1)" and "translate (mem s1) pg la = 0" "can_map s1 pg la"
      using ent e1 f(15) by (auto simp: can_map_def)
    from fresh_fault_returns [OF sp(1) _ la this(2,3)] ok(2) f(5) obtain s' where r0:
      "vmm_pg_fault io (tf_err (tframes s tf)) (cr2 s) s1 = Inr (0, s')" "pgdir_ok s' pg" "outside (ff_avail s1) s1 s'"
      "\<exists>p \<in> ff_avail s1 - ff_avail s'. maps_one pg la (page2pa p OR PTE_U OR PTE_P) (mem s1) (mem s')"
      using two by metis
    then obtain p where r: "vmm_pg_fault io (tf_err (tframes s tf)) (cr2 s) s1 = Inr (0, s')" "p \<in> ff_avail s1"
      "p \<notin> ff_avail s'" "pgdir_ok s' pg" "maps_one pg la (page2pa p OR PTE_U OR PTE_P) (mem s1) (mem s')" by blast
    from r0(3) have r6: "mach.more s' = mach.more s1" by (simp add: outside_def)
    have m: "tframes s' = tframes s1" "tasks s' = tasks s1" "current s' = current s1" and h: "hw s' = hw s1"
      using r6 by (cases s'; cases s1; simp)+
    then have "trap io ks tf s = Inr ((), s')" using run [OF r(1)] tr(1) sc(1) by simp
    moreover have "fault_served view pg la p s s'"
      using r(2-4) maps_one_from [OF sp(2) r(5)] m sc True f(15) by (simp add: fault_served_def)
    ultimately show ?thesis using r(1) s1 h by blast
  next
    case False
    then have e: "swap_state io view pg s1 ps" "pde_present (mem s1) pg (unat (PDX la))" "swap_slot ?ent < swap_limit s1"
      "ff_avail s1 \<noteq> {}"
      using ent prints_only_swap_state [OF q _ ok(3)] sp(4) in_user_slot [OF la(1)] prints_only_store(3) [OF q] f(15)
      by (simp_all add: Let_def)
    from page_fault_swapped [OF e(1) la e(2) e1 False e(3,4)] obtain p s' where r:
      "vmm_pg_fault io (tf_err (tframes s tf)) (cr2 s) s1 = Inr (0, s')" "swap_state io view pg s' (ps @ [p])"
      "swapped_in view pg p la ?ent s1 s'" by metis
    have m: "tframes s' = tframes s1" "tasks s' = tasks s1" "current s' = current s1"
      using r(3) by (cases s'; cases s1; simp add: swapped_in_def)+
    then have "trap io ks tf s = Inr ((), s')" using run [OF r(1)] tr(1) sc(1) by simp
    moreover have "fault_served view pg la p s s'"
      using r(3) swap_stateD(1) [OF r(2)] maps_one_from [OF sp(2)] m sc False f(15) prints_only_store(2) [OF q]
      by (simp add: fault_served_def swapped_in_def)
    ultimately show ?thesis using r(1) s1 False by blast
  qed
qed

text \<open>The machine of the swapping examples, with a process and a fault at 0x800123.\<close>

definition demo_fault :: "ata sched" where
  "demo_fault = swap.extend (demo_swap\<lparr>cr2 := 0x800123\<rparr>)
     \<lparr>crt_pos = 0, tests_passed = 0, tests_failed = 0, cmd_buffer = (\<lambda>_. CHR 0x00), cmd_pos = 0,
      tasks = (\<lambda>_. bss_task\<lparr>t_mm := InitMm\<rparr>), tframes = (\<lambda>_. demo_trap T_PGFLT), idle_proc = 0, init_proc = 0,
      current = 0xC0004000, nr_process = 0, next_pid = 1, regs = zero_context, sched_flag = (\<lambda>_. False),
      run_flag = (\<lambda>_. False)\<rparr>"

lemma demo_fault_simps [simp]:
  "mem demo_fault = demo_mem" "npage demo_fault = 64" "links demo_fault = links demo_swap"
  "pages demo_fault = pages demo_swap" "nr_free demo_fault = nr_free demo_swap" "cr2 demo_fault = 0x800123"
  "mm_pgdir demo_fault = page2kva 1" "current demo_fault = 0xC0004000"
  "tasks demo_fault = (\<lambda>_. bss_task\<lparr>t_mm := InitMm\<rparr>)" "tframes demo_fault = (\<lambda>_. demo_trap T_PGFLT)"
  by (simp_all add: demo_fault_def swap.defs)

theorem page_fault_trap_witness:
  "\<exists>p s'. trap sim_io demo_ks 0xC0130000 demo_fault = Inr ((), s') \<and> p \<in> {4..<12} \<and>
     translate (mem s') 1 0x800000 = page2pa p OR PTE_U OR PTE_P \<and>
     hw s' = hw (put_text sim_io (fault_text 0xC0130000 (demo_trap T_PGFLT) 0x800123) demo_fault) \<and>
     fault_line (tf_err (demo_trap T_PGFLT)) 0x800123 = ''Page Fault at 0x00800123: K/R [No Page Found].'' @ newline"
proof -
  have inv: "ff_inv demo_fault [(4, 8)]"
    using demo_swap_inv by (simp add: ff_inv_def block_ok_def)
  then have av: "ff_avail demo_fault = {4..<12}" using ff_avail_frames [OF inv] by (simp only: demo_frames)
  have "pgdir_ok demo_swap 1" by (rule swap_stateD(1) [OF demo_swap_state])
  then have ok: "pgdir_ok demo_fault 1"
    using ff_ok_intro [OF inv] by (simp add: pgdir_ok_def av demo_swap_avail)
  have la: "in_user 0x800000" "0x800000 = ROUND_DOWN (cr2 demo_fault) PG_SIZE"
    by (simp_all add: in_user_def VPT_IDX_1003 demo_slots ROUND_DOWN_def PG_SIZE_def)
  have z: "translate demo_mem 1 0x800000 = 0"
    by (simp add: translate_def demo_slots demo_vm_entry del: One_nat_def)
  have "table_of demo_mem 1 d = 2" if "d \<in> user_slots" "pde_present demo_mem 1 d" for d
    using demo_table(1) [OF user_slots_less [OF that(1)]] demo_table(2) that(2) by simp
  then have cl: "clear_of screen_frames demo_mem 1"
    by (simp add: clear_of_def screen_frames_def)
  obtain p s' where "trap sim_io demo_ks 0xC0130000 demo_fault = Inr ((), s')" "fault_served id 1 0x800000 p demo_fault s'"
    "hw s' = hw (put_text sim_io (fault_text 0xC0130000 (demo_trap T_PGFLT) 0x800123) demo_fault)"
    using page_fault_trap [OF _ _ _ sim_console_apart ok _ _ la, where tf = "0xC0130000" and ps = "[]" and ks = demo_ks] z cl
    by (auto simp: demo_trap_def av)
  moreover from this(2) have "translate (mem s') 1 0x800000 = page2pa p OR PTE_U OR PTE_P"
    using z in_user_slot [OF la(1)] PTX_less [of "0x800000"]
    by (simp add: fault_served_def maps_one_def) (simp add: translate_def)
  moreover have "fault_line (tf_err (demo_trap T_PGFLT)) 0x800123 =
      ''Page Fault at 0x00800123: K/R [No Page Found].'' @ newline"
    by (simp add: fault_line_def demo_trap_def init_frame_def hex8_def numeral_text_def digits.simps digit_text_def)
      (simp add: numeral_2_eq_2)
  ultimately show ?thesis using av by (auto simp: fault_served_def Let_def)
qed

end
