(* ===== verification/Live_Laws.thy ===== *)
theory Live_Laws
  imports Fault_Laws
begin

text \<open>
  The running kernel with page faults: interrupts, scheduling and faults on addresses where
  nothing is mapped, in any order. The invariant joins the process tables and the command line
  with the address space, whose directory and tables stay clear of the free frames and of the
  frames the kernel's own text and disk test write to.
\<close>

section \<open>The invariant\<close>

definition space_ok :: "kernel_symbols \<Rightarrow> nat \<Rightarrow> ('h, 'a) sched_scheme \<Rightarrow> bool" where
  "space_ok ks pg s \<longleftrightarrow> pgdir_ok s pg \<and> mm_pgdir s = page2kva pg \<and>
     busy_frames ks \<inter> ff_avail s = {} \<and> clear_of (busy_frames ks) (mem s) pg"

definition live_ok ::
  "kernel_symbols \<Rightarrow> nat \<Rightarrow> ('h, 'a) sched_scheme \<Rightarrow> u32 list \<Rightarrow> (nat \<Rightarrow> u32 list) \<Rightarrow> bool" where
  "live_ok ks pg s ps H \<longleftrightarrow> kern_ok s ps H \<and> space_ok ks pg s"

lemma keeps_space:
  assumes k: "keeps_procs s s'" and so: "same_off (busy_frames ks) (mem s) (mem s')" and ok: "space_ok ks pg s"
  shows "space_ok ks pg s'"
proof -
  have p: "pgdir_ok s pg" and cl: "clear_of (busy_frames ks) (mem s) pg" using ok by (simp_all add: space_ok_def)
  then have "unat (npage s) \<le> KFRAMES" by (simp add: pgdir_ok_def)
  from keeps_ff [OF k this] have ff: "ff_ok s' = ff_ok s" "ff_avail s' = ff_avail s"
    by (simp_all add: ff_ok_def ff_avail_def)
  have "npage s' = npage s" "mm_pgdir s' = mm_pgdir s" using k by (simp_all add: keeps_procs_def)
  moreover from this have "pgdir_ok s' pg"
    using off_pgdir_ok [OF so cl p] ff pgdir_ok_ff [OF p] p by (simp add: pgdir_ok_def)
  ultimately show ?thesis
    using ok ff off_same_map(2) [OF so pgdir_ok_pg [OF p] cl] by (simp add: space_ok_def)
qed

lemma same_space_ok:
  assumes "same_space s s'" "sched_inv s' ps H" "space_ok ks pg s"
  shows "space_ok ks pg s'"
proof -
  have "mem s' = mem s" "mm_pgdir s' = mm_pgdir s" "ff_avail s' \<subseteq> ff_avail s"
    using assms(1) by (simp_all add: same_space_def)
  moreover have "ff_ok s'" "unat (npage s') \<le> KFRAMES" using assms(2) by (simp_all add: sched_inv_def proc_frames_def)
  ultimately show ?thesis using assms(3) by (auto simp: space_ok_def pgdir_ok_def)
qed

text \<open>What a mapping operation leaves of the process tables.\<close>

lemma outside_kern_ok:
  assumes ok: "kern_ok s ps H" and o: "outside (ff_avail s) s s'" and t: "takes pg s s'" and ff: "ff_ok s'"
  shows "kern_ok s' ps H"
proof -
  have inv: "sched_inv s ps H" and l: "line_ok s" and mm: "prv (links s) MmapHead = MmapHead"
    using ok by (simp_all add: kern_ok_def)
  have m: "mach.more s' = mach.more s" and av: "ff_avail s' \<subseteq> ff_avail s" "npage s' = npage s"
    using o t by (simp_all add: outside_def takes_def)
  have ln: "nxt (links s') x = nxt (links s) x" "prv (links s') x = prv (links s) x"
    if "x \<noteq> FreeHead" "\<And>p. x \<noteq> PageLink p" for x
  proof -
    have "x \<notin> insert FreeHead (PageLink ` ff_avail s)" using that by blast
    then show "nxt (links s') x = nxt (links s) x" "prv (links s') x = prv (links s) x"
      using o unfolding outside_def by blast+
  qed
  have e: "tasks s' = tasks s" "current s' = current s" "idle_proc s' = idle_proc s" "next_pid s' = next_pid s"
    "nr_process s' = nr_process s" "mm_pgdir s' = mm_pgdir s" "cmd_buffer s' = cmd_buffer s" "cmd_pos s' = cmd_pos s"
    using m by (cases s; cases s'; simp)+
  have "clist (links s') ProcHead (map ListLink ps) = clist (links s) ProcHead (map ListLink ps)"
    "clist (links s') (HashHead h) (map HashLink (H h)) = clist (links s) (HashHead h) (map HashLink (H h))" for h
    by (rule clist_frame; rule ln; auto)+
  then have "proc_lists s' ps H" using inv by (simp add: sched_inv_def proc_lists_def e)
  moreover have "proc_frames s' ps" using inv ff av by (auto simp: sched_inv_def proc_frames_def) blast
  ultimately have "sched_inv s' ps H"
    using inv by (simp add: sched_inv_def pids_ok_def procs_live_def only_current_runs_def e)
  then show ?thesis using l mm ln(2) [of MmapHead] by (simp add: kern_ok_def line_ok_def edit_line_def e)
qed

lemma takes_space_ok:
  assumes ok: "space_ok ks pg s" and o: "outside (ff_avail s) s s'" and t: "takes pg s s'" and p: "pgdir_ok s' pg"
  shows "space_ok ks pg (s' :: ('h, 'a) sched_scheme)"
proof -
  have "mm_pgdir s' = mm_pgdir s" using o by (cases s; cases s'; simp add: outside_def)
  then show ?thesis using ok p takes_clear [OF t, of "busy_frames ks"] by (simp add: space_ok_def)
qed

section \<open>A fault\<close>

text \<open>No page is mapped at the page of the address, and no entry remembers a slot of the swap file.\<close>

definition unmapped :: "('h, 'a) sched_scheme \<Rightarrow> u32 \<Rightarrow> bool" where
  "unmapped s a \<longleftrightarrow> in_user (ROUND_DOWN a PG_SIZE) \<and>
     translate (mem s) (kva2page (mm_pgdir s)) (ROUND_DOWN a PG_SIZE) = 0"

text \<open>The processor stores the address, pushes the frame and enters the handler.\<close>

definition fault_at :: "'h port_io \<Rightarrow> kernel_symbols \<Rightarrow> u32 \<Rightarrow> trap_frame \<Rightarrow> u32 \<Rightarrow> ('h, 'a) sched_scheme \<Rightarrow>
    (unit \<times> ('h, 'a) sched_scheme) res" where
  "fault_at io ks tf f a s = trap io ks tf (push_frame tf f (s\<lparr>cr2 := a\<rparr>))"

lemma live_cr2:
  assumes "live_ok ks pg s ps H"
  shows "live_ok ks pg (push_frame tf f (s\<lparr>cr2 := a\<rparr>)) ps H"
    "ff_avail (push_frame tf f (s\<lparr>cr2 := a\<rparr>)) = ff_avail s"
proof -
  let ?s = "push_frame tf f (s\<lparr>cr2 := a\<rparr>)"
  have i: "sched_inv s ps H" using assms by (simp add: live_ok_def kern_ok_def)
  have "sched_inv (s\<lparr>cr2 := a\<rparr>) ps H"
    by (rule sched_inv_same [OF i]) (use i in \<open>auto simp: sched_inv_def procs_live_def only_current_runs_def\<close>)
  then have "kern_ok (s\<lparr>cr2 := a\<rparr>) ps H"
    using assms by (simp add: live_ok_def kern_ok_def line_ok_def edit_line_def)
  then have k: "kern_ok ?s ps H" by (rule push_frame_ok)
  show av: "ff_avail ?s = ff_avail s" by (rule ff_ok_avail_same(2)) (simp_all add: push_frame_def)
  have "same_space s ?s" unfolding same_space_def av by (simp add: push_frame_def)
  then have "space_ok ks pg ?s"
    by (rule same_space_ok [of _ _ ps H]) (use k assms in \<open>simp_all add: kern_ok_def live_ok_def\<close>)
  then show "live_ok ks pg ?s ps H" using k by (simp add: live_ok_def)
qed

definition fault_result ::
  "nat \<Rightarrow> u32 \<Rightarrow> ('h, 'a) sched_scheme \<Rightarrow> (unit \<times> ('h, 'a) sched_scheme) res \<Rightarrow> bool" where
  "fault_result pg a s r \<longleftrightarrow>
     (case r of
        Inl e \<Rightarrow> e = Null_Deref \<and> ff_avail s = {}
      | Inr (_, s') \<Rightarrow> 1 < card (ff_avail s) \<longrightarrow>
          (\<exists>p \<in> ff_avail s - ff_avail s'. maps_one pg (ROUND_DOWN a PG_SIZE) (page2pa p OR PTE_U OR PTE_P) (mem s) (mem s')))"

text \<open>The messages a fault prints before the handler runs leave the invariant and the address space.\<close>

lemma fault_message:
  assumes ok: "live_ok ks pg s ps H" and no: "tf_trapno f = T_PGFLT" and un: "unmapped s a"
  obtains s1 where "kern_ok s1 ps H" "space_ok ks pg s1" "same_map pg (mem s) (mem s1)"
    "ff_avail s1 = ff_avail s" "translate (mem s1) pg (ROUND_DOWN a PG_SIZE) = 0"
    "in_user (ROUND_DOWN a PG_SIZE)" "tf_trapno (tframes s1 tf) = T_PGFLT"
    "\<forall>s'. vmm_pg_fault io (tf_err f) a s1 = Inr (0, s') \<longrightarrow> tf_trapno (tframes s' tf) = T_PGFLT \<longrightarrow>
       fault_at io ks tf f a s = Inr ((), s')"
    "\<forall>e. vmm_pg_fault io (tf_err f) a s1 = Inl e \<longrightarrow> fault_at io ks tf f a s = Inl e"
proof -
  let ?s = "push_frame tf f (s\<lparr>cr2 := a\<rparr>)" and ?la = "ROUND_DOWN a PG_SIZE"
  note L = live_cr2 [OF ok, of tf f a]
  have k: "kern_ok ?s ps H" and sp: "space_ok ks pg ?s" using L(1) by (simp_all add: live_ok_def)
  have m: "mem ?s = mem s" "cr2 ?s = a" "tframes ?s tf = f" by (simp_all add: push_frame_def)
  have pd: "pgdir_ok ?s pg" "clear_of (busy_frames ks) (mem ?s) pg" using sp by (simp_all add: space_ok_def)
  have pg: "mm_pgdir s = page2kva pg" "pg < KFRAMES" using ok by (simp_all add: live_ok_def space_ok_def pgdir_ok_def)
  have la: "in_user ?la" "translate (mem s) pg ?la = 0"
    using un kva2page_page2kva pg by (simp_all add: unmapped_def)
  have inv: "sched_inv ?s ps H" using k by (simp add: kern_ok_def)
  have cur: "current ?s \<in> set ps" "t_mm (tasks ?s (current ?s)) = InitMm" "proc_frames ?s ps"
    using inv by (simp_all add: sched_inv_def procs_live_def)
  have ap: "console_apart io (\<lambda>_. undefined)" by (simp add: console_apart_def)
  have "tf_trapno (tframes ?s tf) = T_PGFLT" "current ?s \<noteq> 0" "t_mm (tasks ?s (current ?s)) \<noteq> MmNull"
    using no m(3) cur proc_nonzero by auto
  note t = fault_trap [OF ap this refl]
  obtain s1 where s1: "prints_only (\<lambda>_. undefined) ?s s1"
    "\<And>s'. vmm_pg_fault io (tf_err f) a s1 = Inr (0, s') \<Longrightarrow> tf_trapno (tframes s' tf) = T_PGFLT \<Longrightarrow>
       fault_at io ks tf f a s = Inr ((), s')"
    "\<And>e. vmm_pg_fault io (tf_err f) a s1 = Inl e \<Longrightarrow> fault_at io ks tf f a s = Inl e"
    using t(1) t(2,3) [where ks = ks] unfolding m fault_at_def by blast
  have sh: "shows_text ?s s1" using s1(1) by (simp add: prints_only_def)
  note kp = shows_keeps [OF sh, of ks] and f = prints_only_fields [OF s1(1)] and tf = prints_only_sched [OF s1(1)]
  have kk: "keeps_procs ?s s1" "same_off (busy_frames ks) (mem ?s) (mem s1)" using kp by (simp_all add: keeps_memory_def)
  have "line_ok s1"
    using k printed_keeps(2,3) [of ?s s1] sh by (simp add: kern_ok_def line_ok_def edit_line_def shows_text_def)
  then have "kern_ok s1 ps H" by (rule keeps_ok [OF kk(1) k])
  moreover have "space_ok ks pg s1" by (rule keeps_space [OF kk sp])
  moreover have sm: "same_map pg (mem s) (mem s1)"
    using off_same_map(1) [OF kk(2) pgdir_ok_pg [OF pd(1)] pd(2)] by (simp add: m)
  moreover have "ff_avail s1 = ff_avail s" using f(15) L(2) by simp
  moreover have "translate (mem s1) pg ?la = 0" using same_map_translate [OF sm la(1)] la(2) by simp
  moreover have "tf_trapno (tframes s1 tf) = T_PGFLT" using tf(1) m(3) no by simp
  ultimately show ?thesis using that la(1) s1(2,3) by blast
qed

lemma fault_live:
  assumes ok: "live_ok ks pg s ps H" and no: "tf_trapno f = T_PGFLT" and un: "unmapped s a"
  shows "fault_result pg a s (fault_at io ks tf f a s)"
    "fault_at io ks tf f a s = Inr ((), s') \<Longrightarrow> live_ok ks pg s' ps H"
proof -
  let ?la = "ROUND_DOWN a PG_SIZE"
  obtain s1 where s1: "kern_ok s1 ps H" "space_ok ks pg s1" and sm: "same_map pg (mem s) (mem s1)"
    and av: "ff_avail s1 = ff_avail s" and la: "translate (mem s1) pg ?la = 0" "in_user ?la"
    and tf: "tf_trapno (tframes s1 tf) = T_PGFLT"
    and r: "\<forall>s'. vmm_pg_fault io (tf_err f) a s1 = Inr (0, s') \<longrightarrow> tf_trapno (tframes s' tf) = T_PGFLT \<longrightarrow>
       fault_at io ks tf f a s = Inr ((), s')"
    "\<forall>e. vmm_pg_fault io (tf_err f) a s1 = Inl e \<longrightarrow> fault_at io ks tf f a s = Inl e"
    using fault_message [OF assms, where io = io and tf = tf] .
  have p1: "pgdir_ok s1 pg" "mm_pgdir s1 = page2kva pg" using s1(2) by (simp_all add: space_ok_def)
  have "fault_result pg a s (fault_at io ks tf f a s) \<and>
    (\<forall>s'. fault_at io ks tf f a s = Inr ((), s') \<longrightarrow> live_ok ks pg s' ps H)"
  proof (cases "can_map s1 pg ?la")
    case True
    from fresh_fault_returns [OF p1 la(2) refl la(1) True, of io "tf_err f"] obtain s2 where g:
      "vmm_pg_fault io (tf_err f) a s1 = Inr (0, s2)" "pgdir_ok s2 pg" "outside (ff_avail s1) s1 s2" "takes pg s1 s2"
      "1 < card (ff_avail s1) \<Longrightarrow>
         \<exists>p \<in> ff_avail s1 - ff_avail s2. maps_one pg ?la (page2pa p OR PTE_U OR PTE_P) (mem s1) (mem s2)" by blast
    have "tframes s2 = tframes s1" using g(3) by (cases s1; cases s2; simp add: outside_def)
    then have fa: "fault_at io ks tf f a s = Inr ((), s2)" using r(1) g(1) tf by simp
    have "live_ok ks pg s2 ps H"
      using outside_kern_ok [OF s1(1) g(3,4) pgdir_ok_ff [OF g(2)]] takes_space_ok [OF s1(2) g(3,4,2)]
      by (simp add: live_ok_def)
    moreover have "fault_result pg a s (fault_at io ks tf f a s)"
      using g(5) av maps_one_from [OF sm] by (fastforce simp: fa fault_result_def)
    ultimately show ?thesis using fa by simp
  next
    case False
    then have "ff_avail s = {}" using av by (auto simp: can_map_def)
    then show ?thesis
      using r(2) fresh_fault_fails [OF p1 refl False] by (simp add: fault_result_def)
  qed
  then show "fault_result pg a s (fault_at io ks tf f a s)"
    "fault_at io ks tf f a s = Inr ((), s') \<Longrightarrow> live_ok ks pg s' ps H" by blast+
qed

section \<open>Every step\<close>

inductive live_step ::
  "'h port_io \<Rightarrow> kernel_symbols \<Rightarrow> ('h, 'a) sched_scheme \<Rightarrow> ('h, 'a) sched_scheme \<Rightarrow> bool" for io ks where
  live_kern: "kern_step io ks s s' \<Longrightarrow> live_step io ks s s'"
| live_fault: "tf_trapno f = T_PGFLT \<Longrightarrow> unmapped s a \<Longrightarrow> fault_at io ks tf f a s = Inr ((), s') \<Longrightarrow>
    live_step io ks s s'"

inductive live_reach ::
  "'h port_io \<Rightarrow> kernel_symbols \<Rightarrow> ('h, 'a) sched_scheme \<Rightarrow> ('h, 'a) sched_scheme \<Rightarrow> bool" for io ks s where
  live_refl: "live_reach io ks s s"
| live_more: "live_reach io ks s s' \<Longrightarrow> live_step io ks s' s'' \<Longrightarrow> live_reach io ks s s''"

lemma kern_step_space:
  assumes st: "kern_step io ks s s'" and ok: "kern_ok s ps H" and sp: "space_ok ks pg s"
  shows "space_ok ks pg s'"
  using st
proof cases
  case (step_interrupt f tf)
  let ?s = "push_frame tf f s"
  have "tf_trapno (tframes ?s tf) = tf_trapno f" by (simp add: push_frame_def)
  from interrupt_step [OF push_frame_ok [OF ok] this step_interrupt(1), of io ks] obtain s1 where s1:
    "keeps_procs ?s s1" "same_off (busy_frames ks) (mem ?s) (mem s1)" "s' = s1\<lparr>hw := acknowledged io (tf_trapno f) (hw s1)\<rparr>"
    using step_interrupt(2) by auto
  have "ff_avail ?s = ff_avail s" by (rule ff_ok_avail_same(2)) (simp_all add: push_frame_def)
  then have "same_space s ?s" by (simp add: same_space_def push_frame_def)
  then have "space_ok ks pg ?s"
    by (rule same_space_ok [of _ _ ps H]) (use push_frame_ok [OF ok, of tf f] sp in \<open>simp_all add: kern_ok_def\<close>)
  then show ?thesis using keeps_space [of ?s s'] s1 by (simp add: keeps_upd)
next
  case (step_device h)
  then show ?thesis using keeps_space [OF keeps_upd(2) [OF keeps_refl] _ sp, of h] by (simp add: same_off_refl)
next
  case step_sched
  have inv: "sched_inv s ps H" using ok by (simp add: kern_ok_def)
  then show ?thesis using same_space_ok [OF sched_step_space [OF inv step_sched] _ sp] sched_step_inv [OF step_sched inv]
    by blast
qed

lemma live_step_ok:
  assumes "live_step io ks s s'" "live_ok ks pg s ps H"
  shows "\<exists>ps' H'. live_ok ks pg s' ps' H'"
  using assms(1)
proof cases
  case live_kern
  then show ?thesis using kern_step_ok kern_step_space assms(2) unfolding live_ok_def by metis
next
  case live_fault
  then show ?thesis using fault_live(2) [OF assms(2)] by blast
qed

lemma live_reach_ok:
  "live_reach io ks s s' \<Longrightarrow> live_ok ks pg s ps H \<Longrightarrow> \<exists>ps' H'. live_ok ks pg s' ps' H'"
proof (induction rule: live_reach.induct)
  case (live_more s' s'')
  then show ?case using live_step_ok by blast
qed blast

section \<open>A concrete state\<close>

lemma demo_busy: "p \<in> busy_frames demo_ks \<Longrightarrow> 12 \<le> p"
proof -
  have "12 \<le> kva2page (a + of_nat i)" if "a = 0xC0131000 \<or> a = 0xC0132000" "i < 512" for a i
    using demo_buffer(2) [OF that(2,1)] that(1) by (auto simp: P_ADDR_def KERNEL_BASE_def)
  then show "p \<in> busy_frames demo_ks \<Longrightarrow> 12 \<le> p"
    by (auto simp: busy_frames_def sector_frames_def screen_frames_def demo_ks_def)
qed

lemma demo_live:
  "\<exists>ps H. live_ok demo_ks 1 demo_kern ps H" "mem demo_kern = (\<lambda>_. 0)" "mm_pgdir demo_kern = page2kva 1"
proof -
  have b: "mem demo_kern_boot = (\<lambda>_. 0)" "mm_pgdir demo_kern_boot = page2kva 1"
    by (simp_all add: demo_kern_boot_def upd_links_def demo_boot_sched_def vmm.defs demo_vmm_simps)
      (simp add: demo_vmm_def swap_fifo_init_mm_def Let_def upd_links_def demo_mach_def)
  have k: "kept demo_kern = kept demo_kern_boot" by (rule sched_init_kept [OF demo_kern_ok(3)])
  then show m: "mem demo_kern = (\<lambda>_. 0)" "mm_pgdir demo_kern = page2kva 1" using b by (simp_all add: kept_def)
  obtain ps H where ok: "kern_ok demo_kern ps H" using demo_kern_ok(1) by blast
  then have "ff_ok demo_kern" "unat (npage demo_kern) \<le> KFRAMES"
    by (simp_all add: kern_ok_def sched_inv_def proc_frames_def)
  moreover have np: "\<not> pde_present (mem demo_kern) 1 d" for d
    by (simp add: m pde_present_def entry_def load32_def)
  moreover have "1 \<notin> ff_avail demo_kern" using demo_kern_ok(4) by auto
  ultimately have "pgdir_ok demo_kern 1" by (simp add: pgdir_ok_def KFRAMES_def)
  moreover have "busy_frames demo_ks \<inter> ff_avail demo_kern = {}" using demo_busy demo_kern_ok(4) by fastforce
  moreover have "clear_of (busy_frames demo_ks) (mem demo_kern) 1"
    using demo_busy [of 1] np by (auto simp: clear_of_def)
  ultimately show "\<exists>ps H. live_ok demo_ks 1 demo_kern ps H"
    using ok m by (auto simp: live_ok_def space_ok_def)
qed

section \<open>Properties\<close>

text \<open>
  C2. The kernel keeps running and serves page faults. From a well-formed state, whatever
  interrupts arrive with whatever frames, whatever the devices do, whatever is typed (every
  command line included), whatever processes are scheduled, forked, woken or exit and whatever
  addresses are touched where nothing is mapped: the process tables, the command line and the
  address space stay well formed. The next interrupt is handled and the next
  \<^verbatim>\<open>schedule\<close> returns, without a null dereference, a failed assertion or an endless loop. The
  next fault on such an address maps a page that was free and changes no other translation, if
  two frames are free; it follows a null pointer only if none is.
\<close>

theorem kernel_serves_faults:
  assumes "live_ok ks pg s ps H" and "live_reach io ks s s'"
  shows "\<exists>ps' H'. live_ok ks pg s' ps' H' \<and>
    (\<forall>tf f. tf_trapno f \<noteq> T_PGFLT \<longrightarrow> (\<exists>s''. trap io ks tf (push_frame tf f s') = Inr ((), s''))) \<and>
    (\<forall>tf f a. tf_trapno f = T_PGFLT \<and> unmapped s' a \<longrightarrow> fault_result pg a s' (fault_at io ks tf f a s')) \<and>
    (\<exists>s''. schedule (ks_sched ks) s' = Inr ((), s''))"
proof -
  obtain ps' H' where live: "live_ok ks pg s' ps' H'" using live_reach_ok [OF assms(2,1)] by blast
  then have ok: "kern_ok s' ps' H'" by (simp add: live_ok_def)
  have "\<exists>s''. trap io ks tf (push_frame tf f s') = Inr ((), s'')" if "tf_trapno f \<noteq> T_PGFLT" for tf f
    using interrupt_step [OF push_frame_ok [OF ok] _ that, of tf f tf io ks] by (auto simp: push_frame_def)
  moreover have "\<exists>s''. schedule (ks_sched ks) s' = Inr ((), s'')"
    using schedule_inv [of s' ps' H' "ks_sched ks"] ok by (metis kern_ok_def)
  ultimately show ?thesis using live fault_live(1) [OF live] by blast
qed

text \<open>A fault at 0x400123 on a machine with an empty page directory, and then a scheduling.\<close>

theorem kernel_serves_faults_witness:
  "\<exists>s1 s2 p. fault_at sim_io demo_ks 0xC0130000 (demo_trap T_PGFLT) 0x400123 demo_kern = Inr ((), s1) \<and>
    p \<in> ff_avail demo_kern - ff_avail s1 \<and>
    maps_one 1 0x400000 (page2pa p OR PTE_U OR PTE_P) (mem demo_kern) (mem s1) \<and>
    schedule demo_syms s1 = Inr ((), s2)"
proof -
  obtain ps H where ok: "live_ok demo_ks 1 demo_kern ps H" using demo_live(1) by blast
  let ?r = "fault_at sim_io demo_ks 0xC0130000 (demo_trap T_PGFLT) 0x400123 demo_kern"
  have no: "tf_trapno (demo_trap T_PGFLT) = T_PGFLT" by (simp add: demo_trap_def)
  have rd: "ROUND_DOWN 0x400123 PG_SIZE = 0x400000" by (simp add: ROUND_DOWN_def PG_SIZE_def)
  have un: "unmapped demo_kern 0x400123"
    using demo_mach_user kva2page_page2kva [of 1]
    by (simp add: unmapped_def rd demo_live(2,3) translate_def vm_entry_def pde_present_def entry_def load32_def)
  have "1 < card (ff_avail demo_kern)" using demo_kern_ok(5) by simp
  moreover have "fault_result 1 0x400123 demo_kern ?r"
    using kernel_serves_faults [OF ok live_refl, of sim_io] no un by blast
  ultimately obtain s1 p where s1: "?r = Inr ((), s1)" "p \<in> ff_avail demo_kern - ff_avail s1"
    "maps_one 1 0x400000 (page2pa p OR PTE_U OR PTE_P) (mem demo_kern) (mem s1)"
    unfolding fault_result_def rd by (cases ?r) auto
  have "live_reach sim_io demo_ks demo_kern s1"
    by (rule live_more [OF live_refl live_fault [OF no un s1(1)]])
  from kernel_serves_faults [OF ok this] obtain s2 where "schedule demo_syms s1 = Inr ((), s2)"
    by (auto simp: demo_ks_def)
  then show ?thesis using s1 by blast
qed

end
