(* ===== verification/Segments.thy ===== *)
theory Segments
  imports Kernel
begin

text \<open>
  The descriptor macros of \<^verbatim>\<open>include/arch/x86/segments.h\<close> and \<^verbatim>\<open>asm/seg.h\<close>, and what the
  processor reads out of the descriptors they build: a gate leads to the handler it was built
  for, the segments of the descriptor tables in \<^verbatim>\<open>init/head.S\<close> and \<^verbatim>\<open>boot/bootasm.S\<close> are
  flat. The records are bit fields; \<open>gate_words\<close> lays them out from the lowest bit on, as the
  compiler does.
\<close>

section \<open>Gates\<close>

definition SET_TRAP_GATE :: "u32 \<Rightarrow> gate_desc" where
  "SET_TRAP_GATE addr = set_gate STS_TG32 GD_KTEXT DPL_KERNEL addr"

definition SET_SYS_GATE :: "u32 \<Rightarrow> gate_desc" where
  "SET_SYS_GATE addr = set_gate STS_TG32 GD_KTEXT DPL_USER addr"

text \<open>The two halves of a gate in memory.\<close>

definition gate_words :: "gate_desc \<Rightarrow> u32 \<times> u32" where
  "gate_words g =
     (ucast (gd_off_15_0 g) OR push_bit 16 (ucast (gd_ss g)),
      of_nat (gd_args g) OR push_bit 5 (of_nat (gd_rsv1 g)) OR push_bit 8 (of_nat (gd_type g)) OR
      push_bit 12 (of_nat (gd_s g)) OR push_bit 13 (of_nat (gd_dpl g)) OR push_bit 15 (of_nat (gd_p g)) OR
      push_bit 16 (ucast (gd_off_31_16 g)))"

definition GATE_DESC :: "u32 \<Rightarrow> u32 \<Rightarrow> u32" where
  "GATE_DESC type dpl = 0x8000 + push_bit 13 dpl + push_bit 8 type"

text \<open>
  The variant of \<^verbatim>\<open>SET_GATE\<close> in assembly: the two words it stores. It puts the low half of
  the address into the low half of \<^verbatim>\<open>eax\<close> and loads nothing into the other.
\<close>

definition set_gate_asm :: "u32 \<Rightarrow> u32 \<Rightarrow> u32 \<Rightarrow> u32 \<Rightarrow> u32 \<times> u32" where
  "set_gate_asm type dpl addr eax =
     (let eax = (eax AND 0xFFFF0000) OR (addr AND 0xFFFF);
          edx = (addr AND 0xFFFF0000) OR ((0x8000 + push_bit 13 dpl + push_bit 8 type) AND 0xFFFF)
      in (eax, edx))"

text \<open>Where the processor continues when it goes through a gate.\<close>

definition gate_offset :: "u32 \<times> u32 \<Rightarrow> u32" where
  "gate_offset w = (fst w AND 0xFFFF) OR (snd w AND 0xFFFF0000)"

definition gate_selector :: "u32 \<times> u32 \<Rightarrow> u32" where
  "gate_selector w = drop_bit 16 (fst w)"

section \<open>Segments\<close>

record seg_desc =
  sd_lim_15_0 :: u16
  sd_base_15_0 :: u16
  sd_base_23_16 :: u8
  sd_type :: nat
  sd_s :: nat
  sd_dpl :: nat
  sd_p :: nat
  sd_lim_19_16 :: nat
  sd_avl :: nat
  sd_rsv1 :: nat
  sd_db :: nat
  sd_g :: nat
  sd_base_31_24 :: u8

text \<open>The macro leaves \<^verbatim>\<open>sd_s\<close>, \<^verbatim>\<open>sd_avl\<close>, \<^verbatim>\<open>sd_rsv1\<close> and \<^verbatim>\<open>sd_g\<close> as they are.\<close>

definition SET_TSS_SEG :: "nat \<Rightarrow> u32 \<Rightarrow> u32 \<Rightarrow> nat \<Rightarrow> seg_desc \<Rightarrow> seg_desc" where
  "SET_TSS_SEG type base lim dpl sd =
     sd\<lparr>sd_lim_15_0 := ucast (lim AND 0xFFFF), sd_base_15_0 := ucast (base AND 0xFFFF),
       sd_base_23_16 := ucast (drop_bit 16 base AND 0xFF), sd_type := type, sd_dpl := dpl, sd_p := 1,
       sd_lim_19_16 := unat (drop_bit 16 lim) mod 16, sd_db := 1,
       sd_base_31_24 := ucast (drop_bit 24 base)\<rparr>"

definition seg_base :: "seg_desc \<Rightarrow> u32" where
  "seg_base sd = ucast (sd_base_15_0 sd) OR push_bit 16 (ucast (sd_base_23_16 sd)) OR
     push_bit 24 (ucast (sd_base_31_24 sd))"

definition seg_limit :: "seg_desc \<Rightarrow> nat" where
  "seg_limit sd = unat (sd_lim_15_0 sd) + 2 ^ 16 * sd_lim_19_16 sd"

definition STA_X :: u8 where "STA_X = 0x8"
definition STA_W :: u8 where "STA_W = 0x2"
definition STA_R :: u8 where "STA_R = 0x2"

text \<open>The eight bytes of a descriptor in the tables that the assembler lays out.\<close>

definition GEN_SEG_NULL :: "u8 list" where
  "GEN_SEG_NULL = [0, 0, 0, 0, 0, 0, 0, 0]"

definition GEN_SEG_DESC :: "u8 \<Rightarrow> u32 \<Rightarrow> u32 \<Rightarrow> u8 list" where
  "GEN_SEG_DESC type base lim =
     (let word = \<lambda>v. [ucast v, ucast (drop_bit 8 v)]
      in word (drop_bit 12 lim AND 0xFFFF) @ word (base AND 0xFFFF) @
         [ucast (drop_bit 16 base AND 0xFF), 0x90 OR type, 0xC0 OR ucast (drop_bit 28 lim AND 0xF),
          ucast (drop_bit 24 base AND 0xFF)])"

definition kernel_gdt :: "u8 list list" where
  "kernel_gdt = [GEN_SEG_NULL, GEN_SEG_DESC (STA_X OR STA_R) 0 0xFFFFFFFF, GEN_SEG_DESC STA_W 0 0xFFFFFFFF,
     GEN_SEG_NULL]"

text \<open>
  Base, limit, access byte and flags the processor reads; the granularity flag makes the limit
  count pages.
\<close>

definition desc_base :: "u8 list \<Rightarrow> u32" where
  "desc_base d = ucast (d ! 2) OR push_bit 8 (ucast (d ! 3)) OR push_bit 16 (ucast (d ! 4)) OR
     push_bit 24 (ucast (d ! 7))"

definition desc_limit :: "u8 list \<Rightarrow> u32" where
  "desc_limit d =
     (let raw = ucast (d ! 0) OR push_bit 8 (ucast (d ! 1)) OR push_bit 16 (ucast (d ! 6) AND 0xF)
      in if bit (d ! 6) 7 then push_bit 12 raw OR 0xFFF else raw)"

section \<open>What the processor sees\<close>

lemma and_ones:
  "x AND 0xFFFF = take_bit 16 x" "x AND 0xFF = take_bit 8 x" "x AND 0xF = take_bit 4 (x :: u32)"
  "x AND 0xFFFF0000 = push_bit 16 (drop_bit 16 x)"
proof -
  have e: "(0xFFFF :: u32) = mask 16" "(0xFF :: u32) = mask 8" "(0xF :: u32) = mask 4"
    "(0xFFFF0000 :: u32) = push_bit 16 (mask 16)"
    by (simp_all add: mask_eq_exp_minus_1)
  show "x AND 0xFFFF = take_bit 16 x" "x AND 0xFF = take_bit 8 x" "x AND 0xF = take_bit 4 x"
    unfolding e by (simp_all add: take_bit_eq_mask)
  show "x AND 0xFFFF0000 = push_bit 16 (drop_bit 16 x)"
    unfolding e by (rule bit_word_eqI) (auto simp: bit_simps)
qed

lemma small_bits:
  assumes "n < 2 ^ m" "m \<le> k"
  shows "\<not> bit (of_nat n :: u32) k"
proof -
  have "n < 2 ^ k" using assms power_increasing [of m k "2 :: nat"] by linarith
  then have "\<not> bit n k" by (simp add: bit_iff_odd)
  then show ?thesis by (simp add: bit_of_nat_iff)
qed

lemma gate_offset_words:
  assumes "type < 16" "dpl < 4"
  shows "gate_offset (gate_words (set_gate type sel dpl addr)) = addr"
proof (rule bit_word_eqI)
  fix n assume n: "n < LENGTH(32)"
  have "n \<ge> 16 \<longrightarrow> \<not> bit (of_nat type :: u32) (n - 8) \<and> \<not> bit (of_nat dpl :: u32) (n - 13)"
    using small_bits [of type 4 "n - 8"] small_bits [of dpl 2 "n - 13"] assms by simp
  then show "bit (gate_offset (gate_words (set_gate type sel dpl addr))) n = bit addr n"
    unfolding gate_offset_def gate_words_def set_gate_def and_ones
    using n by (cases "n < 16") (auto simp: bit_simps)
qed

lemma gate_selector_words: "gate_selector (gate_words (set_gate type sel dpl addr)) = ucast sel"
  unfolding gate_selector_def gate_words_def set_gate_def and_ones
  by (rule bit_word_eqI) (auto simp: bit_simps dest: bit_imp_le_length)

lemma gate_access:
  "take_bit 16 (snd (gate_words (SET_TRAP_GATE addr))) = GATE_DESC 0xF 0"
  "take_bit 16 (snd (gate_words (SET_SYS_GATE addr))) = GATE_DESC 0xF 3"
  by (simp_all add: SET_TRAP_GATE_def SET_SYS_GATE_def gate_words_def set_gate_def STS_TG32_def DPL_KERNEL_def
      DPL_USER_def GATE_DESC_def take_bit_push_bit)

lemma seg_base_SET: "seg_base (SET_TSS_SEG type base lim dpl sd) = base"
proof (rule bit_word_eqI)
  fix n assume "n < LENGTH(32)"
  then show "bit (seg_base (SET_TSS_SEG type base lim dpl sd)) n = bit base n"
    unfolding seg_base_def SET_TSS_SEG_def and_ones
    by (cases "n < 16"; cases "n < 24") (auto simp: bit_simps)
qed

lemma desc_base_GEN: "desc_base (GEN_SEG_DESC type base lim) = base"
proof (rule bit_word_eqI)
  fix n assume "n < LENGTH(32)"
  then show "bit (desc_base (GEN_SEG_DESC type base lim)) n = bit base n"
    unfolding desc_base_def GEN_SEG_DESC_def and_ones Let_def
    by (cases "n < 8"; cases "n < 16"; cases "n < 24") (auto simp: bit_simps)
qed

lemma desc_limit_GEN: "desc_limit (GEN_SEG_DESC type base lim) = lim OR 0xFFF"
proof (rule bit_word_eqI)
  fix n assume n: "n < LENGTH(32)"
  have e: "(0xFFF :: u32) = mask 12" "(0xC0 :: u8) = push_bit 6 (mask 2)"
    by (simp_all add: mask_eq_exp_minus_1)
  show "bit (desc_limit (GEN_SEG_DESC type base lim)) n = bit (lim OR 0xFFF) n"
    unfolding desc_limit_def GEN_SEG_DESC_def and_ones Let_def e
    using n by (cases "n < 12"; cases "n < 20"; cases "n < 28") (auto simp: bit_simps)
qed

lemma seg_limit_SET: "seg_limit (SET_TSS_SEG type base lim dpl sd) = unat lim mod 2 ^ 20"
proof -
  have "unat (ucast (take_bit 16 lim) :: u16) = unat lim mod 2 ^ 16"
    by (simp add: unsigned_ucast_eq unsigned_take_bit_eq) (simp add: take_bit_eq_mod)
  moreover have "unat (drop_bit 16 lim) mod 16 = unat lim div 2 ^ 16 mod 2 ^ 4"
    by (simp add: unsigned_drop_bit_eq drop_bit_eq_div unat_div)
  moreover have "unat lim mod 2 ^ 16 + 2 ^ 16 * (unat lim div 2 ^ 16 mod 2 ^ 4) = unat lim mod 2 ^ 20"
    using mod_mult2_eq [of "unat lim" "2 ^ 16" "2 ^ 4"] by simp
  ultimately show ?thesis by (simp add: seg_limit_def SET_TSS_SEG_def and_ones)
qed

lemma set_gate_asm_words:
  "gate_offset (set_gate_asm type dpl addr eax) = addr"
  "gate_selector (set_gate_asm type dpl addr eax) = drop_bit 16 eax"
proof -
  show "gate_offset (set_gate_asm type dpl addr eax) = addr"
  proof (rule bit_word_eqI)
    fix n assume "n < LENGTH(32)"
    then show "bit (gate_offset (set_gate_asm type dpl addr eax)) n = bit addr n"
      unfolding gate_offset_def set_gate_asm_def and_ones Let_def
      by (cases "n < 16") (auto simp: bit_simps)
  qed
  show "gate_selector (set_gate_asm type dpl addr eax) = drop_bit 16 eax"
    unfolding gate_selector_def set_gate_asm_def and_ones Let_def
    by (rule bit_word_eqI) (auto simp: bit_simps dest: bit_imp_le_length)
qed

section \<open>Interrupts reach their handlers\<close>

lemma idt_loop_gates: "idt_loop v i n t k = (if i \<le> k \<and> k < i + n then SET_TRAP_GATE (v k) else t k)"
  by (induction n arbitrary: i t) (auto simp: SET_TRAP_GATE_def)

lemma idt_init_kind:
  assumes "k < 256"
  shows "idt (idt_init v s) k = (if k = 0x80 then SET_SYS_GATE (v k) else SET_TRAP_GATE (v k))"
  using assms by (simp add: idt_init_def Let_def idt_loop_gates T_SYSCALL_def SET_SYS_GATE_def)

text \<open>
  C5. After \<^verbatim>\<open>idt_init\<close> the processor takes interrupt \<open>k\<close> to the handler
  \<^verbatim>\<open>__vectors[k]\<close>, in the kernel's flat 4 GB code segment of the table in
  \<^verbatim>\<open>init/head.S\<close>: the two halves of the gate reassemble to the address, the selector picks
  the descriptor with base 0 and limit 0xFFFFFFFF, and only the gate of the system call may be used
  from user mode.
\<close>

theorem interrupts_reach_vectors:
  assumes "k < 256"
  shows "let g = gate_words (idt (idt_init v s) k);
             d = kernel_gdt ! unat (gate_selector g div 8)
         in gate_offset g = v k \<and> desc_base d = 0 \<and> desc_limit d = 0xFFFFFFFF \<and> d ! 5 = 0x9A \<and>
            take_bit 16 (snd g) = GATE_DESC 0xF (if k = 0x80 then 3 else 0)"
proof -
  define g where "g = gate_words (idt (idt_init v s) k)"
  define d where "d = kernel_gdt ! unat (gate_selector g div 8)"
  obtain dpl where dpl: "dpl < 4" "g = gate_words (set_gate STS_TG32 GD_KTEXT dpl (v k))"
  proof
    show "(if k = 0x80 then DPL_USER else DPL_KERNEL) < 4" by (simp add: DPL_USER_def DPL_KERNEL_def)
    show "g = gate_words (set_gate STS_TG32 GD_KTEXT (if k = 0x80 then DPL_USER else DPL_KERNEL) (v k))"
      using assms by (simp add: g_def idt_init_kind SET_SYS_GATE_def SET_TRAP_GATE_def)
  qed
  have "gate_selector g = 8" by (simp add: dpl(2) gate_selector_words GD_KTEXT_def)
  then have d: "d = GEN_SEG_DESC (STA_X OR STA_R) 0 0xFFFFFFFF" by (simp add: d_def kernel_gdt_def)
  have "gate_offset g = v k" using dpl gate_offset_words [OF _ dpl(1)] by (simp add: STS_TG32_def)
  moreover have "desc_base d = 0" "desc_limit d = 0xFFFFFFFF" by (simp_all add: d desc_base_GEN desc_limit_GEN)
  moreover have "d ! 5 = 0x9A" by (simp add: d GEN_SEG_DESC_def Let_def STA_X_def STA_R_def)
  moreover have "take_bit 16 (snd g) = GATE_DESC 0xF (if k = 0x80 then 3 else 0)"
    using assms gate_access by (simp add: g_def idt_init_kind)
  ultimately show ?thesis unfolding Let_def g_def [symmetric] d_def [symmetric] by blast
qed

theorem interrupts_reach_vectors_witness:
  "\<forall>s :: unit kern.
     let g = gate_words (idt (idt_init (\<lambda>k. 0xC0100000 + of_nat k) s) 0x80);
         d = kernel_gdt ! unat (gate_selector g div 8)
     in gate_offset g = 0xC0100080 \<and> desc_base d = 0 \<and> desc_limit d = 0xFFFFFFFF \<and> d ! 5 = 0x9A \<and>
        take_bit 16 (snd g) = 0xEF00"
  using interrupts_reach_vectors [where 'a = unit and 'b = unit and k = "0x80" and v = "\<lambda>k. 0xC0100000 + of_nat k"]
  by (simp add: Let_def GATE_DESC_def)

end
