(* ===== verification/Boot_Laws.thy ===== *)
theory Boot_Laws
  imports Live_Laws Segments
begin

text \<open>
  Booting as a whole: from the memory the boot stages leave, \<^verbatim>\<open>kern_init\<close> comes to its idle
  loop with every part set up, and from there the kernel keeps running.
\<close>

section \<open>The memory at entry\<close>

text \<open>
  The BIOS map in its fixed place, and the boot page directory: directory and tables lie below
  the memory that is handed out, not on the screen and not where the disk test has its buffers,
  which are below that memory too, and no two slots share a table. There is
  memory for the 224 tables of the direct map and two pages more.
\<close>

definition low_frames :: "kernel_symbols \<Rightarrow> nat \<Rightarrow> nat set" where
  "low_frames ks v = {p. p < KFRAMES \<and> p * 4096 < v} - busy_frames ks"

definition boot_memory_ok :: "kernel_symbols \<Rightarrow> memory \<Rightarrow> nat \<Rightarrow> bool" where
  "boot_memory_ok ks m pg \<longleftrightarrow>
     (let its = e820_list m; v = unat (first_usable (ks_kernel_end ks) its) in
      e820_count m \<le> 20 \<and> map_ok v its \<and> ram_end its div 4096 \<le> KFRAMES \<and> 0xD8000 \<le> v \<and>
      226 \<le> card (set (frames (ram_blocks v its))) \<and> (\<forall>p \<in> busy_frames ks. p * 4096 < v) \<and>
      ks_boot_pgdir ks = page2kva pg \<and> pg \<in> low_frames ks v \<and>
      (\<forall>d \<in> user_slots. pde_present m pg d \<longrightarrow> table_of m pg d \<in> low_frames ks v - {pg}) \<and>
      inj_on (table_of m pg) {d \<in> user_slots. pde_present m pg d})"

lemma bios_frame:
  assumes "k < 4096"
  shows "kva2page (E820_MEM_BASE + KERNEL_BASE + of_nat k) \<notin> screen_frames"
proof -
  have "P_ADDR (E820_MEM_BASE + KERNEL_BASE + of_nat k) = of_nat (0x8000 + k)"
    by (simp add: P_ADDR_def E820_MEM_BASE_def)
  then have "kva2page (E820_MEM_BASE + KERNEL_BASE + of_nat k) = (0x8000 + k) mod 2 ^ 32 div 4096"
    by (simp only: kva2page_def unat_pa2page unat_of_nat) simp
  also have "\<dots> = 8" using assms by simp
  finally show ?thesis by (simp add: screen_frames_def)
qed

lemma bios_load32:
  assumes "same_off_screen m m'" "k + 4 \<le> 4096"
  shows "load32 m' (E820_MEM_BASE + KERNEL_BASE + of_nat k) = load32 m (E820_MEM_BASE + KERNEL_BASE + of_nat k)"
proof (rule load32_cong)
  fix i :: nat assume "i < 4"
  then have "kva2page (E820_MEM_BASE + KERNEL_BASE + of_nat (k + i)) \<notin> screen_frames"
    by (intro bios_frame) (use assms(2) in simp)
  then show "m' (E820_MEM_BASE + KERNEL_BASE + of_nat k + of_nat i) = m (E820_MEM_BASE + KERNEL_BASE + of_nat k + of_nat i)"
    using assms(1) by (simp add: same_off_def add.assoc)
qed

lemma bios_map_same:
  assumes so: "same_off_screen m m'" and n: "e820_count m \<le> 20"
  shows "e820_list m' = e820_list m"
proof -
  let ?b = "E820_MEM_BASE + KERNEL_BASE"
  have c: "e820_count m' = e820_count m"
    using bios_load32 [OF so, of 0] by (simp add: e820_count_def)
  have "e820_item m' i = e820_item m i" if "i < e820_count m" for i
  proof -
    have k: "4 + 20 * i + 16 + 4 \<le> 4096" using that n by simp
    have a: "?b + 4 + 20 * of_nat i + of_nat j = ?b + of_nat (4 + 20 * i + j)" for j by simp
    have "load32 m' (?b + 4 + 20 * of_nat i + of_nat j) = load32 m (?b + 4 + 20 * of_nat i + of_nat j)"
      if "j \<le> 16" for j
      unfolding a by (rule bios_load32 [OF so]) (use k that in simp)
    from this [of 0] this [of 4] this [of 8] this [of 12] this [of 16]
    show ?thesis by (simp add: e820_item_def Let_def load64_def add.assoc)
  qed
  then show ?thesis by (simp add: e820_list_def c)
qed

lemma ram_frames_above:
  assumes "map_ok v its" "q \<in> set (frames (ram_blocks v its))"
  shows "v \<le> q * 4096"
proof -
  obtain it where it: "it \<in> set its" "q \<in> set (frames (ram_block v it))"
    using assms(2) by (auto simp: frames_ram_blocks)
  obtain addr sz ty where e: "it = (addr, sz, ty)" by (cases it)
  have "item_ok v (addr, sz, ty)" using assms(1) it(1) unfolding map_ok_def e by blast
  then show ?thesis using in_ram_block [of v addr sz ty q] it(2) e by auto
qed

section \<open>Memory\<close>

lemma memory_stage:
  assumes ok: "boot_memory_ok ks m pg" and so: "same_off_screen m (mem s)"
  obtains s' where "vmm_init (ks_boot_pgdir ks) (pmm_init (ks_kernel_end ks) s) = Inr ((), s')"
    "pgdir_ok s' pg" "2 \<le> card (ff_avail s')" "mm_pgdir s' = page2kva pg"
    "sets_entries pg 0 KFRAMES (mem s) (mem s')" "clear_of (busy_frames ks) (mem s') pg"
    "vmm.more s' = vmm.more s" "prv (links s') MmapHead = MmapHead" "busy_frames ks \<inter> ff_avail s' = {}"
proof -
  let ?its = "e820_list m" and ?s1 = "pmm_init (ks_kernel_end ks) s"
  obtain v where v: "v = first_usable (ks_kernel_end ks) ?its" by simp
  have b: "e820_count m \<le> 20" "map_ok (unat v) ?its" "ram_end ?its div 4096 \<le> KFRAMES" "0xD8000 \<le> unat v"
    "226 \<le> card (set (frames (ram_blocks (unat v) ?its)))" "ks_boot_pgdir ks = page2kva pg" "pg \<in> low_frames ks (unat v)"
    "\<forall>d \<in> user_slots. pde_present m pg d \<longrightarrow> table_of m pg d \<in> low_frames ks (unat v) - {pg}"
    "inj_on (table_of m pg) {d \<in> user_slots. pde_present m pg d}" "\<forall>p \<in> busy_frames ks. p * 4096 < unat v"
    using ok by (simp_all add: boot_memory_ok_def Let_def v)
  have its: "?its = e820_list (mem s)" using bios_map_same [OF so b(1)] by simp
  note i = pmm_init_inv [OF its v b(2)]
  have av: "ff_avail ?s1 = set (frames (ram_blocks (unat v) ?its))" by (rule ff_avail_frames [OF i(1)])
  have above: "unat v \<le> q * 4096" if "q \<in> ff_avail ?s1" for q
    using ram_frames_above [OF b(2)] that by (simp add: av)
  have low: "p \<notin> ff_avail ?s1" if "p \<in> low_frames ks (unat v)" for p
    using above [of p] that by (auto simp: low_frames_def)
  have pg: "pg < 2 ^ 20" "pg \<notin> busy_frames ks" using b(7) by (simp_all add: low_frames_def KFRAMES_def)
  then have ps: "pg \<notin> screen_frames" by (simp add: busy_frames_def)
  have sl: "pde_present (mem s) pg d = pde_present m pg d" "table_of (mem s) pg d = table_of m pg d"
    if "d \<in> user_slots" for d
    using off_slots [OF so pg(1) ps user_slots_less [OF that]] by simp_all
  have pok: "pgdir_ok ?s1 pg"
    unfolding pgdir_ok_def i(3)
    using i(1,2) b(3,7,8,9) low sl by (auto simp: low_frames_def dest: inj_onD)
  have "missing ?s1 pg \<subseteq> kslots" by (auto simp: missing_def)
  then have "card (missing ?s1 pg) \<le> card kslots" by (intro card_mono) (simp_all add: kslots_def)
  then have "2 + card (missing ?s1 pg) \<le> card (ff_avail ?s1)" using b(5) by (simp add: av kslots_def)
  moreover have "q \<notin> busy_frames ks" if "q \<in> ff_avail ?s1" for q
    using above [OF that] b(10) by fastforce
  moreover have "clear_of (busy_frames ks) (mem ?s1) pg"
    using b(8) sl pg by (auto simp: clear_of_def i(3) low_frames_def)
  ultimately have "tables_left 2 (busy_frames ks) ?s1 pg" by (auto simp: tables_left_def)
  then obtain s' where s': "vmm_init (page2kva pg) ?s1 = Inr ((), s')" "pgdir_ok s' pg" "mm_pgdir s' = page2kva pg"
    "sets_entries pg 0 KFRAMES (mem ?s1) (mem s')" "tables_left 2 (busy_frames ks) s' pg"
    using vmm_init_result [OF pok] by blast
  have "vmm.more ?s1 = vmm.more s" using pmm_init_more [of "ks_kernel_end ks" s] by (cases s; cases ?s1; simp)
  then show ?thesis
    using that [of s'] s' vmm_init_frame [OF s'(1)] by (simp add: b(6) i(3) tables_left_def)
qed

text \<open>The direct map, read off the entries.\<close>

lemma direct_map:
  assumes "sets_entries pg 0 KFRAMES m m'" "same_map pg m' m''" "k < KFRAMES"
  shows "translate m'' pg (kaddr k) = page2pa k OR PTE_P OR PTE_W"
proof -
  have d: "768 + k div 1024 \<in> user_slots"
    using kaddr_kslot [OF assms(3)] kslots_user kaddr_slots [OF assms(3)] by auto
  moreover have "(768 + k div 1024 - 768) * 1024 + k mod 1024 = k" by simp
  ultimately have "vm_entry m' pg (768 + k div 1024) (k mod 1024) = direct_entry k"
    using assms(1,3) unfolding sets_entries_def by simp
  moreover have "vm_entry m'' pg (768 + k div 1024) (k mod 1024) = vm_entry m' pg (768 + k div 1024) (k mod 1024)"
    using assms(2) d unfolding same_map_def by simp
  ultimately show ?thesis by (simp add: translate_def kaddr_slots [OF assms(3)] direct_entry_def)
qed

section \<open>Processes and shell\<close>

definition boot_processes :: "('h, 'a) sched_scheme \<Rightarrow> u32 \<Rightarrow> u32 \<Rightarrow> bool" where
  "boot_processes s a b \<longleftrightarrow> current s = a \<and> idle_proc s = a \<and> init_proc s = b \<and> a \<noteq> b \<and>
     t_pid (tasks s a) = 0 \<and> t_pid (tasks s b) = 1 \<and> t_parent (tasks s b) = a \<and>
     t_state (tasks s a) = TASK_RUNNABLE \<and> t_state (tasks s b) = TASK_RUNNABLE"

lemma process_stage:
  assumes ok: "pgdir_ok s pg" "2 \<le> card (ff_avail s)" "mm_pgdir s = page2kva pg"
    and st: "next_pid s = 1" "nr_process s = 0" and mm: "prv (links s) MmapHead = MmapHead"
  obtains s' a b H where "sched_init syms s = Inr ((), s')" "sched_inv s' [b, a] H" "boot_processes s' a b"
    "prv (links s') MmapHead = MmapHead" "kept s' = kept s" "ff_avail s' \<subseteq> ff_avail s"
proof -
  have np: "unat (npage s) \<le> KFRAMES" and ff: "ff_ok s" and pg: "pg < KFRAMES"
    using ok(1) by (simp_all add: pgdir_ok_def)
  have nz: "mm_pgdir s \<noteq> 0" using page2kva_nonzero [OF pg] by (simp add: ok(3))
  obtain s' a b H where r: "sched_init syms s = Inr ((), s')" "sched_inv s' [b, a] H" "boot_processes s' a b"
    and av: "ff_avail s' \<subseteq> ff_avail s"
    using sched_init_result [OF ff np ok(2) st nz, of syms] unfolding boot_processes_def by metis
  have "same_console s s'" by (rule sched_init_console [OF ff np ok(2) st nz r(1)])
  then show ?thesis
    using that [OF r] mm av sched_init_kept [OF r(1)] by (simp add: same_console_def)
qed

lemma shell_stage:
  assumes inv: "sched_inv s ps H" "prv (links s) MmapHead = MmapHead" and bp: "boot_processes s a b"
  obtains s' where "shell_init io (intr_enable s) = Inr ((), s')" "kern_ok s' ps H" "boot_processes s' a b"
    "if_flag s'" "edit_line s' = []" "same_off_screen (mem s) (mem s')"
    "mm_pgdir s' = mm_pgdir s" "swap_device s' = swap_device s" "swap_mgr s' = swap_mgr s"
    "sched.more s' = sched.more s" "ff_avail s' = ff_avail s"
proof -
  let ?s1 = "intr_enable s"
  let ?s2 = "?s1\<lparr>cmd_pos := 0, cmd_buffer := (cmd_buffer ?s1)(0 := CHR 0x00)\<rparr>"
  obtain s' where s': "shell_init io ?s1 = Inr ((), s')" "shows_text ?s2 s'"
    using shell_init_result by blast
  obtain m h p where e: "s' = ?s2\<lparr>mem := m, hw := h, crt_pos := p\<rparr>"
    using s'(2) unfolding shows_text_def printed_def by blast
  have "sched_inv ?s1 ps H" using intr_restore_inv [OF inv(1), of True] by (simp add: intr_restore_def)
  then have "sched_inv s' ps H"
    using keeps_inv [of ?s1 s' ps H] by (simp add: e keeps_procs_def intr_enable_def)
  moreover have l: "edit_line s' = []" "cmd_pos s' = 0" by (simp_all add: e edit_line_empty)
  then have "line_ok s'" by (simp add: line_ok_def CMD_BUF_SIZE_def)
  ultimately have "kern_ok s' ps H" using inv(2) by (simp add: kern_ok_def e intr_enable_def)
  moreover have "boot_processes s' a b" using bp by (simp add: boot_processes_def e intr_enable_def)
  moreover have "same_off_screen (mem s) (mem s')"
    using s'(2) by (simp add: shows_text_def intr_enable_def)
  moreover have "ff_avail s' = ff_avail s" by (rule ff_ok_avail_same(2)) (simp_all add: e intr_enable_def)
  ultimately show ?thesis using that s'(1) l(1) by (simp add: e intr_enable_def)
qed

text \<open>Swapping and processes, once the memory is there and a disk was registered.\<close>

lemma swap_process_stage:
  assumes disk: "blk_get_device BLK_TYPE_DISK s = Some d"
    and ok: "pgdir_ok s pg" "2 \<le> card (ff_avail s)" "mm_pgdir s = page2kva pg"
    and st: "next_pid s = 1" "nr_process s = 0" and mm: "prv (links s) MmapHead = MmapHead"
  obtains s1 s' a b H where "swap_init s = Inr (0, s1)" "sched_init syms s1 = Inr ((), s')"
    "sched_inv s' [b, a] H" "boot_processes s' a b" "prv (links s') MmapHead = MmapHead"
    "mem s' = mem s" "mm_pgdir s' = page2kva pg" "swap_device s' = Some d" "swap_mgr s' = Swap_Mgr_Fifo"
    "sched.more s' = sched.more s" "ff_avail s' \<subseteq> ff_avail s"
proof -
  obtain s1 where s1: "s1 = s\<lparr>swap_mgr := Swap_Mgr_Fifo, swap_device := Some d,
      max_swap_offset := (bd_size (disk_devs s d) - SWAP_START_SECTOR) div SECTORS_PER_PAGE\<rparr>" by simp
  have sw: "swap_init s = Inr (0, s1)" using swap_init_result [OF disk] by (simp add: s1)
  have "ff_inv s1 = ff_inv s" by (rule ff_inv_same) (simp_all add: s1)
  then have ff: "ff_ok s1 = ff_ok s" "ff_avail s1 = ff_avail s" by (simp_all add: ff_ok_def ff_avail_def)
  then have "pgdir_ok s1 pg" "2 \<le> card (ff_avail s1)" using ok(1,2) by (simp_all add: pgdir_ok_def s1)
  moreover have "next_pid s1 = 1" "nr_process s1 = 0" "mm_pgdir s1 = page2kva pg" "prv (links s1) MmapHead = MmapHead"
    using st ok(3) mm by (simp_all add: s1)
  ultimately obtain s' a b H where r: "sched_init syms s1 = Inr ((), s')" "sched_inv s' [b, a] H"
    "boot_processes s' a b" "prv (links s') MmapHead = MmapHead" "kept s' = kept s1"
    "ff_avail s' \<subseteq> ff_avail s1"
    using process_stage by metis
  then show ?thesis using that [OF sw r(1-4)] ok(3) ff(2) by (simp add: kept_def s1)
qed

section \<open>The interrupt table\<close>

definition gates_set :: "(nat \<Rightarrow> u32) \<Rightarrow> (nat \<Rightarrow> gate_desc) \<Rightarrow> bool" where
  "gates_set v t \<longleftrightarrow> (\<forall>k < 256. t k =
     set_gate STS_TG32 GD_KTEXT (if k = 0x80 then DPL_USER else DPL_KERNEL) (v k))"

lemma idt_init_gates: "gates_set v (idt (idt_init v s))"
  by (simp add: gates_set_def idt_init_kind SET_SYS_GATE_def SET_TRAP_GATE_def)

section \<open>\<^verbatim>\<open>kern_init\<close>\<close>

lemma vmm_more_fields:
  assumes "vmm.more s' = vmm.more (s :: ('h, 'a) kern_scheme)"
  shows "next_pid s' = next_pid s" "nr_process s' = nr_process s" "block_devices s' = block_devices s"
    "disk_devs s' = disk_devs s" "num_devices s' = num_devices s" "idt s' = idt s"
  using assms by (cases s; cases s'; simp)+

lemma blk_get_device_same:
  assumes "block_devices s' = block_devices s" "disk_devs s' = disk_devs s" "num_devices s' = num_devices s"
  shows "blk_get_device t s' = blk_get_device t s"
  using find_device_cong [OF assms(1,2)] assms(3) by (simp add: blk_get_device_def)

definition booted ::
  "kernel_symbols \<Rightarrow> nat \<Rightarrow> nat \<Rightarrow> ('h, 'a) kern_scheme \<Rightarrow> bool" where
  "booted ks pg d s \<longleftrightarrow>
     mm_pgdir s = page2kva pg \<and> (\<forall>k < KFRAMES. translate (mem s) pg (kaddr k) = page2pa k OR PTE_P OR PTE_W) \<and>
     swap_device s = Some d \<and> swap_mgr s = Swap_Mgr_Fifo \<and> gates_set (ks_vectors ks) (idt s) \<and>
     if_flag s \<and> edit_line s = []"

lemma kern_init_stages:
  assumes cons: "cons_init io (ks_kernel_start ks) s = Inr ((), s1)" and clock: "clock_answers io"
  obtains s4 where "early_same s s4" "blk_get_device t s4 = blk_get_device t (blk_init io (pic_init io s1))"
    "gates_set (ks_vectors ks) (idt s4)"
    "kern_init io ks s =
      bindE (vmm_init (ks_boot_pgdir ks) (pmm_init (ks_kernel_end ks) s4)) (\<lambda>(_, s).
      bindE (swap_init s) (\<lambda>(_, s).
      bindE (sched_init (ks_sched ks) s) (\<lambda>(_, s). shell_init io (intr_enable s))))"
proof -
  have e1: "early_same s s1" using cons cons_init_result [of io "ks_kernel_start ks" s] by auto
  let ?s2 = "blk_init io (pic_init io s1)"
  have "early_same s1 ?s2"
    using early_trans [OF early_pic blk_init_early] unfolding pic_init_def by blast
  then have e2: "early_same s ?s2" by (rule early_trans [OF e1])
  obtain tm s3 where p: "pit_init io ?s2 = Inr (tm, s3)" "early_same ?s2 s3" "block_devices s3 = block_devices ?s2"
    "disk_devs s3 = disk_devs ?s2" "num_devices s3 = num_devices ?s2"
    using pit_init_result [OF clock, of ?s2] by metis
  let ?s4 = "idt_init (ks_vectors ks) s3"
  have "early_same s ?s4"
    using early_trans [OF e2 p(2)] by (simp add: early_same_def idt_init_def Let_def)
  moreover have "blk_get_device t ?s4 = blk_get_device t ?s2"
    by (rule blk_get_device_same) (simp_all add: idt_init_def Let_def p(3-5))
  moreover have "kern_init io ks s =
      bindE (vmm_init (ks_boot_pgdir ks) (pmm_init (ks_kernel_end ks) ?s4)) (\<lambda>(_, s).
      bindE (swap_init s) (\<lambda>(_, s).
      bindE (sched_init (ks_sched ks) s) (\<lambda>(_, s). shell_init io (intr_enable s))))"
    by (simp add: kern_init_def cons p(1) Let_def)
  ultimately show ?thesis using that idt_init_gates by blast
qed

text \<open>Once memory is set up and there is a disk, the rest of the boot succeeds.\<close>

lemma boot_with_disk:
  assumes d: "blk_get_device BLK_TYPE_DISK s = Some d" and pids: "next_pid s = 1" "nr_process s = 0"
    and ok: "pgdir_ok s pg" "2 \<le> card (ff_avail s)" "mm_pgdir s = page2kva pg"
    and mm: "prv (links s) MmapHead = MmapHead"
    and busy: "clear_of (busy_frames ks) (mem s) pg" "busy_frames ks \<inter> ff_avail s = {}"
    and map: "sets_entries pg 0 KFRAMES m (mem s)" and idt: "gates_set (ks_vectors ks) (idt s)"
  obtains s' a b H where
    "bindE (swap_init s) (\<lambda>(_, s). bindE (sched_init (ks_sched ks) s) (\<lambda>(_, s). shell_init io (intr_enable s))) =
       Inr ((), s')"
    "live_ok ks pg s' [b, a] H" "boot_processes s' a b" "booted ks pg d s'"
proof -
  obtain s1 s2 a b H where s2: "swap_init s = Inr (0, s1)" "sched_init (ks_sched ks) s1 = Inr ((), s2)"
    "sched_inv s2 [b, a] H" "boot_processes s2 a b" "prv (links s2) MmapHead = MmapHead"
    "mem s2 = mem s" "mm_pgdir s2 = page2kva pg" "swap_device s2 = Some d" "swap_mgr s2 = Swap_Mgr_Fifo"
    "sched.more s2 = sched.more s" "ff_avail s2 \<subseteq> ff_avail s"
    using swap_process_stage [OF d ok pids mm, of "ks_sched ks"] by metis
  obtain s' where s': "shell_init io (intr_enable s2) = Inr ((), s')" "kern_ok s' [b, a] H" "boot_processes s' a b"
    "if_flag s'" "edit_line s' = []" "same_off_screen (mem s2) (mem s')"
    "mm_pgdir s' = mm_pgdir s2" "swap_device s' = swap_device s2" "swap_mgr s' = swap_mgr s2"
    "sched.more s' = sched.more s2" "ff_avail s' = ff_avail s2"
    using shell_stage [OF s2(3,5,4)] by metis
  have "idt s' = idt s" using s'(10) s2(10) by (cases s'; cases s; cases s2) simp
  then have g: "gates_set (ks_vectors ks) (idt s')" using idt by simp
  have so: "same_off (busy_frames ks) (mem s) (mem s')"
    using same_off_mono [OF s'(6), of "busy_frames ks"] s2(6) by (simp add: busy_frames_def le_supI1)
  note sm = off_same_map [OF so pgdir_ok_pg [OF ok(1)] busy(1)]
  have inv: "ff_ok s'" "unat (npage s') \<le> KFRAMES"
    using s'(2) by (simp_all add: kern_ok_def sched_inv_def proc_frames_def)
  have av: "ff_avail s' \<subseteq> ff_avail s" using s2(11) s'(11) by simp
  have "pgdir_ok s' pg" by (rule off_pgdir_ok [OF so busy(1) ok(1) inv(1) av inv(2)])
  then have "live_ok ks pg s' [b, a] H"
    using s'(2,7) s2(7) sm(2) busy(2) av by (auto simp: live_ok_def space_ok_def)
  moreover from sm(1) have "booted ks pg d s'"
    using direct_map [OF map] g s'(4,5,7-9) s2(7-9) by (simp add: booted_def)
  ultimately show ?thesis using that s2(1,2) s'(1,3) by simp
qed

section \<open>Properties\<close>

text \<open>
  C1. The kernel boots. From a memory as the boot stages leave it, on any hardware whose clock
  can be read, \<^verbatim>\<open>kern_init\<close> follows the null pointer in \<^verbatim>\<open>swapfs_init\<close> when no disk was
  registered. Otherwise it comes to its idle loop, with idle and init as the only processes, the
  invariant of the running kernel, interrupts on, all 256 gates set, the direct map of all
  0x38000 frames, swapping on the first disk and an empty command line; and whatever interrupts,
  faults at addresses where nothing is mapped, device changes and scheduling steps follow, the
  invariant of processes, command line and address space stays.
\<close>

theorem kernel_boots:
  assumes mem: "boot_memory_ok ks (mem s) pg" and st: "next_pid s = 1" "nr_process s = 0"
    and clock: "clock_answers io" and cons: "cons_init io (ks_kernel_start ks) s = Inr ((), s1)"
  shows "case blk_get_device BLK_TYPE_DISK (blk_init io (pic_init io s1)) of
      None \<Rightarrow> kern_init io ks s = Inl Null_Deref
    | Some d \<Rightarrow> \<exists>s' a b H. kern_init io ks s = Inr ((), s') \<and> live_ok ks pg s' [b, a] H \<and>
        boot_processes s' a b \<and> booted ks pg d s' \<and>
        (\<forall>s''. live_reach io ks s' s'' \<longrightarrow> (\<exists>ps H. live_ok ks pg s'' ps H))"
proof -
  obtain s4 where s4: "early_same s s4"
    "blk_get_device BLK_TYPE_DISK s4 = blk_get_device BLK_TYPE_DISK (blk_init io (pic_init io s1))"
    "gates_set (ks_vectors ks) (idt s4)"
    "kern_init io ks s =
      bindE (vmm_init (ks_boot_pgdir ks) (pmm_init (ks_kernel_end ks) s4)) (\<lambda>(_, s).
      bindE (swap_init s) (\<lambda>(_, s).
      bindE (sched_init (ks_sched ks) s) (\<lambda>(_, s). shell_init io (intr_enable s))))"
    using kern_init_stages [OF cons clock] by metis
  have "same_off_screen (mem s) (mem s4)" using s4(1) by (simp add: early_same_def)
  then obtain s5 where s5: "vmm_init (ks_boot_pgdir ks) (pmm_init (ks_kernel_end ks) s4) = Inr ((), s5)"
    "pgdir_ok s5 pg" "2 \<le> card (ff_avail s5)" "mm_pgdir s5 = page2kva pg"
    "sets_entries pg 0 KFRAMES (mem s4) (mem s5)" "clear_of (busy_frames ks) (mem s5) pg"
    "vmm.more s5 = vmm.more s4" "prv (links s5) MmapHead = MmapHead" "busy_frames ks \<inter> ff_avail s5 = {}"
    using memory_stage [OF mem] by metis
  note f5 = vmm_more_fields [OF s5(7)]
  have disk: "blk_get_device BLK_TYPE_DISK s5 = blk_get_device BLK_TYPE_DISK (blk_init io (pic_init io s1))"
    using blk_get_device_same [OF f5(3-5)] s4(2) by simp
  show ?thesis
  proof (cases "blk_get_device BLK_TYPE_DISK s5")
    case None
    have "blk_get_device BLK_TYPE_DISK (s5\<lparr>swap_mgr := Swap_Mgr_Fifo\<rparr>) = None"
      using blk_get_device_same [of "s5\<lparr>swap_mgr := Swap_Mgr_Fifo\<rparr>" s5] None by simp
    then have "swap_init s5 = Inl Null_Deref"
      by (simp add: swap_init_def swapfs_init_def swap_fifo_init_def Let_def)
    then show ?thesis using s4(4) s5(1) None disk by simp
  next
    case (Some d)
    have pids: "next_pid s5 = 1" "nr_process s5 = 0" using s4(1) st f5(1,2) by (simp_all add: early_same_def)
    have "gates_set (ks_vectors ks) (idt s5)" using s4(3) f5(6) by simp
    from boot_with_disk [OF Some pids s5(2-4,8,6,9,5) this, of io] obtain s' a b H where
      s': "bindE (swap_init s5) (\<lambda>(_, s). bindE (sched_init (ks_sched ks) s) (\<lambda>(_, s). shell_init io (intr_enable s))) =
        Inr ((), s')" "live_ok ks pg s' [b, a] H" "boot_processes s' a b" "booted ks pg d s'" .
    have "kern_init io ks s = Inr ((), s')" using s4(4) s5(1) s'(1) by simp
    moreover have "\<forall>s''. live_reach io ks s' s'' \<longrightarrow> (\<exists>ps H. live_ok ks pg s'' ps H)"
      using live_reach_ok s'(2) by blast
    ultimately show ?thesis using s'(2-4) Some disk by auto
  qed
qed

text \<open>
  A machine with one region of RAM from 1 MB to 17 MB, an empty boot directory, a clock that
  stands still and drives that are always ready.
\<close>

definition demo_boot_ks :: kernel_symbols where
  "demo_boot_ks = demo_ks\<lparr>ks_kernel_end := 0xC0120000, ks_boot_pgdir := page2kva 0x110,
     ks_write_buf := page2kva 0x112, ks_read_buf := page2kva 0x113\<rparr>"

definition demo_entry :: "ata kern" where
  "demo_entry = sched.extend (demo_boot_sched\<lparr>mem := demo_bios\<rparr>) \<lparr>idt = (\<lambda>_. set_gate 0 0 0 0), is_panic = False\<rparr>"

definition still_io :: "ata port_io" where
  "still_io = sim_io\<lparr>p_inb := (\<lambda>_ h. (0x58, h))\<rparr>"

lemma demo_bios_zero: "kva2page a \<noteq> 8 \<Longrightarrow> demo_bios a = 0"
  by (auto simp: demo_bios_def kva2page_def P_ADDR_def unat_pa2page KERNEL_BASE_def)

lemma sector_frames_page:
  assumes "p < 2 ^ 20"
  shows "sector_frames (page2kva p) = {p}"
proof -
  have "kva2page (page2kva p + of_nat i) = p" if "i < 512" for i
    using in_frame_iff [OF assms, of "page2kva p + of_nat i"] that by (simp add: unat_of_nat)
  then have "sector_frames (page2kva p) = (\<lambda>_. p) ` {..<512 :: nat}" by (simp add: sector_frames_def)
  then show ?thesis by (simp only: image_constant_conv lessThan_empty_iff) simp
qed

lemma demo_busy_frames: "busy_frames demo_boot_ks = screen_frames \<union> {0x112, 0x113}"
  by (auto simp: busy_frames_def demo_boot_ks_def sector_frames_page)

lemma demo_boot_memory_ok: "boot_memory_ok demo_boot_ks demo_bios 0x110"
proof -
  obtain its :: "e820_item list" where its: "its = [(0x100000, 0x1000000, E820_RAM)]" by simp
  have l: "e820_list demo_bios = its" by (simp add: its demo_bios_list)
  have v: "first_usable 0xC0120000 its = 0x135400" and ok: "map_ok (unat (0x135400 :: u32)) its"
    using demo_boot_ok unfolding Mem_Init.demo_boot_def mach_of_simps l by simp_all
  have "entry demo_bios 0x110 d = 0" if "d < 1024" for d
  proof -
    have "demo_bios (entry_addr 0x110 d + of_nat j) = 0" if "j < 4" for j
      using \<open>d < 1024\<close> that by (intro demo_bios_zero) (simp add: entry_addr_frame)
    from this [of 0] this [of 1] this [of 2] this [of 3] show ?thesis by (simp add: entry_def load32_def)
  qed
  then have np: "\<not> pde_present demo_bios 0x110 d" if "d \<in> user_slots" for d
    using user_slots_less [OF that] by (simp add: pde_present_def)
  have "e820_count demo_bios = length (e820_list demo_bios)" by (simp add: e820_list_def)
  then have c: "e820_count demo_bios = 1" by (simp add: l its)
  have "card (set (frames [(310, 4042)])) = 4042"
    by (simp only: frames_def list.map concat.simps block_frames.simps append_Nil2 set_upt card_atLeastLessThan)
  then have r: "226 \<le> card (set (frames (ram_blocks (unat (0x135400 :: u32)) its)))"
    by (simp add: its Let_def del: frames_simps)
  have m: "ram_end its = 0x1100000" by (simp add: its ram_end_def)
  have low: "0x110 \<in> low_frames demo_boot_ks (unat (0x135400 :: u32))"
    by (simp add: low_frames_def demo_busy_frames screen_frames_def KFRAMES_def)
  have busy: "\<forall>p \<in> busy_frames demo_boot_ks. p * 4096 < unat (0x135400 :: u32)"
    by (auto simp: demo_busy_frames screen_frames_def)
  have ks: "ks_kernel_end demo_boot_ks = 0xC0120000" "ks_boot_pgdir demo_boot_ks = page2kva 0x110"
    by (simp_all add: demo_boot_ks_def)
  have none: "{d \<in> user_slots. pde_present demo_bios 0x110 d} = {}" using np by auto
  have k: "0x1100000 div 4096 \<le> KFRAMES" "0xD8000 \<le> unat (0x135400 :: u32)" by (simp_all add: KFRAMES_def)
  show ?thesis
    unfolding boot_memory_ok_def Let_def l c ks v m none using ok r low busy np k by auto
qed

lemma still_clock: "clock_answers still_io"
  by (simp add: clock_answers_def clock_loop.simps read_clock_def CMOS_READ_def still_io_def inb_def Let_def)

lemma still_detects:
  "\<exists>h d. hd_detect_device still_io i s = (0, s\<lparr>hw := h, ide_devices := (ide_devices s)(i := d)\<rparr>) \<and> ide_present d"
proof -
  have "wait_data_loop still_io base (Suc n) h = (0, h)" for base n h
    by (simp add: still_io_def inb_def ide_bits)
  from this [of _ 99999] have w: "hd_wait_data_on_base still_io base h = (0, h)" for base h
    by (simp add: hd_wait_data_on_base_def)
  have i: "inb still_io port h = (0x58, h)" for port h by (simp add: still_io_def inb_def)
  have f: "fst (hd_detect_device still_io i s) = 0"
    unfolding hd_detect_device_def Let_def case_prod_unfold i w fst_conv snd_conv by simp
  show ?thesis
  proof (cases rule: hd_detect_cases [of still_io i s])
    case 1
    then show ?thesis using f by simp
  next
    case (2 h buf)
    show ?thesis by (intro exI conjI, rule 2, rule identified_present)
  qed
qed

lemma still_present:
  "present_in s j \<or> i \<le> j \<and> j < i + n \<Longrightarrow> present_in (detect_loop still_io i n s) j"
proof (induction n arbitrary: i s)
  case (Suc n)
  obtain h d where d: "hd_detect_device still_io i s = (0, s\<lparr>hw := h, ide_devices := (ide_devices s)(i := d)\<rparr>)"
    "ide_present d"
    using still_detects by blast
  let ?s = "s\<lparr>hw := h, ide_devices := (ide_devices s)(i := d), hd_num_devices := hd_num_devices s + 1\<rparr>"
  have "present_in ?s j \<or> i + 1 \<le> j \<and> j < i + 1 + n"
    using Suc.prems d(2) by (auto simp: present_in_def)
  then show ?case using Suc.IH [of ?s "i + 1"] by (simp add: d(1))
qed auto

lemma still_disk:
  fixes s :: "(ata, 'a) blk_scheme"
  shows "blk_get_device BLK_TYPE_DISK (blk_init still_io s) = Some 0"
proof -
  let ?s' = "blk_init still_io s"
  obtain s0 :: "(ata, 'a) blk_scheme" where s0: "ide_devices ?s' = ide_devices (detect_loop still_io 0 4 s0)"
  proof -
    obtain s0 where "?s' = register_loop 0 (min (hd_get_device_count (hd_init still_io s0)) MAX_BLK_DEV) (hd_init still_io s0)"
      "num_devices s0 = 0"
      by (simp add: blk_init_def Let_def)
    moreover have "num_devices (hd_init still_io s0) + min n MAX_BLK_DEV \<le> MAX_BLK_DEV" for n
      using calculation(2) by (simp add: hd_init_blk)
    ultimately have "ide_devices ?s' = ide_devices (hd_init still_io s0)"
      using register_loop_registered by metis
    also have "\<dots> = ide_devices (detect_loop still_io 0 4 ((pic_enable still_io IRQ_IDE2 (pic_enable still_io IRQ_IDE1 s0))
        \<lparr>ide_devices := clear_devices 0 4 (ide_devices (pic_enable still_io IRQ_IDE2 (pic_enable still_io IRQ_IDE1 s0))),
          hd_num_devices := 0\<rparr>))"
      by (simp add: hd_init_def Let_def MAX_IDE_DEVICES_def)
    finally show ?thesis by (rule that)
  qed
  have p: "present_in ?s' j" if "j < 4" for j
    using still_present [of s0 j 0 4] that by (simp add: present_in_def s0)
  have "filter (present_in ?s') [0..<4] = [0..<4]" using p by (intro filter_True) simp
  then have n: "hd_num_devices ?s' = 4" using blk_init_registers [of still_io s] by (simp add: Let_def)
  have "[0..<4] = 0 # [Suc 0..<4 :: nat]" by (simp add: upt_conv_Cons)
  then show ?thesis using blk_init_registers [of still_io s] p [of 0] by (simp add: Let_def n)
qed

theorem kernel_boots_witness:
  "\<exists>s a b H. kern_init still_io demo_boot_ks demo_entry = Inr ((), s) \<and> boot_processes s a b \<and>
    booted demo_boot_ks 0x110 0 s \<and> live_ok demo_boot_ks 0x110 s [b, a] H"
proof -
  have e: "mem demo_entry = demo_bios" "next_pid demo_entry = 1" "nr_process demo_entry = 0"
    by (simp_all add: demo_entry_def sched.defs)
  obtain s1 where c: "cons_init still_io (ks_kernel_start demo_boot_ks) demo_entry = Inr ((), s1)"
    using cons_init_result by blast
  from kernel_boots [OF _ e(2,3) still_clock c, of "0x110"] show ?thesis
    using demo_boot_memory_ok by (auto simp: e(1) still_disk)
qed

end
