(* ===== verification/Bootload.thy ===== *)
theory Bootload
  imports Ports
begin

text \<open>
  The second stage of the boot loader, \<^verbatim>\<open>boot/bootload.c\<close>: it reads the kernel's ELF header
  and its segments from the disk, without a time limit. The addresses are physical ones; the
  memory is the one the kernel sees later. Jumping to the kernel is the result, the address
  jumped to.
\<close>

definition SECT_SIZE :: u32 where "SECT_SIZE = 512"
definition ELF_MAGIC :: u32 where "ELF_MAGIC = 0x464C457F"

partial_function (option) waitdisk :: "'h port_io \<Rightarrow> 'h \<Rightarrow> 'h option" where
  "waitdisk io h =
     (let (status, h) = inb io 0x1F7 h
      in if status AND 0xC0 \<noteq> 0x40 then waitdisk io h else Some h)"

definition readsect ::
  "'h port_io \<Rightarrow> u32 \<Rightarrow> u32 \<Rightarrow> 'h \<times> memory \<Rightarrow> ('h \<times> memory) option" where
  "readsect io dst secno = (\<lambda>(h, m).
     Option.bind (waitdisk io h) (\<lambda>h.
       let h = outb io 0x1F2 1 h;
           h = outb io 0x1F3 (ucast (secno AND 0xFF)) h;
           h = outb io 0x1F4 (ucast (drop_bit 8 secno AND 0xFF)) h;
           h = outb io 0x1F5 (ucast (drop_bit 16 secno AND 0xFF)) h;
           h = outb io 0x1F6 (ucast ((drop_bit 24 secno AND 0xF) OR 0xE0)) h;
           h = outb io 0x1F7 0x20 h
       in Option.bind (waitdisk io h) (\<lambda>h.
          Some (insl io 0x1F0 dst (unat (SECT_SIZE div 4)) h m))))"

text \<open>
  The loop of \<^verbatim>\<open>readseg\<close>; when \<open>end_va\<close> is in the last sector of the address space the
  address wraps around and the loop does not end.
\<close>

partial_function (option) readseg_loop ::
  "'h port_io \<Rightarrow> u32 \<Rightarrow> u32 \<Rightarrow> u32 \<Rightarrow> 'h \<times> memory \<Rightarrow> ('h \<times> memory) option" where
  "readseg_loop io va end_va secno hm =
     (if va < end_va then
        Option.bind (readsect io va secno hm)
          (\<lambda>hm. readseg_loop io (va + SECT_SIZE) end_va (secno + 1) hm)
      else Some hm)"

definition readseg ::
  "'h port_io \<Rightarrow> u32 \<Rightarrow> u32 \<Rightarrow> u32 \<Rightarrow> 'h \<times> memory \<Rightarrow> ('h \<times> memory) option" where
  "readseg io va cnt offset hm =
     (let end_va = va + cnt;
          va = va - offset mod SECT_SIZE;
          secno = offset div SECT_SIZE + 1
      in readseg_loop io va end_va secno hm)"

text \<open>The fields of the headers that are read, by their offsets.\<close>

definition e_magic :: "memory \<Rightarrow> u32 \<Rightarrow> u32" where "e_magic m hdr = load32 m hdr"
definition e_entry :: "memory \<Rightarrow> u32 \<Rightarrow> u32" where "e_entry m hdr = load32 m (hdr + 24)"
definition e_phoff :: "memory \<Rightarrow> u32 \<Rightarrow> u32" where "e_phoff m hdr = load32 m (hdr + 28)"
definition e_phnum :: "memory \<Rightarrow> u32 \<Rightarrow> u16" where "e_phnum m hdr = load16 m (hdr + 44)"
definition p_offset :: "memory \<Rightarrow> u32 \<Rightarrow> u32" where "p_offset m ph = load32 m (ph + 4)"
definition p_va :: "memory \<Rightarrow> u32 \<Rightarrow> u32" where "p_va m ph = load32 m (ph + 8)"
definition p_memsz :: "memory \<Rightarrow> u32 \<Rightarrow> u32" where "p_memsz m ph = load32 m (ph + 20)"
definition PROGHDR_SIZE :: u32 where "PROGHDR_SIZE = 32"

partial_function (option) load_segments ::
  "'h port_io \<Rightarrow> u32 \<Rightarrow> u32 \<Rightarrow> 'h \<times> memory \<Rightarrow> ('h \<times> memory) option" where
  "load_segments io ph eph hm =
     (if ph < eph then
        Option.bind
          (readseg io (p_va (snd hm) ph AND 0xFFFFFF) (p_memsz (snd hm) ph) (p_offset (snd hm) ph) hm)
          (\<lambda>hm. load_segments io (ph + PROGHDR_SIZE) eph hm)
      else Some hm)"

text \<open>On a bad header the loader spins for ever, as on a disk that never gets ready.\<close>

definition KERNEL_HEADER :: u32 where "KERNEL_HEADER = 0x10000"

definition bootmain :: "'h port_io \<Rightarrow> 'h \<times> memory \<Rightarrow> (u32 \<times> 'h \<times> memory) option" where
  "bootmain io hm =
     (let hdr = KERNEL_HEADER in
      Option.bind (readseg io hdr (SECT_SIZE * 8) 0 hm) (\<lambda>hm.
      if e_magic (snd hm) hdr \<noteq> ELF_MAGIC then None
      else
        let ph = hdr + e_phoff (snd hm) hdr;
            eph = ph + PROGHDR_SIZE * ucast (e_phnum (snd hm) hdr)
        in Option.bind (load_segments io ph eph hm) (\<lambda>hm.
           Some (e_entry (snd hm) hdr AND 0xFFFFFF, hm))))"

end
