(* ===== verification/Bootload_Laws.thy ===== *)
theory Bootload_Laws
  imports Bootload Ata_Sim
begin

text \<open>
  The boot loader on a first drive that follows the ATA protocol: it reads the kernel's file,
  which starts in the second sector, byte for byte, and jumps to its entry point.
\<close>

section \<open>The drive\<close>

text \<open>
  The loader waits for the ready bit only, and reads two words at a time. Both are part of the
  protocol: a drive that is not busy is ready, and a 32-bit read takes the lower word first.
\<close>

definition ata_stays_ready :: "'h port_io \<Rightarrow> u16 \<Rightarrow> ('h \<Rightarrow> ata) \<Rightarrow> bool" where
  "ata_stays_ready io base view \<longleftrightarrow>
     (\<forall>h. ata_busy (view h) = 0 \<longrightarrow> bit (fst (p_inb io (base + IDE_STATUS) h)) 6)"

definition ata_gives32 :: "'h port_io \<Rightarrow> u16 \<Rightarrow> ('h \<Rightarrow> ata) \<Rightarrow> bool" where
  "ata_gives32 io base view \<longleftrightarrow>
     (\<forall>h lo hi ws. ata_phase (view h) = Ata_In (lo # hi # ws) \<longrightarrow> ata_busy (view h) = 0 \<longrightarrow>
        fst (p_inl io (base + IDE_DATA) h) = push_bit 16 (ucast hi) OR ucast lo \<and>
        view (snd (p_inl io (base + IDE_DATA) h)) =
          (view h)\<lparr>ata_phase := if ws = [] then Ata_Idle else Ata_In ws\<rparr>)"

definition boot_channel :: "'h port_io \<Rightarrow> ('h \<Rightarrow> ata) \<Rightarrow> bool" where
  "boot_channel io view \<longleftrightarrow> ata_channel io IDE0_BASE view \<and> ata_stays_ready io IDE0_BASE view \<and>
     ata_gives32 io IDE0_BASE view"

lemma boot_ports:
  "IDE0_BASE + IDE_STATUS = 0x1F7" "IDE0_BASE + IDE_DATA = 0x1F0"
  by (simp_all add: ide_defs)

lemma waitdisk_result:
  assumes ch: "boot_channel io view"
  shows "\<exists>h'. waitdisk io h = Some h' \<and> view h' = (view h)\<lparr>ata_busy := 0\<rparr>"
proof (induction "ata_busy (view h)" arbitrary: h)
  case 0
  obtain st h1 where p: "inb io 0x1F7 h = (st, h1)" "ata_status_ok (view h) st"
    "view h1 = (view h)\<lparr>ata_busy := ata_busy (view h) - 1\<rparr>"
    using ata_poll [of io IDE0_BASE view h] ch unfolding boot_channel_def boot_ports by metis
  have "bit (fst (p_inb io 0x1F7 h)) 6"
    using ch 0 unfolding boot_channel_def ata_stays_ready_def boot_ports by simp
  then have "bit st 6" using p(1) by (simp add: inb_def)
  then have "st AND (IDE_BSY OR IDE_DRDY) = IDE_DRDY"
    using p(2) 0 by (simp add: ata_status_ok_def ready_test)
  then have "st AND 0xC0 = 0x40" by (simp add: ide_bits)
  then show ?case using p 0 by (subst waitdisk.simps) simp
next
  case (Suc n)
  obtain st h1 where p: "inb io 0x1F7 h = (st, h1)" "ata_status_ok (view h) st"
    "view h1 = (view h)\<lparr>ata_busy := ata_busy (view h) - 1\<rparr>"
    using ata_poll [of io IDE0_BASE view h] ch unfolding boot_channel_def boot_ports by metis
  have "st AND (IDE_BSY OR IDE_DRDY) \<noteq> IDE_DRDY"
    using p(2) Suc(2) by (simp add: ata_status_ok_def ready_test)
  then have "st AND 0xC0 \<noteq> 0x40" by (simp add: ide_bits)
  moreover have "n = ata_busy (view h1)" using Suc(2) p(3) by (simp flip: Suc(2))
  then obtain h' where "waitdisk io h1 = Some h'" "view h' = (view h1)\<lparr>ata_busy := 0\<rparr>"
    using Suc(1) by blast
  ultimately show ?case using p by (subst waitdisk.simps) simp
qed

section \<open>Sectors\<close>

lemma store32_halves:
  "store32 a (push_bit 16 (ucast hi) OR ucast lo) m = store16 (a + 2) hi (store16 a lo m)"
proof -
  let ?v = "push_bit 16 (ucast (hi :: u16)) OR ucast (lo :: u16) :: u32"
  have "(ucast ?v :: u8) = ucast lo" "(ucast (drop_bit 8 ?v) :: u8) = ucast (drop_bit 8 lo)"
    "(ucast (drop_bit 16 ?v) :: u8) = ucast hi" "(ucast (drop_bit 24 ?v) :: u8) = ucast (drop_bit 8 hi)"
    by (rule bit_word_eqI; auto simp: bit_simps dest: bit_imp_le_length)+
  then show ?thesis by (simp add: store32_def store16_def add.assoc)
qed

lemma insl_words:
  assumes ch: "boot_channel io view"
  shows "ata_phase (view h) = Ata_In ws \<Longrightarrow> ata_busy (view h) = 0 \<Longrightarrow> length ws = 2 * n \<Longrightarrow> 0 < n \<Longrightarrow>
    \<exists>h'. insl io 0x1F0 a n h m = (h', store_words a ws m) \<and> view h' = (view h)\<lparr>ata_phase := Ata_Idle\<rparr>"
proof (induction n arbitrary: ws h a m)
  case (Suc n)
  obtain lo hi vs where ws: "ws = lo # hi # vs"
    using Suc.prems(3) by (cases ws; cases "tl ws") auto
  have "fst (p_inl io 0x1F0 h) = push_bit 16 (ucast hi) OR ucast lo \<and>
      view (snd (p_inl io 0x1F0 h)) = (view h)\<lparr>ata_phase := if vs = [] then Ata_Idle else Ata_In vs\<rparr>"
    using ch Suc.prems(1,2) unfolding boot_channel_def ata_gives32_def boot_ports ws by blast
  then obtain h1 where h1: "p_inl io 0x1F0 h = (push_bit 16 (ucast hi) OR ucast lo, h1)"
    "view h1 = (view h)\<lparr>ata_phase := if vs = [] then Ata_Idle else Ata_In vs\<rparr>"
    by (metis prod.collapse)
  let ?m = "store16 (a + 2) hi (store16 a lo m)"
  show ?case
  proof (cases "vs = []")
    case True
    then have "n = 0" using Suc.prems(3) ws by simp
    then show ?thesis using h1 True ws by (simp add: store32_halves)
  next
    case False
    then have "length vs = 2 * n" using Suc.prems(3) ws by simp
    then have "length vs = 2 * n" "0 < n" using False by (auto intro: Nat.gr0I)
    moreover have "ata_phase (view h1) = Ata_In vs" "ata_busy (view h1) = 0"
      using h1(2) False Suc.prems(2) by simp_all
    ultimately obtain h' where "insl io 0x1F0 (a + 4) n h1 ?m = (h', store_words (a + 4) vs ?m)"
      "view h' = (view h1)\<lparr>ata_phase := Ata_Idle\<rparr>"
      using Suc.IH by blast
    then show ?thesis using h1 ws by (simp add: store32_halves add.assoc)
  qed
qed simp

text \<open>The sectors of the first drive.\<close>

definition boot_disk :: "('h \<Rightarrow> ata) \<Rightarrow> 'h \<Rightarrow> nat \<Rightarrow> u16 list" where
  "boot_disk view h = ata_disk (view h) False"

definition boot_ready :: "('h \<Rightarrow> ata) \<Rightarrow> 'h \<Rightarrow> bool" where
  "boot_ready view h \<longleftrightarrow> ata_phase (view h) = Ata_Idle \<and> (\<forall>l. length (boot_disk view h l) = 256)"

lemma readsect_result:
  assumes ch: "boot_channel io view" and rd: "boot_ready view h" and lba: "unat secno < 2 ^ 28"
  obtains h' where "readsect io dst secno (h, m) = Some (h', store_words dst (boot_disk view h (unat secno)) m)"
    "boot_ready view h'" "boot_disk view h' = boot_disk view h"
proof -
  have ata: "ata_channel io IDE0_BASE view" using ch by (simp add: boot_channel_def)
  obtain h1 where h1: "waitdisk io h = Some h1" "view h1 = (view h)\<lparr>ata_busy := 0\<rparr>"
    using waitdisk_result [OF ch] by blast
  have idle: "ata_phase (view h1) = Ata_Idle" "ata_busy (view h1) = 0"
    using h1(2) rd by (simp_all add: boot_ready_def)
  let ?h2 = "send_command io IDE0_BASE (drive_select 0) secno IDE_CMD_READ h1"
  obtain n where n: "view ?h2 = (task_file 0 secno (view h1))\<lparr>ata_busy := n,
      ata_phase := Ata_In (boot_disk view h (unat secno))\<rparr>"
    using send_command_view(1) [OF ata idle lba, of 0] h1(2) by (auto simp: boot_disk_def)
  obtain h3 where h3: "waitdisk io ?h2 = Some h3" "view h3 = (view ?h2)\<lparr>ata_busy := 0\<rparr>"
    using waitdisk_result [OF ch] by blast
  have d3: "ata_disk (view h3) = ata_disk (view h)" using h3(2) n h1(2) by simp
  have p3: "ata_phase (view h3) = Ata_In (boot_disk view h (unat secno))" "ata_busy (view h3) = 0"
    "length (boot_disk view h (unat secno)) = 2 * 128"
    using h3(2) n rd by (simp_all add: boot_ready_def)
  obtain h4 where h4: "insl io 0x1F0 dst 128 h3 m = (h4, store_words dst (boot_disk view h (unat secno)) m)"
    "view h4 = (view h3)\<lparr>ata_phase := Ata_Idle\<rparr>"
    using insl_words [OF ch p3] by auto
  have "readsect io dst secno (h, m) = Some (h4, store_words dst (boot_disk view h (unat secno)) m)"
    using h1(1) h3(1) h4(1) unfolding readsect_def
    by (simp add: send_command_def ide_defs drive_select_def IDE_DEV_MASTER_def IDE_CMD_READ_def
        SECT_SIZE_def Let_def or.commute unsigned_or_eq)
  moreover have "boot_disk view h4 = boot_disk view h" using h4(2) d3 by (simp add: boot_disk_def)
  ultimately show ?thesis using that h4(2) rd by (simp add: boot_ready_def)
qed

text \<open>Reading \<open>n\<close> sectors with addresses that do not wrap around.\<close>

lemma readseg_loop_result:
  assumes ch: "boot_channel io view"
  shows "boot_ready view h \<Longrightarrow> unat va + 512 * n < 2 ^ 32 \<Longrightarrow> unat secno + n \<le> 2 ^ 28 \<Longrightarrow>
    unat end_va \<le> unat va + 512 * n \<Longrightarrow> 0 < n \<longrightarrow> unat va + 512 * (n - 1) < unat end_va \<Longrightarrow>
    \<exists>h'. readseg_loop io va end_va secno (h, m) =
        Some (h', store_words va (sector_words (boot_disk view h) (unat secno) n) m) \<and>
      boot_ready view h' \<and> boot_disk view h' = boot_disk view h"
proof (induction n arbitrary: h va secno m)
  case 0
  then have "\<not> va < end_va" by (simp add: word_less_nat_alt)
  then show ?case using 0 by (subst readseg_loop.simps) (simp add: sector_words_def)
next
  case (Suc n)
  have lt: "va < end_va" using Suc.prems(5) by (simp add: word_less_nat_alt)
  have "unat secno < 2 ^ 28" using Suc.prems(3) by simp
  then obtain h1 where h1: "readsect io va secno (h, m) =
      Some (h1, store_words va (boot_disk view h (unat secno)) m)"
    "boot_ready view h1" "boot_disk view h1 = boot_disk view h"
    using readsect_result [OF ch Suc.prems(1)] by blast
  have len: "length (boot_disk view h (unat secno)) = 256"
    using Suc.prems(1) by (simp add: boot_ready_def)
  have va: "unat (va + SECT_SIZE) = unat va + 512"
    using Suc.prems(2) unat_add_small [of va SECT_SIZE] by (simp add: SECT_SIZE_def)
  have sec: "unat (secno + 1) = Suc (unat secno)"
    using Suc.prems(3) unat_add_small [of secno 1] by simp
  have "0 < n \<longrightarrow> unat (va + SECT_SIZE) + 512 * (n - 1) < unat end_va"
    using Suc.prems(5) unfolding va by (cases n) simp_all
  then obtain h' where h': "readseg_loop io (va + SECT_SIZE) end_va (secno + 1)
      (h1, store_words va (boot_disk view h (unat secno)) m) =
      Some (h', store_words (va + SECT_SIZE) (sector_words (boot_disk view h) (Suc (unat secno)) n)
        (store_words va (boot_disk view h (unat secno)) m))"
    "boot_ready view h'" "boot_disk view h' = boot_disk view h"
    using Suc.IH [OF h1(2), of "va + SECT_SIZE" "secno + 1" "store_words va (boot_disk view h (unat secno)) m"]
      Suc.prems(2-4) h1(3) unfolding va sec by auto
  have "va + 2 * of_nat (length (boot_disk view h (unat secno))) = va + SECT_SIZE"
    by (simp add: len SECT_SIZE_def)
  then have "readseg_loop io va end_va secno (h, m) =
      Some (h', store_words va (sector_words (boot_disk view h) (unat secno) (Suc n)) m)"
    using lt h1(1) h'(1) by (subst readseg_loop.simps) (simp add: sector_words_Suc store_words_append)
  then show ?case using h'(2,3) by blast
qed

section \<open>Bytes\<close>

definition word_byte :: "u16 list \<Rightarrow> nat \<Rightarrow> u8" where
  "word_byte ws i = (if even i then ucast (ws ! (i div 2)) else ucast (drop_bit 8 (ws ! (i div 2))))"

text \<open>
  The kernel's file as a memory that starts at address 0: the byte stored at a position on the
  disk, counted from the second sector.
\<close>

definition disk_byte :: "(nat \<Rightarrow> u16 list) \<Rightarrow> nat \<Rightarrow> u8" where
  "disk_byte d j = word_byte (d (j div 512)) (j mod 512)"

definition kernel_file :: "(nat \<Rightarrow> u16 list) \<Rightarrow> memory" where
  "kernel_file d a = disk_byte d (512 + unat a)"

lemma word_byte_Suc: "word_byte (w # ws) (Suc (Suc i)) = word_byte ws i"
  by (simp add: word_byte_def)

lemma store_words_byte:
  "2 * length ws < 2 ^ 32 \<Longrightarrow> i < 2 * length ws \<Longrightarrow> store_words a ws m (a + of_nat i) = word_byte ws i"
proof (induction ws arbitrary: a m i)
  case (Cons w ws)
  have ne: "a + of_nat k \<noteq> a + 2 + of_nat j" if "j < 2 * length ws" "k < 2" for j k
  proof
    assume "a + of_nat k = a + 2 + of_nat j"
    then have "(of_nat k :: u32) = of_nat (j + 2)" by (simp add: add.assoc)
    then have "unat (of_nat k :: u32) = unat (of_nat (j + 2) :: u32)" by (simp only:)
    then have "k mod 2 ^ 32 = (j + 2) mod 2 ^ 32" unfolding unat_of_nat by simp
    then show False using that Cons.prems(1) by simp
  qed
  have keep: "store_words (a + 2) ws (store16 a w m) (a + of_nat k) = store16 a w m (a + of_nat k)" if "k < 2" for k
    by (rule store_words_other) (use ne that in blast)
  consider "i = 0" | "i = 1" | j where "i = Suc (Suc j)" by (metis One_nat_def not0_implies_Suc)
  then show ?case
  proof cases
    case 3
    then show ?thesis
      using Cons.IH [of j "a + 2"] Cons.prems by (simp add: word_byte_Suc add.assoc)
  qed (use keep [of 0] keep [of 1] in \<open>simp_all add: word_byte_def store16_def\<close>)
qed simp

lemma sector_words_byte:
  assumes "\<And>l. length (d l) = 256"
  shows "i < 512 * n \<Longrightarrow> word_byte (sector_words d l n) i = disk_byte d (512 * l + i)"
proof (induction n arbitrary: l i)
  case (Suc n)
  show ?case
  proof (cases "i < 512")
    case True
    then have "i div 2 < 256" by simp
    moreover have "(512 * l + i) div 512 = l" "(512 * l + i) mod 512 = i" using True by simp_all
    ultimately show ?thesis
      by (simp add: sector_words_Suc word_byte_def disk_byte_def nth_append assms)
  next
    case False
    then have "\<not> i div 2 < 256" "i div 2 - 256 = (i - 512) div 2" "even (i - 512) \<longleftrightarrow> even i" by simp_all
    then have "word_byte (sector_words d l (Suc n)) i = word_byte (sector_words d (Suc l) n) (i - 512)"
      by (simp add: sector_words_Suc word_byte_def nth_append assms)
    moreover have "512 * Suc l + (i - 512) = 512 * l + i" using False by simp
    ultimately show ?thesis using Suc.IH [of "i - 512" "Suc l"] Suc.prems False by simp
  qed
qed simp

section \<open>A range of the file\<close>

text \<open>The first address written by \<^verbatim>\<open>readseg\<close>, and the number of sectors.\<close>

definition seg_start :: "u32 \<Rightarrow> u32 \<Rightarrow> nat" where
  "seg_start va offset = unat va - unat offset mod 512"

definition seg_sectors :: "u32 \<Rightarrow> u32 \<Rightarrow> nat" where
  "seg_sectors cnt offset = (unat offset mod 512 + unat cnt + 511) div 512"

definition seg_end :: "u32 \<Rightarrow> u32 \<Rightarrow> u32 \<Rightarrow> nat" where
  "seg_end va cnt offset = seg_start va offset + 512 * seg_sectors cnt offset"

lemma seg_sectors_bounds:
  "unat offset mod 512 + unat cnt \<le> 512 * seg_sectors cnt offset"
  "512 * seg_sectors cnt offset < unat offset mod 512 + unat cnt + 512"
  by (simp_all add: seg_sectors_def)

lemma readseg_result:
  assumes ch: "boot_channel io view" and rd: "boot_ready view h"
    and va: "unat offset mod 512 \<le> unat va" "unat va + unat cnt + 512 < 2 ^ 32"
    and off: "unat offset + unat cnt < 2 ^ 32"
  shows "\<exists>h' m'. readseg io va cnt offset (h, m) = Some (h', m') \<and>
    boot_ready view h' \<and> boot_disk view h' = boot_disk view h \<and>
    (\<forall>i < unat cnt. m' (va + of_nat i) = kernel_file (boot_disk view h) (offset + of_nat i)) \<and>
    (\<forall>a. unat a < seg_start va offset \<or> seg_end va cnt offset \<le> unat a \<longrightarrow> m' a = m a)"
proof -
  let ?n = "seg_sectors cnt offset" and ?r = "unat offset mod 512" and ?va = "va - offset mod SECT_SIZE"
  let ?d = "boot_disk view h" and ?sec = "offset div SECT_SIZE + 1"
  note b = seg_sectors_bounds [where offset = offset and cnt = cnt]
  have r: "unat (offset mod SECT_SIZE) = ?r" by (simp add: SECT_SIZE_def unat_mod_distrib)
  then have "offset mod SECT_SIZE \<le> va" using va(1) by (simp add: word_le_nat_alt)
  then have start: "unat ?va = seg_start va offset" by (simp add: unat_sub r seg_start_def)
  have "unat (offset div SECT_SIZE) = unat offset div 512" by (simp add: SECT_SIZE_def unat_div_distrib)
  moreover have "unat offset div 512 < 2 ^ 23" using off by simp
  ultimately have sec: "unat ?sec = unat offset div 512 + 1"
    using unat_add_small [of "offset div SECT_SIZE" 1] by simp
  have endv: "unat (va + cnt) = unat va + unat cnt" using va(2) unat_add_small [of va cnt] by simp
  have va': "unat va = seg_start va offset + ?r" using va(1) by (simp add: seg_start_def)
  have n4: "0 < ?n \<longrightarrow> unat ?va + 512 * (?n - 1) < unat (va + cnt)"
    using b(2) unfolding endv start va' by (cases ?n) simp_all
  have n1: "unat ?va + 512 * ?n < 2 ^ 32" using b(2) va unfolding start va' by simp
  have n3: "unat (va + cnt) \<le> unat ?va + 512 * ?n" using b(1) unfolding endv start va' by simp
  have n2: "unat ?sec + ?n \<le> 2 ^ 28"
    using off unfolding sec seg_sectors_def by simp
  obtain h' where h': "readseg_loop io ?va (va + cnt) ?sec (h, m) =
      Some (h', store_words ?va (sector_words ?d (unat ?sec) ?n) m)"
    "boot_ready view h'" "boot_disk view h' = ?d"
    using readseg_loop_result [OF ch rd n1 n2 n3 n4] by blast
  let ?ws = "sector_words ?d (unat ?sec) ?n"
  have dl: "\<And>l. length (?d l) = 256" using rd by (simp add: boot_ready_def)
  have len: "length ?ws = 256 * ?n" by (rule length_sector_words [OF dl])
  have small: "2 * length ?ws < 2 ^ 32" unfolding len using b(2) va by simp
  have bytes: "store_words ?va ?ws m (va + of_nat i) = kernel_file ?d (offset + of_nat i)" if i: "i < unat cnt" for i
  proof -
    have "(of_nat ?r :: u32) = offset mod SECT_SIZE" by (simp flip: r)
    then have "va + of_nat i = ?va + of_nat (?r + i)" by simp
    then have "store_words ?va ?ws m (va + of_nat i) = word_byte ?ws (?r + i)"
      using store_words_byte [OF small, of "?r + i" ?va m] b(1) i by (simp add: len)
    also have "\<dots> = disk_byte ?d (512 * unat ?sec + (?r + i))"
      by (rule sector_words_byte [OF dl]) (use b(1) i in simp)
    also have "512 * unat ?sec + (?r + i) = 512 + (unat offset + i)" by (simp add: sec)
    also have "unat offset + i = unat (offset + of_nat i)"
      using i off by (subst unat_add_small) (simp_all add: unat_of_nat)
    finally show ?thesis by (simp add: kernel_file_def)
  qed
  have other: "store_words ?va ?ws m a = m a"
    if a: "unat a < seg_start va offset \<or> seg_end va cnt offset \<le> unat a" for a
  proof (rule store_words_other)
    fix i assume i: "i < 2 * length ?ws"
    then have "unat (?va + of_nat i) = seg_start va offset + i"
      using n1 small by (subst unat_add_small) (simp_all add: unat_of_nat start len)
    then show "a \<noteq> ?va + of_nat i" using a i by (auto simp: seg_end_def len)
  qed
  have "readseg io va cnt offset (h, m) = Some (h', store_words ?va ?ws m)"
    using h'(1) by (simp add: readseg_def Let_def)
  then show ?thesis using h'(2,3) bytes other by blast
qed

section \<open>The kernel\<close>

text \<open>The headers of the file, which starts at address 0: where segment \<open>k\<close> goes.\<close>

definition file_ph :: "memory \<Rightarrow> nat \<Rightarrow> u32" where
  "file_ph F k = e_phoff F 0 + PROGHDR_SIZE * of_nat k"

definition seg_va :: "memory \<Rightarrow> nat \<Rightarrow> u32" where "seg_va F k = p_va F (file_ph F k) AND 0xFFFFFF"
definition seg_len :: "memory \<Rightarrow> nat \<Rightarrow> u32" where "seg_len F k = p_memsz F (file_ph F k)"
definition seg_off :: "memory \<Rightarrow> nat \<Rightarrow> u32" where "seg_off F k = p_offset F (file_ph F k)"

definition seg_writes :: "memory \<Rightarrow> nat \<Rightarrow> nat set" where
  "seg_writes F k = {seg_start (seg_va F k) (seg_off F k)..<seg_end (seg_va F k) (seg_len F k) (seg_off F k)}"

definition seg_addrs :: "memory \<Rightarrow> nat \<Rightarrow> nat set" where
  "seg_addrs F k = {unat (seg_va F k)..<unat (seg_va F k) + unat (seg_len F k)}"

text \<open>
  A file the loader can load: the headers are in the eight sectors read first, whole sectors of
  a segment touch neither them nor the segments loaded before, and nothing wraps around.
\<close>

definition seg_fits :: "memory \<Rightarrow> nat \<Rightarrow> bool" where
  "seg_fits F k \<longleftrightarrow> 0x11000 + unat (seg_off F k) mod 512 \<le> unat (seg_va F k) \<and>
     unat (seg_va F k) + unat (seg_len F k) + 512 < 2 ^ 32 \<and>
     unat (seg_off F k) + unat (seg_len F k) < 2 ^ 32 \<and>
     (\<forall>j < k. seg_writes F k \<inter> seg_addrs F j = {})"

definition file_segments :: "memory \<Rightarrow> nat" where
  "file_segments F = unat (e_phnum F 0)"

definition loadable :: "memory \<Rightarrow> bool" where
  "loadable F \<longleftrightarrow> e_magic F 0 = ELF_MAGIC \<and> unat (e_phoff F 0) + 32 * file_segments F \<le> 4096 \<and>
     (\<forall>k < file_segments F. seg_fits F k)"

definition headers_read :: "memory \<Rightarrow> memory \<Rightarrow> bool" where
  "headers_read F m \<longleftrightarrow> (\<forall>x. unat x < 4096 \<longrightarrow> m (KERNEL_HEADER + x) = F x)"

definition seg_loaded :: "memory \<Rightarrow> memory \<Rightarrow> nat \<Rightarrow> bool" where
  "seg_loaded F m k \<longleftrightarrow> (\<forall>i < unat (seg_len F k). m (seg_va F k + of_nat i) = F (seg_off F k + of_nat i))"

lemma headers_load32:
  assumes "headers_read F m" "unat x + 4 \<le> 4096"
  shows "load32 m (KERNEL_HEADER + x) = load32 F x"
proof -
  have "m (KERNEL_HEADER + (x + of_nat i)) = F (x + of_nat i)" if "i < 4" for i
  proof -
    have "unat (x + of_nat i) = unat x + i"
      using that assms(2) by (subst unat_add_small) (simp_all add: unat_of_nat)
    then show ?thesis using assms that by (simp add: headers_read_def)
  qed
  from this [of 0] this [of 1] this [of 2] this [of 3] show ?thesis by (simp add: load32_def add.assoc)
qed

lemma headers_load16:
  assumes "headers_read F m" "unat x + 2 \<le> 4096"
  shows "load16 m (KERNEL_HEADER + x) = load16 F x"
proof -
  have "unat (x + 1) = unat x + 1" using assms(2) by (subst unat_add_small) simp_all
  then have "m (KERNEL_HEADER + x) = F x" "m (KERNEL_HEADER + (x + 1)) = F (x + 1)"
    using assms by (simp_all add: headers_read_def)
  then show ?thesis by (simp add: load16_def add.assoc)
qed

lemma headers_fields:
  assumes "headers_read F m"
  shows "e_magic m KERNEL_HEADER = e_magic F 0" "e_entry m KERNEL_HEADER = e_entry F 0"
    "e_phoff m KERNEL_HEADER = e_phoff F 0" "e_phnum m KERNEL_HEADER = e_phnum F 0"
  using headers_load32 [OF assms, of 0] headers_load32 [OF assms, of 24] headers_load32 [OF assms, of 28]
    headers_load16 [OF assms, of 44]
  by (simp_all add: e_magic_def e_entry_def e_phoff_def e_phnum_def)

lemma file_ph_unat:
  assumes "loadable F" "k \<le> file_segments F"
  shows "unat (file_ph F k) = unat (e_phoff F 0) + 32 * k"
proof -
  have k: "unat (e_phoff F 0) + 32 * k \<le> 4096" using assms by (simp add: loadable_def)
  then have "unat (PROGHDR_SIZE * of_nat k :: u32) = 32 * k"
    by (simp add: PROGHDR_SIZE_def unat_word_ariths unat_of_nat)
  then show ?thesis using k unfolding file_ph_def by (subst unat_add_small) simp_all
qed

lemma headers_segment:
  assumes "headers_read F m" "loadable F" "k < file_segments F"
  shows "p_va m (KERNEL_HEADER + file_ph F k) AND 0xFFFFFF = seg_va F k"
    "p_memsz m (KERNEL_HEADER + file_ph F k) = seg_len F k"
    "p_offset m (KERNEL_HEADER + file_ph F k) = seg_off F k"
proof -
  have u: "unat (file_ph F k) + 32 \<le> 4096"
    using file_ph_unat [OF assms(2), of k] assms(2,3) by (simp add: loadable_def)
  have "load32 m (KERNEL_HEADER + file_ph F k + x) = load32 F (file_ph F k + x)" if "unat x + 4 \<le> 32" for x
  proof -
    have "unat (file_ph F k + x) = unat (file_ph F k) + unat x"
      using u that by (subst unat_add_small) simp_all
    then show ?thesis using headers_load32 [OF assms(1), of "file_ph F k + x"] u that by (simp add: add.assoc)
  qed
  from this [of 4] this [of 8] this [of 20]
  show "p_va m (KERNEL_HEADER + file_ph F k) AND 0xFFFFFF = seg_va F k"
    "p_memsz m (KERNEL_HEADER + file_ph F k) = seg_len F k"
    "p_offset m (KERNEL_HEADER + file_ph F k) = seg_off F k"
    by (simp_all add: p_va_def p_memsz_def p_offset_def seg_va_def seg_len_def seg_off_def)
qed

lemma seg_addr_unat:
  assumes "seg_fits F k" "i < unat (seg_len F k)"
  shows "unat (seg_va F k + of_nat i) = unat (seg_va F k) + i"
proof -
  have "unat (seg_va F k) + i < 2 ^ 32" using assms by (simp add: seg_fits_def)
  then show ?thesis by (subst unat_add_small) (simp_all add: unat_of_nat)
qed

text \<open>Loading one segment keeps the headers and the segments before it.\<close>

lemma segment_keeps:
  assumes fit: "seg_fits F k" and other: "\<forall>a. unat a \<notin> seg_writes F k \<longrightarrow> m' a = m a"
  shows "headers_read F m \<Longrightarrow> headers_read F m'"
    and "j < k \<Longrightarrow> seg_fits F j \<Longrightarrow> seg_loaded F m j \<Longrightarrow> seg_loaded F m' j"
proof -
  assume hd: "headers_read F m"
  have "m' (KERNEL_HEADER + x) = m (KERNEL_HEADER + x)" if x: "unat x < 4096" for x
  proof (rule other [rule_format])
    have "unat (KERNEL_HEADER + x) = 0x10000 + unat x"
      using x by (subst unat_add_small) (simp_all add: KERNEL_HEADER_def)
    then show "unat (KERNEL_HEADER + x) \<notin> seg_writes F k"
      using fit x by (auto simp: seg_fits_def seg_writes_def seg_start_def)
  qed
  then show "headers_read F m'" using hd by (simp add: headers_read_def)
next
  assume j: "j < k" and fj: "seg_fits F j" and ld: "seg_loaded F m j"
  have "m' (seg_va F j + of_nat i) = m (seg_va F j + of_nat i)" if "i < unat (seg_len F j)" for i
  proof (rule other [rule_format])
    have "unat (seg_va F j + of_nat i) \<in> seg_addrs F j"
      using seg_addr_unat [OF fj that] that by (simp add: seg_addrs_def)
    then show "unat (seg_va F j + of_nat i) \<notin> seg_writes F k"
      using fit j by (auto simp: seg_fits_def)
  qed
  then show "seg_loaded F m' j" using ld by (simp add: seg_loaded_def)
qed

lemma readseg_segment:
  assumes ch: "boot_channel io view" and rd: "boot_ready view h" and F: "F = kernel_file (boot_disk view h)"
    and fit: "seg_fits F k"
  obtains h' m' where "readseg io (seg_va F k) (seg_len F k) (seg_off F k) (h, m) = Some (h', m')"
    "boot_ready view h'" "boot_disk view h' = boot_disk view h" "seg_loaded F m' k"
    "\<forall>a. unat a \<notin> seg_writes F k \<longrightarrow> m' a = m a"
proof -
  have c: "unat (seg_off F k) mod 512 \<le> unat (seg_va F k)"
    "unat (seg_va F k) + unat (seg_len F k) + 512 < 2 ^ 32"
    "unat (seg_off F k) + unat (seg_len F k) < 2 ^ 32"
    using fit by (simp_all add: seg_fits_def)
  obtain h' m' where r: "readseg io (seg_va F k) (seg_len F k) (seg_off F k) (h, m) = Some (h', m')"
    "boot_ready view h'" "boot_disk view h' = boot_disk view h" "seg_loaded F m' k"
    "\<forall>a. unat a < seg_start (seg_va F k) (seg_off F k) \<or>
       seg_end (seg_va F k) (seg_len F k) (seg_off F k) \<le> unat a \<longrightarrow> m' a = m a"
    using readseg_result [OF ch rd c, of m] unfolding F seg_loaded_def by blast
  have "\<forall>a. unat a \<notin> seg_writes F k \<longrightarrow> m' a = m a"
    using r(5) by (metis atLeastLessThan_iff linorder_not_less seg_writes_def)
  then show ?thesis using that r(1-4) by blast
qed

lemma load_segments_result:
  assumes ch: "boot_channel io view" and F: "F = kernel_file (boot_disk view h)" and ok: "loadable F"
  shows "boot_ready view h1 \<Longrightarrow> boot_disk view h1 = boot_disk view h \<Longrightarrow> headers_read F m \<Longrightarrow>
    k + n = file_segments F \<Longrightarrow> \<forall>j < k. seg_loaded F m j \<Longrightarrow>
    \<exists>h' m'. load_segments io (KERNEL_HEADER + file_ph F k) (KERNEL_HEADER + file_ph F (k + n)) (h1, m) =
        Some (h', m') \<and>
      boot_ready view h' \<and> boot_disk view h' = boot_disk view h \<and> headers_read F m' \<and>
      (\<forall>j < k + n. seg_loaded F m' j) \<and>
      (\<forall>a. (\<forall>j < k + n. unat a \<notin> seg_writes F j) \<longrightarrow> m' a = m a)"
proof (induction n arbitrary: h1 m k)
  case 0
  then show ?case by (subst load_segments.simps) simp
next
  case (Suc n)
  have k: "k < file_segments F" using Suc.prems(4) by simp
  then have fit: "seg_fits F k" using ok by (simp add: loadable_def)
  have ph: "unat (KERNEL_HEADER + file_ph F j) = 0x10000 + unat (e_phoff F 0) + 32 * j" if "j \<le> file_segments F" for j
  proof -
    have "unat (file_ph F j) \<le> 4096" using file_ph_unat [OF ok that] ok that by (simp add: loadable_def)
    then show ?thesis
      using file_ph_unat [OF ok that] by (subst unat_add_small) (simp_all add: KERNEL_HEADER_def)
  qed
  have lt: "KERNEL_HEADER + file_ph F k < KERNEL_HEADER + file_ph F (k + Suc n)"
    using ph [of k] ph [of "k + Suc n"] k Suc.prems(4) by (simp add: word_less_nat_alt)
  have next_ph: "KERNEL_HEADER + file_ph F k + PROGHDR_SIZE = KERNEL_HEADER + file_ph F (Suc k)"
    by (simp add: file_ph_def algebra_simps)
  have F1: "F = kernel_file (boot_disk view h1)" by (simp add: F Suc.prems(2))
  obtain h2 m2 where r: "readseg io (seg_va F k) (seg_len F k) (seg_off F k) (h1, m) = Some (h2, m2)"
    "boot_ready view h2" "boot_disk view h2 = boot_disk view h1" "seg_loaded F m2 k"
    "\<forall>a. unat a \<notin> seg_writes F k \<longrightarrow> m2 a = m a"
    using readseg_segment [OF ch Suc.prems(1) F1 fit] by blast
  note keep = segment_keeps [OF fit r(5)]
  have "seg_fits F j" if "j < k" for j using ok that k by (simp add: loadable_def)
  then have l2: "\<forall>j < Suc k. seg_loaded F m2 j"
    using keep(2) Suc.prems(5) r(4) by (auto simp: less_Suc_eq)
  have d2: "boot_disk view h2 = boot_disk view h" "Suc k + n = file_segments F"
    using r(3) Suc.prems(2,4) by simp_all
  obtain h' m' where h': "load_segments io (KERNEL_HEADER + file_ph F (Suc k))
      (KERNEL_HEADER + file_ph F (k + Suc n)) (h2, m2) = Some (h', m')"
    "boot_ready view h'" "boot_disk view h' = boot_disk view h" "headers_read F m'"
    "\<forall>j < k + Suc n. seg_loaded F m' j" "\<forall>a. (\<forall>j < k + Suc n. unat a \<notin> seg_writes F j) \<longrightarrow> m' a = m2 a"
    using Suc.IH [OF r(2) d2(1) keep(1) [OF Suc.prems(3)] d2(2) l2] unfolding add_Suc_shift by blast
  have "load_segments io (KERNEL_HEADER + file_ph F k) (KERNEL_HEADER + file_ph F (k + Suc n)) (h1, m) = Some (h', m')"
    using lt h'(1) r(1) unfolding next_ph [symmetric]
    by (subst load_segments.simps) (simp add: headers_segment [OF Suc.prems(3) ok k])
  moreover have "m' a = m a" if "\<forall>j < k + Suc n. unat a \<notin> seg_writes F j" for a
    using that h'(6) r(5) by simp
  ultimately show ?case using h'(2-5) by blast
qed

lemma read_headers:
  assumes ch: "boot_channel io view" and rd: "boot_ready view h" and F: "F = kernel_file (boot_disk view h)"
  obtains h' m' where "readseg io KERNEL_HEADER (SECT_SIZE * 8) 0 (h, m) = Some (h', m')"
    "boot_ready view h'" "boot_disk view h' = boot_disk view h" "headers_read F m'"
    "\<forall>a. unat a \<notin> {0x10000..<0x11000} \<longrightarrow> m' a = m a"
proof -
  have c: "unat (0 :: u32) mod 512 \<le> unat KERNEL_HEADER"
    "unat KERNEL_HEADER + unat (SECT_SIZE * 8) + 512 < 2 ^ 32" "unat (0 :: u32) + unat (SECT_SIZE * 8) < 2 ^ 32"
    by (simp_all add: KERNEL_HEADER_def SECT_SIZE_def)
  have se: "seg_start KERNEL_HEADER 0 = 0x10000" "seg_end KERNEL_HEADER (SECT_SIZE * 8) 0 = 0x11000"
    "unat (SECT_SIZE * 8) = 4096"
    by (simp_all add: seg_start_def seg_end_def seg_sectors_def KERNEL_HEADER_def SECT_SIZE_def)
  obtain h' m' where r: "readseg io KERNEL_HEADER (SECT_SIZE * 8) 0 (h, m) = Some (h', m')"
    "boot_ready view h'" "boot_disk view h' = boot_disk view h"
    "\<forall>i < 4096. m' (KERNEL_HEADER + of_nat i) = F (0 + of_nat i)"
    "\<forall>a. unat a < 0x10000 \<or> 0x11000 \<le> unat a \<longrightarrow> m' a = m a"
    using readseg_result [OF ch rd c, of m] unfolding se F by blast
  have "headers_read F m'"
    unfolding headers_read_def using r(4) by (metis add_0 of_nat_unat ucast_id)
  moreover have "\<forall>a. unat a \<notin> {0x10000..<0x11000} \<longrightarrow> m' a = m a" using r(5) by auto
  ultimately show ?thesis using that r(1-3) by blast
qed

section \<open>Properties\<close>

text \<open>
  C7. The boot loader loads the kernel. On a first drive that follows the ATA protocol, however
  long its commands take, \<^verbatim>\<open>bootmain\<close> comes to jump to the entry point of the file that starts
  in the second sector when the file is loadable: every segment is in memory at its address
  with \<^verbatim>\<open>p_memsz\<close> bytes of the file (the code does not stop at \<^verbatim>\<open>p_filesz\<close>, so
  nothing zeroes the rest), the drive has not changed, and no other byte of memory has changed
  but the ones of the headers and of the sectors read. With a wrong magic number it never ends.
\<close>

theorem bootmain_loads_kernel:
  assumes ch: "boot_channel io view" and rd: "boot_ready view h" and F: "F = kernel_file (boot_disk view h)"
  shows "(e_magic F 0 \<noteq> ELF_MAGIC \<longrightarrow> bootmain io (h, m) = None) \<and>
    (loadable F \<longrightarrow> (\<exists>h' m'. bootmain io (h, m) = Some (e_entry F 0 AND 0xFFFFFF, h', m') \<and>
      boot_disk view h' = boot_disk view h \<and> (\<forall>k < file_segments F. seg_loaded F m' k) \<and>
      (\<forall>a. unat a \<notin> {0x10000..<0x11000} \<and> (\<forall>k < file_segments F. unat a \<notin> seg_writes F k) \<longrightarrow>
         m' a = m a)))"
proof -
  obtain h1 m1 where r1: "readseg io KERNEL_HEADER (SECT_SIZE * 8) 0 (h, m) = Some (h1, m1)"
    "boot_ready view h1" "boot_disk view h1 = boot_disk view h" "headers_read F m1"
    "\<forall>a. unat a \<notin> {0x10000..<0x11000} \<longrightarrow> m1 a = m a"
    using read_headers [OF ch rd F] by blast
  note hd = headers_fields [OF r1(4)]
  have "e_magic F 0 \<noteq> ELF_MAGIC \<longrightarrow> bootmain io (h, m) = None"
    by (simp add: bootmain_def r1(1) hd)
  moreover {
    assume ok: "loadable F"
    let ?n = "file_segments F"
    have ph: "KERNEL_HEADER + e_phoff F 0 = KERNEL_HEADER + file_ph F 0"
      "KERNEL_HEADER + file_ph F 0 + PROGHDR_SIZE * ucast (e_phnum F 0) = KERNEL_HEADER + file_ph F ?n"
      by (simp_all add: file_ph_def file_segments_def)
    have k: "0 + ?n = file_segments F" "\<forall>j < 0. seg_loaded F m1 j" by simp_all
    obtain h' m' where r2: "load_segments io (KERNEL_HEADER + file_ph F 0)
        (KERNEL_HEADER + file_ph F (0 + ?n)) (h1, m1) = Some (h', m')"
      "boot_disk view h' = boot_disk view h" "headers_read F m'" "\<forall>j < ?n. seg_loaded F m' j"
      "\<forall>a. (\<forall>j < ?n. unat a \<notin> seg_writes F j) \<longrightarrow> m' a = m1 a"
      using load_segments_result [OF ch F ok r1(2,3,4) k] unfolding add_0 by blast
    have "bootmain io (h, m) = Some (e_entry F 0 AND 0xFFFFFF, h', m')"
      using ok r2(1) unfolding bootmain_def Let_def
      by (simp add: r1(1) hd ph headers_fields [OF r2(3)] loadable_def)
    then have "\<exists>h' m'. bootmain io (h, m) = Some (e_entry F 0 AND 0xFFFFFF, h', m') \<and>
        boot_disk view h' = boot_disk view h \<and> (\<forall>k < ?n. seg_loaded F m' k) \<and>
        (\<forall>a. unat a \<notin> {0x10000..<0x11000} \<and> (\<forall>k < ?n. unat a \<notin> seg_writes F k) \<longrightarrow> m' a = m a)"
      using r2(2,4,5) r1(5) by (intro exI [of _ h'] exI [of _ m']) simp
  }
  ultimately show ?thesis by blast
qed

text \<open>
  A disk with a kernel: headers in sectors 1 to 8, and 700 bytes of code in sectors 9 and 10, to
  be loaded at \<^verbatim>\<open>0xC0100000\<close>.
\<close>

definition demo_header :: "u16 list" where
  "demo_header = (replicate 256 0)[0 := 0x457F, 1 := 0x464C, 13 := 0xC010, 14 := 52, 22 := 1,
     28 := 0x1000, 31 := 0xC010, 36 := 700]"

definition demo_boot :: ata where
  "demo_boot = sim_ata\<lparr>ata_disk := (\<lambda>_ l.
     if l = 1 then demo_header else if l = 9 \<or> l = 10 then replicate 256 0xFEEB else replicate 256 0)\<rparr>"

definition demo_file :: memory where
  "demo_file = kernel_file (boot_disk id demo_boot)"

lemma sim_boot_channel: "boot_channel sim_io id"
proof -
  have "ata_stays_ready sim_io IDE0_BASE id"
    by (simp add: ata_stays_ready_def sim_io_def sim_inb_def sim_status_def)
  moreover have "ata_gives32 sim_io IDE0_BASE id"
    by (simp add: ata_gives32_def sim_io_def sim_inl_def sim_inw_def)
  ultimately show ?thesis by (simp add: boot_channel_def sim_channel)
qed

lemma demo_file_headers:
  assumes "unat a < 512"
  shows "demo_file a = word_byte demo_header (unat a)"
proof -
  have "(512 + unat a) div 512 = 1" "(512 + unat a) mod 512 = unat a" using assms by simp_all
  then show ?thesis
    by (simp only: demo_file_def kernel_file_def disk_byte_def boot_disk_def demo_boot_def) simp
qed

lemma demo_file_fields:
  "e_magic demo_file 0 = ELF_MAGIC" "e_phoff demo_file 0 = 52" "e_phnum demo_file 0 = 1"
  "e_entry demo_file 0 = 0xC0100000" "seg_va demo_file 0 = 0x100000" "seg_len demo_file 0 = 700"
  "seg_off demo_file 0 = 0x1000"
  by (simp_all add: e_magic_def e_phoff_def e_phnum_def e_entry_def ELF_MAGIC_def seg_va_def seg_len_def
      seg_off_def p_va_def p_memsz_def p_offset_def file_ph_def load32_def load16_def demo_file_headers
      word_byte_def demo_header_def)

theorem bootmain_loads_kernel_witness:
  "\<exists>h' m'. bootmain sim_io (demo_boot, \<lambda>_. 0) = Some (0x100000, h', m') \<and> m' 0x100000 = 0xEB \<and> m' 0x1002BB = 0xFE"
proof -
  have n: "file_segments demo_file = 1" by (simp add: file_segments_def demo_file_fields)
  have "loadable demo_file"
    by (simp add: loadable_def n seg_fits_def demo_file_fields)
  have rd: "boot_ready id demo_boot"
    by (simp add: boot_ready_def boot_disk_def demo_boot_def demo_header_def sim_ata_def)
  obtain h' m' where r: "bootmain sim_io (demo_boot, \<lambda>_. 0) = Some (e_entry demo_file 0 AND 0xFFFFFF, h', m')"
    "seg_loaded demo_file m' 0"
    using bootmain_loads_kernel [OF sim_boot_channel rd demo_file_def, of "\<lambda>_. 0"] n \<open>loadable demo_file\<close>
    by fastforce
  have "m' (0x100000 + of_nat i) = demo_file (0x1000 + of_nat i)" if "i < 700" for i
    using r(2) that by (simp add: seg_loaded_def demo_file_fields)
  from this [of 0] this [of 699] have "m' 0x100000 = 0xEB" "m' 0x1002BB = 0xFE"
    by (simp_all add: demo_file_def kernel_file_def disk_byte_def word_byte_def boot_disk_def demo_boot_def)
  then show ?thesis using r(1) by (simp add: demo_file_fields)
qed

end
