(* ===== verification/Managers.thy ===== *)
theory Managers
  imports Swap_Test
begin

text \<open>
  The tables of function pointers through which the kernel reaches its managers: the physical
  memory manager (\<^verbatim>\<open>kern/mm/pmm.h\<close>, \<^verbatim>\<open>pmm_firstfit.c\<close>) and the page replacement
  managers (\<^verbatim>\<open>kern/mm/swap.h\<close>, \<^verbatim>\<open>swap_fifo.c\<close>, \<^verbatim>\<open>archived/swap_clock.c\<close> and
  \<^verbatim>\<open>archived/swap_lru.c\<close>). The \<^verbatim>\<open>mm_struct\<close> argument is the \<^verbatim>\<open>init_mm\<close> of the state.
\<close>

section \<open>Physical memory\<close>

record 's pmm_manager =
  pm_name :: string
  pm_init :: "'s \<Rightarrow> 's"
  pm_init_memmap :: "nat \<Rightarrow> u32 \<Rightarrow> 's \<Rightarrow> 's"
  pm_alloc :: "u32 \<Rightarrow> 's \<Rightarrow> (nat option \<times> 's) res"
  pm_free :: "nat \<Rightarrow> u32 \<Rightarrow> 's \<Rightarrow> (unit \<times> 's) res"
  pm_nr_free_pages :: "'s \<Rightarrow> u32"
  pm_check :: "'s \<Rightarrow> (unit \<times> 's) res"

definition firstfit_pmm_mgr :: "'a pmm_scheme pmm_manager" where
  "firstfit_pmm_mgr =
     \<lparr>pm_name = ''firstfit'', pm_init = ff_init, pm_init_memmap = ff_init_memmap, pm_alloc = ff_alloc,
      pm_free = ff_free, pm_nr_free_pages = ff_nr_free_pages, pm_check = ff_check\<rparr>"

definition pmm_mgr_init ::
  "'h port_io \<Rightarrow> ('h, 'a) cons_scheme \<Rightarrow> (unit \<times> ('h, 'a) cons_scheme) res" where
  "pmm_mgr_init io s =
     (let s = pm_init firstfit_pmm_mgr s
      in cons_printf io (line ''pmm: manager = %s'') [Str (pm_name firstfit_pmm_mgr)] s)"

section \<open>Page replacement\<close>

record 's swap_manager =
  sm_name :: string
  sm_init :: "'s \<Rightarrow> int \<times> 's"
  sm_init_mm :: "'s \<Rightarrow> int \<times> 's"
  sm_map_swappable :: "u32 \<Rightarrow> nat \<Rightarrow> bool \<Rightarrow> 's \<Rightarrow> (int \<times> 's) res"
  sm_swap_out_victim :: "bool \<Rightarrow> 's \<Rightarrow> (int \<times> nat option \<times> 's) res"
  sm_check_swap :: "'s \<Rightarrow> (int \<times> 's) res"

definition swap_fifo_check_swap ::
  "'h port_io \<Rightarrow> ('h, 'a) cons_scheme \<Rightarrow> (int \<times> ('h, 'a) cons_scheme) res" where
  "swap_fifo_check_swap io s =
     bindE (cons_printf io (line ''FIFO swap check: passed'') [] s) (\<lambda>(_, s). Inr (0, s))"

definition swap_mgr_fifo :: "'h port_io \<Rightarrow> ('h, 'a) cons_scheme swap_manager" where
  "swap_mgr_fifo io =
     \<lparr>sm_name = ''fifo swap manager'', sm_init = swap_fifo_init, sm_init_mm = swap_fifo_init_mm,
      sm_map_swappable = swap_fifo_map_swappable, sm_swap_out_victim = swap_fifo_swap_out_victim,
      sm_check_swap = swap_fifo_check_swap io\<rparr>"

definition swap_clock_init :: "'s \<Rightarrow> int \<times> 's" where
  "swap_clock_init s = (0, s)"

definition swap_clock_check_swap ::
  "'h port_io \<Rightarrow> ('h, 'a) cons_scheme \<Rightarrow> (int \<times> ('h, 'a) cons_scheme) res" where
  "swap_clock_check_swap io s =
     bindE (cons_printf io (line ''Clock swap check: passed'') [] s) (\<lambda>(_, s). Inr (0, s))"

definition swap_mgr_clock :: "'h port_io \<Rightarrow> ('h, 'a) cons_scheme swap_manager" where
  "swap_mgr_clock io =
     \<lparr>sm_name = ''clock swap manager'', sm_init = swap_clock_init, sm_init_mm = swap_clock_init_mm,
      sm_map_swappable = swap_clock_map_swappable, sm_swap_out_victim = swap_clock_swap_out_victim,
      sm_check_swap = swap_clock_check_swap io\<rparr>"

definition swap_lru_init :: "'s \<Rightarrow> int \<times> 's" where
  "swap_lru_init s = (0, s)"

definition swap_lru_check_swap ::
  "'h port_io \<Rightarrow> ('h, 'a) cons_scheme \<Rightarrow> (int \<times> ('h, 'a) cons_scheme) res" where
  "swap_lru_check_swap io s =
     bindE (cons_printf io (line ''LRU swap check: passed'') [] s) (\<lambda>(_, s). Inr (0, s))"

definition swap_mgr_lru :: "'h port_io \<Rightarrow> ('h, 'a) cons_scheme swap_manager" where
  "swap_mgr_lru io =
     \<lparr>sm_name = ''lru swap manager'', sm_init = swap_lru_init, sm_init_mm = swap_lru_init_mm,
      sm_map_swappable = swap_lru_map_swappable, sm_swap_out_victim = swap_lru_swap_out_victim,
      sm_check_swap = swap_lru_check_swap io\<rparr>"

text \<open>What \<^verbatim>\<open>swap_init\<close> sets \<^verbatim>\<open>swap_mgr\<close> to, and the calls through it.\<close>

lemma fifo_dispatch:
  assumes "swap_mgr s = Swap_Mgr_Fifo"
  shows "swap_init_mm s = Inr (sm_init_mm (swap_mgr_fifo io) s)"
    "mgr_map_swappable a p b s = sm_map_swappable (swap_mgr_fifo io) a p b s"
    "mgr_swap_out_victim b s = sm_swap_out_victim (swap_mgr_fifo io) b s"
  using assms
  by (simp_all add: swap_init_mm_def mgr_map_swappable_def mgr_swap_out_victim_def swap_mgr_fifo_def)

end
