(* ===== verification/Swap_Suite.thy ===== *)
theory Swap_Suite
  imports Managers
begin

text \<open>
  The tests of \<^verbatim>\<open>kern/mm/swap_test.c\<close> that the test run leaves out: those of the archived
  managers, which are compiled out with the managers, and the integration tests, which are
  compiled but called from nowhere. Locals without an initial value are arguments (\<open>junk\<close>). The
  local \<^verbatim>\<open>mm\<close> lends its \<^verbatim>\<open>pgdir\<close>, the boot directory, to the page table calls; the
  swapping calls get \<^verbatim>\<open>init_mm\<close>.
\<close>

section \<open>The archived managers\<close>

text \<open>Three pages at the addresses 0x1000, 0x2000 and 0x3000.\<close>

fun lru_add :: "'h port_io \<Rightarrow> nat list \<Rightarrow> ('h, 'a) cons_scheme \<Rightarrow> (unit \<times> ('h, 'a) cons_scheme) res" where
  "lru_add io [] s = Inr ((), s)"
| "lru_add io (i # is) s =
     bindE (sm_map_swappable (swap_mgr_lru io) (0x1000 * (of_nat i + 1)) (test_page i) False s)
       (\<lambda>(_, s). lru_add io is s)"

text \<open>The next victim, which stays as it was when there is none, must be page \<open>i\<close>.\<close>

definition lru_victim ::
  "'h port_io \<Rightarrow> nat \<Rightarrow> string \<Rightarrow> bool \<Rightarrow> nat option \<Rightarrow> ('h, 'a) tests_scheme \<Rightarrow>
   (bool \<times> nat option \<times> ('h, 'a) tests_scheme) res" where
  "lru_victim io i msg result victim s =
     bindE (sm_swap_out_victim (swap_mgr_lru io) False s) (\<lambda>(_, victim, s).
     bindE (test_assert io (victim = Some (test_page i)) msg result s) (\<lambda>(result, s).
     Inr (result, victim, s)))"

definition test_lru_basic :: "'h port_io \<Rightarrow> ('h, 'a) tests_scheme \<Rightarrow> (unit \<times> ('h, 'a) tests_scheme) res" where
  "test_lru_basic io s =
     bindE (test_start io ''LRU Basic Operation'' s) (\<lambda>(result, s).
     bindE (test_mm s) (\<lambda>_.
       let (_, s) = sm_init_mm (swap_mgr_lru io) s
       in bindE (lru_add io [0, 1, 2] s) (\<lambda>(_, s).
          bindE (lru_victim io 0 ''LRU victim is page 0'' result None s) (\<lambda>(result, _, s).
          test_end io result s))))"

definition test_lru_access_pattern ::
  "'h port_io \<Rightarrow> ('h, 'a) tests_scheme \<Rightarrow> (unit \<times> ('h, 'a) tests_scheme) res" where
  "test_lru_access_pattern io s =
     bindE (test_start io ''LRU Access Pattern'' s) (\<lambda>(result, s).
     bindE (test_mm s) (\<lambda>_.
       let (_, s) = sm_init_mm (swap_mgr_lru io) s
       in bindE (lru_add io [0, 1, 2] s) (\<lambda>(_, s).
          bindE (sm_map_swappable (swap_mgr_lru io) 0x1000 (test_page 0) True s) (\<lambda>(_, s).
          bindE (lru_victim io 1 ''After access, LRU is page 1'' result None s) (\<lambda>(result, victim, s).
          bindE (lru_victim io 2 ''Next LRU is page 2'' result victim s) (\<lambda>(result, victim, s).
          bindE (lru_victim io 0 ''Last is page 0'' result victim s) (\<lambda>(result, _, s).
          test_end io result s)))))))"

fun clock_add :: "'h port_io \<Rightarrow> nat \<Rightarrow> nat \<Rightarrow> ('h, 'a) cons_scheme \<Rightarrow> (unit \<times> ('h, 'a) cons_scheme) res" where
  "clock_add io i 0 s = Inr ((), s)"
| "clock_add io i (Suc n) s =
     bindE (sm_map_swappable (swap_mgr_clock io) (0x1000 * of_nat i) (test_page i) False s)
       (\<lambda>(_, s). clock_add io (i + 1) n s)"

definition test_clock_basic :: "'h port_io \<Rightarrow> ('h, 'a) tests_scheme \<Rightarrow> (unit \<times> ('h, 'a) tests_scheme) res" where
  "test_clock_basic io s =
     bindE (test_start io ''Clock Basic Operation'' s) (\<lambda>(result, s).
     bindE (test_mm s) (\<lambda>_.
       let (_, s) = sm_init_mm (swap_mgr_clock io) s
       in bindE (clock_add io 0 4 s) (\<lambda>(_, s).
          bindE (sm_swap_out_victim (swap_mgr_clock io) False s) (\<lambda>(ret, victim, s).
          bindE (test_assert io (ret = 0 \<and> victim \<noteq> None) ''Clock selects a victim'' result s) (\<lambda>(result, s).
          test_end io result s)))))"

section \<open>Integration tests\<close>

text \<open>\<open>junk\<close> is what the local \<^verbatim>\<open>mm\<close> holds in \<^verbatim>\<open>swap_list\<close>.\<close>

definition test_swap_init ::
  "'h port_io \<Rightarrow> u32 \<Rightarrow> ('h, 'a) tests_scheme \<Rightarrow> (unit \<times> ('h, 'a) tests_scheme) res" where
  "test_swap_init io junk s =
     bindE (test_start io ''Swap Initialization'' s) (\<lambda>(result, s).
     bindE (test_assert io True ''Swap system initialized'' result s) (\<lambda>(result, s).
     bindE (test_mm s) (\<lambda>_.
     bindE (swap_init_mm s) (\<lambda>(ret, s).
     bindE (test_assert io (ret = 0) ''swap_init_mm succeeds'' result s) (\<lambda>(result, s).
     bindE (test_assert io (junk \<noteq> 0) ''Swap list created'' result s) (\<lambda>(result, s).
     test_end io result s))))))"

definition free_if :: "nat option \<Rightarrow> 'a mach_scheme \<Rightarrow> (unit \<times> 'a mach_scheme) res" where
  "free_if page s = (case page of None \<Rightarrow> Inr ((), s) | Some p \<Rightarrow> pages_free p 1 s)"

definition test_swap_in_basic ::
  "'h port_io \<Rightarrow> u32 \<Rightarrow> ('h, 'a) tests_scheme \<Rightarrow> (unit \<times> ('h, 'a) tests_scheme) res" where
  "test_swap_in_basic io boot_pgdir s =
     bindE (test_start io ''Swap In Basic'' s) (\<lambda>(result, s).
     bindE (test_mm s) (\<lambda>_.
     bindE (swap_init_mm s) (\<lambda>(_, s).
       let addr = 0x100000
       in bindE (get_pte boot_pgdir addr True s) (\<lambda>(ptep, s).
          bindE (if ptep \<noteq> 0 then
              let s = upd_mem (store32 ptep 0x100) s
              in bindE (swap_in io addr s) (\<lambda>(ret, page, s).
                 bindE (test_assert io (ret = 0) ''swap_in returns success'' result s) (\<lambda>(result, s).
                 bindE (test_assert io (page \<noteq> None) ''Page allocated'' result s) (\<lambda>(result, s).
                 bindE (get_pte boot_pgdir addr False s) (\<lambda>(new_ptep, s).
                 bindE (test_assert io (new_ptep \<noteq> 0 \<and> load32 (mem s) new_ptep AND PTE_P \<noteq> 0)
                          ''PTE updated with present bit'' result s) (\<lambda>(result, s).
                 bindE (free_if page s) (\<lambda>(_, s). Inr (result, s)))))))
            else test_assert io False ''Failed to create PTE'' result s) (\<lambda>(result, s).
          test_end io result s)))))"

text \<open>The addresses of pages that could not be allocated stay what they were.\<close>

fun map_three ::
  "u32 \<Rightarrow> nat \<Rightarrow> nat \<Rightarrow> (nat \<Rightarrow> u32) \<Rightarrow> ('h, 'a) swap_scheme \<Rightarrow> ((nat \<Rightarrow> u32) \<times> ('h, 'a) swap_scheme) res" where
  "map_three boot_pgdir i 0 addrs s = Inr (addrs, s)"
| "map_three boot_pgdir i (Suc n) addrs s =
     bindE (alloc_pages 1 s) (\<lambda>(page, s).
     case page of
       None \<Rightarrow> map_three boot_pgdir (i + 1) n addrs s
     | Some p \<Rightarrow>
         let addr = 0x200000 + of_nat i * PG_SIZE
         in bindE (page_insert boot_pgdir p addr (PTE_P OR PTE_W OR PTE_U) s) (\<lambda>(_, s).
            bindE (mgr_map_swappable addr p False s) (\<lambda>(_, s).
            map_three boot_pgdir (i + 1) n (addrs(i := addr)) s)))"

fun check_absent ::
  "'h port_io \<Rightarrow> u32 \<Rightarrow> (nat \<Rightarrow> u32) \<Rightarrow> nat \<Rightarrow> nat \<Rightarrow> bool \<Rightarrow> ('h, 'a) tests_scheme \<Rightarrow>
   (bool \<times> ('h, 'a) tests_scheme) res" where
  "check_absent io boot_pgdir addrs i 0 result s = Inr (result, s)"
| "check_absent io boot_pgdir addrs i (Suc n) result s =
     bindE (get_pte boot_pgdir (addrs i) False s) (\<lambda>(ptep, s).
     bindE (if ptep \<noteq> 0
            then test_assert io (load32 (mem s) ptep AND PTE_P = 0)
                   ''PTE present bit cleared after swap out'' result s
            else Inr (result, s)) (\<lambda>(result, s).
     check_absent io boot_pgdir addrs (i + 1) n result s))"

definition test_swap_out_basic ::
  "'h port_io \<Rightarrow> u32 \<Rightarrow> (nat \<Rightarrow> u32) \<Rightarrow> ('h, 'a) tests_scheme \<Rightarrow> (unit \<times> ('h, 'a) tests_scheme) res" where
  "test_swap_out_basic io boot_pgdir junk s =
     bindE (test_start io ''Swap Out Basic'' s) (\<lambda>(result, s).
     bindE (test_mm s) (\<lambda>_.
     bindE (swap_init_mm s) (\<lambda>(_, s).
     bindE (map_three boot_pgdir 0 3 junk s) (\<lambda>(addrs, s).
     bindE (swap_out io 2 False s) (\<lambda>(count, s).
     bindE (test_assert io (count > 0) ''swap_out succeeded'' result s) (\<lambda>(result, s).
     bindE (check_absent io boot_pgdir addrs 0 count result s) (\<lambda>(result, s).
     bindE (cons_printf io (line ''  Swapped out %d pages'') [int_arg (int count)] s) (\<lambda>(_, s).
     test_end io result s))))))))"

section \<open>Comparison of the managers\<close>

fun add_swappable :: "'s swap_manager \<Rightarrow> nat \<Rightarrow> nat \<Rightarrow> 's \<Rightarrow> (unit \<times> 's) res" where
  "add_swappable sm j 0 s = Inr ((), s)"
| "add_swappable sm j (Suc n) s =
     bindE (sm_map_swappable sm (of_nat j * PG_SIZE) (test_page j) False s)
       (\<lambda>(_, s). add_swappable sm (j + 1) n s)"

fun remove_victims :: "'s swap_manager \<Rightarrow> nat \<Rightarrow> nat \<Rightarrow> 's \<Rightarrow> (nat \<times> 's) res" where
  "remove_victims sm removed 0 s = Inr (removed, s)"
| "remove_victims sm removed (Suc n) s =
     bindE (sm_swap_out_victim sm False s) (\<lambda>(ret, _, s).
     remove_victims sm (if ret = 0 then removed + 1 else removed) n s)"

fun compare_loop ::
  "'h port_io \<Rightarrow> ('h, 'a) cons_scheme swap_manager list \<Rightarrow> ('h, 'a) cons_scheme \<Rightarrow> (unit \<times> ('h, 'a) cons_scheme) res" where
  "compare_loop io [] s = Inr ((), s)"
| "compare_loop io (sm # sms) s =
     bindE (cons_printf io (line ''    %s'') [Str (sm_name sm)] s) (\<lambda>(_, s).
     bindE (test_mm s) (\<lambda>_.
       let (_, s) = sm_init_mm sm s
       in bindE (add_swappable sm 0 20 s) (\<lambda>(_, s).
          bindE (remove_victims sm 0 10 s) (\<lambda>(removed, s).
          bindE (cons_printf io (line ''      Successfully removed %d/10 pages'') [int_arg (int removed)] s) (\<lambda>(_, s).
          compare_loop io sms s)))))"

definition test_algorithm_comparison ::
  "'h port_io \<Rightarrow> ('h, 'a) tests_scheme \<Rightarrow> (unit \<times> ('h, 'a) tests_scheme) res" where
  "test_algorithm_comparison io s =
     bindE (test_start io ''Algorithm Comparison'' s) (\<lambda>(result, s).
     bindE (cons_printf io (newline @ line ''  Testing swap algorithm:'') [] s) (\<lambda>(_, s).
     bindE (compare_loop io [swap_mgr_fifo io] s) (\<lambda>(_, s).
     bindE (test_assert io True ''FIFO algorithm functional'' result s) (\<lambda>(result, s).
     test_end io result s))))"

section \<open>Disk input and output\<close>

text \<open>The bytes from \<open>a + i\<close> on become \<open>f i\<close>, \<open>f (i + 1)\<close> and so on.\<close>

fun fill_bytes :: "(nat \<Rightarrow> u8) \<Rightarrow> u32 \<Rightarrow> nat \<Rightarrow> nat \<Rightarrow> memory \<Rightarrow> memory" where
  "fill_bytes f a i 0 m = m"
| "fill_bytes f a i (Suc n) m = fill_bytes f a (i + 1) n (m(a + of_nat i := f i))"

definition pattern :: "nat \<Rightarrow> u8" where
  "pattern i = of_nat i AND 0xFF"

fun compare_page ::
  "'h port_io \<Rightarrow> u32 \<Rightarrow> nat \<Rightarrow> nat \<Rightarrow> nat \<Rightarrow> ('h, 'a) cons_scheme \<Rightarrow> (nat \<times> ('h, 'a) cons_scheme) res" where
  "compare_page io a errors i 0 s = Inr (errors, s)"
| "compare_page io a errors i (Suc n) s =
     (let expected = pattern i; actual = mem s (a + of_nat i)
      in if actual \<noteq> expected then
           bindE (if errors < 5
                  then cons_printf io (line ''    Mismatch at offset %d: expected 0x%02x, got 0x%02x'')
                         [int_arg (int i), Word (ucast expected), Word (ucast actual)] s
                  else Inr ((), s)) (\<lambda>(_, s). compare_page io a (errors + 1) (i + 1) n s)
         else compare_page io a errors (i + 1) n s)"

definition verify_page ::
  "'h port_io \<Rightarrow> nat \<Rightarrow> bool \<Rightarrow> ('h, 'a) tests_scheme \<Rightarrow> (bool \<times> ('h, 'a) tests_scheme) res" where
  "verify_page io new_page result s =
     bindE (compare_page io (page2kva new_page) 0 0 4096 s) (\<lambda>(errors, s).
     bindE (if errors = 0
            then test_assert io True ''Data integrity verified - all bytes match'' result s
            else bindE (cons_printf io (line ''    Total mismatches: %d'') [int_arg (int errors)] s)
                   (\<lambda>(_, s). test_assert io False ''Data corruption detected'' result s)) (\<lambda>(result, s).
     bindE (pages_free new_page 1 s) (\<lambda>(_, s). Inr (result, s))))"

definition test_swap_disk_io ::
  "'h port_io \<Rightarrow> u32 \<Rightarrow> ('h, 'a) tests_scheme \<Rightarrow> (unit \<times> ('h, 'a) tests_scheme) res" where
  "test_swap_disk_io io boot_pgdir s =
     bindE (test_start io ''Swap Disk I/O and Data Integrity'' s) (\<lambda>(result, s).
     bindE (test_mm s) (\<lambda>_.
     bindE (swap_init_mm s) (\<lambda>(_, s).
       let test_addr = 0x300000
       in bindE (alloc_pages 1 s) (\<lambda>(page, s).
          bindE (test_assert io (page \<noteq> None) ''Page allocation successful'' result s) (\<lambda>(result, s).
          case page of
            None \<Rightarrow> test_end io result s
          | Some p \<Rightarrow>
              let s = upd_mem (fill_bytes pattern (page2kva p) 0 4096) s
              in bindE (page_insert boot_pgdir p test_addr (PTE_P OR PTE_W OR PTE_U) s) (\<lambda>(_, s).
                 bindE (mgr_map_swappable test_addr p False s) (\<lambda>(_, s).
                 bindE (cons_printf io (line ''  Filled page with test pattern'') [] s) (\<lambda>(_, s).
                 bindE (swap_out io 1 False s) (\<lambda>(swapped, s).
                 bindE (test_assert io (swapped = 1) ''Page swapped out'' result s) (\<lambda>(result, s).
                 bindE (get_pte boot_pgdir test_addr False s) (\<lambda>(ptep, s).
                 bindE (test_assert io (ptep \<noteq> 0 \<and> load32 (mem s) ptep AND PTE_P = 0)
                          ''PTE marked as not present'' result s) (\<lambda>(result, s).
                 if ptep = 0 then Inl Null_Deref
                 else
                   let swap_entry = load32 (mem s) ptep
                   in bindE (cons_printf io (line ''  Page swapped to entry 0x%x'') [Word swap_entry] s) (\<lambda>(_, s).
                      bindE (swap_in io test_addr s) (\<lambda>(ret, new_page, s).
                      bindE (test_assert io (ret = 0) ''Page swapped in'' result s) (\<lambda>(result, s).
                      bindE (test_assert io (new_page \<noteq> None) ''New page allocated'' result s) (\<lambda>(result, s).
                      bindE (case new_page of
                               None \<Rightarrow> Inr (result, s)
                             | Some q \<Rightarrow> verify_page io q result s) (\<lambda>(result, s).
                      test_end io result s)))))))))))))))))"

subsection \<open>Several pages\<close>

definition NUM_TEST_PAGES :: nat where "NUM_TEST_PAGES = 5"

definition base_addr :: u32 where "base_addr = 0x400000"

definition unique_pattern :: "nat \<Rightarrow> nat \<Rightarrow> u8" where
  "unique_pattern i j = of_nat (i * 17 + j) AND 0xFF"

fun fill_pages :: "u32 \<Rightarrow> nat \<Rightarrow> nat \<Rightarrow> ('h, 'a) swap_scheme \<Rightarrow> (unit \<times> ('h, 'a) swap_scheme) res" where
  "fill_pages boot_pgdir i 0 s = Inr ((), s)"
| "fill_pages boot_pgdir i (Suc n) s =
     bindE (alloc_pages 1 s) (\<lambda>(page, s).
     bindE (case page of
         None \<Rightarrow> Inr ((), s)
       | Some p \<Rightarrow>
           let addr = base_addr + of_nat i * PG_SIZE;
               s = upd_mem (fill_bytes (unique_pattern i) (page2kva p) 0 4096) s
           in bindE (page_insert boot_pgdir p addr (PTE_P OR PTE_W OR PTE_U) s) (\<lambda>(_, s).
              bindE (mgr_map_swappable addr p False s) (\<lambda>(_, s). Inr ((), s)))) (\<lambda>(_, s).
     fill_pages boot_pgdir (i + 1) n s))"

text \<open>How many of the first 256 bytes differ.\<close>

fun count_errors :: "memory \<Rightarrow> u32 \<Rightarrow> nat \<Rightarrow> nat \<Rightarrow> nat \<Rightarrow> nat \<Rightarrow> nat" where
  "count_errors m a i errors j 0 = errors"
| "count_errors m a i errors j (Suc n) =
     count_errors m a i (if m (a + of_nat j) \<noteq> unique_pattern i j then errors + 1 else errors) (j + 1) n"

definition verify_back ::
  "nat \<Rightarrow> nat option \<Rightarrow> int \<Rightarrow> nat \<Rightarrow> ('h, 'a) swap_scheme \<Rightarrow> (nat \<times> ('h, 'a) swap_scheme) res" where
  "verify_back i page ret verified s =
     (case page of
        Some p \<Rightarrow>
          if ret = 0 then
            let errors = count_errors (mem s) (page2kva p) i 0 0 256;
                verified = (if errors = 0 then verified + 1 else verified)
            in bindE (pages_free p 1 s) (\<lambda>(_, s). Inr (verified, s))
          else Inr (verified, s)
      | None \<Rightarrow> Inr (verified, s))"

fun swap_back ::
  "'h port_io \<Rightarrow> u32 \<Rightarrow> nat \<Rightarrow> nat \<Rightarrow> nat \<Rightarrow> ('h, 'a) swap_scheme \<Rightarrow> (nat \<times> ('h, 'a) swap_scheme) res" where
  "swap_back io boot_pgdir i verified 0 s = Inr (verified, s)"
| "swap_back io boot_pgdir i verified (Suc n) s =
     (let addr = base_addr + of_nat i * PG_SIZE
      in bindE (get_pte boot_pgdir addr False s) (\<lambda>(ptep, s).
         bindE (if ptep \<noteq> 0 \<and> load32 (mem s) ptep AND PTE_P = 0
                then bindE (swap_in io addr s) (\<lambda>(ret, page, s). verify_back i page ret verified s)
                else Inr (verified, s)) (\<lambda>(verified, s).
         swap_back io boot_pgdir (i + 1) verified n s)))"

definition test_swap_multiple_pages ::
  "'h port_io \<Rightarrow> u32 \<Rightarrow> ('h, 'a) tests_scheme \<Rightarrow> (unit \<times> ('h, 'a) tests_scheme) res" where
  "test_swap_multiple_pages io boot_pgdir s =
     bindE (test_start io ''Swap Multiple Pages'' s) (\<lambda>(result, s).
     bindE (test_mm s) (\<lambda>_.
     bindE (swap_init_mm s) (\<lambda>(_, s).
     bindE (fill_pages boot_pgdir 0 NUM_TEST_PAGES s) (\<lambda>(_, s).
     bindE (cons_printf io (line ''  Allocated and filled %d pages'') [int_arg (int NUM_TEST_PAGES)] s) (\<lambda>(_, s).
     bindE (swap_out io 3 False s) (\<lambda>(swapped, s).
     bindE (test_assert io (swapped = 3) ''Swapped out 3 pages'' result s) (\<lambda>(result, s).
     bindE (cons_printf io (line ''  Swapped out %d pages'') [int_arg (int swapped)] s) (\<lambda>(_, s).
     bindE (swap_back io boot_pgdir 0 0 swapped s) (\<lambda>(verified, s).
     bindE (test_assert io (verified = swapped) ''All swapped pages verified'' result s) (\<lambda>(result, s).
     bindE (cons_printf io (line ''  Verified %d/%d pages'') [int_arg (int verified), int_arg (int swapped)] s) (\<lambda>(_, s).
     test_end io result s)))))))))))"

section \<open>The runner\<close>

text \<open>The part of \<^verbatim>\<open>run_swap_tests\<close> that is compiled out.\<close>

definition disabled_tests ::
  "'h port_io \<Rightarrow> u32 \<Rightarrow> u32 \<Rightarrow> (nat \<Rightarrow> u32) \<Rightarrow> ('h, 'a) tests_scheme \<Rightarrow> (unit \<times> ('h, 'a) tests_scheme) res" where
  "disabled_tests io boot_pgdir junk_list junk_addrs s =
     bindE (cons_printf io (newline @ line ''--- LRU Algorithm Tests ---'') [] s) (\<lambda>(_, s).
     bindE (test_lru_basic io s) (\<lambda>(_, s).
     bindE (test_lru_access_pattern io s) (\<lambda>(_, s).
     bindE (cons_printf io (newline @ line ''--- Clock Algorithm Tests ---'') [] s) (\<lambda>(_, s).
     bindE (test_clock_basic io s) (\<lambda>(_, s).
     bindE (cons_printf io (newline @ line ''--- Integration Tests ---'') [] s) (\<lambda>(_, s).
     bindE (test_swap_init io junk_list s) (\<lambda>(_, s).
     bindE (test_swap_in_basic io boot_pgdir s) (\<lambda>(_, s).
     bindE (test_swap_out_basic io boot_pgdir junk_addrs s) (\<lambda>(_, s).
     bindE (cons_printf io (newline @ line ''--- Disk I/O Tests ---'') [] s) (\<lambda>(_, s).
     bindE (test_swap_disk_io io boot_pgdir s) (\<lambda>(_, s).
     bindE (test_swap_multiple_pages io boot_pgdir s) (\<lambda>(_, s).
     bindE (cons_printf io (newline @ line ''--- Algorithm Comparison ---'') [] s) (\<lambda>(_, s).
     test_algorithm_comparison io s)))))))))))))"

text \<open>The shell's entry point.\<close>

definition swap_test_command :: "'h port_io \<Rightarrow> ('h, 'a) tests_scheme \<Rightarrow> (unit \<times> ('h, 'a) tests_scheme) res" where
  "swap_test_command io s = run_swap_tests io s"

end
