(* ===== verification/Suite_Laws.thy ===== *)
theory Suite_Laws
  imports Swap_Suite Swap_Test_Laws
begin

text \<open>
  Two of the tests nothing calls: the comparison of the managers takes ten of twenty pages out,
  and the initialisation test depends on what an uninitialised local happens to hold.
\<close>

section \<open>Through the table of functions\<close>

lemma add_swappable_fifo: "add_swappable (swap_mgr_fifo io) j n s = add_pages j n s"
  by (induction j n s rule: add_pages.induct)
    (simp_all add: swap_mgr_fifo_def PG_SIZE_def mult.commute bindE_def split: sum.split)

lemma remove_victims_tq:
  "tq s0 (map test_page [i..<i + n] @ ps) a b s \<Longrightarrow>
   \<exists>s'. remove_victims (swap_mgr_fifo io) r n s = Inr (r + n, s') \<and> tq s0 ps a b s'"
proof (induction n arbitrary: i r s)
  case (Suc n)
  have u: "[i..<i + Suc n] = i # [i + 1..<i + 1 + n]" by (simp add: upt_conv_Cons del: upt_Suc)
  obtain s1 where s1: "swap_fifo_swap_out_victim False s = Inr (0, Some (test_page i), s1)"
    "tq s0 (map test_page [i + 1..<i + 1 + n] @ ps) a b s1"
    using Suc.prems pop_tq [of s0 "test_page i" "map test_page [i + 1..<i + 1 + n] @ ps" a b s False]
    unfolding u by auto
  from Suc.IH [OF s1(2), of "r + 1"] show ?case by (simp add: s1(1) swap_mgr_fifo_def)
qed simp

theorem test_algorithm_comparison_passes:
  fixes s :: "('h, 'b) tests_scheme"
  assumes "tests_at s0 a b s"
  shows "\<exists>s'. test_algorithm_comparison io s = Inr ((), s') \<and> tq s0 (map test_page [10..<20]) (a + 1) b s'"
proof -
  let ?m = "swap_mgr_fifo io :: ('h, 'b tests_ext) cons_scheme swap_manager"
  obtain s1 where s1: "test_start io ''Algorithm Comparison'' s = Inr (True, s1)" "shows_text s s1"
    using test_start_shows by metis
  have "fits (newline @ line ''  Testing swap algorithm:'') False False []" by (simp add: fits_defs)
  from cons_printf_shows [OF this, of io s1] obtain s2 where
    s2: "cons_printf io (newline @ line ''  Testing swap algorithm:'') [] s1 = Inr ((), s2)" "shows_text s1 s2" by metis
  have "fits (line ''    %s'') False False [Str (sm_name ?m)]" by (simp add: fits_defs)
  from cons_printf_shows [OF this, of io s2] obtain s3 where
    s3: "cons_printf io (line ''    %s'') [Str (sm_name ?m)] s2 = Inr ((), s3)" "shows_text s2 s3" by metis
  have q3: "tests_at s0 a b s3"
    using shows_tests_at [OF shows_text_trans [OF shows_text_trans [OF s1(2) s2(2)] s3(2)]] assms by simp
  obtain s4 where s4: "sm_init_mm ?m s3 = (0, s4)" "tq s0 [] a b s4"
    using init_tq [OF q3] by (simp add: swap_mgr_fifo_def swap_fifo_init_mm_def Let_def)
  have "distinct ([] @ map test_page [0..<0 + 20])" by (simp only: append_Nil test_pages_distinct) simp
  from add_pages_tq [OF s4(2) this] obtain s5 where
    s5: "add_swappable ?m 0 20 s4 = Inr ((), s5)" "tq s0 (map test_page [0..<20]) a b s5"
    by (auto simp: add_swappable_fifo)
  have "[0..<20] = [0..<0 + 10] @ [10..<20 :: nat]" using upt_add_eq_append [of 0 10 10] by simp
  then have "tq s0 (map test_page [0..<0 + 10] @ map test_page [10..<20]) a b s5" using s5(2) by (simp only: map_append)
  from remove_victims_tq [OF this, of io 0] obtain s6 where
    s6: "remove_victims ?m 0 10 s5 = Inr (10, s6)" "tq s0 (map test_page [10..<20]) a b s6" by auto
  have "fits (line ''      Successfully removed %d/10 pages'') False False [int_arg (int 10)]" by (simp add: fits_defs)
  from cons_printf_tq [OF this s6(2), of io] obtain s7 where
    s7: "cons_printf io (line ''      Successfully removed %d/10 pages'') [int_arg (int 10)] s6 = Inr ((), s7)"
      "tq s0 (map test_page [10..<20]) a b s7" by metis
  obtain s8 where s8: "test_assert io True ''FIFO algorithm functional'' True s7 = Inr (True, s8)" "shows_text s7 s8"
    using test_assert_shows by metis
  have "tq s0 (map test_page [10..<20]) a b s8" using shows_tq [OF s8(2)] s7(2) by simp
  then obtain s9 where s9: "test_end io True s8 = Inr ((), s9)" "tq s0 (map test_page [10..<20]) (a + 1) b s9"
    using test_end_tq by metis
  have "compare_loop io [?m] s2 = Inr ((), s7)"
    by (simp only: compare_loop.simps s3(1) bindE_Inr case_prod_conv test_mm_at [OF q3] Let_def s4(1) s5(1) s6(1) s7(1))
  then have "test_algorithm_comparison io s = Inr ((), s9)"
    by (simp only: test_algorithm_comparison_def s1(1) s2(1) bindE_Inr case_prod_conv s8(1) s9(1))
  then show ?thesis using s9(2) by metis
qed

section \<open>An uninitialised local\<close>

lemma shows_swap_mgr: "shows_text s s' \<Longrightarrow> swap_mgr s' = swap_mgr s"
  unfolding shows_text_def printed_def by fastforce

lemma test_end_failed:
  assumes "tq s0 ps a b s"
  shows "\<exists>s'. test_end io False s = Inr ((), s') \<and> tq s0 ps a (b + 1) s'"
proof -
  have "fits (line ''  [FAILED]'') False False []" by (simp add: fits_defs)
  from cons_printf_tq [OF this assms, of io] obtain s' where
    "cons_printf io (line ''  [FAILED]'') [] s = Inr ((), s')" "tq s0 ps a b s'" by metis
  then show ?thesis by (simp add: test_end_def tq_def tests_at_def test_frame_def pra_queue_def)
qed

text \<open>The test fails although the code under test works: it looks at the wrong structure.\<close>

theorem test_swap_init_junk:
  assumes "tests_at s0 a b s" "swap_mgr s = Swap_Mgr_Fifo"
  shows "\<exists>s'. test_swap_init io junk s = Inr ((), s') \<and>
    (if junk \<noteq> 0 then tq s0 [] (a + 1) b s' else tq s0 [] a (b + 1) s')"
proof -
  obtain s1 where s1: "test_start io ''Swap Initialization'' s = Inr (True, s1)" "shows_text s s1"
    using test_start_shows by metis
  obtain s2 where s2: "test_assert io True ''Swap system initialized'' True s1 = Inr (True, s2)" "shows_text s1 s2"
    using test_assert_shows by metis
  note p2 = shows_text_trans [OF s1(2) s2(2)]
  have q2: "tests_at s0 a b s2" "swap_mgr s2 = Swap_Mgr_Fifo"
    using shows_tests_at [OF p2] assms(1) shows_swap_mgr [OF p2] assms(2) by simp_all
  obtain s3 where s3: "swap_init_mm s2 = Inr (0, s3)" "tq s0 [] a b s3"
    using init_tq [OF q2(1)] q2(2) by (simp add: swap_init_mm_def swap_fifo_init_mm_def Let_def)
  obtain s4 where s4: "test_assert io True ''swap_init_mm succeeds'' True s3 = Inr (True, s4)" "shows_text s3 s4"
    using test_assert_shows by metis
  have q4: "tq s0 [] a b s4" using shows_tq [OF s4(2)] s3(2) by simp
  have "\<exists>s'. bindE (test_assert io (junk \<noteq> 0) ''Swap list created'' True s4) (\<lambda>(result, s). test_end io result s)
      = Inr ((), s') \<and> (if junk \<noteq> 0 then tq s0 [] (a + 1) b s' else tq s0 [] a (b + 1) s')"
  proof (cases "junk = 0")
    case True
    have "fits (line ''  [FAIL] %s'') False False [Str ''Swap list created'']" by (simp add: fits_defs)
    from cons_printf_tq [OF this q4, of io] obtain s5 where
      s5: "cons_printf io (line ''  [FAIL] %s'') [Str ''Swap list created''] s4 = Inr ((), s5)" "tq s0 [] a b s5" by metis
    from test_end_failed [OF s5(2), of io] show ?thesis using True s5(1) by (simp add: test_assert_def)
  next
    case False
    then obtain s5 where s5: "test_assert io (junk \<noteq> 0) ''Swap list created'' True s4 = Inr (True, s5)" "shows_text s4 s5"
      using test_assert_shows [OF False, of io "''Swap list created''" True s4] by blast
    have "tq s0 [] a b s5" using shows_tq [OF s5(2)] q4 by simp
    from test_end_tq [OF this, of io] obtain s6 where s6: "test_end io True s5 = Inr ((), s6)" "tq s0 [] (a + 1) b s6"
      by blast
    show ?thesis unfolding s5(1) using False s6 by simp
  qed
  moreover have "test_swap_init io junk s =
      bindE (test_assert io (junk \<noteq> 0) ''Swap list created'' True s4) (\<lambda>(result, s). test_end io result s)"
    by (simp only: test_swap_init_def s1(1) s2(1) bindE_Inr case_prod_conv test_mm_at [OF q2(1)] s3(1) s4(1) simp_thms)
  ultimately show ?thesis by simp
qed

end
