(* ===== verification/Cpu.thy ===== *)
theory Cpu
  imports Sched
begin

text \<open>
  The single instructions of \<^verbatim>\<open>include/arch/x86/io.h\<close> and \<^verbatim>\<open>cpu.h\<close>, and how the functions
  that use them, which the other theories write directly on the state, come out of them. Of the
  flags register the state keeps the interrupt flag; \<open>rest\<close> holds the other bits.
\<close>

section \<open>Interrupt flag\<close>

definition sti :: "'a mach_scheme \<Rightarrow> 'a mach_scheme" where
  "sti s = s\<lparr>if_flag := True\<rparr>"

definition cli :: "'a mach_scheme \<Rightarrow> 'a mach_scheme" where
  "cli s = s\<lparr>if_flag := False\<rparr>"

definition read_eflags :: "u32 \<Rightarrow> 'a mach_scheme \<Rightarrow> u32" where
  "read_eflags rest s = (rest AND NOT FL_IF) OR (if if_flag s then FL_IF else 0)"

definition write_eflags :: "u32 \<Rightarrow> 'a mach_scheme \<Rightarrow> 'a mach_scheme" where
  "write_eflags eflags s = s\<lparr>if_flag := eflags AND FL_IF \<noteq> 0\<rparr>"

lemma read_eflags_if: "read_eflags rest s AND FL_IF \<noteq> 0 \<longleftrightarrow> if_flag s"
proof -
  have "(rest AND NOT FL_IF) AND FL_IF = 0" by (rule bit_word_eqI) (auto simp: bit_simps)
  then show ?thesis by (simp add: read_eflags_def bit.conj_disj_distrib2) (simp add: FL_IF_def)
qed

text \<open>\<^verbatim>\<open>__intr_save\<close> as it is written, with the flags read by \<^verbatim>\<open>pushfl\<close>.\<close>

lemma intr_save_eflags:
  "intr_save s = (if read_eflags rest s AND FL_IF \<noteq> 0 then (True, cli s) else (False, s))"
  by (simp add: read_eflags_if intr_save_def intr_disable_def cli_def)

lemma intr_enable_sti: "intr_enable = sti" and intr_disable_cli: "intr_disable = cli"
  by (simp_all add: fun_eq_iff intr_enable_def intr_disable_def sti_def cli_def)

lemma eflags_roundtrip: "write_eflags (read_eflags rest s) s' = s'\<lparr>if_flag := if_flag s\<rparr>"
  by (simp add: write_eflags_def read_eflags_if)

section \<open>Control registers and the TLB\<close>

definition rcr2 :: "'a mach_scheme \<Rightarrow> u32" where
  "rcr2 s = cr2 s"

definition rcr3 :: "'a mach_scheme \<Rightarrow> u32" where
  "rcr3 s = cr3 s"

definition invlpg :: "u32 \<Rightarrow> 'a mach_scheme \<Rightarrow> 'a mach_scheme" where
  "invlpg addr s = s\<lparr>flushed := addr # flushed s\<rparr>"

lemma tlb_invl_invlpg: "tlb_invl pgdir la s = (if rcr3 s = P_ADDR pgdir then invlpg la s else s)"
  by (simp add: tlb_invl_def rcr3_def invlpg_def)

section \<open>Ports\<close>

text \<open>The jumps of \<^verbatim>\<open>inb_p\<close> and \<^verbatim>\<open>outb_p\<close> only take time.\<close>

definition inb_p :: "'h port_io \<Rightarrow> u16 \<Rightarrow> 'h \<Rightarrow> u8 \<times> 'h" where
  "inb_p io port h = p_inb io port h"

definition outb_p :: "'h port_io \<Rightarrow> u16 \<Rightarrow> u8 \<Rightarrow> 'h \<Rightarrow> 'h" where
  "outb_p io port data h = p_outb io port data h"

definition inw :: "'h port_io \<Rightarrow> u16 \<Rightarrow> 'h \<Rightarrow> u16 \<times> 'h" where
  "inw io port h = p_inw io port h"

definition outw :: "'h port_io \<Rightarrow> u16 \<Rightarrow> u16 \<Rightarrow> 'h \<Rightarrow> 'h" where
  "outw io port data h = p_outw io port data h"

text \<open>A block transfer is a run of single ones.\<close>

lemma insw_inw:
  "insw io port addr (Suc n) h m =
     (let (w, h) = inw io port h in insw io port (addr + 2) n h (store16 addr w m))"
  by (simp add: inw_def)

lemma outsw_outw:
  "outsw io port addr (Suc n) m h = outsw io port (addr + 2) n m (outw io port (load16 m addr) h)"
  by (simp add: outw_def)

end
