(* ===== verification/Spec2Isabelle.thy ===== *)
theory Spec2Isabelle
  imports Mem_Init Swap_Fifo_Laws Sched_Laws Disk_Laws Swap_Laws Stdio_Laws Cons_Laws Swap_Test_Laws
    Vmm_Laws Shell_Laws Boot_Laws Bootload_Laws Fault_Laws Suite_Laws Segments Cpu
begin

text \<open>
  Verification of zonix, a small 32-bit x86 kernel written in C. Paths are relative to
  \<^verbatim>\<open>src/\<close>.

  \<^bold>\<open>The program.\<close> The boot loader (\<^verbatim>\<open>boot/bootload.c\<close>) reads the kernel from disk and jumps
  to it; \<^verbatim>\<open>kern_init\<close> (\<^verbatim>\<open>kern/init.c\<close>) initialises the console, the interrupt
  controller, the disks, the timer, the interrupt table, physical memory, the kernel's address
  space, swapping and the processes, prints the shell's banner and then calls the scheduler for
  ever. After that everything happens in \<^verbatim>\<open>trap\<close> (\<^verbatim>\<open>kern/trap/trap.c\<close>): a page fault goes
  to the virtual memory manager, which allocates a page or swaps one in; the timer counts; a key
  goes to the shell, which runs commands.

  \<^bold>\<open>The state.\<close> One record, extended by each part in turn: the free list and the page descriptors
  (\<open>pmm\<close>, theory \<open>Pages\<close>), memory and registers (\<open>mach\<close>, \<open>Pmm\<close>), the fields of
  \<^verbatim>\<open>init_mm\<close> (\<open>vmm\<close>, \<open>Swap_Fifo\<close>), the hardware behind the ports (\<open>devs\<close>, \<open>Ports\<close>), the
  drives (\<open>hd\<close>), the block devices (\<open>blk\<close>), swapping (\<open>swap\<close>), the cursor (\<open>cons\<close>), the test
  counters (\<open>tests\<close>), the shell's line (\<open>shell\<close>), the processes (\<open>sched\<close>), the interrupt table
  (\<open>kern\<close>). An operation of one part works on every extension of its record, so the parts compose
  by calling each other as in the code. An operation that can follow a null pointer, fail an
  assertion, panic or run for ever has a result of type \<open>res\<close> (\<open>Prelude\<close>); the others return the
  new state, with the code's \<^verbatim>\<open>int\<close> result where it has one.

  \<^bold>\<open>Theories that model code.\<close>
  \<^item> \<open>Links\<close>: \<^verbatim>\<open>kern/include/list.h\<close>. List entries live in other objects, so there is one
    store of entries, indexed by the object (\<open>lnode\<close>).
  \<^item> \<open>Pages\<close>, \<open>FirstFit\<close>: \<^verbatim>\<open>PageDesc\<close>, \<^verbatim>\<open>kern/mm/pmm_firstfit.c\<close>.
  \<^item> \<open>Mmu\<close>, \<open>Mem\<close>: the address macros of \<^verbatim>\<open>mmu.h\<close>, \<^verbatim>\<open>pg.h\<close>, \<^verbatim>\<open>math.h\<close>,
    \<^verbatim>\<open>pmm.c\<close>; byte memory, \<^verbatim>\<open>kern/include/memory.h\<close>.
  \<^item> \<open>Pmm\<close>: \<^verbatim>\<open>kern/mm/pmm.c\<close>, \<^verbatim>\<open>kern/arch/x86/e820.c\<close>, \<^verbatim>\<open>kern/drivers/intr.c\<close>.
  \<^item> \<open>Swap_Fifo\<close>: \<^verbatim>\<open>kern/mm/swap_fifo.c\<close> and the managers of \<^verbatim>\<open>kern/mm/archived\<close>.
  \<^item> \<open>Ports\<close>, \<open>Hd\<close>, \<open>Blk\<close>: \<^verbatim>\<open>io.h\<close>, \<^verbatim>\<open>pic.c\<close>, \<^verbatim>\<open>pit.c\<close>; \<^verbatim>\<open>hd.c\<close>; \<^verbatim>\<open>blk.c\<close>.
  \<^item> \<open>Swap\<close>, \<open>Vmm\<close>: \<^verbatim>\<open>kern/mm/swap.c\<close>, \<^verbatim>\<open>kern/mm/vmm.c\<close>.
  \<^item> \<open>Stdio\<close>, \<open>Cons\<close>: \<^verbatim>\<open>kern/cons/stdio.c\<close>; \<^verbatim>\<open>cga.c\<close>, \<^verbatim>\<open>kdb.c\<close>, \<^verbatim>\<open>cons.c\<close>.
  \<^item> \<open>Swap_Test\<close>: the tests of \<^verbatim>\<open>kern/mm/swap_test.c\<close> that run, \<open>Swap_Suite\<close>: the others.
    \<open>Managers\<close>: the tables of function pointers of \<^verbatim>\<open>pmm.h\<close> and \<^verbatim>\<open>swap.h\<close>; the operations
    above call the functions in the tables' entries directly.
  \<^item> \<open>Sched\<close>: \<^verbatim>\<open>kern/sched/sched.c\<close>, \<^verbatim>\<open>switch.S\<close>.
  \<^item> \<open>Shell\<close>, \<open>Commands\<close>, \<open>Listings\<close>: \<^verbatim>\<open>kern/cons/shell.c\<close>, and the listings of
    \<^verbatim>\<open>blk.c\<close>, \<^verbatim>\<open>vmm.c\<close>, \<^verbatim>\<open>sched.c\<close> and the disk test of \<^verbatim>\<open>hd.c\<close> its commands call.
  \<^item> \<open>Kernel\<close>: \<^verbatim>\<open>idt.c\<close>, \<^verbatim>\<open>trap.c\<close>, \<^verbatim>\<open>init.c\<close>, \<^verbatim>\<open>panic.c\<close>. \<open>Bootload\<close>:
    \<^verbatim>\<open>boot/bootload.c\<close>.
  \<^item> \<open>Cpu\<close>: the single instructions of \<^verbatim>\<open>io.h\<close> and \<^verbatim>\<open>cpu.h\<close>, and that the functions built on
    them come out as modelled. \<open>Segments\<close>: the descriptor macros of \<^verbatim>\<open>segments.h\<close> and
    \<^verbatim>\<open>seg.h\<close>, what the processor reads out of the descriptors, and that every interrupt
    reaches its handler.

  \<^bold>\<open>Interfaces and laws.\<close>
  \<^item> \<open>PmmInterface\<close>: what a client of the page allocator relies on; \<open>FreeList\<close> has the invariant
    of the free list and the abstract first-fit function, \<open>FirstFitLaws\<close> shows that the code
    implements it and interprets the interface.
  \<^item> \<open>PageTables\<close>: the address space as a function of directory and table slots and the invariant
    \<open>pgdir_ok\<close>; \<open>Mapping_Laws\<close>: mapping a page is an update of that function;
    \<open>Mem_Init\<close>: which frames are free after boot; \<open>Vmm_Laws\<close>: the kernel's direct map.
  \<^item> \<open>Swap_Interface\<close>: a replacement manager as a queue; \<open>Swap_Fifo_Laws\<close> interprets it for the
    three managers.
  \<^item> \<open>Sched_Inv\<close>: the invariant of the process tables; \<open>Sched_Fork\<close>, \<open>Sched_Exit\<close>, \<open>Sched_Boot\<close>:
    what each operation does to it; \<open>Sched_Laws\<close>: reachability and the properties.
  \<^item> \<open>Ata\<close>: the ATA protocol as a predicate, the hypothesis about the hardware; \<open>Hd_Laws\<close>: the driver
    under it; \<open>Ata_Sim\<close>: a simulated drive that follows the protocol, with which the witnesses run;
    \<open>Disk_Laws\<close>: transfers, timeouts, bounds, registration.
  \<^item> \<open>Store_Interface\<close>: a store of pages by slot; \<open>Swap_Store\<close> interprets it for the swap file.
    \<open>Swap_State\<close>: the invariant under which the kernel swaps and, for each step the swapping code
    takes, that it is kept. \<open>Swap_Search\<close>, \<open>Swap_Out\<close>, \<open>Swap_In\<close>, \<open>Swap_Fault\<close>, \<open>Swap_Demo\<close> and
    \<open>Swap_Laws\<close>: pages go out and come back with their contents.
  \<^item> \<open>Stdio_Laws\<close>: numbers are printed as their numerals. \<open>Cons_Laws\<close>: a \<^verbatim>\<open>cprintf\<close> whose
    arguments fit its format returns and changes only screen, cursor and devices; what a
    character does to the cursor and to every cell of the screen. \<open>Text_Laws\<close>: the text a
    \<^verbatim>\<open>cprintf\<close> puts out, and observers of the output; \<open>Proc_Text\<close>, \<open>Fault_Text\<close>: the text of
    \<^verbatim>\<open>ps\<close> and of a page fault. \<open>Swap_Test_Laws\<close>: what the shell's test run does to the live queue.
    \<open>Shell_Laws\<close>: the line editor refines an abstract one. \<open>Commands_Laws\<close>: every command but the
    swap test only prints. \<open>Trap_Laws\<close>: a key always comes back from the shell.
  \<^item> \<open>Kernel_Laws\<close>: interrupts and scheduling in any order as one transition system; its invariant
    \<open>kern_ok\<close>, and that no handler gets stuck. \<open>Screen_Laws\<close>: printing touches no memory but the
    screen's. \<open>Channel_Laws\<close>: what a disk transfer leaves alone of the other hardware.
    \<open>Disktest_Laws\<close>: printing beside disk transfers, and the shell's disk test on all drives, with
    its report and what it leaves on the disks.
  \<^item> \<open>Space_Laws\<close>: page tables only ever come from the free frames, and scheduling leaves the address
    space alone. \<open>Fault_Laws\<close>: the page-fault trap as a whole, messages included. \<open>Live_Laws\<close>:
    faults on unmapped addresses join the transition system, and \<open>live_ok\<close>, the invariant of
    processes, command line and address space, is kept by every step.
  \<^item> \<open>Boot_Stages\<close>, \<open>Boot_Laws\<close>: \<^verbatim>\<open>kern_init\<close> from a memory as the boot stages leave it
    establishes \<open>live_ok\<close> and everything else that is set up at boot. \<open>Suite_Laws\<close>: two of the
    tests nothing calls.
  \<^item> \<open>Bootload_Laws\<close>: the boot loader copies the segments of the kernel from the disk.

  \<^bold>\<open>Modelling decisions.\<close>
  \<^item> Machine integers keep their width and wrap around; \<^verbatim>\<open>int\<close> counters that cannot leave their
    range are \<open>nat\<close> or \<open>int\<close>.
  \<^item> Page descriptors, processes, trap frames, gate descriptors and the drivers' tables are typed
    stores of their own, apart from the byte memory that holds page tables, pages, the screen and
    the disk buffers. A pointer into a store is an index. Reading a list entry that was never set
    gives the null entry.
  \<^item> The hardware behind the ports is a value of a type variable, with functions that say what a
    read returns and how an access changes it; nothing is assumed about them except, where named,
    the ATA protocol, a drive that stays busy, that the console's ports and the two channels do
    not act on each other (\<open>console_apart\<close>, \<open>channel_apart\<close>), and, to tell what was printed, that
    the debug port keeps a log of the characters sent to it (\<open>logs\<close>).
  \<^item> \<^verbatim>\<open>cprintf\<close> is modelled in full, and with it the shell, the listings, the tests, the trap
    handler and \<^verbatim>\<open>panic\<close>. The diagnostic messages that memory, swapping and scheduling
    operations print on the way are left out of those operations: by \<open>Cons_Laws.cons_printf_printed\<close>
    such a call returns and changes only the screen, the cursor and the devices.
  \<^item> A context switch returns the state in which the processor goes on in the next process; the
    interrupts are traps between operations.
  \<^item> Loops over a bounded index are recursion on the rounds left: 100000 polls of the status
    register, 1024 entries of a table, 0x38000 frames of the direct map, as in the code. Loops
    over linked lists, the clock reading, the adoption loop of \<^verbatim>\<open>do_exit\<close>, number printing and
    the boot loader's loops are \<open>partial_function\<close>s: no result means that the loop does not end.
    No fuel is used.

  \<^bold>\<open>Not modelled.\<close> The assembly of the real-mode boot stage, the first page tables and the interrupt
  entries (\<^verbatim>\<open>bootasm.S\<close>, \<^verbatim>\<open>head.S\<close>, \<^verbatim>\<open>trapentry.S\<close>, \<^verbatim>\<open>vectors.S\<close>), whose results
  are the initial state; the endless loops at the end of \<^verbatim>\<open>kern_init\<close>, \<^verbatim>\<open>init_main\<close> and \<^verbatim>\<open>panic\<close>, whose state on
  entry is the result; structures and macros no code uses (task segments, vendored ELF fields).
\<close>

end
